(* ===== verification/AstPrelude.thy ===== *)
theory AstPrelude
  imports Main "HOL-Library.Word"
begin

text \<open>
  Shared vocabulary of the development: the machine types of the C++ sources, the
  conventions for pointers, lengths and error codes, and the generic lemmas on lists,
  words and byte order that the component theories use.

  Conventions.
  \<^item> \<open>unsigned char\<close> is \<^typ>\<open>8 word\<close>, \<open>unsigned int\<close> (\<open>ULONG\<close>, \<open>SM3_LONG\<close>) is
    \<^typ>\<open>32 word\<close>; a pointer to \<open>n\<close> readable elements together with its length argument is a
    list of length \<open>n\<close>.
  \<^item> A C \<open>int\<close> that is a return code, a capacity or a flag is an \<^typ>\<open>int\<close>; where an
    expression mixes it with \<open>size_t\<close> the conversion is written out.
  \<^item> An operation that would read or write outside its buffers (undefined behaviour in C++)
    returns \<^term>\<open>None\<close> where the type is an option and the text says so.
\<close>

unbundle bit_operations_syntax

type_synonym byte = "8 word"
type_synonym u32 = "32 word"

named_theorems byte_order \<open>big-endian reading and writing of 32-bit words\<close>
named_theorems chunk_simps \<open>splitting of a list into fixed-size blocks\<close>

section \<open>Conversions of C integers\<close>

text \<open>An \<open>int\<close> in an expression of type \<open>size_t\<close> (64 bit) is read modulo \<open>2 ^ 64\<close>.\<close>

definition size_t_of_int :: "int \<Rightarrow> int" where
  "size_t_of_int x = x mod 2 ^ 64"

text \<open>A 32-bit value converted to \<open>int\<close>: two's complement.\<close>

definition int_of_u32 :: "u32 \<Rightarrow> int" where
  "int_of_u32 x = sint x"

lemma size_t_of_int_nonneg [simp]: "0 \<le> x \<Longrightarrow> x < 2 ^ 63 \<Longrightarrow> size_t_of_int x = x"
  by (simp add: size_t_of_int_def)

lemma int_of_u32_of_nat [simp]: "n < 2 ^ 31 \<Longrightarrow> int_of_u32 (of_nat n) = int n"
  by (simp add: int_of_u32_def sint_uint unsigned_of_nat take_bit_nat_eq_self
      signed_take_bit_int_eq_self_iff)

section \<open>Lists of bytes in blocks\<close>

fun chunks :: "nat \<Rightarrow> nat \<Rightarrow> 'a list \<Rightarrow> 'a list list" where
  "chunks w 0 xs = []"
| "chunks w (Suc n) xs = take w xs # chunks w n (drop w xs)"

lemma length_chunks [simp]: "length (chunks w n xs) = n"
  by (induction n arbitrary: xs) auto

lemma chunks_lengths: "length xs = w * n \<Longrightarrow> b \<in> set (chunks w n xs) \<Longrightarrow> length b = w"
proof (induction n arbitrary: xs)
  case (Suc n)
  then show ?case using Suc.IH [of "drop w xs"] by auto
qed simp

lemma concat_chunks [chunk_simps]: "length xs = w * n \<Longrightarrow> concat (chunks w n xs) = xs"
  by (induction n arbitrary: xs) auto

lemma chunks_concat [chunk_simps]:
  "\<forall>b \<in> set bs. length b = w \<Longrightarrow> chunks w (length bs) (concat bs @ rest) = bs"
  by (induction bs) auto

lemma chunks_append [chunk_simps]:
  "length xs = w * m \<Longrightarrow> chunks w (m + n) (xs @ ys) = chunks w m xs @ chunks w n ys"
  by (induction m arbitrary: xs) auto

lemma chunks_snoc [chunk_simps]:
  "length xs = w * n \<Longrightarrow> length b = w \<Longrightarrow> chunks w (Suc n) (xs @ b) = chunks w n xs @ [b]"
  using chunks_append [of xs w n 1 b] by simp

lemma take_4_split: "4 \<le> length xs \<Longrightarrow> take 4 xs = [xs ! 0, xs ! 1, xs ! 2, xs ! 3]"
  by (rule nth_equalityI) (auto simp: less_Suc_eq numeral_eq_Suc)

lemma length_4_conv: "length xs = 4 \<Longrightarrow> xs = [xs ! 0, xs ! 1, xs ! 2, xs ! 3]"
  using take_4_split [of xs] by simp

lemma length_16_conv: "length xs = 16 \<Longrightarrow> xs = concat (chunks 4 4 xs)"
  by (simp add: chunk_simps)

section \<open>Big-endian words: \<open>sm4.cpp\<close>, \<open>_GetBE32\<close> and \<open>_PutBE32\<close>\<close>

definition GetBE32 :: "byte list \<Rightarrow> u32" where
  "GetBE32 d = push_bit 24 (ucast (d ! 0)) OR push_bit 16 (ucast (d ! 1))
     OR push_bit 8 (ucast (d ! 2)) OR ucast (d ! 3)"

definition PutBE32 :: "u32 \<Rightarrow> byte list" where
  "PutBE32 a = [ucast (drop_bit 24 a AND 0xff), ucast (drop_bit 16 a AND 0xff),
     ucast (drop_bit 8 a AND 0xff), ucast (a AND 0xff)]"

definition zs_GetBE32 :: "byte list \<Rightarrow> u32" where
  "zs_GetBE32 d = GetBE32 d"

definition zs_PutBE32 :: "u32 \<Rightarrow> byte list" where
  "zs_PutBE32 a = PutBE32 a"

lemma length_PutBE32 [simp]: "length (PutBE32 a) = 4"
  by (simp add: PutBE32_def)

lemma ucast_byte_mask [simp, byte_order]: "(ucast ((a :: u32) AND 0xff) :: byte) = ucast a"
proof -
  have "(0xff :: u32) = mask 8" by (simp add: mask_eq_exp_minus_1)
  then have "a AND 0xff = take_bit 8 a" by (simp only: take_bit_eq_mask)
  then show ?thesis by (simp only:) (rule bit_word_eqI, simp add: bit_simps)
qed

lemma PutBE32_ucast:
  "PutBE32 a = [ucast (drop_bit 24 a), ucast (drop_bit 16 a), ucast (drop_bit 8 a), ucast a]"
  by (simp add: PutBE32_def)

text \<open>A 32-bit word is determined by the bits of its four bytes.\<close>

lemma u32_bytes_eqI:
  fixes a b :: u32
  assumes "\<And>r. r < 8 \<Longrightarrow> bit a r = bit b r" and "\<And>r. r < 8 \<Longrightarrow> bit a (8 + r) = bit b (8 + r)"
    and "\<And>r. r < 8 \<Longrightarrow> bit a (16 + r) = bit b (16 + r)"
    and "\<And>r. r < 8 \<Longrightarrow> bit a (24 + r) = bit b (24 + r)"
  shows "a = b"
proof (rule bit_word_eqI)
  fix n assume "n < LENGTH(32)"
  then consider "n < 8" | "8 \<le> n" "n < 16" | "16 \<le> n" "n < 24" | "24 \<le> n" "n < 32"
    by (simp, linarith)
  then show "bit a n = bit b n"
    using assms(1) [of n] assms(2) [of "n - 8"] assms(3) [of "n - 16"] assms(4) [of "n - 24"]
    by cases auto
qed

lemma bit_byte_range: "8 \<le> k \<Longrightarrow> \<not> bit (b :: byte) k"
  by (simp add: bit_word.rep_eq bit_take_bit_iff)

lemma bit_GetBE32:
  assumes "r < 8"
  shows "bit (GetBE32 d) r = bit (d ! 3) r" and "bit (GetBE32 d) (8 + r) = bit (d ! 2) r"
    and "bit (GetBE32 d) (16 + r) = bit (d ! 1) r" and "bit (GetBE32 d) (24 + r) = bit (d ! 0) r"
  using assms by (simp_all add: GetBE32_def bit_simps bit_byte_range)

lemma bit_PutBE32:
  assumes "r < 8"
  shows "bit (PutBE32 a ! 0) r = bit a (24 + r)" and "bit (PutBE32 a ! 1) r = bit a (16 + r)"
    and "bit (PutBE32 a ! 2) r = bit a (8 + r)" and "bit (PutBE32 a ! 3) r = bit a r"
  using assms by (simp_all add: PutBE32_ucast bit_simps)

lemma Get_PutBE32 [simp, byte_order]: "GetBE32 (PutBE32 a) = a"
  by (rule u32_bytes_eqI) (simp_all only: bit_GetBE32 bit_PutBE32)

lemma Put_GetBE32_nth: "PutBE32 (GetBE32 d) = [d ! 0, d ! 1, d ! 2, d ! 3]"
  by (auto simp: PutBE32_ucast bit_simps bit_GetBE32 intro!: bit_word_eqI)

lemma Put_GetBE32 [byte_order]: "length d = 4 \<Longrightarrow> PutBE32 (GetBE32 d) = d"
  using length_4_conv [of d] by (simp add: Put_GetBE32_nth)

lemma GetBE32_inject:
  "length d = 4 \<Longrightarrow> length e = 4 \<Longrightarrow> GetBE32 d = GetBE32 e \<longleftrightarrow> d = e"
  by (metis Put_GetBE32)

lemma GetBE32_append [simp, byte_order]: "length d = 4 \<Longrightarrow> GetBE32 (d @ e) = GetBE32 d"
  by (simp add: GetBE32_def nth_append)

lemma GetBE32_take [simp, byte_order]: "GetBE32 (take 4 d) = GetBE32 d"
  by (simp add: GetBE32_def)

end
