(* ===== verification/SM3.thy ===== *)
theory SM3
  imports AstPrelude
begin

text \<open>
  The SM3 hash of \<open>src/public/sm/sm3.cpp\<close>: \<open>SM3_Init\<close>, \<open>SM3_Transform\<close>, \<open>SM3_Update\<close>,
  \<open>SM3_Final\<close> and \<open>SM3\<close> on an \<open>SM3_CTX\<close>.

  The byte buffer of the context is the word array \<open>W\<close> read through an \<open>unsigned char *\<close> on a
  little-endian machine; the index \<open>\<dots> ^ 0x03\<close> of the source makes it big-endian.
  A NULL context is \<^term>\<open>None\<close>.  \<open>ROL(T[j], 0)\<close> shifts right by 32, which C++ leaves undefined;
  both the mathematical shift (0) and the one of x86 (\<open>a\<close>) give \<open>a | \<dots> = a\<close>.

  The specification is the hash standard: pad the message, cut it into 64-byte blocks, fold
  the compression function over them.  The context after any sequence of updates represents the
  concatenated message (\<open>sm3_rep\<close>), and \<open>SM3_Final\<close> terminates with the standard digest.
\<close>

unbundle bit_operations_syntax

section \<open>Constants and macros\<close>

definition PAD :: byte where "PAD = 0x80"

definition ZERO :: byte where "ZERO = 0x00"

definition IV :: "u32 list" where
  "IV = [0x7380166f, 0x4914b2b9, 0x172442d7, 0xda8a0600, 0xa96f30bc, 0x163138aa, 0xe38dee4d, 0xb0fb0e4e]"

definition T :: "u32 list" where
  "T = replicate 16 0x79cc4519 @ replicate 48 0x7a879d8a"

definition ROL :: "u32 \<Rightarrow> nat \<Rightarrow> u32" where
  "ROL a k = push_bit k a OR drop_bit (32 - k) a"

definition P0 :: "u32 \<Rightarrow> u32" where
  "P0 X = X XOR ROL X 9 XOR ROL X 17"

definition P1 :: "u32 \<Rightarrow> u32" where
  "P1 X = X XOR ROL X 15 XOR ROL X 23"

definition FF :: "nat \<Rightarrow> u32 \<Rightarrow> u32 \<Rightarrow> u32 \<Rightarrow> u32" where
  "FF j X Y Z = (if j < 16 then X XOR Y XOR Z else (X AND Y) OR (X AND Z) OR (Y AND Z))"

definition GG :: "nat \<Rightarrow> u32 \<Rightarrow> u32 \<Rightarrow> u32 \<Rightarrow> u32" where
  "GG j X Y Z = (if j < 16 then X XOR Y XOR Z else (X AND Y) OR (NOT X AND Z))"

section \<open>The context and its operations\<close>

record SM3_CTX =
  Regs :: "u32 list"
  BitLen0 :: u32
  BitLen1 :: u32
  W :: "u32 list"
  WDot :: "u32 list"

definition SM3_Init :: "SM3_CTX option \<Rightarrow> int \<times> SM3_CTX option" where
  "SM3_Init s =
     (case s of
        None \<Rightarrow> (0, None)
      | Some c \<Rightarrow> (1, Some (c\<lparr>Regs := IV, BitLen0 := 0, BitLen1 := 0,
                              W := replicate 68 0, WDot := replicate 64 0\<rparr>)))"

text \<open>The message expansion writes \<open>W[16]\<close> to \<open>W[67]\<close> in place.\<close>

definition expand_body :: "nat \<Rightarrow> u32 list \<Rightarrow> u32 list" where
  "expand_body j w =
     w[j := P1 (w ! (j - 16) XOR w ! (j - 9) XOR ROL (w ! (j - 3)) 15) XOR ROL (w ! (j - 13)) 7
            XOR w ! (j - 6)]"

text \<open>
  One round.  The assignments of the source read every register before they overwrite it, so the new
  array is given at once.
\<close>

definition round_body :: "u32 list \<Rightarrow> u32 list \<Rightarrow> nat \<Rightarrow> u32 list \<Rightarrow> u32 list" where
  "round_body w wdot j r =
     (let SS1 = ROL (ROL (r ! 0) 12 + r ! 4 + ROL (T ! j) (j mod 32)) 7;
          SS2 = SS1 XOR ROL (r ! 0) 12;
          TT1 = FF j (r ! 0) (r ! 1) (r ! 2) + r ! 3 + SS2 + wdot ! j;
          TT2 = GG j (r ! 4) (r ! 5) (r ! 6) + r ! 7 + SS1 + w ! j
      in [TT1, r ! 0, ROL (r ! 1) 9, r ! 2, P0 TT2, r ! 4, ROL (r ! 5) 19, r ! 6])"

definition SM3_Transform :: "SM3_CTX \<Rightarrow> SM3_CTX" where
  "SM3_Transform s =
     (let w = fold expand_body [16..<68] (W s);
          wdot = map (\<lambda>j. w ! j XOR w ! (j + 4)) [0..<64];
          r = fold (round_body w wdot) [0..<64] (Regs s)
      in s\<lparr>W := w, WDot := wdot, Regs := map2 (XOR) (Regs s) r\<rparr>)"

text \<open>Byte \<open>j\<close> of a word in memory, little-endian, and storing it.\<close>

definition get_byte :: "u32 \<Rightarrow> nat \<Rightarrow> byte" where
  "get_byte x j = ucast (drop_bit (8 * j) x)"

definition set_byte :: "u32 \<Rightarrow> nat \<Rightarrow> byte \<Rightarrow> u32" where
  "set_byte x j b = (x AND NOT (push_bit (8 * j) 0xff)) OR push_bit (8 * j) (ucast b)"

definition store_byte :: "u32 list \<Rightarrow> nat \<Rightarrow> byte \<Rightarrow> u32 list" where
  "store_byte w i b = w[i div 4 := set_byte (w ! (i div 4)) (i mod 4) b]"

text \<open>One turn of the loop of \<open>SM3_Update\<close>.\<close>

definition SM3_byte :: "byte \<Rightarrow> SM3_CTX \<Rightarrow> SM3_CTX" where
  "SM3_byte b s =
     (let i = unat ((drop_bit 3 (BitLen0 s) AND 0x3F) XOR 0x03);
          s1 = s\<lparr>W := store_byte (W s) i b, BitLen0 := BitLen0 s + 8\<rparr>;
          s2 = (if BitLen0 s1 = 0 then s1\<lparr>BitLen1 := BitLen1 s1 + 1, BitLen0 := 0\<rparr> else s1)
      in if BitLen0 s2 AND 0x01FF = 0x00 then SM3_Transform s2 else s2)"

definition SM3_Update ::
    "SM3_CTX option \<Rightarrow> byte list option \<Rightarrow> nat \<Rightarrow> int \<times> SM3_CTX option" where
  "SM3_Update s data len =
     (case s of
        None \<Rightarrow> (0, None)
      | Some c \<Rightarrow>
          (case data of
             None \<Rightarrow> if len \<noteq> 0 then (0, Some c) else (1, Some c)
           | Some d \<Rightarrow> (1, Some (fold SM3_byte (take len d) c))))"

text \<open>
  The padding loop of \<open>SM3_Final\<close>; it does not end on a context whose bit count is no multiple of
  8, so its result is an option.
\<close>

partial_function (option) pad_loop :: "SM3_CTX \<Rightarrow> SM3_CTX option" where
  "pad_loop s = (if BitLen0 s AND 0x01FF \<noteq> 448 then pad_loop (SM3_byte ZERO s) else Some s)"

text \<open>\<open>hash[i] = p[i ^ 0x03]\<close>, where \<open>p\<close> reads the registers as bytes.\<close>

definition digest_bytes :: "u32 list \<Rightarrow> byte list" where
  "digest_bytes r = map (\<lambda>i. get_byte (r ! ((i XOR 3) div 4)) ((i XOR 3) mod 4)) [0..<32]"

definition SM3_Final ::
    "SM3_CTX option \<Rightarrow> (int \<times> SM3_CTX option \<times> byte list) option" where
  "SM3_Final s =
     (case s of
        None \<Rightarrow> Some (0, None, [])
      | Some c \<Rightarrow>
          (case pad_loop (SM3_byte PAD c) of
             None \<Rightarrow> None
           | Some c1 \<Rightarrow>
               (let c2 = SM3_Transform (c1\<lparr>W := (W c1)[14 := BitLen1 c, 15 := BitLen0 c]\<rparr>)
                in Some (1, Some c2, digest_bytes (Regs c2)))))"

text \<open>\<open>SM3\<close>: the context is a local variable with the arbitrary content \<open>ctx\<close>.\<close>

definition SM3 :: "SM3_CTX \<Rightarrow> byte list \<Rightarrow> nat \<Rightarrow> byte list option" where
  "SM3 ctx d n =
     (let s1 = snd (SM3_Init (Some ctx));
          s2 = snd (SM3_Update s1 (Some d) n)
      in map_option (\<lambda>(_, _, md). md) (SM3_Final s2))"

section \<open>The hash standard\<close>

definition rotl32 :: "nat \<Rightarrow> u32 \<Rightarrow> u32" where
  "rotl32 k a = word_rotl k a"

fun sm3_w :: "u32 list \<Rightarrow> nat \<Rightarrow> u32" where
  "sm3_w B j =
     (if j < 16 then B ! j
      else (let x = sm3_w B (j - 16) XOR sm3_w B (j - 9) XOR rotl32 15 (sm3_w B (j - 3))
            in x XOR rotl32 15 x XOR rotl32 23 x)
           XOR rotl32 7 (sm3_w B (j - 13)) XOR sm3_w B (j - 6))"

declare sm3_w.simps [simp del]

definition sm3_round :: "u32 list \<Rightarrow> nat \<Rightarrow> u32 list \<Rightarrow> u32 list" where
  "sm3_round B j r =
     (let t = (if j < 16 then 0x79cc4519 else 0x7a879d8a);
          ss1 = rotl32 7 (rotl32 12 (r ! 0) + r ! 4 + rotl32 j t);
          ss2 = ss1 XOR rotl32 12 (r ! 0);
          ff = (if j < 16 then r ! 0 XOR r ! 1 XOR r ! 2
                else (r ! 0 AND r ! 1) OR (r ! 0 AND r ! 2) OR (r ! 1 AND r ! 2));
          gg = (if j < 16 then r ! 4 XOR r ! 5 XOR r ! 6
                else (r ! 4 AND r ! 5) OR (NOT (r ! 4) AND r ! 6));
          tt1 = ff + r ! 3 + ss2 + (sm3_w B j XOR sm3_w B (j + 4));
          tt2 = gg + r ! 7 + ss1 + sm3_w B j
      in [tt1, r ! 0, rotl32 9 (r ! 1), r ! 2, tt2 XOR rotl32 9 tt2 XOR rotl32 17 tt2, r ! 4,
          rotl32 19 (r ! 5), r ! 6])"

definition sm3_CF :: "u32 list \<Rightarrow> u32 list \<Rightarrow> u32 list" where
  "sm3_CF V B = map2 (XOR) V (fold (sm3_round B) [0..<64] V)"

definition block_words :: "byte list \<Rightarrow> u32 list" where
  "block_words b = map (\<lambda>q. GetBE32 (drop (4 * q) b)) [0..<16]"

text \<open>The registers after all whole 64-byte blocks of a message.\<close>

definition sm3_regs :: "byte list \<Rightarrow> u32 list" where
  "sm3_regs m = fold (\<lambda>b V. sm3_CF V (block_words b)) (chunks 64 (length m div 64) m) IV"

definition sm3_zeros :: "nat \<Rightarrow> nat" where
  "sm3_zeros n = (119 - n mod 64) mod 64"

definition sm3_pad :: "byte list \<Rightarrow> byte list" where
  "sm3_pad m = m @ 0x80 # replicate (sm3_zeros (length m)) 0
     @ PutBE32 (of_nat (8 * length m div 2 ^ 32)) @ PutBE32 (of_nat (8 * length m))"

definition sm3_standard :: "byte list \<Rightarrow> byte list" where
  "sm3_standard m = concat (map PutBE32 (sm3_regs (sm3_pad m)))"

section \<open>Transform is the compression function\<close>

lemma ROL_rotl:
  assumes "k < 32" shows "ROL a k = rotl32 k a"
proof (rule bit_word_eqI)
  fix n assume "n < LENGTH(32)"
  then have n: "n < 32" by simp
  have no: "\<not> bit a i" if "32 \<le> i" for i
    using that by (simp add: bit_word.rep_eq bit_take_bit_iff)
  show "bit (ROL a k) n = bit (rotl32 k a) n"
  proof (cases "k \<le> n")
    case True
    then have "(n + (32 - k mod 32)) mod 32 = n - k" using n assms by (simp add: mod_if)
    moreover have "\<not> bit a (32 - k + n)" using True n by (intro no) simp
    ultimately show ?thesis using True n assms
      by (simp add: ROL_def rotl32_def bit_simps bit_word_rotl_iff)
  next
    case False
    then have "n + (32 - k mod 32) = 32 - k + n" "32 - k + n < 32" using n assms by simp_all
    then have "(n + (32 - k mod 32)) mod 32 = 32 - k + n" by simp
    then show ?thesis using False n assms
      by (simp add: ROL_def rotl32_def bit_simps bit_word_rotl_iff)
  qed
qed

lemma ROL_mod: "ROL a (k mod 32) = rotl32 k a"
  by (simp add: ROL_rotl) (simp add: rotl32_def word_rotl_eq_word_rotr)

lemma length_expand [simp]: "length (fold expand_body ns w) = length w"
  by (induction ns arbitrary: w) (simp_all add: expand_body_def)

lemma expand_fold:
  assumes "length w = 68" "16 \<le> n" "n \<le> 68" "j < n"
  shows "fold expand_body [16..<n] w ! j = sm3_w (take 16 w) j"
  using assms(2-4)
proof (induction n arbitrary: j rule: dec_induct)
  case base
  then show ?case by (simp add: sm3_w.simps)
next
  case (step n)
  define v where "v = fold expand_body [16..<n] w"
  have v: "length v = 68" "fold expand_body [16..<Suc n] w = expand_body n v"
    using step assms(1) by (simp_all add: v_def)
  have IH: "v ! i = sm3_w (take 16 w) i" if "i < n" for i using step that by (simp add: v_def)
  have "expand_body n v ! n = sm3_w (take 16 w) n"
    using step.hyps v(1) sm3_w.simps [of "take 16 w" n] step.prems
    by (simp add: expand_body_def IH ROL_rotl P1_def Let_def)
  then show ?case
    using step.prems IH unfolding v(2) by (cases "j = n") (simp_all add: expand_body_def)
qed

lemma expand_low: "i < 16 \<Longrightarrow> fold expand_body [16..<n] w ! i = w ! i"
  by (induction n) (auto simp: expand_body_def)

lemma T_nth: "j < 64 \<Longrightarrow> T ! j = (if j < 16 then 0x79cc4519 else 0x7a879d8a)"
  by (simp add: T_def nth_append)

lemma round_body_standard:
  assumes "j < 64" "w ! j = sm3_w B j" "wdot ! j = sm3_w B j XOR sm3_w B (j + 4)"
  shows "round_body w wdot j r = sm3_round B j r"
  using assms by (simp add: round_body_def sm3_round_def Let_def ROL_mod ROL_rotl FF_def GG_def P0_def T_nth)

lemma SM3_Transform_CF:
  assumes "length (W s) = 68"
  shows "Regs (SM3_Transform s) = sm3_CF (Regs s) (take 16 (W s))"
    and "length (W (SM3_Transform s)) = 68"
    and "BitLen0 (SM3_Transform s) = BitLen0 s" and "BitLen1 (SM3_Transform s) = BitLen1 s"
proof -
  let ?w = "fold expand_body [16..<68] (W s)"
  let ?wd = "map (\<lambda>j. ?w ! j XOR ?w ! (j + 4)) [0..<64]"
  have "round_body ?w ?wd j = sm3_round (take 16 (W s)) j" if "j \<in> set [0..<64]" for j
    using that assms expand_fold [OF assms, of 68]
    by (intro ext round_body_standard) simp_all
  then have "fold (round_body ?w ?wd) [0..<64] (Regs s) = fold (sm3_round (take 16 (W s))) [0..<64] (Regs s)"
    by (intro fold_cong) simp_all
  then show "Regs (SM3_Transform s) = sm3_CF (Regs s) (take 16 (W s))"
    by (simp add: SM3_Transform_def Let_def sm3_CF_def)
qed (use assms in \<open>simp_all add: SM3_Transform_def Let_def del: upt_rec_numeral\<close>)

section \<open>The byte buffer\<close>

lemma bit_get_byte: "bit (get_byte x j) r \<longleftrightarrow> r < 8 \<and> bit x (8 * j + r)"
  by (simp add: get_byte_def bit_simps)

lemma byte_ones: "(0xff :: u32) = mask 8"
  by (simp add: mask_eq_exp_minus_1)

lemma bit_set_byte:
  assumes "j < 4" "n < 32"
  shows "bit (set_byte x j b) n
    = (if 8 * j \<le> n \<and> n < 8 * j + 8 then bit b (n - 8 * j) else bit x n)"
  using assms by (auto simp: set_byte_def byte_ones bit_simps bit_byte_range)

lemma get_set_byte:
  assumes "j < 4" "i < 4"
  shows "get_byte (set_byte x j b) i = (if i = j then b else get_byte x i)"
  by (rule bit_word_eqI) (use assms in \<open>auto simp: bit_get_byte bit_set_byte\<close>)

lemma get_bytes_word: "x = GetBE32 [get_byte x 3, get_byte x 2, get_byte x 1, get_byte x 0]"
  by (rule u32_bytes_eqI) (simp_all add: bit_GetBE32 bit_get_byte)

lemma upt_32: "[0..<32::nat] = [0, 1, 2, 3, 4, 5, 6, 7, 8, 9, 10, 11, 12, 13, 14, 15, 16, 17, 18,
    19, 20, 21, 22, 23, 24, 25, 26, 27, 28, 29, 30, 31]"
  by code_simp

lemma upt_8: "[0..<8::nat] = [0, 1, 2, 3, 4, 5, 6, 7]"
  by code_simp

lemma digest_bytes_BE:
  assumes "length r = 8" shows "digest_bytes r = concat (map PutBE32 r)"
proof -
  have r: "r = [r ! 0, r ! 1, r ! 2, r ! 3, r ! 4, r ! 5, r ! 6, r ! 7]"
    using map_nth [of r] unfolding assms upt_8 by simp
  have "concat (map PutBE32 r) = concat (map PutBE32
      [r ! 0, r ! 1, r ! 2, r ! 3, r ! 4, r ! 5, r ! 6, r ! 7])"
    using r by (rule arg_cong)
  then show ?thesis
    by (simp add: digest_bytes_def PutBE32_ucast get_byte_def upt_32)
qed

lemma word_index:
  assumes "i < 64"
  shows "unat ((of_nat i :: u32) XOR 0x03) = 4 * (i div 4) + (3 - i mod 4)"
proof -
  have "\<forall>i \<in> set [0..<64]. unat ((of_nat i :: u32) XOR 0x03) = 4 * (i div 4) + (3 - i mod 4)"
    by (simp add: upt_conv_Cons)
  then show ?thesis using assms by auto
qed

text \<open>Byte \<open>i\<close> of the 64-byte block under construction.\<close>

definition buf_byte :: "u32 list \<Rightarrow> nat \<Rightarrow> byte" where
  "buf_byte w i = get_byte (w ! (i div 4)) (3 - i mod 4)"

lemma buf_store:
  assumes "i < 64" "k < 64" "length w = 68"
  shows "buf_byte (store_byte w (4 * (i div 4) + (3 - i mod 4)) b) k = (if k = i then b else buf_byte w k)"
proof -
  have "3 - i mod 4 < 4" by simp
  then have i: "(4 * (i div 4) + (3 - i mod 4)) div 4 = i div 4" "(4 * (i div 4) + (3 - i mod 4)) mod 4 = 3 - i mod 4"
    by (simp_all only: div_mult_self4 mod_mult_self4) simp_all
  have "k mod 4 < 4" "i mod 4 < 4" by simp_all
  then have "3 - k mod 4 = 3 - i mod 4 \<longleftrightarrow> k mod 4 = i mod 4" by linarith
  then have eq: "k = i \<longleftrightarrow> k div 4 = i div 4 \<and> 3 - k mod 4 = 3 - i mod 4"
    by (metis mult_div_mod_eq)
  show ?thesis
    using assms unfolding buf_byte_def store_byte_def i eq
    by (cases "k div 4 = i div 4") (simp_all add: get_set_byte)
qed

lemma buf_words:
  assumes "length w = 68" "length blk = 64" "\<forall>i<64. buf_byte w i = blk ! i"
  shows "take 16 w = block_words blk"
proof (rule nth_equalityI)
  fix q assume "q < length (take 16 w)"
  then have q: "q < 16" using assms(1) by simp
  have b: "get_byte (w ! q) (3 - k) = blk ! (4 * q + k)" if "k < 4" for k
    using assms(3) q that by (auto simp: buf_byte_def dest: spec [of _ "4 * q + k"])
  have "w ! q = GetBE32 [blk ! (4 * q), blk ! (4 * q + 1), blk ! (4 * q + 2), blk ! (4 * q + 3)]"
    using get_bytes_word [of "w ! q"] b [of 0] b [of 1] b [of 2] b [of 3] by simp
  then show "take 16 w ! q = block_words blk ! q"
    using q assms(2) by (simp add: block_words_def GetBE32_def)
qed (use assms(1) in \<open>simp add: block_words_def\<close>)

section \<open>The context represents a message\<close>

definition bitcount :: "nat \<Rightarrow> u32" where
  "bitcount n = of_nat (8 * n)"

definition sm3_rep :: "SM3_CTX \<Rightarrow> byte list \<Rightarrow> bool" where
  "sm3_rep c m \<longleftrightarrow> length (W c) = 68 \<and> Regs c = sm3_regs m
     \<and> BitLen0 c = bitcount (length m) \<and> BitLen1 c = of_nat (length m div 2 ^ 29)
     \<and> (\<forall>i < length m mod 64. buf_byte (W c) i = m ! (64 * (length m div 64) + i))"

lemma unat_bits: "unat (bitcount n) = 8 * (n mod 2 ^ 29)"
proof -
  have "8 * n mod 2 ^ 32 = 8 * (n mod 2 ^ 29)" using mult_mod_right [of 8 n "2 ^ 29"] by simp
  then show ?thesis by (simp only: bitcount_def unsigned_of_nat take_bit_eq_mod) simp
qed

lemma bits_index: "drop_bit 3 (bitcount n) AND 0x3F = of_nat (n mod 64)"
proof -
  have m: "(0x3F :: u32) = mask 6" by (simp add: mask_eq_exp_minus_1)
  have "n mod 2 ^ 29 mod 2 ^ 6 = n mod 2 ^ 6" by (rule mod_mod_cancel) simp
  then show ?thesis
    unfolding m take_bit_eq_mask [symmetric]
    by (simp add: word_unat_eq_iff unsigned_take_bit_eq unat_drop_bit_eq unat_bits unat_of_nat)
      (simp add: drop_bit_eq_div take_bit_eq_mod)
qed

lemma bits_zero: "bitcount n = 0 \<longleftrightarrow> 2 ^ 29 dvd n"
  using unat_bits [of n] by (simp add: unat_eq_zero [symmetric] dvd_eq_mod_eq_0 del: unat_eq_zero)

lemma bits_low: "unat (bitcount n AND 0x01FF) = 8 * (n mod 64)"
proof -
  have m: "(0x01FF :: u32) = mask 9" by (simp add: mask_eq_exp_minus_1)
  have "n mod 2 ^ 29 mod 2 ^ 6 = n mod 2 ^ 6" by (rule mod_mod_cancel) simp
  then show ?thesis
    unfolding m take_bit_eq_mask [symmetric]
    using mult_mod_right [of 8 "n mod 2 ^ 29" "2 ^ 6"]
    by (simp add: unsigned_take_bit_eq unat_bits) (simp add: take_bit_eq_mod)
qed

lemma bits_block: "bitcount n AND 0x01FF = 0 \<longleftrightarrow> n mod 64 = 0"
  using bits_low [of n] by (metis mult_eq_0_iff unat_eq_zero zero_neq_numeral)

lemma bits_448: "bitcount n AND 0x01FF = 448 \<longleftrightarrow> n mod 64 = 56"
proof -
  have "bitcount n AND 0x01FF = 448 \<longleftrightarrow> 8 * (n mod 64) = 448"
    unfolding bits_low [symmetric] by (simp add: word_unat_eq_iff)
  then show ?thesis by simp
qed

lemma sm3_regs_partial: "(length m + 1) mod 64 \<noteq> 0 \<Longrightarrow> sm3_regs (m @ [b]) = sm3_regs m"
proof -
  assume "(length m + 1) mod 64 \<noteq> 0"
  then have d: "Suc (length m) div 64 = length m div 64" by (simp add: div_Suc dvd_eq_mod_eq_0)
  let ?n = "length m div 64"
  have "chunks 64 ?n (take (64 * ?n) m @ ys) = chunks 64 ?n (take (64 * ?n) m)" for ys :: "byte list"
    using chunks_append [of "take (64 * ?n) m" 64 ?n 0 ys] by simp
  from this [of "drop (64 * ?n) m @ [b]"] this [of "drop (64 * ?n) m"]
  have "chunks 64 ?n (m @ [b]) = chunks 64 ?n m"
    by (metis append.assoc append_take_drop_id)
  then show ?thesis by (simp add: sm3_regs_def d)
qed

lemma sm3_regs_block:
  assumes "length (m @ blk) mod 64 = 0" "length blk = 64"
  shows "sm3_regs (m @ blk) = sm3_CF (sm3_regs m) (block_words blk)"
proof -
  have "length m mod 64 = 0" using assms by simp
  then have len: "length m = 64 * (length m div 64)" by presburger
  have "chunks 64 (length (m @ blk) div 64) (m @ blk) = chunks 64 (length m div 64) m @ [blk]"
    using chunks_snoc [OF len assms(2)] assms(2) by (simp del: chunks.simps add: div_add_self2)
  then show ?thesis by (simp add: sm3_regs_def)
qed

lemma sm3_regs_whole: "sm3_regs (take (64 * (length m div 64)) m) = sm3_regs m"
proof -
  let ?n = "length m div 64"
  have "chunks 64 ?n (take (64 * ?n) m @ drop (64 * ?n) m) = chunks 64 ?n (take (64 * ?n) m)"
    using chunks_append [of "take (64 * ?n) m" 64 ?n 0 "drop (64 * ?n) m"] by simp
  then show ?thesis by (simp add: sm3_regs_def min_absorb2)
qed

text \<open>What completes the block under construction is compressed.\<close>

lemma sm3_regs_complete:
  assumes "length m mod 64 + length t = 64"
  shows "sm3_regs (m @ t) = sm3_CF (sm3_regs m) (block_words (drop (64 * (length m div 64)) m @ t))"
proof -
  let ?h = "take (64 * (length m div 64)) m" and ?b = "drop (64 * (length m div 64)) m @ t"
  have b: "length ?b = 64" using assms by (simp add: minus_mult_div_eq_mod)
  then have "length (?h @ ?b) mod 64 = 0" by (simp add: min_absorb2)
  from sm3_regs_block [OF this b] show ?thesis
    by (simp only: append_assoc [symmetric] append_take_drop_id sm3_regs_whole)
qed

lemma SM3_byte_rep:
  assumes "sm3_rep c m"
  shows "sm3_rep (SM3_byte b c) (m @ [b])"
proof -
  let ?n = "length m"
  define w where "w = store_byte (W c) (4 * (?n mod 64 div 4) + (3 - ?n mod 64 mod 4)) b"
  define s1 where "s1 = c\<lparr>W := w, BitLen0 := bitcount (Suc ?n)\<rparr>"
  define s where "s = (if BitLen0 s1 = 0 then s1\<lparr>BitLen1 := BitLen1 s1 + 1, BitLen0 := 0\<rparr> else s1)"
  note rep = assms [unfolded sm3_rep_def]
  have len: "length w = 68" using rep by (simp add: w_def store_byte_def)
  have buf: "buf_byte w i = (m @ [b]) ! (64 * (?n div 64) + i)" if "i \<le> ?n mod 64" for i
  proof -
    from that have i: "i < 64" by (rule le_less_trans) simp
    have in_m: "64 * (?n div 64) + i < ?n" if "i \<noteq> ?n mod 64"
      using that \<open>i \<le> ?n mod 64\<close> mult_div_mod_eq [of 64 ?n] by linarith
    show ?thesis
      using rep that i buf_store [of "?n mod 64" i "W c" b] in_m
      by (cases "i = ?n mod 64") (auto simp: w_def nth_append)
  qed
  have idx: "unat ((drop_bit 3 (BitLen0 c) AND 0x3F) XOR 0x03) = 4 * (?n mod 64 div 4) + (3 - ?n mod 64 mod 4)"
    using rep bits_index [of ?n] word_index [of "?n mod 64"] by simp
  have bits: "BitLen0 c + 8 = bitcount (Suc ?n)" using rep by (simp add: bitcount_def)
  have s: "W s = w" "BitLen0 s = bitcount (Suc ?n)" "BitLen1 s = of_nat (Suc ?n div 2 ^ 29)"
    "Regs s = sm3_regs m"
    using rep bits_zero [of "Suc ?n"] div_Suc [of ?n "2 ^ 29"] by (auto simp: s_def s1_def dvd_eq_mod_eq_0)
  have "SM3_byte b c = (if BitLen0 s AND 0x01FF = 0 then SM3_Transform s else s)"
    unfolding SM3_byte_def idx w_def [symmetric] Let_def s_def s1_def bits ..
  then have step: "SM3_byte b c = (if Suc ?n mod 64 = 0 then SM3_Transform s else s)"
    unfolding s(2) bits_block .
  show ?thesis
  proof (cases "Suc ?n mod 64 = 0")
    case True
    then have n: "?n mod 64 = 63" by (auto simp: mod_Suc split: if_splits)
    let ?b = "drop (64 * (?n div 64)) m @ [b]"
    have "?b = drop (64 * (?n div 64)) (m @ [b])" by simp
    then have "\<forall>i<64. buf_byte w i = ?b ! i" using buf n by (simp only:) (simp del: drop_append)
    moreover have "length ?b = 64" using n by (simp add: minus_mult_div_eq_mod)
    ultimately have "take 16 (W s) = block_words ?b" using buf_words [OF len] by (simp add: s)
    moreover have "length (W s) = 68" by (simp add: s len)
    moreover have "sm3_regs (m @ [b]) = sm3_CF (sm3_regs m) (block_words ?b)"
      by (rule sm3_regs_complete) (simp add: n)
    ultimately show ?thesis
      using True unfolding sm3_rep_def step by (simp add: SM3_Transform_CF s)
  next
    case False
    then have "Suc ?n mod 64 = Suc (?n mod 64)" "Suc ?n div 64 = ?n div 64"
      by (auto simp: mod_Suc div_Suc dvd_eq_mod_eq_0 split: if_splits)
    then show ?thesis
      using False rep len buf sm3_regs_partial [of m b] unfolding step by (simp add: sm3_rep_def s)
  qed
qed

lemma SM3_bytes_rep: "sm3_rep c m \<Longrightarrow> sm3_rep (fold SM3_byte d c) (m @ d)"
proof (induction d arbitrary: c m)
  case (Cons b d)
  then show ?case using Cons.IH [OF SM3_byte_rep [OF Cons.prems, of b]] by simp
qed simp

lemma SM3_Init_rep: "\<exists>c. SM3_Init (Some ctx) = (1, Some c) \<and> sm3_rep c []"
  by (simp add: SM3_Init_def sm3_rep_def sm3_regs_def bitcount_def)

lemma pad_loop_rep:
  "sm3_rep c m \<Longrightarrow> (length m + z) mod 64 = 56 \<Longrightarrow> z < 64
    \<Longrightarrow> \<exists>c'. pad_loop c = Some c' \<and> sm3_rep c' (m @ replicate z 0)"
proof (induction z arbitrary: c m)
  case 0
  then show ?case by (subst pad_loop.simps) (simp add: sm3_rep_def bits_448)
next
  case (Suc z)
  have "length m mod 64 \<noteq> 56"
  proof
    assume "length m mod 64 = 56"
    then have "(56 + Suc z) mod 64 = 56" using Suc.prems(2) by (metis mod_add_left_eq)
    then show False using Suc.prems(3) by presburger
  qed
  then have "pad_loop c = pad_loop (SM3_byte 0 c)"
    using Suc.prems(1) by (subst pad_loop.simps) (simp add: sm3_rep_def bits_448 ZERO_def)
  then show ?case
    using Suc.IH [OF SM3_byte_rep [OF Suc.prems(1), of 0]] Suc.prems by simp
qed

lemma get_byte_Put: "k < 4 \<Longrightarrow> get_byte a (3 - k) = PutBE32 a ! k"
  by (auto simp: PutBE32_ucast get_byte_def less_Suc_eq numeral_eq_Suc)

text \<open>The last block: the rest of the padded message and the two length words.\<close>

lemma final_words:
  assumes "sm3_rep c m" "length m mod 64 = 56"
  shows "take 16 ((W c)[14 := a, 15 := b])
    = block_words (drop (64 * (length m div 64)) m @ PutBE32 a @ PutBE32 b)"
proof (rule buf_words)
  let ?d = "drop (64 * (length m div 64)) m"
  have d: "length ?d = 56" using assms(2) by (simp add: minus_mult_div_eq_mod)
  show "length ((W c)[14 := a, 15 := b]) = 68" using assms(1) by (simp add: sm3_rep_def)
  show "length (?d @ PutBE32 a @ PutBE32 b) = 64" using d by simp
  have W: "length (W c) = 68" using assms(1) by (simp add: sm3_rep_def)
  show "\<forall>i<64. buf_byte ((W c)[14 := a, 15 := b]) i = (?d @ PutBE32 a @ PutBE32 b) ! i"
  proof (intro allI impI)
    fix i :: nat assume "i < 64"
    then consider "i < 56" | "56 \<le> i" "i < 60" | "60 \<le> i" by linarith
    then show "buf_byte ((W c)[14 := a, 15 := b]) i = (?d @ PutBE32 a @ PutBE32 b) ! i"
    proof cases
      case 1
      then have "i div 4 < 14" by simp
      then show ?thesis using 1 assms d by (simp add: buf_byte_def sm3_rep_def nth_append)
    next
      case 2
      have "i div 4 = 14" "i mod 4 = i - 56" "i - 56 < 4" using 2 by presburger+
      then show ?thesis using 2 W d get_byte_Put [of "i - 56" a] by (simp add: buf_byte_def nth_append)
    next
      case 3
      have "i div 4 = 15" "i mod 4 = i - 60" "i - 60 < 4" "\<not> i - 56 < 4" using 3 \<open>i < 64\<close> by presburger+
      then show ?thesis using 3 \<open>i < 64\<close> W d get_byte_Put [of "i - 60" b]
        by (simp add: buf_byte_def nth_append)
    qed
  qed
qed

lemma length_sm3_CF: "length V = 8 \<Longrightarrow> length (sm3_CF V B) = 8"
proof -
  have "length (fold (sm3_round B) ns V) = 8" if "length V = 8" for ns
    using that by (induction ns arbitrary: V) (simp_all add: sm3_round_def Let_def)
  then show "length V = 8 \<Longrightarrow> length (sm3_CF V B) = 8" by (simp add: sm3_CF_def del: upt_rec_numeral)
qed

lemma length_sm3_regs [simp]: "length (sm3_regs m) = 8"
proof -
  have "length (fold (\<lambda>b V. sm3_CF V (block_words b)) bs V) = 8" if "length V = 8" for bs V
    using that by (induction bs arbitrary: V) (simp_all add: length_sm3_CF)
  then show ?thesis by (simp add: sm3_regs_def IV_def)
qed

lemma SM3_Final_rep:
  assumes "sm3_rep c m"
  shows "\<exists>c'. SM3_Final (Some c) = Some (1, Some c', sm3_standard m)"
proof -
  let ?q = "m @ 0x80 # replicate (sm3_zeros (length m)) 0"
  have pad: "(length (m @ [0x80]) + sm3_zeros (length m)) mod 64 = 56"
  proof -
    have "Suc (length m) + (119 - length m mod 64) = 120 + 64 * (length m div 64)"
      using mult_div_mod_eq [of 64 "length m"] mod_less_divisor [of 64 "length m"] by linarith
    then have "(Suc (length m) + (119 - length m mod 64)) mod 64 = 56" by simp
    then show ?thesis
      unfolding sm3_zeros_def length_append_singleton by (subst mod_add_right_eq)
  qed
  have z: "sm3_zeros (length m) < 64" by (simp add: sm3_zeros_def)
  obtain c1 where c1: "pad_loop (SM3_byte PAD c) = Some c1" "sm3_rep c1 ?q"
    using pad_loop_rep [OF SM3_byte_rep [OF assms, of "0x80"] pad z] by (auto simp: PAD_def)
  let ?a = "of_nat (8 * length m div 2 ^ 32) :: u32" and ?b = "of_nat (8 * length m) :: u32"
  have q: "length ?q mod 64 = 56" using pad by simp
  have "8 * length m div 2 ^ 32 = length m div 2 ^ 29" by simp
  then have bl: "BitLen1 c = ?a" "BitLen0 c = ?b"
    using assms by (simp_all only: sm3_rep_def bitcount_def)
  let ?s = "c1\<lparr>W := (W c1)[14 := ?a, 15 := ?b]\<rparr>"
  have "Regs (SM3_Transform ?s) = sm3_CF (sm3_regs ?q)
      (block_words (drop (64 * (length ?q div 64)) ?q @ PutBE32 ?a @ PutBE32 ?b))"
    using c1(2) SM3_Transform_CF(1) [of ?s] final_words [OF c1(2) q, of ?a ?b] by (simp add: sm3_rep_def)
  also have "\<dots> = sm3_regs (?q @ PutBE32 ?a @ PutBE32 ?b)"
    using q by (intro sm3_regs_complete [symmetric]) simp
  also have "\<dots> = sm3_regs (sm3_pad m)" by (simp add: sm3_pad_def)
  finally show ?thesis
    using c1(1) bl by (simp add: SM3_Final_def Let_def sm3_standard_def digest_bytes_BE)
qed

section \<open>The hash interface\<close>

text \<open>What a caller that feeds a hash in pieces relies on.\<close>

locale stream_hash =
  fixes rep :: "'s \<Rightarrow> byte list \<Rightarrow> bool" and upd :: "byte list \<Rightarrow> 's \<Rightarrow> 's"
    and fin :: "'s \<Rightarrow> byte list option" and hash :: "byte list \<Rightarrow> byte list"
  assumes upd_rep: "rep s m \<Longrightarrow> rep (upd d s) (m @ d)"
    and fin_hash: "rep s m \<Longrightarrow> fin s = Some (hash m)"
begin

lemma updates_rep: "rep s m \<Longrightarrow> rep (fold upd ds s) (m @ concat ds)"
proof (induction ds arbitrary: s m)
  case (Cons d ds)
  then show ?case using Cons.IH [OF upd_rep [OF Cons.prems, of d]] by simp
qed simp

lemma pieces: "rep s [] \<Longrightarrow> fin (fold upd ds s) = Some (hash (concat ds))"
  using updates_rep [of s "[]"] fin_hash by fastforce

end

definition ctx_rep :: "SM3_CTX option \<Rightarrow> byte list \<Rightarrow> bool" where
  "ctx_rep s m \<longleftrightarrow> (\<exists>c. s = Some c \<and> sm3_rep c m)"

definition ctx_update :: "byte list \<Rightarrow> SM3_CTX option \<Rightarrow> SM3_CTX option" where
  "ctx_update d s = snd (SM3_Update s (Some d) (length d))"

definition ctx_final :: "SM3_CTX option \<Rightarrow> byte list option" where
  "ctx_final s = map_option (\<lambda>(_, _, md). md) (SM3_Final s)"

interpretation sm3: stream_hash ctx_rep ctx_update ctx_final sm3_standard
proof
  show "ctx_rep (ctx_update d s) (m @ d)" if "ctx_rep s m" for s m d
    using that by (auto simp: ctx_rep_def ctx_update_def SM3_Update_def SM3_bytes_rep)
  show "ctx_final s = Some (sm3_standard m)" if "ctx_rep s m" for s m
    using that SM3_Final_rep by (fastforce simp: ctx_rep_def ctx_final_def)
qed

lemma SM3_Init_ctx: "ctx_rep (snd (SM3_Init (Some ctx))) []"
  using SM3_Init_rep [of ctx] by (auto simp: ctx_rep_def)

lemma take_min_length [simp]: "take (min (length d) n) d = take n d"
  by (cases "n \<le> length d") simp_all

section \<open>Properties\<close>

text \<open>
  \<^bold>\<open>C2\<close> \<open>SM3\<close> terminates and computes the standard hash of the first \<open>n\<close> bytes, whatever the
  local context held before: padding with \<open>0x80\<close>, zeros and the 64-bit length, then the compression
  function over the 64-byte blocks.
\<close>

theorem SM3_is_standard: "SM3 ctx d n = Some (sm3_standard (take n d))"
  using sm3.pieces [OF SM3_Init_ctx, of "[take n d]"]
  by (auto simp: SM3_def ctx_final_def ctx_update_def SM3_Update_def SM3_Init_def Let_def)

text \<open>
  Hashing in pieces: for every list of pieces, \<open>SM3_Init\<close>, one \<open>SM3_Update\<close> per piece and
  \<open>SM3_Final\<close> return the digest that \<open>SM3\<close> computes on the concatenation.
\<close>

theorem SM3_pieces:
  "map_option (\<lambda>(_, _, md). md)
      (SM3_Final (fold (\<lambda>d s. snd (SM3_Update s (Some d) (length d))) ds (snd (SM3_Init (Some ctx)))))
    = SM3 ctx' (concat ds) (length (concat ds))"
proof -
  have upd: "(\<lambda>d s. snd (SM3_Update s (Some d) (length d))) = ctx_update"
    by (simp add: ctx_update_def fun_eq_iff)
  have "SM3 ctx' (concat ds) (length (concat ds)) = Some (sm3_standard (concat ds))"
    using sm3.pieces [OF SM3_Init_ctx [of ctx'], of "[concat ds]"]
    by (simp add: SM3_def ctx_final_def ctx_update_def SM3_Update_def SM3_Init_def Let_def)
  then show ?thesis
    using sm3.pieces [OF SM3_Init_ctx, of ds ctx] unfolding upd by (simp add: ctx_final_def)
qed

end
