(* ===== verification/SM4.thy ===== *)
theory SM4
  imports AstPrelude
begin

text \<open>
  The SM4 block cipher of \<open>src/public/sm/sm4.cpp\<close>: the tables, the round function
  \<open>SMS4F\<close>, the key schedule \<open>SM4_InitRK\<close>, \<open>sm4_SetKey\<close> and the four block routines
  \<open>sm4_Encrypt_S\<close>, \<open>sm4_Encrypt\<close>, \<open>sm4_Decrypt\<close>, \<open>sm4_Decrypt_S\<close>.

  The interface the modes of operation rely on is the locale \<open>block_cipher\<close>: on blocks of four
  words, decryption inverts encryption.  It is interpreted on the routines of the source under
  every key that \<open>sm4_SetKey\<close> built with a non-zero flag.
\<close>

unbundle bit_operations_syntax

section \<open>Tables\<close>

definition FK :: "u32 list" where
  "FK = [0xa3b1bac6, 0x56aa3350, 0x677d9197, 0xb27022dc]"

definition CK :: "u32 list" where
  "CK = [0x00070e15, 0x1c232a31, 0x383f464d, 0x545b6269,
     0x70777e85, 0x8c939aa1, 0xa8afb6bd, 0xc4cbd2d9,
     0xe0e7eef5, 0xfc030a11, 0x181f262d, 0x343b4249,
     0x50575e65, 0x6c737a81, 0x888f969d, 0xa4abb2b9,
     0xc0c7ced5, 0xdce3eaf1, 0xf8ff060d, 0x141b2229,
     0x30373e45, 0x4c535a61, 0x686f767d, 0x848b9299,
     0xa0a7aeb5, 0xbcc3cad1, 0xd8dfe6ed, 0xf4fb0209,
     0x10171e25, 0x2c333a41, 0x484f565d, 0x646b7279]"

definition SBOX_TABLE :: "byte list" where
  "SBOX_TABLE = [0xd6, 0x90, 0xe9, 0xfe, 0xcc, 0xe1, 0x3d, 0xb7, 0x16, 0xb6, 0x14, 0xc2, 0x28, 0xfb, 0x2c, 0x05,
     0x2b, 0x67, 0x9a, 0x76, 0x2a, 0xbe, 0x04, 0xc3, 0xaa, 0x44, 0x13, 0x26, 0x49, 0x86, 0x06, 0x99,
     0x9c, 0x42, 0x50, 0xf4, 0x91, 0xef, 0x98, 0x7a, 0x33, 0x54, 0x0b, 0x43, 0xed, 0xcf, 0xac, 0x62,
     0xe4, 0xb3, 0x1c, 0xa9, 0xc9, 0x08, 0xe8, 0x95, 0x80, 0xdf, 0x94, 0xfa, 0x75, 0x8f, 0x3f, 0xa6,
     0x47, 0x07, 0xa7, 0xfc, 0xf3, 0x73, 0x17, 0xba, 0x83, 0x59, 0x3c, 0x19, 0xe6, 0x85, 0x4f, 0xa8,
     0x68, 0x6b, 0x81, 0xb2, 0x71, 0x64, 0xda, 0x8b, 0xf8, 0xeb, 0x0f, 0x4b, 0x70, 0x56, 0x9d, 0x35,
     0x1e, 0x24, 0x0e, 0x5e, 0x63, 0x58, 0xd1, 0xa2, 0x25, 0x22, 0x7c, 0x3b, 0x01, 0x21, 0x78, 0x87,
     0xd4, 0x00, 0x46, 0x57, 0x9f, 0xd3, 0x27, 0x52, 0x4c, 0x36, 0x02, 0xe7, 0xa0, 0xc4, 0xc8, 0x9e,
     0xea, 0xbf, 0x8a, 0xd2, 0x40, 0xc7, 0x38, 0xb5, 0xa3, 0xf7, 0xf2, 0xce, 0xf9, 0x61, 0x15, 0xa1,
     0xe0, 0xae, 0x5d, 0xa4, 0x9b, 0x34, 0x1a, 0x55, 0xad, 0x93, 0x32, 0x30, 0xf5, 0x8c, 0xb1, 0xe3,
     0x1d, 0xf6, 0xe2, 0x2e, 0x82, 0x66, 0xca, 0x60, 0xc0, 0x29, 0x23, 0xab, 0x0d, 0x53, 0x4e, 0x6f,
     0xd5, 0xdb, 0x37, 0x45, 0xde, 0xfd, 0x8e, 0x2f, 0x03, 0xff, 0x6a, 0x72, 0x6d, 0x6c, 0x5b, 0x51,
     0x8d, 0x1b, 0xaf, 0x92, 0xbb, 0xdd, 0xbc, 0x7f, 0x11, 0xd9, 0x5c, 0x41, 0x1f, 0x10, 0x5a, 0xd8,
     0x0a, 0xc1, 0x31, 0x88, 0xa5, 0xcd, 0x7b, 0xbd, 0x2d, 0x74, 0xd0, 0x12, 0xb8, 0xe5, 0xb4, 0xb0,
     0x89, 0x69, 0x97, 0x4a, 0x0c, 0x96, 0x77, 0x7e, 0x65, 0xb9, 0xf1, 0x09, 0xc5, 0x6e, 0xc6, 0x84,
     0x18, 0xf0, 0x7d, 0xec, 0x3a, 0xdc, 0x4d, 0x20, 0x79, 0xee, 0x5f, 0x3e, 0xd7, 0xcb, 0x39, 0x48]"

section \<open>Round functions\<close>

text \<open>The macro \<open>SM4ROLEFT(uval, bits)\<close> of \<open>sm4.h\<close>.\<close>

definition SM4ROLEFT :: "u32 \<Rightarrow> nat \<Rightarrow> u32" where
  "SM4ROLEFT uval bits = push_bit bits uval OR drop_bit (0x20 - bits) uval"

definition SMS4CalciRK :: "u32 \<Rightarrow> u32" where
  "SMS4CalciRK a =
     (let a0 = ucast (a AND 0x000000FF) :: byte;
          a1 = ucast (drop_bit 8 (a AND 0x0000FF00)) :: byte;
          a2 = ucast (drop_bit 16 (a AND 0x00FF0000)) :: byte;
          a3 = ucast (drop_bit 24 (a AND 0xFF000000)) :: byte;
          b0 = SBOX_TABLE ! unat a0;
          b1 = SBOX_TABLE ! unat a1;
          b2 = SBOX_TABLE ! unat a2;
          b3 = SBOX_TABLE ! unat a3;
          b = ucast b0 OR push_bit 8 (ucast b1) OR push_bit 16 (ucast b2) OR push_bit 24 (ucast b3)
      in b XOR SM4ROLEFT b 13 XOR SM4ROLEFT b 23)"

definition SMS4Lt :: "u32 \<Rightarrow> u32" where
  "SMS4Lt a =
     (let a0 = ucast (a AND 0x000000FF) :: byte;
          a1 = ucast (drop_bit 8 (a AND 0x0000FF00)) :: byte;
          a2 = ucast (drop_bit 16 (a AND 0x00FF0000)) :: byte;
          a3 = ucast (drop_bit 24 (a AND 0xFF000000)) :: byte;
          b0 = SBOX_TABLE ! unat a0;
          b1 = SBOX_TABLE ! unat a1;
          b2 = SBOX_TABLE ! unat a2;
          b3 = SBOX_TABLE ! unat a3;
          b = ucast b0 OR push_bit 8 (ucast b1) OR push_bit 16 (ucast b2) OR push_bit 24 (ucast b3)
      in b XOR SM4ROLEFT b 2 XOR SM4ROLEFT b 10 XOR SM4ROLEFT b 18 XOR SM4ROLEFT b 24)"

definition SMS4F :: "u32 \<Rightarrow> u32 \<Rightarrow> u32 \<Rightarrow> u32 \<Rightarrow> u32 \<Rightarrow> u32" where
  "SMS4F x0 x1 x2 x3 rk = x0 XOR SMS4Lt (x1 XOR x2 XOR x3 XOR rk)"

section \<open>Key schedule\<close>

record SM4_KEY =
  ERK :: "u32 list"
  DRK :: "u32 list"
  MK :: "u32 list"

text \<open>
  One iteration of the loop of \<open>SM4_InitRK\<close>.  The local array \<open>k\<close> is the list of the
  elements written so far, so \<open>k[i+4] = \<dots>\<close> appends.
\<close>

definition InitRK_body :: "nat \<Rightarrow> u32 list \<Rightarrow> u32 list" where
  "InitRK_body i k =
     k @ [k ! i XOR SMS4CalciRK (k ! (i + 1) XOR k ! (i + 2) XOR k ! (i + 3) XOR CK ! i)]"

definition SM4_InitRK :: "SM4_KEY \<Rightarrow> int \<Rightarrow> SM4_KEY" where
  "SM4_InitRK keyObj flag =
     (let k0 = [MK keyObj ! 0 XOR FK ! 0, MK keyObj ! 1 XOR FK ! 1,
                MK keyObj ! 2 XOR FK ! 2, MK keyObj ! 3 XOR FK ! 3];
          k = fold InitRK_body [0..<32] k0;
          erk = map (\<lambda>i. k ! (i + 4)) [0..<32];
          drk = (if flag \<noteq> 0 then map (\<lambda>i. erk ! (31 - i)) [0..<32] else DRK keyObj)
      in keyObj\<lparr>ERK := erk, DRK := drk\<rparr>)"

text \<open>
  \<open>sm4_SetKey\<close>: 1 when \<open>key\<close> is NULL (\<^term>\<open>None\<close>), with the key object unchanged.
\<close>

definition SetKey_word :: "byte list \<Rightarrow> nat \<Rightarrow> u32" where
  "SetKey_word key i =
     push_bit 8 (push_bit 8 (push_bit 8 (ucast (key ! (i * 4))) + ucast (key ! (i * 4 + 1)))
       + ucast (key ! (i * 4 + 2))) + ucast (key ! (i * 4 + 3))"

definition sm4_SetKey :: "SM4_KEY \<Rightarrow> byte list option \<Rightarrow> int \<Rightarrow> int \<times> SM4_KEY" where
  "sm4_SetKey keyObj key flag =
     (case key of
        None \<Rightarrow> (1, keyObj)
      | Some k \<Rightarrow> (0, SM4_InitRK (keyObj\<lparr>MK := map (SetKey_word k) [0..<4]\<rparr>) flag))"

section \<open>Block routines\<close>

text \<open>
  The body all four routines share: \<open>ulbuf\<close> is cleared, the block is copied to its front, the
  32 rounds write \<open>ulbuf[4]\<close> to \<open>ulbuf[35]\<close>, and the last four words leave in reverse order.
\<close>

definition ulbuf_round :: "u32 list \<Rightarrow> nat \<Rightarrow> u32 list \<Rightarrow> u32 list" where
  "ulbuf_round rk i ulbuf =
     ulbuf[i + 4 := SMS4F (ulbuf ! i) (ulbuf ! (i + 1)) (ulbuf ! (i + 2)) (ulbuf ! (i + 3)) (rk ! i)]"

definition sm4_block :: "u32 list \<Rightarrow> u32 list \<Rightarrow> u32 list" where
  "sm4_block rk psrc =
     (let ulbuf = fold (ulbuf_round rk) [0..<32] (take 4 psrc @ replicate 32 0)
      in [ulbuf ! 35, ulbuf ! 34, ulbuf ! 33, ulbuf ! 32])"

fun sm4_blocks :: "u32 list \<Rightarrow> nat \<Rightarrow> u32 list \<Rightarrow> u32 list" where
  "sm4_blocks rk 0 psrc = []"
| "sm4_blocks rk (Suc ulTotal) psrc = sm4_block rk psrc @ sm4_blocks rk ulTotal (drop 4 psrc)"

text \<open>
  \<open>psrc\<close> is \<^term>\<open>None\<close> for a NULL pointer and otherwise the words from the pointer on; the result
  is the memory the returned pointer shows.  The \<open>_S\<close> variants overwrite the source, the others
  write \<open>ulTotal\<close> blocks to \<open>pdst\<close>.
\<close>

definition sm4_Encrypt_S :: "SM4_KEY \<Rightarrow> u32 list option \<Rightarrow> u32 \<Rightarrow> u32 list option" where
  "sm4_Encrypt_S keyObj psrc srclen =
     (let ulTotal = unat (drop_bit 4 srclen)
      in map_option (\<lambda>p. sm4_blocks (ERK keyObj) ulTotal p @ drop (4 * ulTotal) p) psrc)"

definition sm4_Encrypt ::
    "SM4_KEY \<Rightarrow> u32 list option \<Rightarrow> u32 \<Rightarrow> u32 list option \<Rightarrow> u32 list option" where
  "sm4_Encrypt keyObj psrc srclen pdst =
     (let ulTotal = unat (drop_bit 4 srclen)
      in case (psrc, pdst) of
           (Some p, Some d) \<Rightarrow> Some (sm4_blocks (ERK keyObj) ulTotal p @ drop (4 * ulTotal) d)
         | _ \<Rightarrow> None)"

definition sm4_Decrypt ::
    "SM4_KEY \<Rightarrow> u32 list option \<Rightarrow> u32 \<Rightarrow> u32 list option \<Rightarrow> u32 list option" where
  "sm4_Decrypt keyObj psrc srclen pdst =
     (let ulTotal = unat (drop_bit 4 srclen)
      in case (psrc, pdst) of
           (Some p, Some d) \<Rightarrow> Some (sm4_blocks (DRK keyObj) ulTotal p @ drop (4 * ulTotal) d)
         | _ \<Rightarrow> None)"

definition sm4_Decrypt_S :: "SM4_KEY \<Rightarrow> u32 list option \<Rightarrow> u32 \<Rightarrow> u32 list option" where
  "sm4_Decrypt_S keyObj psrc srclen =
     (let ulTotal = unat (drop_bit 4 srclen)
      in map_option (\<lambda>p. sm4_blocks (DRK keyObj) ulTotal p @ drop (4 * ulTotal) p) psrc)"

text \<open>The calls \<open>sm4_Encrypt_S(keyObj, tmp, 16)\<close> and \<open>sm4_Decrypt_S(keyObj, tmp, 16)\<close> of the modes.\<close>

definition encrypt16 :: "SM4_KEY \<Rightarrow> u32 list \<Rightarrow> u32 list" where
  "encrypt16 keyObj tmp = the (sm4_Encrypt_S keyObj (Some tmp) 16)"

definition decrypt16 :: "SM4_KEY \<Rightarrow> u32 list \<Rightarrow> u32 list" where
  "decrypt16 keyObj tmp = the (sm4_Decrypt_S keyObj (Some tmp) 16)"

section \<open>The rounds as a Feistel network\<close>

type_synonym quad = "u32 \<times> u32 \<times> u32 \<times> u32"

fun feistel_step :: "u32 \<Rightarrow> quad \<Rightarrow> quad" where
  "feistel_step rk (a, b, c, d) = (b, c, d, SMS4F a b c d rk)"

fun swap4 :: "quad \<Rightarrow> quad" where
  "swap4 (a, b, c, d) = (d, c, b, a)"

fun quad_list :: "quad \<Rightarrow> u32 list" where
  "quad_list (a, b, c, d) = [a, b, c, d]"

lemma swap4_swap4 [simp]: "swap4 (swap4 s) = s"
  by (cases s) simp

lemma feistel_step_inverse: "feistel_step rk (swap4 (feistel_step rk s)) = swap4 s"
  by (cases s) (simp add: SMS4F_def ac_simps)

lemma feistel_inverse: "fold feistel_step (rev rks) (swap4 (fold feistel_step rks s)) = swap4 s"
  by (induction rks arbitrary: s) (simp_all add: feistel_step_inverse)

lemma length_ulbuf_rounds [simp]: "length (fold (ulbuf_round rk) ns u) = length u"
  by (induction ns arbitrary: u) (simp_all add: ulbuf_round_def)

lemma ulbuf_rounds:
  assumes "length u = 36" "n \<le> 32" "length rk = 32"
  shows "(let v = fold (ulbuf_round rk) [0..<n] u in (v ! n, v ! (n + 1), v ! (n + 2), v ! (n + 3)))
           = fold feistel_step (take n rk) (u ! 0, u ! 1, u ! 2, u ! 3)"
  using assms(2)
proof (induction n)
  case 0
  then show ?case by (simp add: numeral_2_eq_2 numeral_3_eq_3)
next
  case (Suc n)
  let ?v = "fold (ulbuf_round rk) [0..<n] u"
  have len: "length ?v = 36" using assms(1) by simp
  have IH: "fold feistel_step (take n rk) (u ! 0, u ! 1, u ! 2, u ! 3)
      = (?v ! n, ?v ! (n + 1), ?v ! (n + 2), ?v ! (n + 3))"
    using Suc by (simp add: Let_def)
  have "fold feistel_step (take (Suc n) rk) (u ! 0, u ! 1, u ! 2, u ! 3)
      = feistel_step (rk ! n) (fold feistel_step (take n rk) (u ! 0, u ! 1, u ! 2, u ! 3))"
    using Suc.prems assms(3) by (simp add: take_Suc_conv_app_nth)
  also have "\<dots> = feistel_step (rk ! n) (?v ! n, ?v ! (n + 1), ?v ! (n + 2), ?v ! (n + 3))"
    by (simp only: IH)
  finally have step: "fold feistel_step (take (Suc n) rk) (u ! 0, u ! 1, u ! 2, u ! 3)
      = feistel_step (rk ! n) (?v ! n, ?v ! (n + 1), ?v ! (n + 2), ?v ! (n + 3))" .
  have upd: "fold (ulbuf_round rk) [0..<Suc n] u
      = ?v[n + 4 := SMS4F (?v ! n) (?v ! (n + 1)) (?v ! (n + 2)) (?v ! (n + 3)) (rk ! n)]"
    using ulbuf_round_def [of rk n ?v] by simp
  show ?case
    unfolding step upd Let_def using len Suc.prems by (simp add: nth_list_update add.commute numeral_3_eq_3)
qed

lemma sm4_block_feistel:
  assumes "length rk = 32" "4 \<le> length p"
  shows "sm4_block rk p = quad_list (swap4 (fold feistel_step rk (p ! 0, p ! 1, p ! 2, p ! 3)))"
proof -
  let ?u = "take 4 p @ replicate 32 0"
  let ?v = "fold (ulbuf_round rk) [0..<32] ?u"
  have len: "length ?u = 36" using assms(2) by simp
  have "fold feistel_step rk (p ! 0, p ! 1, p ! 2, p ! 3) = (?v ! 32, ?v ! 33, ?v ! 34, ?v ! 35)"
    using ulbuf_rounds [OF len, of 32 rk] assms by (simp add: Let_def nth_append)
  then show ?thesis by (simp add: sm4_block_def Let_def)
qed

lemma length_sm4_block [simp]: "length (sm4_block rk p) = 4"
  by (simp add: sm4_block_def Let_def)

lemma length_sm4_blocks [simp]: "length (sm4_blocks rk n p) = 4 * n"
  by (induction n arbitrary: p) simp_all

lemma nth_quad_list:
  "quad_list (a, b, c, d) ! 0 = a" "quad_list (a, b, c, d) ! 1 = b"
  "quad_list (a, b, c, d) ! 2 = c" "quad_list (a, b, c, d) ! 3 = d"
  by simp_all

lemma sm4_block_inverse:
  assumes "length rk = 32" "4 \<le> length p"
  shows "sm4_block (rev rk) (sm4_block rk p) = take 4 p"
proof -
  obtain a b c d where abcd:
    "swap4 (fold feistel_step rk (p ! 0, p ! 1, p ! 2, p ! 3)) = (a, b, c, d)"
    by (metis prod_cases4)
  then have enc: "sm4_block rk p = [a, b, c, d]" using assms by (simp add: sm4_block_feistel)
  have "fold feistel_step (rev rk) (a, b, c, d) = swap4 (p ! 0, p ! 1, p ! 2, p ! 3)"
    using feistel_inverse [of rk "(p ! 0, p ! 1, p ! 2, p ! 3)"] abcd by simp
  then show ?thesis
    using assms by (simp add: enc sm4_block_feistel take_4_split)
qed

lemma sm4_block_append [simp]: "length b = 4 \<Longrightarrow> sm4_block rk (b @ q) = sm4_block rk b"
  by (simp add: sm4_block_def)

lemma sm4_blocks_inverse:
  assumes "length rk = 32"
  shows "4 * n \<le> length p \<Longrightarrow> sm4_blocks (rev rk) n (sm4_blocks rk n p) = take (4 * n) p"
proof (induction n arbitrary: p)
  case (Suc n)
  then show ?case
    using sm4_block_inverse [OF assms, of p] by (simp add: take_add)
qed simp

lemma sm4_blocks_append: "4 * n \<le> length p \<Longrightarrow> sm4_blocks rk n (p @ q) = sm4_blocks rk n p"
proof (induction n arbitrary: p)
  case (Suc n)
  then have "sm4_block rk (p @ q) = sm4_block rk p"
    by (simp add: sm4_block_def)
  with Suc show ?case by simp
qed simp

section \<open>The block-cipher interface\<close>

locale block_cipher =
  fixes E :: "u32 list \<Rightarrow> u32 list" and D :: "u32 list \<Rightarrow> u32 list"
  assumes length_E: "length b = 4 \<Longrightarrow> length (E b) = 4"
    and length_D: "length b = 4 \<Longrightarrow> length (D b) = 4"
    and D_E: "length b = 4 \<Longrightarrow> D (E b) = b"
begin

lemma E_inj: "length a = 4 \<Longrightarrow> length b = 4 \<Longrightarrow> E a = E b \<longleftrightarrow> a = b"
  by (metis D_E)

end

text \<open>A key object whose decryption schedule is the reversed encryption schedule.\<close>

definition wf_key :: "SM4_KEY \<Rightarrow> bool" where
  "wf_key k \<longleftrightarrow> length (ERK k) = 32 \<and> DRK k = rev (ERK k)"

lemma length_InitRK_fold [simp]: "length (fold InitRK_body ns k) = length k + length ns"
  by (induction ns arbitrary: k) (simp_all add: InitRK_body_def)

lemma length_ERK_InitRK [simp]: "length (ERK (SM4_InitRK k flag)) = 32"
  by (simp add: SM4_InitRK_def Let_def)

lemma map_nth_rev: "length xs = 32 \<Longrightarrow> map (\<lambda>i. xs ! (31 - i)) [0..<32] = rev xs"
  by (rule nth_equalityI) (simp_all add: rev_nth)

lemma DRK_InitRK: "flag \<noteq> 0 \<Longrightarrow> DRK (SM4_InitRK k flag) = rev (ERK (SM4_InitRK k flag))"
proof -
  assume "flag \<noteq> 0"
  then have "DRK (SM4_InitRK k flag) = map (\<lambda>i. ERK (SM4_InitRK k flag) ! (31 - i)) [0..<32]"
    by (simp add: SM4_InitRK_def Let_def)
  then show ?thesis by (simp only: map_nth_rev length_ERK_InitRK)
qed

lemma wf_key_InitRK [simp]: "flag \<noteq> 0 \<Longrightarrow> wf_key (SM4_InitRK k flag)"
  by (simp add: wf_key_def DRK_InitRK)

lemma wf_key_SetKey: "flag \<noteq> 0 \<Longrightarrow> wf_key (snd (sm4_SetKey k (Some key) flag))"
  by (simp add: sm4_SetKey_def)

lemma ERK_SetKey_flag:
  "ERK (snd (sm4_SetKey k (Some key) flag)) = ERK (snd (sm4_SetKey k' (Some key) flag'))"
  by (simp add: sm4_SetKey_def SM4_InitRK_def Let_def)

lemma encrypt16_block: "length b = 4 \<Longrightarrow> encrypt16 k b = sm4_block (ERK k) b"
  by (simp add: encrypt16_def sm4_Encrypt_S_def Let_def)

lemma decrypt16_block: "length b = 4 \<Longrightarrow> decrypt16 k b = sm4_block (DRK k) b"
  by (simp add: decrypt16_def sm4_Decrypt_S_def Let_def)

lemma length_crypt16 [simp]:
  "length b = 4 \<Longrightarrow> length (encrypt16 k b) = 4" "length b = 4 \<Longrightarrow> length (decrypt16 k b) = 4"
  by (simp_all add: encrypt16_block decrypt16_block)

lemma block_cipher_sm4: "wf_key k \<Longrightarrow> block_cipher (encrypt16 k) (decrypt16 k)"
  by unfold_locales
    (simp_all add: encrypt16_block decrypt16_block sm4_block_inverse wf_key_def)

text \<open>The interpretation on the key that \<open>sm4_SetKey\<close> builds for decryption.\<close>

interpretation sm4: block_cipher
  "encrypt16 (snd (sm4_SetKey k0 (Some key) 1))" "decrypt16 (snd (sm4_SetKey k0 (Some key) 1))"
  for k0 key
  by (rule block_cipher_sm4) (simp add: wf_key_SetKey)

section \<open>Properties\<close>

text \<open>
  \<^bold>\<open>C28\<close> \<open>sm4_Decrypt_S\<close> undoes \<open>sm4_Encrypt_S\<close>: under the key object that \<open>sm4_SetKey\<close> builds
  with a non-zero flag, encrypting a buffer in place and decrypting it with the same length gives the
  buffer back, the trailing words beyond the last whole block included.
\<close>

theorem sm4_Decrypt_S_Encrypt_S:
  assumes "flag \<noteq> 0" "4 * unat (drop_bit 4 srclen) \<le> length p"
  shows "sm4_Decrypt_S (snd (sm4_SetKey k0 (Some key) flag))
      (sm4_Encrypt_S (snd (sm4_SetKey k0 (Some key) flag)) (Some p) srclen) srclen = Some p"
proof -
  have "wf_key (snd (sm4_SetKey k0 (Some key) flag))" by (rule wf_key_SetKey [OF assms(1)])
  moreover have "sm4_blocks rk n (sm4_blocks rk' n q @ r) = sm4_blocks rk n (sm4_blocks rk' n q)"
    for rk rk' n q r by (rule sm4_blocks_append) simp
  ultimately show ?thesis
    using assms(2)
    by (simp add: sm4_Decrypt_S_def sm4_Encrypt_S_def Let_def wf_key_def sm4_blocks_inverse)
qed

theorem sm4_Decrypt_S_Encrypt_S_witness:
  "sm4_Decrypt_S (snd (sm4_SetKey \<lparr>ERK = [], DRK = [], MK = []\<rparr> (Some (replicate 16 0x11)) 1))
      (sm4_Encrypt_S (snd (sm4_SetKey \<lparr>ERK = [], DRK = [], MK = []\<rparr> (Some (replicate 16 0x11)) 1))
        (Some [1, 2, 3, 4, 5]) 20) 20 = Some [1, 2, 3, 4, 5]"
  by (rule sm4_Decrypt_S_Encrypt_S) simp_all

end
