(* ===== verification/SM4_Modes.thy ===== *)
theory SM4_Modes
  imports SM4
begin

text \<open>
  The one-shot modes of \<open>src/public/sm/sm4.cpp\<close>: \<open>enin_sm4\<close>, \<open>dein_sm4\<close> (ECB),
  \<open>sm4_CBC\<close>, \<open>dein_sm4_CBC\<close> and \<open>sm4_CBC_MAC\<close>.

  A routine returns its code, the bytes it wrote from the start of its output buffer and the new
  value of its in/out length.  Capacities and lengths passed by pointer are \<^typ>\<open>int\<close>; \<^term>\<open>None\<close>
  is a read outside the output buffer (\<open>d[ed_len-1]\<close> with \<open>ed_len = 0\<close>).
  A loop \<open>for (nData = n; nData >= 16; nData -= 16)\<close> runs \<open>n div 16\<close> times.

  The abstract modes \<open>ecb_blocks\<close>, \<open>cbc_enc\<close> and \<open>cbc_dec\<close> work on lists of blocks over any block
  cipher; their laws are proved once in the locale \<open>block_cipher\<close>, and the routines are shown
  to compute them on the PKCS-padded text.
\<close>

unbundle bit_operations_syntax

section \<open>Loading and storing a 16-byte block\<close>

definition load16 :: "byte list \<Rightarrow> u32 list" where
  "load16 p = [GetBE32 p, GetBE32 (drop 4 p), GetBE32 (drop 8 p), GetBE32 (drop 12 p)]"

definition store16 :: "u32 list \<Rightarrow> byte list" where
  "store16 tmp = PutBE32 (tmp ! 0) @ PutBE32 (tmp ! 1) @ PutBE32 (tmp ! 2) @ PutBE32 (tmp ! 3)"

definition xor4 :: "u32 list \<Rightarrow> u32 list \<Rightarrow> u32 list" where
  "xor4 a b = [a ! 0 XOR b ! 0, a ! 1 XOR b ! 1, a ! 2 XOR b ! 2, a ! 3 XOR b ! 3]"

section \<open>ECB: \<open>enin_sm4\<close> and \<open>dein_sm4\<close>\<close>

fun ecb_loop :: "(u32 list \<Rightarrow> u32 list) \<Rightarrow> nat \<Rightarrow> byte list \<Rightarrow> byte list" where
  "ecb_loop f 0 pData = []"
| "ecb_loop f (Suc n) pData = store16 (f (load16 pData)) @ ecb_loop f n (drop 16 pData)"

definition enin_sm4 :: "byte list \<Rightarrow> int \<Rightarrow> SM4_KEY \<Rightarrow> int \<Rightarrow> int \<times> byte list \<times> int" where
  "enin_sm4 d ed_len keyObj padding =
     (let dlen = length d;
          nTotal = ed_len;
          nPad0 = 16 - dlen mod 16;
          (nPad, cPad) = (if padding = 0 then (nPad0 mod 16, 0) else (nPad0, of_nat nPad0));
          nEn = dlen + nPad
      in if nTotal < int nEn then (1, [], ed_len)
         else (let n = dlen div 16;
                   pE = ecb_loop (encrypt16 keyObj) n d;
                   nData = dlen mod 16;
                   last_blk = drop (16 * n) d @ replicate nPad cPad;
                   pE' = (if (0 :: byte) < cPad \<or> 0 < nData
                          then pE @ store16 (encrypt16 keyObj (load16 last_blk)) else pE)
               in (0, pE', int nEn)))"

text \<open>The check of the padding bytes: \<open>for (i = 1; i <= nPad; i++) if (nPad != d[ed_len-i]) \<dots>\<close>\<close>

definition pad_ok :: "byte list \<Rightarrow> nat \<Rightarrow> bool" where
  "pad_ok d nPad = list_all (\<lambda>i. nPad = unat (d ! (length d - i))) [1..<Suc nPad]"

text \<open>
  The common tail of \<open>dein_sm4\<close> and \<open>dein_sm4_CBC\<close>: reading the pad length from the last byte,
  checking it, and setting \<open>*d_len\<close>.
\<close>

definition strip_pad :: "byte list \<Rightarrow> int \<Rightarrow> int \<Rightarrow> (int \<times> byte list \<times> int) option" where
  "strip_pad d d_len padding =
     (if d = [] then None
      else let ed_len = length d;
               nPad0 = unat (d ! (ed_len - 1));
               nPad = (if padding = 0 then 0 else nPad0)
           in if padding \<noteq> 0 \<and> padding = 1 \<and> (nPad \<le> 0 \<or> nPad > 16) then Some (3, d, d_len)
              else if padding = 1 \<and> \<not> pad_ok d nPad then Some (5, d, d_len)
              else Some (0, d, int ed_len - int nPad))"

definition dein_sm4 :: "byte list \<Rightarrow> int \<Rightarrow> SM4_KEY \<Rightarrow> int \<Rightarrow> (int \<times> byte list \<times> int) option" where
  "dein_sm4 ed d_len keyObj padding =
     (if padding > 1 \<or> padding < 0 then Some (4, [], d_len)
      else if d_len < int (length ed) \<or> length ed mod 16 \<noteq> 0 then Some (1, [], d_len)
      else strip_pad (ecb_loop (decrypt16 keyObj) (length ed div 16) ed) d_len padding)"

section \<open>CBC: \<open>sm4_CBC_MAC\<close>, \<open>sm4_CBC\<close>, \<open>dein_sm4_CBC\<close>\<close>

text \<open>
  The loop of \<open>sm4_CBC_MAC\<close>: \<open>pIV\<close> is combined with the block and encrypted in place.
\<close>

fun mac_loop :: "(u32 list \<Rightarrow> u32 list) \<Rightarrow> nat \<Rightarrow> u32 list \<Rightarrow> byte list \<Rightarrow> u32 list" where
  "mac_loop E 0 pIV inp = pIV"
| "mac_loop E (Suc n) pIV inp = mac_loop E n (E (xor4 (load16 inp) pIV)) (drop 16 inp)"

text \<open>
  \<open>sm4_CBC_MAC\<close>.  The local array \<open>last\<close> is not initialised before \<open>memcpy(last, in, len)\<close>; its
  content on entry is the argument \<open>last0\<close> (16 bytes of the stack).
\<close>

definition sm4_CBC_MAC ::
    "byte list \<Rightarrow> byte list option \<Rightarrow> byte list option \<Rightarrow> SM4_KEY \<Rightarrow> int \<times> byte list" where
  "sm4_CBC_MAC last0 inp iv keyObj =
     (case (inp, iv) of
        (Some m, Some v) \<Rightarrow>
          (let n = length m div 16;
               pIV = mac_loop (encrypt16 keyObj) n (load16 v) m;
               len = length m mod 16;
               lst = drop (16 * n) m @ drop len last0;
               pIV' = (if 0 < len then encrypt16 keyObj (xor4 (load16 lst) pIV) else pIV)
           in (0, store16 pIV'))
      | _ \<Rightarrow> (1, []))"

fun cbc_loop :: "(u32 list \<Rightarrow> u32 list) \<Rightarrow> nat \<Rightarrow> u32 list \<Rightarrow> byte list \<Rightarrow> byte list \<times> u32 list" where
  "cbc_loop E 0 pIV inp = ([], pIV)"
| "cbc_loop E (Suc n) pIV inp =
     (let pIV' = E (xor4 (load16 inp) pIV);
          (out, pIV'') = cbc_loop E n pIV' (drop 16 inp)
      in (store16 pIV' @ out, pIV''))"

definition sm4_CBC ::
    "byte list option \<Rightarrow> byte list option \<Rightarrow> SM4_KEY \<Rightarrow> int \<Rightarrow> int \<times> byte list \<times> int" where
  "sm4_CBC inp iv keyObj outlen =
     (case (inp, iv) of
        (Some m, Some v) \<Rightarrow>
          (let n = length m div 16;
               (out, pIV) = cbc_loop (encrypt16 keyObj) n (load16 v) m;
               len = length m mod 16;
               lst = drop (16 * n) m @ replicate (16 - len) (of_nat (16 - len));
               pE = out @ store16 (encrypt16 keyObj (xor4 (load16 lst) pIV))
           in (0, pE, int (length pE)))
      | _ \<Rightarrow> (1, [], outlen))"

text \<open>
  \<open>dein_sm4_CBC\<close>: the two buffers \<open>tmpiv\<close> and \<open>tmpivpre\<close> are swapped by pointer, so the
  ciphertext block just read is the next \<open>pIV\<close>.
\<close>

fun decbc_loop :: "(u32 list \<Rightarrow> u32 list) \<Rightarrow> nat \<Rightarrow> u32 list \<Rightarrow> byte list \<Rightarrow> byte list" where
  "decbc_loop D 0 pIV pData = []"
| "decbc_loop D (Suc n) pIV pData =
     store16 (xor4 (D (load16 pData)) pIV) @ decbc_loop D n (load16 pData) (drop 16 pData)"

definition dein_sm4_CBC ::
    "byte list \<Rightarrow> int \<Rightarrow> byte list \<Rightarrow> SM4_KEY \<Rightarrow> int \<Rightarrow> (int \<times> byte list \<times> int) option" where
  "dein_sm4_CBC ed d_len iv keyObj padding =
     (if padding > 1 \<or> padding < 0 then Some (4, [], d_len)
      else if d_len < int (length ed) \<or> length ed mod 16 \<noteq> 0 then Some (1, [], d_len)
      else strip_pad (decbc_loop (decrypt16 keyObj) (length ed div 16) (load16 iv) ed) d_len padding)"

section \<open>Blocks\<close>

lemma length_load16 [simp]: "length (load16 p) = 4"
  by (simp add: load16_def)

lemma length_store16 [simp]: "length (store16 w) = 16"
  by (simp add: store16_def)

lemma length_xor4 [simp]: "length (xor4 a b) = 4"
  by (simp add: xor4_def)

lemma load_store16 [simp]: "length w = 4 \<Longrightarrow> load16 (store16 w @ r) = w"
  using length_4_conv [of w] by (simp add: load16_def store16_def)

lemma load_store16' [simp]: "length w = 4 \<Longrightarrow> load16 (store16 w) = w"
  using load_store16 [of w "[]"] by simp

lemma load16_take [simp]: "16 \<le> length p \<Longrightarrow> load16 (take 16 p @ r) = load16 p"
  by (simp add: load16_def GetBE32_def nth_append)

lemma load16_append [simp]: "length b = 16 \<Longrightarrow> load16 (b @ r) = load16 b"
  by (simp add: load16_def GetBE32_def nth_append)

lemma store_load16 [simp]: "length b = 16 \<Longrightarrow> store16 (load16 b) = b"
proof -
  assume len: "length b = 16"
  have "take 4 (drop k b) = PutBE32 (GetBE32 (drop k b))" if "k + 4 \<le> 16" for k
    using that len by (simp add: Put_GetBE32_nth take_4_split)
  from this [of 0] this [of 4] this [of 8] this [of 12] len have
    "store16 (load16 b) = take 4 b @ take 4 (drop 4 b) @ take 4 (drop 8 b) @ take 4 (drop 12 b)"
    by (simp add: store16_def load16_def)
  also have "\<dots> = concat (chunks 4 4 b)" by (simp add: numeral_eq_Suc)
  finally show ?thesis using len by (simp add: concat_chunks)
qed

lemma xor4_xor4 [simp]: "length a = 4 \<Longrightarrow> xor4 (xor4 a b) b = a"
  using length_4_conv [of a] by (simp add: xor4_def xor.assoc)

lemma xor4_inject [simp]:
  assumes "length a = 4" "length b = 4"
  shows "xor4 a v = xor4 b v \<longleftrightarrow> a = b"
  by (metis assms xor4_xor4)

lemma load16_inject: "length a = 16 \<Longrightarrow> length b = 16 \<Longrightarrow> load16 a = load16 b \<longleftrightarrow> a = b"
  by (metis store_load16)

lemma store16_inject: "length a = 4 \<Longrightarrow> length b = 4 \<Longrightarrow> store16 a = store16 b \<longleftrightarrow> a = b"
  by (metis load_store16')

section \<open>The abstract modes\<close>

definition ecb_blocks :: "(u32 list \<Rightarrow> u32 list) \<Rightarrow> byte list list \<Rightarrow> byte list list" where
  "ecb_blocks f bs = map (\<lambda>b. store16 (f (load16 b))) bs"

fun cbc_enc :: "(u32 list \<Rightarrow> u32 list) \<Rightarrow> u32 list \<Rightarrow> byte list list \<Rightarrow> byte list list" where
  "cbc_enc E iv [] = []"
| "cbc_enc E iv (b # bs) = (let c = E (xor4 (load16 b) iv) in store16 c # cbc_enc E c bs)"

fun cbc_dec :: "(u32 list \<Rightarrow> u32 list) \<Rightarrow> u32 list \<Rightarrow> byte list list \<Rightarrow> byte list list" where
  "cbc_dec D iv [] = []"
| "cbc_dec D iv (c # cs) = store16 (xor4 (D (load16 c)) iv) # cbc_dec D (load16 c) cs"

text \<open>PKCS padding: \<open>16 - n mod 16\<close> bytes, each holding that number.\<close>

definition pad_len :: "nat \<Rightarrow> nat" where
  "pad_len n = 16 - n mod 16"

definition pkcs_pad :: "byte list \<Rightarrow> byte list" where
  "pkcs_pad d = d @ replicate (pad_len (length d)) (of_nat (pad_len (length d)))"

definition blocks16 :: "byte list \<Rightarrow> byte list list" where
  "blocks16 d = chunks 16 (length d div 16) d"

lemma pad_len_range: "1 \<le> pad_len n" "pad_len n \<le> 16"
  by (simp_all add: pad_len_def Suc_leI)

lemma length_pkcs_pad [simp]: "length (pkcs_pad d) = length d + pad_len (length d)"
  by (simp add: pkcs_pad_def)

lemma pkcs_pad_nonempty [simp]: "pkcs_pad d \<noteq> []"
  using pad_len_range(1) [of "length d"] by (auto simp: pkcs_pad_def)

lemma pkcs_pad_div: "length (pkcs_pad d) = 16 * (length d div 16 + 1)"
  by (simp add: pad_len_def) presburger

context block_cipher begin

lemma ecb_blocks_inverse:
  "\<forall>b \<in> set bs. length b = 16 \<Longrightarrow> ecb_blocks D (ecb_blocks E bs) = bs"
  by (simp add: ecb_blocks_def length_E length_D D_E map_idI)

lemma cbc_inverse:
  "\<forall>b \<in> set bs. length b = 16 \<Longrightarrow> cbc_dec D iv (cbc_enc E iv bs) = bs"
  by (induction bs arbitrary: iv) (simp_all add: Let_def length_E length_D D_E)

lemma cbc_last_inject:
  assumes "length a = 16" "length b = 16"
  shows "store16 (E (xor4 (load16 a) v)) = store16 (E (xor4 (load16 b) v)) \<longleftrightarrow> a = b"
  using assms by (simp add: store16_inject length_E E_inj load16_inject)

end

section \<open>The routines compute the abstract modes\<close>

lemma ecb_loop_chunks:
  "16 * n \<le> length d \<Longrightarrow> ecb_loop f n d = concat (ecb_blocks f (chunks 16 n d))"
proof (induction n arbitrary: d)
  case (Suc n)
  then show ?case using load16_take [of d "[]"] by (simp add: ecb_blocks_def)
qed (simp add: ecb_blocks_def)

lemma length_ecb_loop [simp]: "length (ecb_loop f n d) = 16 * n"
  by (induction n arbitrary: d) simp_all

lemma cbc_loop_chunks:
  "16 * n \<le> length d \<Longrightarrow> fst (cbc_loop E n iv d) = concat (cbc_enc E iv (chunks 16 n d))"
proof (induction n arbitrary: d iv)
  case (Suc n)
  then show ?case
    using load16_take [of d "[]"] by (simp add: Let_def split_beta)
qed simp

lemma cbc_loop_snoc:
  assumes "16 * n \<le> length d" "length b = 16"
  shows "concat (cbc_enc E iv (chunks 16 n d @ [b]))
    = fst (cbc_loop E n iv d) @ store16 (E (xor4 (load16 b) (snd (cbc_loop E n iv d))))"
  using assms(1)
proof (induction n arbitrary: d iv)
  case (Suc n)
  then show ?case
    using load16_take [of d "[]"] by (simp add: Let_def split_beta)
qed (simp add: Let_def)

lemma length_cbc_loop [simp]: "length (fst (cbc_loop E n iv d)) = 16 * n"
  by (induction n arbitrary: d iv) (simp_all add: Let_def split_beta)

lemma decbc_loop_chunks:
  "16 * n \<le> length d \<Longrightarrow> decbc_loop D n iv d = concat (cbc_dec D iv (chunks 16 n d))"
proof (induction n arbitrary: d iv)
  case (Suc n)
  then show ?case using load16_take [of d "[]"] by simp
qed simp

lemma length_decbc_loop [simp]: "length (decbc_loop D n iv d) = 16 * n"
  by (induction n arbitrary: d iv) simp_all

lemma blocks16_lengths: "16 dvd length d \<Longrightarrow> b \<in> set (blocks16 d) \<Longrightarrow> length b = 16"
  unfolding blocks16_def by (rule chunks_lengths) auto

lemma concat_blocks16: "16 dvd length d \<Longrightarrow> concat (blocks16 d) = d"
  unfolding blocks16_def by (rule concat_chunks) auto

lemma blocks16_concat:
  "\<forall>b \<in> set bs. length b = 16 \<Longrightarrow> blocks16 (concat bs) = bs"
proof -
  assume len: "\<forall>b \<in> set bs. length b = 16"
  then have "length (concat bs) = 16 * length bs"
    by (induction bs) simp_all
  then show ?thesis using chunks_concat [OF len, of "[]"] by (simp add: blocks16_def)
qed

lemma blocks16_pkcs_pad:
  "blocks16 (pkcs_pad d) = chunks 16 (length d div 16) d
     @ [drop (16 * (length d div 16)) d @ replicate (pad_len (length d)) (of_nat (pad_len (length d)))]"
proof -
  let ?n = "length d div 16" and ?p = "replicate (pad_len (length d)) (of_nat (pad_len (length d)))"
  have len: "length (take (16 * ?n) d) = 16 * ?n" by simp
  have last16: "length (drop (16 * ?n) d @ ?p) = 16"
    by (simp add: pad_len_def)
  have split: "pkcs_pad d = take (16 * ?n) d @ (drop (16 * ?n) d @ ?p)"
    by (simp add: pkcs_pad_def)
  have "length (pkcs_pad d) div 16 = Suc ?n"
    by (subst pkcs_pad_div) simp
  then have "blocks16 (pkcs_pad d) = chunks 16 (Suc ?n) (take (16 * ?n) d @ (drop (16 * ?n) d @ ?p))"
    unfolding blocks16_def using split by (simp only:)
  then have "blocks16 (pkcs_pad d) = chunks 16 ?n (take (16 * ?n) d) @ [drop (16 * ?n) d @ ?p]"
    by (simp only: chunks_snoc [OF len last16])
  moreover have "chunks 16 n (take (16 * n) e) = chunks 16 n e" for n and e :: "byte list"
    by (induction n arbitrary: e) (simp_all add: min_def drop_take take_add)
  ultimately show ?thesis by simp
qed

lemma ecb_blocks_snoc [simp]: "ecb_blocks f (bs @ [b]) = ecb_blocks f bs @ [store16 (f (load16 b))]"
  by (simp add: ecb_blocks_def)

text \<open>\<open>enin_sm4\<close> with PKCS padding is ECB on the padded text, when the output buffer is large enough.\<close>

lemma enin_sm4_pkcs:
  assumes "padding \<noteq> 0" "int (length (pkcs_pad d)) \<le> cap"
  shows "enin_sm4 d cap k padding
    = (0, concat (ecb_blocks (encrypt16 k) (blocks16 (pkcs_pad d))), int (length (pkcs_pad d)))"
proof -
  have "(0 :: byte) < of_nat (pad_len (length d))"
    using pad_len_range [of "length d"] by (simp add: word_less_nat_alt unat_of_nat)
  then show ?thesis
    using assms unfolding blocks16_pkcs_pad
    by (simp add: enin_sm4_def Let_def pad_len_def ecb_loop_chunks)
qed

lemma enin_sm4_small:
  assumes "padding \<noteq> 0" "cap < int (length (pkcs_pad d))"
  shows "enin_sm4 d cap k padding = (1, [], cap)"
  using assms by (simp add: enin_sm4_def Let_def pad_len_def)

text \<open>Removing the padding that \<open>pkcs_pad\<close> added.\<close>

lemma strip_pad_pkcs: "strip_pad (pkcs_pad d) cap 1 = Some (0, pkcs_pad d, int (length d))"
proof -
  let ?p = "pad_len (length d)"
  have range: "1 \<le> ?p" "?p \<le> 16" by (rule pad_len_range)+
  have nth: "unat (pkcs_pad d ! (length d + ?p - i)) = ?p" if "i \<in> {1..<Suc ?p}" for i
  proof -
    from that have "length d + ?p - i = length d + (?p - i)" "?p - i < ?p" by auto
    with range show ?thesis by (simp add: pkcs_pad_def nth_append unat_of_nat)
  qed
  have "pad_ok (pkcs_pad d) ?p"
    using nth by (auto simp: pad_ok_def list_all_iff simp del: upt_Suc)
  then show ?thesis
    using range nth [of 1] by (simp add: strip_pad_def Let_def)
qed


lemma wf_key_cipher: "wf_key k \<Longrightarrow> block_cipher (encrypt16 k) (decrypt16 k)"
  by (rule block_cipher_sm4)

lemma length_concat16: "\<forall>b \<in> set bs. length b = 16 \<Longrightarrow> length (concat bs) = 16 * length bs"
  by (induction bs) simp_all

lemma dvd_pkcs_pad: "16 dvd length (pkcs_pad d)"
  by (subst pkcs_pad_div) simp

lemma pkcs_blocks: "\<forall>b \<in> set (blocks16 (pkcs_pad d)). length b = 16"
  using blocks16_lengths [OF dvd_pkcs_pad] by blast

lemma length_cbc_enc [simp]: "length (cbc_enc E iv bs) = length bs"
  by (induction bs arbitrary: iv) (simp_all add: Let_def)

lemma cbc_enc_16: "\<forall>b \<in> set (cbc_enc E iv bs). length b = 16"
  by (induction bs arbitrary: iv) (simp_all add: Let_def)

lemma ecb_blocks_16: "\<forall>b \<in> set (ecb_blocks f bs). length b = 16"
  by (auto simp: ecb_blocks_def)

text \<open>A list of 16-byte blocks as long as the padded text: what both encryptions produce.\<close>

lemma cipher_blocks_facts:
  assumes "length cs = length (blocks16 (pkcs_pad d))" "\<forall>c \<in> set cs. length c = 16"
  shows "length (concat cs) = length (pkcs_pad d)" "16 dvd length (concat cs)"
    "concat cs \<noteq> []" "blocks16 (concat cs) = cs"
proof -
  show len: "length (concat cs) = length (pkcs_pad d)"
    using length_concat16 [OF assms(2)] length_concat16 [OF pkcs_blocks, of d]
      concat_blocks16 [OF dvd_pkcs_pad, of d] assms(1) by simp
  show "16 dvd length (concat cs)" unfolding len by (rule dvd_pkcs_pad)
  show "concat cs \<noteq> []" using len by (metis length_0_conv pkcs_pad_nonempty)
  show "blocks16 (concat cs) = cs" by (rule blocks16_concat [OF assms(2)])
qed

lemma dein_sm4_ecb:
  assumes "16 dvd length ed" "int (length ed) \<le> cap" "padding = 0 \<or> padding = 1"
  shows "dein_sm4 ed cap k padding
    = strip_pad (concat (ecb_blocks (decrypt16 k) (blocks16 ed))) cap padding"
  using assms by (auto simp: dein_sm4_def ecb_loop_chunks blocks16_def)

lemma dein_sm4_CBC_cbc:
  assumes "16 dvd length ed" "int (length ed) \<le> cap" "padding = 0 \<or> padding = 1"
  shows "dein_sm4_CBC ed cap iv k padding
    = strip_pad (concat (cbc_dec (decrypt16 k) (load16 iv) (blocks16 ed))) cap padding"
  using assms by (auto simp: dein_sm4_CBC_def decbc_loop_chunks blocks16_def)

lemma dein_enin_sm4:
  assumes "wf_key k" "int (length (pkcs_pad d)) \<le> cap" "int (length (pkcs_pad d)) \<le> cap'"
  shows "\<exists>ed. enin_sm4 d cap k 1 = (0, ed, int (length ed))
     \<and> dein_sm4 ed cap' k 1 = Some (0, pkcs_pad d, int (length d))"
proof -
  let ?cs = "ecb_blocks (encrypt16 k) (blocks16 (pkcs_pad d))"
  have "length ?cs = length (blocks16 (pkcs_pad d))" by (simp add: ecb_blocks_def)
  note cs = cipher_blocks_facts [OF this ecb_blocks_16]
  have "concat (ecb_blocks (decrypt16 k) (blocks16 (concat ?cs))) = pkcs_pad d"
    using block_cipher.ecb_blocks_inverse [OF wf_key_cipher [OF assms(1)] pkcs_blocks]
    by (simp add: cs(4) concat_blocks16 [OF dvd_pkcs_pad])
  then have "dein_sm4 (concat ?cs) cap' k 1 = Some (0, pkcs_pad d, int (length d))"
    using assms(3) cs(1,2) by (subst dein_sm4_ecb) (simp_all add: strip_pad_pkcs)
  then show ?thesis using assms(2) cs(1) by (auto simp: enin_sm4_pkcs)
qed

lemma sm4_CBC_cbc:
  "sm4_CBC (Some m) (Some v) k cap
    = (0, concat (cbc_enc (encrypt16 k) (load16 v) (blocks16 (pkcs_pad m))), int (length (pkcs_pad m)))"
proof -
  let ?n = "length m div 16" and ?E = "encrypt16 k"
  let ?b = "drop (16 * ?n) m @ replicate (pad_len (length m)) (of_nat (pad_len (length m))) :: byte list"
  have b: "length ?b = 16" by (simp add: pad_len_def)
  have len: "length (concat (cbc_enc ?E (load16 v) (blocks16 (pkcs_pad m)))) = length (pkcs_pad m)"
    by (rule cipher_blocks_facts(1)) (simp_all add: cbc_enc_16)
  have out: "concat (cbc_enc ?E (load16 v) (blocks16 (pkcs_pad m)))
    = fst (cbc_loop ?E ?n (load16 v) m)
        @ store16 (?E (xor4 (load16 ?b) (snd (cbc_loop ?E ?n (load16 v) m))))"
    unfolding blocks16_pkcs_pad by (rule cbc_loop_snoc) (use b in simp_all)
  show ?thesis
    using len unfolding out
    by (simp add: sm4_CBC_def Let_def split_beta pad_len_def)
qed

lemma dein_CBC_sm4_CBC:
  assumes "wf_key k" "int (length (pkcs_pad m)) \<le> cap'"
  shows "\<exists>ed. sm4_CBC (Some m) (Some v) k cap = (0, ed, int (length ed))
     \<and> dein_sm4_CBC ed cap' v k 1 = Some (0, pkcs_pad m, int (length m))"
proof -
  let ?cs = "cbc_enc (encrypt16 k) (load16 v) (blocks16 (pkcs_pad m))"
  have "length ?cs = length (blocks16 (pkcs_pad m))" by simp
  note cs = cipher_blocks_facts [OF this cbc_enc_16]
  have "concat (cbc_dec (decrypt16 k) (load16 v) (blocks16 (concat ?cs))) = pkcs_pad m"
    using block_cipher.cbc_inverse [OF wf_key_cipher [OF assms(1)] pkcs_blocks]
    by (simp add: cs(4) concat_blocks16 [OF dvd_pkcs_pad])
  then have "dein_sm4_CBC (concat ?cs) cap' v k 1 = Some (0, pkcs_pad m, int (length m))"
    using assms(2) cs(1,2) by (subst dein_sm4_CBC_cbc) (simp_all add: strip_pad_pkcs)
  then show ?thesis using cs(1) by (auto simp: sm4_CBC_cbc)
qed

section \<open>CBC-MAC\<close>

lemma mac_loop_cbc:
  assumes "16 * n \<le> length m"
  shows "mac_loop E n iv m = snd (cbc_loop E n iv m)"
  using assms by (induction n arbitrary: m iv) (simp_all add: Let_def split_beta)

text \<open>On whole blocks the MAC does not read the uninitialised bytes.\<close>

lemma sm4_CBC_MAC_whole:
  assumes "16 dvd length m"
  shows "sm4_CBC_MAC last0 (Some m) (Some v) k
    = (0, store16 (snd (cbc_loop (encrypt16 k) (length m div 16) (load16 v) m)))"
  using assms by (auto simp: sm4_CBC_MAC_def mac_loop_cbc Let_def)

text \<open>On a partial block two different stack contents give two different MACs.\<close>

lemma sm4_CBC_MAC_partial:
  assumes "wf_key k" "\<not> 16 dvd length m" "length a = 16" "length b = 16"
    "drop (length m mod 16) a \<noteq> drop (length m mod 16) b"
  shows "sm4_CBC_MAC a (Some m) (Some v) k \<noteq> sm4_CBC_MAC b (Some m) (Some v) k"
proof -
  let ?t = "drop (16 * (length m div 16)) m"
  have pos: "0 < length m mod 16" using assms(2) by (simp add: mod_greater_zero_iff_not_dvd)
  have t: "length ?t = length m mod 16" by (simp add: minus_mult_div_eq_mod)
  have "length m mod 16 \<le> 16" by (simp add: less_imp_le)
  then have len: "length (?t @ drop (length m mod 16) c) = 16" if "length c = 16" for c :: "byte list"
    using that t by simp
  from block_cipher.cbc_last_inject [OF wf_key_cipher [OF assms(1)] len [OF assms(3)] len [OF assms(4)]]
  show ?thesis using assms(5) pos by (simp add: sm4_CBC_MAC_def Let_def)
qed

section \<open>Which plaintexts the decryptions accept\<close>

text \<open>The check of \<open>dein_sm4\<close> and \<open>dein_sm4_CBC\<close> accepts exactly the PKCS-padded texts.\<close>

lemma pad_ok_tail:
  assumes "pad_ok d p" "p \<le> 16" "p \<le> length d"
  shows "d = take (length d - p) d @ replicate p (of_nat p)"
proof (rule nth_equalityI)
  fix i assume i: "i < length d"
  show "d ! i = (take (length d - p) d @ replicate p (of_nat p)) ! i"
  proof (cases "i < length d - p")
    case False
    then have "length d - i \<in> set [1..<Suc p]" "length d - (length d - i) = i" using i by auto
    then have "p = unat (d ! i)" using assms(1) unfolding pad_ok_def list_all_iff by metis
    then have "d ! i = of_nat p" by simp
    then show ?thesis using False i assms(3) by (simp add: nth_append)
  qed (simp add: nth_append)
qed (use assms(3) in simp)

lemma strip_pad_iff:
  assumes "16 dvd length d" "d \<noteq> []"
  shows "(\<exists>m. strip_pad d cap 1 = Some (0, d, int (length m)) \<and> pkcs_pad m = d)
    \<or> (\<exists>e. strip_pad d cap 1 = Some (e, d, cap) \<and> (e = 3 \<or> e = 5) \<and> (\<nexists>m. pkcs_pad m = d))"
proof (cases "\<exists>m. pkcs_pad m = d")
  case True
  then show ?thesis using strip_pad_pkcs by blast
next
  case False
  let ?p = "unat (d ! (length d - 1))"
  have "16 \<le> length d" using assms by (simp add: dvd_imp_le)
  have "\<not> (1 \<le> ?p \<and> ?p \<le> 16 \<and> pad_ok d ?p)"
  proof
    assume p: "1 \<le> ?p \<and> ?p \<le> 16 \<and> pad_ok d ?p"
    let ?m = "take (length d - ?p) d"
    obtain k where k: "length d = 16 * Suc k"
      using assms(1) \<open>16 \<le> length d\<close> by (metis One_nat_def Suc_pred dvd_def mult_0_right not_numeral_le_zero gr0I)
    have "length ?m = (16 - ?p) + 16 * k" using p k by simp
    then have "length ?m mod 16 = (16 - ?p) mod 16" by (simp only: mod_mult_self2)
    then have "pad_len (length ?m) = ?p" using p unfolding pad_len_def by (cases "?p = 16") auto
    then have "pkcs_pad ?m = d" using pad_ok_tail [of d ?p] p \<open>16 \<le> length d\<close>
      unfolding pkcs_pad_def by (metis (no_types, lifting) le_trans)
    with False show False by blast
  qed
  then show ?thesis using assms(2) False by (auto simp: strip_pad_def Let_def)
qed

section \<open>Properties\<close>

text \<open>
  ECB round trip: \<open>enin_sm4\<close> with PKCS padding followed by \<open>dein_sm4\<close> with padding check
  succeeds and returns the plaintext, for every text, under a key set for decryption, when
  both buffers hold the padded length.
\<close>

theorem ecb_roundtrip:
  assumes "flag \<noteq> 0" "int (length d) + 16 \<le> cap" "int (length d) + 16 \<le> cap'"
  shows "\<exists>ed out. enin_sm4 d cap (snd (sm4_SetKey k0 (Some key) flag)) 1 = (0, ed, int (length ed))
     \<and> dein_sm4 ed cap' (snd (sm4_SetKey k0 (Some key) flag)) 1 = Some (0, out, int (length d))
     \<and> take (length d) out = d"
proof -
  have "int (length (pkcs_pad d)) \<le> int (length d) + 16"
    using pad_len_range(2) [of "length d"] by simp
  then have "int (length (pkcs_pad d)) \<le> cap" "int (length (pkcs_pad d)) \<le> cap'" using assms by linarith+
  from dein_enin_sm4 [OF wf_key_SetKey [OF assms(1)] this] show ?thesis
    by (fastforce simp: pkcs_pad_def)
qed

text \<open>
  CBC round trip: \<open>sm4_CBC\<close> followed by \<open>dein_sm4_CBC\<close> under the same IV and key returns
  the plaintext.
\<close>

theorem cbc_roundtrip:
  assumes "flag \<noteq> 0" "int (length m) + 16 \<le> cap'"
  shows "\<exists>ed out. sm4_CBC (Some m) (Some v) (snd (sm4_SetKey k0 (Some key) flag)) cap = (0, ed, int (length ed))
     \<and> dein_sm4_CBC ed cap' v (snd (sm4_SetKey k0 (Some key) flag)) 1 = Some (0, out, int (length m))
     \<and> take (length m) out = m"
proof -
  have "int (length (pkcs_pad m)) \<le> cap'"
    using pad_len_range(2) [of "length m"] assms(2) by simp
  from dein_CBC_sm4_CBC [OF wf_key_SetKey [OF assms(1)] this] show ?thesis
    by (fastforce simp: pkcs_pad_def)
qed

text \<open>
  The padding check of the CBC decryption is exact: on whole blocks that fit the buffer,
  \<open>dein_sm4_CBC\<close> with padding either succeeds, and then the decrypted buffer is the PKCS padding of
  the text whose length it reports, or it fails with code 3 or 5, leaves \<open>*d_len\<close> alone, and the
  buffer is no padded text.
\<close>

theorem dein_CBC_accepts_padded:
  assumes "ed \<noteq> []" "16 dvd length ed" "int (length ed) \<le> cap"
  shows "\<exists>d e n. dein_sm4_CBC ed cap v k 1 = Some (e, d, n)
    \<and> (if e = 0 then \<exists>m. pkcs_pad m = d \<and> n = int (length m)
       else (e = 3 \<or> e = 5) \<and> n = cap \<and> (\<nexists>m. pkcs_pad m = d))"
proof -
  let ?d = "concat (cbc_dec (decrypt16 k) (load16 v) (blocks16 ed))"
  have eq: "dein_sm4_CBC ed cap v k 1 = strip_pad ?d cap 1"
    using dein_sm4_CBC_cbc [of ed cap 1] assms by simp
  have "length (decbc_loop (decrypt16 k) (length ed div 16) (load16 v) ed) = 16 * (length ed div 16)"
    by simp
  then have "length ?d = length ed"
    using assms(2) by (simp add: blocks16_def decbc_loop_chunks [symmetric])
  then have "16 dvd length ?d" "?d \<noteq> []" using assms by (auto simp del: concat_eq_Nil_conv)
  then show ?thesis using strip_pad_iff [of ?d cap] unfolding eq
    by (metis zero_neq_numeral)
qed

text \<open>
  On a message that is not a whole number of blocks, \<open>sm4_CBC_MAC\<close> is not a function of
  message, IV and key: the local array \<open>last\<close> is never initialised, and two contents of it that
  differ behind the message tail always give two different MACs.
\<close>

theorem cbc_mac_reads_stack:
  assumes "flag \<noteq> 0" "\<not> 16 dvd length m" "length a = 16" "length b = 16"
    "drop (length m mod 16) a \<noteq> drop (length m mod 16) b"
  shows "sm4_CBC_MAC a (Some m) (Some v) (snd (sm4_SetKey k0 (Some key) flag))
    \<noteq> sm4_CBC_MAC b (Some m) (Some v) (snd (sm4_SetKey k0 (Some key) flag))"
  by (rule sm4_CBC_MAC_partial [OF wf_key_SetKey [OF assms(1)] assms(2-5)])

end
