(* ===== verification/SM4_Stream.thy ===== *)
theory SM4_Stream
  imports SM4_Modes
begin

text \<open>
  The incremental interface of \<open>src/public/sm/sm4.cpp\<close>: \<open>sm4_InitBlock\<close>,
  \<open>sm4_UpdateBlock\<close> and \<open>sm4_FinalBlock\<close> on an \<open>SM4_KEY_OBJ\<close>.

  NULL pointers are \<^term>\<open>None\<close>; \<open>out\<close> is NULL exactly when \<open>outlen\<close> is.  \<^term>\<open>None\<close> as the result of an
  operation is undefined behaviour: more than 16 pending bytes, or the CBC decryption with
  \<open>mode = 2\<close>, which reads the array \<open>tmpivpre\<close> that was never written.

  What is shown: whatever way the text is cut into calls of \<open>sm4_UpdateBlock\<close>, the output is that
  of the one-shot routines, and decryption of it returns the text.
\<close>

unbundle bit_operations_syntax

record SM4_KEY_OBJ =
  sm4key :: SM4_KEY
  sm4iv :: "byte list"
  ivtmp :: "u32 list"
  leftbuf :: "byte list"
  objflag :: int
  objmode :: int
  leftsize :: nat
  padtype :: int

section \<open>Operations\<close>

definition sm4_InitBlock ::
    "SM4_KEY_OBJ \<Rightarrow> byte list option \<Rightarrow> int \<Rightarrow> int \<Rightarrow> int \<Rightarrow> byte list option
       \<Rightarrow> int \<times> SM4_KEY_OBJ" where
  "sm4_InitBlock sm4obj key flg mde padding ivp =
     (if key = None \<or> flg < 0 \<or> flg > 2 \<or> mde < 0 \<or> mde > 2 then (1, sm4obj)
      else let (nError, k) = sm4_SetKey (sm4key sm4obj) key flg;
               obj = sm4obj\<lparr>sm4key := k\<rparr>
           in if nError \<noteq> 0 then (2, obj)
              else let obj1 = obj\<lparr>objflag := flg, objmode := mde, padtype := (if padding = 0 then 0 else 1)\<rparr>
                   in if mde > 0
                      then (case ivp of
                              None \<Rightarrow> (2, obj1)
                            | Some v \<Rightarrow> (0, obj1\<lparr>sm4iv := take 16 v, ivtmp := load16 v,
                                              leftbuf := replicate 16 0, leftsize := 0\<rparr>))
                      else (0, obj1\<lparr>leftbuf := replicate 16 0, leftsize := 0\<rparr>))"

text \<open>
  What one full block \<open>tmp\<close> does to the chaining value \<open>pIV\<close>: the words that go out and the new
  \<open>pIV\<close>.  \<open>flg = 1\<close> decrypts; every other flag encrypts (2 is the MAC, which writes nothing).
\<close>

definition block_step ::
    "SM4_KEY \<Rightarrow> int \<Rightarrow> int \<Rightarrow> u32 list \<Rightarrow> u32 list \<Rightarrow> u32 list \<times> u32 list" where
  "block_step k md flg pIV tmp =
     (if flg = 1
      then let t = decrypt16 k tmp in if md = 0 then (t, pIV) else (xor4 t pIV, tmp)
      else let p = encrypt16 k (if md = 0 then tmp else xor4 tmp pIV) in (p, p))"

text \<open>
  The loop of \<open>sm4_UpdateBlock\<close>: \<open>left\<close> is filled from the input and a full block is processed.
  When the output buffer is full the routine returns 2 with the block still in \<open>left\<close>; an
  encryption has then already replaced \<open>pIV\<close>.
\<close>

function update_loop ::
    "SM4_KEY_OBJ \<Rightarrow> byte list \<Rightarrow> int \<Rightarrow> int \<Rightarrow> int \<Rightarrow> byte list
       \<Rightarrow> (int \<times> SM4_KEY_OBJ \<times> byte list \<times> int) option" where
  "update_loop obj inp cap flg nOut out =
     (if inp = [] then Some (0, obj, out, nOut)
      else if 16 < leftsize obj \<or> (flg = 1 \<and> objmode obj \<noteq> 0 \<and> objmode obj \<noteq> 1) then None
      else let nUsed = min (16 - leftsize obj) (length inp);
               left' = take (leftsize obj) (leftbuf obj) @ take nUsed inp
                         @ drop (leftsize obj + nUsed) (leftbuf obj);
               ls = leftsize obj + nUsed;
               obj1 = obj\<lparr>leftbuf := left', leftsize := ls\<rparr>;
               rest = drop nUsed inp
           in if ls = 16
              then let (w, pIV) = block_step (sm4key obj) (objmode obj) flg (ivtmp obj) (load16 left')
                   in if flg = 0 \<or> flg = 1
                      then (if nOut + 16 \<le> cap
                            then update_loop (obj1\<lparr>ivtmp := pIV, leftsize := 0\<rparr>) rest cap flg
                                   (nOut + 16) (out @ store16 w)
                            else Some (2, (if flg = 0 then obj1\<lparr>ivtmp := pIV\<rparr> else obj1), out, nOut))
                      else update_loop (obj1\<lparr>ivtmp := pIV, leftsize := 0\<rparr>) rest cap flg nOut out
              else update_loop obj1 rest cap flg nOut out)"
  by pat_completeness auto
termination
  by (relation "measure (\<lambda>(obj, inp, cap, flg, nOut, out).
        2 * length inp + (if leftsize obj = 16 then 1 else 0))")
    (auto simp: min_def split: if_splits)

declare update_loop.simps [simp del]

definition sm4_UpdateBlock ::
    "SM4_KEY_OBJ \<Rightarrow> byte list option \<Rightarrow> int option \<Rightarrow> int
       \<Rightarrow> (int \<times> SM4_KEY_OBJ \<times> byte list \<times> int option) option" where
  "sm4_UpdateBlock sm4obj inp outlen flg =
     (case inp of
        None \<Rightarrow> Some (1, sm4obj, [], outlen)
      | Some d \<Rightarrow>
          if flg \<noteq> 2 \<and> outlen = None then Some (1, sm4obj, [], outlen)
          else (case update_loop sm4obj d (case outlen of Some c \<Rightarrow> c | None \<Rightarrow> 0) flg 0 [] of
                  None \<Rightarrow> None
                | Some (ret, obj, out, nOut) \<Rightarrow>
                    Some (ret, obj, out, if ret = 0 then map_option (\<lambda>_. nOut) outlen else outlen)))"

definition sm4_FinalBlock ::
    "SM4_KEY_OBJ \<Rightarrow> byte list option \<Rightarrow> int \<Rightarrow> int
       \<Rightarrow> int \<times> SM4_KEY_OBJ \<times> byte list \<times> int" where
  "sm4_FinalBlock sm4obj inp outlen flg =
     (let d = (case inp of None \<Rightarrow> [] | Some d \<Rightarrow> d);
          nUsed = length d + leftsize sm4obj
      in if nUsed > 16 then (1, sm4obj, [], outlen)
         else if nUsed = 0 \<and> flg = 2
         then (if outlen < 16 then (2, sm4obj, [], outlen) else (0, sm4obj, store16 (ivtmp sm4obj), 16))
         else if nUsed = 0 \<and> padtype sm4obj = 0 then (0, sm4obj, [], 0)
         else if flg = 1 \<and> (inp = None \<or> nUsed \<noteq> 16) then (1, sm4obj, [], outlen)
         else let left1 = take (leftsize sm4obj) (leftbuf sm4obj) @ d @ drop nUsed (leftbuf sm4obj);
                  nPad = (if padtype sm4obj \<noteq> 0 \<and> flg = 0 then 16 - nUsed else 0);
                  left2 = (if nUsed < 16 then take nUsed left1 @ replicate (16 - nUsed) (of_nat nPad)
                           else left1);
                  (w, pIV) = block_step (sm4key sm4obj) (objmode sm4obj) flg (ivtmp sm4obj) (load16 left2)
              in if flg = 1
                 then let obj = sm4obj\<lparr>leftbuf := left2\<rparr>;
                          tmpOut = store16 w;
                          nPad' = (if padtype sm4obj = 1 then unat (tmpOut ! 15) else 0)
                      in if padtype sm4obj = 1 \<and> (nPad' \<le> 0 \<or> nPad' > 16) then (3, obj, [], outlen)
                         else if padtype sm4obj = 1 \<and> \<not> pad_ok tmpOut nPad' then (5, obj, [], outlen)
                         else if 16 - int nPad' \<le> outlen
                         then (0, obj, take (16 - nPad') tmpOut, 16 - int nPad')
                         else (2, obj, [], outlen)
                 else let obj = sm4obj\<lparr>leftbuf := left2, ivtmp := pIV\<rparr>
                      in if 16 \<le> outlen then (0, obj, store16 w, 16) else (2, obj, [], outlen))"


section \<open>The loop processes whole blocks\<close>

fun run_blocks ::
    "(u32 list \<Rightarrow> u32 list \<Rightarrow> u32 list \<times> u32 list) \<Rightarrow> nat \<Rightarrow> u32 list \<Rightarrow> byte list
       \<Rightarrow> byte list \<times> u32 list" where
  "run_blocks f 0 v d = ([], v)"
| "run_blocks f (Suc n) v d =
     (let (w, v') = f v (load16 d); (out, v'') = run_blocks f n v' (drop 16 d)
      in (store16 w @ out, v''))"

lemma length_run_blocks [simp]: "length (fst (run_blocks f n v d)) = 16 * n"
  by (induction n arbitrary: v d) (simp_all add: split_beta Let_def)

lemma run_blocks_append:
  "length d = 16 * m \<Longrightarrow> run_blocks f (m + n) v (d @ e) =
     (let (out, v') = run_blocks f m v d; (out', v'') = run_blocks f n v' e in (out @ out', v''))"
proof (induction m arbitrary: v d)
  case (Suc m)
  have "load16 (d @ e) = load16 d"
    using Suc.prems load16_append [of "take 16 d" "drop 16 d @ e"] load16_take [of d "[]"]
    by (simp flip: append_assoc)
  with Suc show ?case by (simp add: split_beta Let_def)
qed simp

lemma run_blocks_take: "16 * n \<le> length d \<Longrightarrow> run_blocks f n v (take (16 * n) d) = run_blocks f n v d"
  using run_blocks_append [of "take (16 * n) d" n f 0 v "drop (16 * n) d"]
  by (simp add: split_beta Let_def)

definition pending :: "SM4_KEY_OBJ \<Rightarrow> byte list" where
  "pending obj = take (leftsize obj) (leftbuf obj)"

definition wf_obj :: "SM4_KEY_OBJ \<Rightarrow> bool" where
  "wf_obj obj \<longleftrightarrow> length (leftbuf obj) = 16 \<and> leftsize obj < 16 \<and> (objmode obj = 0 \<or> objmode obj = 1)"

lemma length_pending [simp]: "wf_obj obj \<Longrightarrow> length (pending obj) = leftsize obj"
  by (simp add: pending_def wf_obj_def)

text \<open>
  One step of the loop on a well-formed object: either the input is absorbed into \<open>left\<close>, or the
  pending bytes are completed to a block.
\<close>

lemma update_loop_absorb:
  assumes "wf_obj obj" "length (pending obj @ inp) < 16"
  shows "\<exists>obj'. update_loop obj inp cap flg nOut out = Some (0, obj', out, nOut) \<and> wf_obj obj'
    \<and> pending obj' = pending obj @ inp \<and> sm4key obj' = sm4key obj \<and> objmode obj' = objmode obj
    \<and> padtype obj' = padtype obj \<and> ivtmp obj' = ivtmp obj"
proof (cases "inp = []")
  case True
  with assms show ?thesis by (subst update_loop.simps) auto
next
  case False
  let ?left = "take (leftsize obj) (leftbuf obj) @ inp @ drop (leftsize obj + length inp) (leftbuf obj)"
  let ?obj = "obj\<lparr>leftbuf := ?left, leftsize := leftsize obj + length inp\<rparr>"
  have lt: "leftsize obj + length inp < 16" using assms by simp
  then have "update_loop obj inp cap flg nOut out = update_loop ?obj [] cap flg nOut out"
    using assms(1) False by (subst update_loop.simps) (auto simp: wf_obj_def Let_def min_def)
  then have "update_loop obj inp cap flg nOut out = Some (0, ?obj, out, nOut)"
    by (simp add: update_loop.simps [of ?obj "[]"])
  moreover have "wf_obj ?obj" "pending ?obj = pending obj @ inp"
    using assms(1) lt by (auto simp: wf_obj_def pending_def)
  ultimately show ?thesis by auto
qed

lemma update_loop_block:
  assumes "wf_obj obj" "16 \<le> length (pending obj @ inp)" "flg = 0 \<or> flg = 1" "nOut + 16 \<le> cap"
    "block_step (sm4key obj) (objmode obj) flg (ivtmp obj) (load16 (pending obj @ inp)) = (w, v)"
  shows "\<exists>obj'. update_loop obj inp cap flg nOut out
      = update_loop obj' (drop (16 - leftsize obj) inp) cap flg (nOut + 16) (out @ store16 w)
    \<and> wf_obj obj' \<and> pending obj' = [] \<and> sm4key obj' = sm4key obj \<and> objmode obj' = objmode obj
    \<and> padtype obj' = padtype obj \<and> ivtmp obj' = v"
proof -
  let ?left = "pending obj @ take (16 - leftsize obj) inp"
  let ?obj = "obj\<lparr>leftbuf := ?left, ivtmp := v, leftsize := 0\<rparr>"
  have ge: "16 \<le> leftsize obj + length inp" using assms(1,2) by simp
  have wf: "length (leftbuf obj) = 16" "leftsize obj < 16" "objmode obj = 0 \<or> objmode obj = 1"
    using assms(1) by (auto simp: wf_obj_def)
  have ne: "inp \<noteq> []" using ge wf(2) by auto
  have "take 16 (pending obj @ inp) = ?left" using assms(1) wf(2) by simp
  then have load: "load16 ?left = load16 (pending obj @ inp)"
    using load16_take [OF assms(2), of "[]"] by simp
  have "update_loop obj inp cap flg nOut out
      = update_loop ?obj (drop (16 - leftsize obj) inp) cap flg (nOut + 16) (out @ store16 w)"
    using ge wf ne assms(3,4,5) load
    by (subst update_loop.simps) (auto simp: Let_def min_def pending_def)
  moreover have "wf_obj ?obj" "pending ?obj = []"
    using wf ge assms(1) by (auto simp: wf_obj_def pending_def)
  ultimately show ?thesis by auto
qed


text \<open>
  \<open>sm4_UpdateBlock\<close> on a well-formed object: the pending bytes and the input together are cut
  into blocks, every full block is processed in order, and the rest is pending.
\<close>

lemma update_loop_run:
  assumes "wf_obj obj" "flg = 0 \<or> flg = 1"
    "nOut + 16 * int (length (pending obj @ inp) div 16) \<le> cap"
  shows "\<exists>obj'. update_loop obj inp cap flg nOut out =
      (let p = pending obj @ inp; n = length p div 16;
           r = run_blocks (block_step (sm4key obj) (objmode obj) flg) n (ivtmp obj) p
       in Some (0, obj', out @ fst r, nOut + 16 * int n)) \<and> wf_obj obj'
    \<and> (let p = pending obj @ inp; n = length p div 16 in pending obj' = drop (16 * n) p
        \<and> ivtmp obj' = snd (run_blocks (block_step (sm4key obj) (objmode obj) flg) n (ivtmp obj) p))
    \<and> sm4key obj' = sm4key obj \<and> objmode obj' = objmode obj \<and> padtype obj' = padtype obj"
  using assms(1,3)
proof (induction "length inp" arbitrary: obj inp nOut out rule: less_induct)
  case less
  let ?p = "pending obj @ inp"
  show ?case
  proof (cases "length ?p < 16")
    case True
    then show ?thesis
      using update_loop_absorb [OF less.prems(1) True, of cap flg nOut out] by (auto simp: Let_def)
  next
    case False
    let ?f = "block_step (sm4key obj) (objmode obj) flg"
    obtain w v where wv: "?f (ivtmp obj) (load16 ?p) = (w, v)" by fastforce
    obtain m where m: "length ?p div 16 = Suc m"
      using False by (metis div_greater_zero_iff gr0_implies_Suc not_less zero_less_numeral)
    have ge: "16 \<le> length ?p" using False by simp
    have cap: "nOut + 16 \<le> cap" using less.prems(2) unfolding m by simp
    from update_loop_block [OF less.prems(1) ge assms(2) cap wv, of out] obtain obj' where
      step: "update_loop obj inp cap flg nOut out
        = update_loop obj' (drop (16 - leftsize obj) inp) cap flg (nOut + 16) (out @ store16 w)"
      and obj': "wf_obj obj'" "pending obj' = []" "sm4key obj' = sm4key obj"
        "objmode obj' = objmode obj" "padtype obj' = padtype obj" "ivtmp obj' = v" by blast
    let ?rest = "drop (16 - leftsize obj) inp"
    have ls: "leftsize obj < 16" using less.prems(1) by (simp add: wf_obj_def)
    have rest: "?rest = drop 16 ?p" using less.prems(1) ls by simp
    have len: "length ?rest < length inp" using ge less.prems(1) ls by auto
    have n: "length ?rest div 16 = m" using m unfolding rest by simp
    have cap': "nOut + 16 + 16 * int (length (pending obj' @ ?rest) div 16) \<le> cap"
      using less.prems(2) obj'(2) n unfolding m by simp
    from less.hyps [OF len obj'(1) cap', of "out @ store16 w"] obtain obj'' where
      rec: "update_loop obj' ?rest cap flg (nOut + 16) (out @ store16 w)
          = Some (0, obj'', out @ store16 w @ fst (run_blocks ?f m v (drop 16 ?p)), nOut + 16 + 16 * int m)"
      and obj'': "wf_obj obj''" "pending obj'' = drop (16 * m) (drop 16 ?p)"
        "ivtmp obj'' = snd (run_blocks ?f m v (drop 16 ?p))" "sm4key obj'' = sm4key obj"
        "objmode obj'' = objmode obj" "padtype obj'' = padtype obj"
      unfolding Let_def obj'(2-6) append_Nil n unfolding rest by auto
    have "pending obj'' = drop (16 * Suc m) ?p" unfolding obj''(2) drop_drop by (simp add: add.commute)
    with rec obj'' wv show ?thesis
      unfolding step Let_def m by (intro exI [of _ obj'']) (simp add: split_beta Let_def)
  qed
qed


section \<open>Sequences of updates\<close>

text \<open>Calls of \<open>sm4_UpdateBlock\<close> on the pieces of a text, each with an output buffer of \<open>cap\<close> bytes.\<close>

fun stream_updates ::
    "SM4_KEY_OBJ \<Rightarrow> byte list list \<Rightarrow> int \<Rightarrow> int \<Rightarrow> (SM4_KEY_OBJ \<times> byte list) option" where
  "stream_updates obj [] cap flg = Some (obj, [])"
| "stream_updates obj (m # ms) cap flg =
     (case sm4_UpdateBlock obj (Some m) (Some cap) flg of
        Some (ret, obj', out, _) \<Rightarrow>
          if ret = 0
          then (case stream_updates obj' ms cap flg of
                  Some (obj'', out') \<Rightarrow> Some (obj'', out @ out') | None \<Rightarrow> None)
          else None
      | None \<Rightarrow> None)"

abbreviation step_of :: "SM4_KEY_OBJ \<Rightarrow> int \<Rightarrow> u32 list \<Rightarrow> u32 list \<Rightarrow> u32 list \<times> u32 list" where
  "step_of obj flg \<equiv> block_step (sm4key obj) (objmode obj) flg"

lemma sm4_UpdateBlock_run:
  assumes "wf_obj obj" "flg = 0 \<or> flg = 1" "int (length m) + 16 \<le> cap"
  shows "\<exists>obj'. sm4_UpdateBlock obj (Some m) (Some cap) flg =
      (let p = pending obj @ m; n = length p div 16
       in Some (0, obj', fst (run_blocks (step_of obj flg) n (ivtmp obj) p), Some (16 * int n)))
    \<and> wf_obj obj'
    \<and> (let p = pending obj @ m; n = length p div 16 in pending obj' = drop (16 * n) p
        \<and> ivtmp obj' = snd (run_blocks (step_of obj flg) n (ivtmp obj) p))
    \<and> sm4key obj' = sm4key obj \<and> objmode obj' = objmode obj \<and> padtype obj' = padtype obj"
proof -
  have "16 * (length (pending obj @ m) div 16) \<le> length (pending obj @ m)" by simp
  also have "\<dots> < length m + 16" using assms(1) by (simp add: wf_obj_def pending_def)
  finally have "0 + 16 * int (length (pending obj @ m) div 16) \<le> cap" using assms(3) by simp
  from update_loop_run [OF assms(1,2) this, of "[]"] show ?thesis
    by (auto simp: sm4_UpdateBlock_def Let_def)
qed

lemma run_blocks_extend:
  fixes p q :: "byte list"
  assumes n: "n = length p div 16" and r: "r = drop (16 * n) p @ q" and k: "k = length r div 16"
  shows "run_blocks f (length (p @ q) div 16) v (p @ q)
      = (fst (run_blocks f n v p) @ fst (run_blocks f k (snd (run_blocks f n v p)) r),
         snd (run_blocks f k (snd (run_blocks f n v p)) r))"
    and "drop (16 * (length (p @ q) div 16)) (p @ q) = drop (16 * k) r"
proof -
  have le: "16 * n \<le> length p" using n by simp
  have total: "length (p @ q) = 16 * n + length r" using le r by simp
  have len: "length (p @ q) div 16 = n + k" unfolding total k by simp
  have pq: "p @ q = take (16 * n) p @ r" unfolding r by (simp flip: append_assoc)
  have "run_blocks f (n + k) v (take (16 * n) p @ r)
      = (let (out, v') = run_blocks f n v (take (16 * n) p);
             (out', v'') = run_blocks f k v' r in (out @ out', v''))"
    by (rule run_blocks_append) (use le in simp)
  then show "run_blocks f (length (p @ q) div 16) v (p @ q)
      = (fst (run_blocks f n v p) @ fst (run_blocks f k (snd (run_blocks f n v p)) r),
         snd (run_blocks f k (snd (run_blocks f n v p)) r))"
    unfolding len unfolding pq using le by (simp add: run_blocks_take split_beta Let_def)
  show "drop (16 * (length (p @ q) div 16)) (p @ q) = drop (16 * k) r"
    unfolding len unfolding pq using le by simp
qed

lemma stream_updates_run:
  assumes "wf_obj obj" "flg = 0 \<or> flg = 1" "\<forall>m \<in> set ms. int (length m) + 16 \<le> cap"
  shows "\<exists>obj'. stream_updates obj ms cap flg =
      (let p = pending obj @ concat ms; n = length p div 16
       in Some (obj', fst (run_blocks (step_of obj flg) n (ivtmp obj) p)))
    \<and> wf_obj obj'
    \<and> (let p = pending obj @ concat ms; n = length p div 16 in pending obj' = drop (16 * n) p
        \<and> ivtmp obj' = snd (run_blocks (step_of obj flg) n (ivtmp obj) p))
    \<and> sm4key obj' = sm4key obj \<and> objmode obj' = objmode obj \<and> padtype obj' = padtype obj"
  using assms(1,3)
proof (induction ms arbitrary: obj)
  case Nil
  then have "leftsize obj < 16" by (simp add: wf_obj_def)
  with Nil show ?case by (auto simp: Let_def)
next
  case (Cons m ms)
  define p where "p = pending obj @ m"
  define n where "n = length p div 16"
  from sm4_UpdateBlock_run [OF Cons.prems(1) assms(2), of m cap] Cons.prems(2)
  obtain obj1 where 1: "sm4_UpdateBlock obj (Some m) (Some cap) flg
      = Some (0, obj1, fst (run_blocks (step_of obj flg) n (ivtmp obj) p), Some (16 * int n))"
    "wf_obj obj1" "pending obj1 = drop (16 * n) p"
    "ivtmp obj1 = snd (run_blocks (step_of obj flg) n (ivtmp obj) p)"
    "sm4key obj1 = sm4key obj" "objmode obj1 = objmode obj" "padtype obj1 = padtype obj"
    unfolding Let_def p_def [symmetric] n_def [symmetric] by auto
  define q where "q = pending obj1 @ concat ms"
  define k where "k = length q div 16"
  from Cons.IH [OF 1(2)] Cons.prems(2) obtain obj2 where 2: "stream_updates obj1 ms cap flg
      = Some (obj2, fst (run_blocks (step_of obj flg) k (ivtmp obj1) q))"
    "wf_obj obj2" "pending obj2 = drop (16 * k) q"
    "ivtmp obj2 = snd (run_blocks (step_of obj flg) k (ivtmp obj1) q)"
    "sm4key obj2 = sm4key obj" "objmode obj2 = objmode obj" "padtype obj2 = padtype obj"
    unfolding Let_def 1(5-7) q_def [symmetric] k_def [symmetric] by auto
  have cat: "pending obj @ concat (m # ms) = p @ concat ms" by (simp add: p_def)
  from run_blocks_extend [OF n_def q_def [unfolded 1(3)] k_def] 1 2 show ?case
    unfolding cat Let_def by (intro exI [of _ obj2]) simp
qed


section \<open>Equivalence with the one-shot routines\<close>

lemma run_blocks_ecb:
  "fst (run_blocks (block_step k 0 0) n v d) = ecb_loop (encrypt16 k) n d"
  by (induction n arbitrary: v d) (simp_all add: block_step_def Let_def split_beta)

lemma run_blocks_cbc: "run_blocks (block_step k 1 0) n v d = cbc_loop (encrypt16 k) n v d"
  by (induction n arbitrary: v d) (simp_all add: block_step_def Let_def split_beta)

lemma run_blocks_deecb: "run_blocks (block_step k 0 1) n v d = (ecb_loop (decrypt16 k) n d, v)"
  by (induction n arbitrary: v d) (simp_all add: block_step_def Let_def split_beta)

lemma run_blocks_decbc: "fst (run_blocks (block_step k 1 1) n v d) = decbc_loop (decrypt16 k) n v d"
  by (induction n arbitrary: v d) (simp_all add: block_step_def Let_def split_beta)

lemma run_blocks_last:
  assumes "16 * n \<le> length d" "length b = 16"
  shows "fst (run_blocks f (Suc n) v (take (16 * n) d @ b))
    = fst (run_blocks f n v d) @ store16 (fst (f (snd (run_blocks f n v d)) (load16 b)))"
  using run_blocks_append [of "take (16 * n) d" n f 1 v b] assms
  by (simp add: run_blocks_take split_beta Let_def)

text \<open>The final block of an encryption: the pending bytes are padded.\<close>

lemma sm4_FinalBlock_encrypt:
  assumes "wf_obj obj" "padtype obj \<noteq> 0" "16 \<le> cap"
  shows "\<exists>obj'. sm4_FinalBlock obj None cap 0 =
    (0, obj', store16 (fst (step_of obj 0 (ivtmp obj)
       (load16 (pending obj @ replicate (16 - leftsize obj) (of_nat (16 - leftsize obj)))))), 16)"
  using assms by (auto simp: sm4_FinalBlock_def Let_def split_beta wf_obj_def pending_def min_def)

text \<open>
  An encryption in pieces: every way to cut the text \<open>m\<close> into updates, followed by the final
  block, writes the blocks of the padded text.
\<close>

lemma stream_encrypt_run:
  assumes "wf_obj obj" "pending obj = []" "padtype obj \<noteq> 0" "16 \<le> cap2"
    "\<forall>m \<in> set ms. int (length m) + 16 \<le> cap"
  shows "\<exists>obj' out obj'' lst. stream_updates obj ms cap 0 = Some (obj', out)
    \<and> sm4_FinalBlock obj' None cap2 0 = (0, obj'', lst, 16)
    \<and> out @ lst = fst (run_blocks (step_of obj 0) (length (pkcs_pad (concat ms)) div 16)
         (ivtmp obj) (pkcs_pad (concat ms)))"
proof -
  define d where "d = concat ms"
  define n where "n = length d div 16"
  from stream_updates_run [OF assms(1) _ assms(5), of 0] obtain obj' where
    1: "stream_updates obj ms cap 0 = Some (obj', fst (run_blocks (step_of obj 0) n (ivtmp obj) d))"
      "wf_obj obj'" "pending obj' = drop (16 * n) d"
      "ivtmp obj' = snd (run_blocks (step_of obj 0) n (ivtmp obj) d)"
      "sm4key obj' = sm4key obj" "objmode obj' = objmode obj" "padtype obj' = padtype obj"
    unfolding assms(2) Let_def append_Nil d_def [symmetric] n_def [symmetric] by auto
  have ls: "leftsize obj' = length d mod 16"
    using length_pending [OF 1(2)] 1(3) by (simp add: n_def minus_mult_div_eq_mod)
  let ?b = "drop (16 * n) d @ replicate (pad_len (length d)) (of_nat (pad_len (length d)))"
  have b: "length ?b = 16" by (simp add: pad_len_def n_def)
  have pad: "pkcs_pad d = take (16 * n) d @ ?b" by (simp add: pkcs_pad_def)
  have len: "length (pkcs_pad d) div 16 = Suc n" by (subst pkcs_pad_div) (simp add: n_def)
  from sm4_FinalBlock_encrypt [OF 1(2) _ assms(4)] assms(3) 1(7) obtain obj'' where
    2: "sm4_FinalBlock obj' None cap2 0
      = (0, obj'', store16 (fst (step_of obj 0 (ivtmp obj') (load16 ?b))), 16)"
    unfolding 1(3,5,6) ls pad_len_def [symmetric] by auto
  have "16 * n \<le> length d" by (simp add: n_def)
  then have "fst (run_blocks (step_of obj 0) (Suc n) (ivtmp obj) (pkcs_pad d))
    = fst (run_blocks (step_of obj 0) n (ivtmp obj) d)
        @ store16 (fst (step_of obj 0 (ivtmp obj') (load16 ?b)))"
    unfolding pad 1(4) by (rule run_blocks_last) (rule b)
  then show ?thesis
    unfolding d_def [symmetric] len using 1(1) 2 by auto
qed

text \<open>The object \<open>sm4_InitBlock\<close> leaves.\<close>

lemma sm4_InitBlock_ok:
  assumes "0 \<le> flg" "flg \<le> 2" "mde = 0 \<or> mde = 1 \<and> ivp \<noteq> None"
  shows "\<exists>obj. sm4_InitBlock obj0 (Some key) flg mde padding ivp = (0, obj) \<and> wf_obj obj
    \<and> pending obj = [] \<and> objmode obj = mde \<and> padtype obj = (if padding = 0 then 0 else 1)
    \<and> sm4key obj = snd (sm4_SetKey (sm4key obj0) (Some key) flg)
    \<and> (mde = 1 \<longrightarrow> ivtmp obj = load16 (the ivp))"
  using assms
  by (auto simp: sm4_InitBlock_def sm4_SetKey_def Let_def wf_obj_def pending_def)


lemma run_blocks_pkcs_ecb:
  "fst (run_blocks (block_step k 0 0) (length (pkcs_pad d) div 16) v (pkcs_pad d))
     = concat (ecb_blocks (encrypt16 k) (blocks16 (pkcs_pad d)))"
  by (simp only: run_blocks_ecb blocks16_def) (rule ecb_loop_chunks, simp)

lemma run_blocks_pkcs_cbc:
  "fst (run_blocks (block_step k 1 0) (length (pkcs_pad d) div 16) v (pkcs_pad d))
     = concat (cbc_enc (encrypt16 k) v (blocks16 (pkcs_pad d)))"
  by (simp only: run_blocks_cbc blocks16_def) (rule cbc_loop_chunks, simp)

section \<open>Decryption\<close>

text \<open>
  The decryption as the callers do it: \<open>sm4_UpdateBlock\<close> on all but the last 16 bytes, then
  \<open>sm4_FinalBlock\<close> on the rest.
\<close>

lemma sm4_UpdateBlock_decrypt_ecb:
  assumes "wf_obj obj" "objmode obj = 0" "pending obj = []" "16 dvd length c" "int (length c) \<le> cap"
  shows "\<exists>obj'. sm4_UpdateBlock obj (Some c) (Some cap) 1
      = Some (0, obj', ecb_loop (decrypt16 (sm4key obj)) (length c div 16) c, Some (int (length c)))
    \<and> wf_obj obj' \<and> pending obj' = [] \<and> sm4key obj' = sm4key obj \<and> objmode obj' = 0
    \<and> padtype obj' = padtype obj"
proof -
  have cap: "0 + 16 * int (length (pending obj @ c) div 16) \<le> cap" using assms(3-5) by auto
  from update_loop_run [OF assms(1) _ cap, of 1 "[]"] obtain obj' where
    "update_loop obj c cap 1 0 [] = Some (0, obj',
       fst (run_blocks (step_of obj 1) (length c div 16) (ivtmp obj) c), 16 * int (length c div 16))"
    "wf_obj obj'" "pending obj' = drop (16 * (length c div 16)) c" "sm4key obj' = sm4key obj"
    "objmode obj' = objmode obj" "padtype obj' = padtype obj"
    unfolding assms(3) Let_def append_Nil by auto
  then show ?thesis
    using assms(2,4) by (auto simp: sm4_UpdateBlock_def run_blocks_deecb)
qed

lemma pad_ok_pkcs_last:
  assumes "length t + p = 16" "1 \<le> p"
  shows "pad_ok (t @ replicate p (of_nat p)) p" "unat ((t @ replicate p (of_nat p :: byte)) ! 15) = p"
proof -
  have nth: "unat ((t @ replicate p (of_nat p :: byte)) ! (16 - i)) = p" if "i \<in> {1..<Suc p}" for i
  proof -
    from that assms have "16 - i = length t + (p - i)" "p - i < p" "p \<le> 16" by auto
    then show ?thesis by (simp add: nth_append unat_of_nat)
  qed
  then show "pad_ok (t @ replicate p (of_nat p)) p"
    using assms by (auto simp: pad_ok_def list_all_iff simp del: upt_Suc)
  show "unat ((t @ replicate p (of_nat p :: byte)) ! 15) = p"
    using nth [of 1] assms(2) by simp
qed

lemma sm4_FinalBlock_decrypt_ecb:
  assumes "wf_obj obj" "objmode obj = 0" "pending obj = []" "padtype obj = 1" "length c = 16"
    "store16 (decrypt16 (sm4key obj) (load16 c)) = t @ replicate p (of_nat p)"
    "length t + p = 16" "1 \<le> p" "int (length t) \<le> cap"
  shows "\<exists>obj'. sm4_FinalBlock obj (Some c) cap 1 = (0, obj', t, int (length t))"
proof -
  have ls: "leftsize obj = 0" using length_pending [OF assms(1)] assms(3) by simp
  have t: "take (16 - p) (t @ replicate p (of_nat p :: byte)) = t" using assms(7) by simp
  have "16 - int p = int (length t)" using assms(7) by linarith
  then show ?thesis
    using assms(1,2,4-9) ls pad_ok_pkcs_last [OF assms(7,8)] t
    by (auto simp: sm4_FinalBlock_def Let_def block_step_def wf_obj_def)
qed


lemma encrypt16_ERK: "length b = 4 \<Longrightarrow> ERK k = ERK k' \<Longrightarrow> encrypt16 k b = encrypt16 k' b"
  by (simp add: encrypt16_block)

lemma ecb_blocks_ERK: "ERK k = ERK k' \<Longrightarrow> ecb_blocks (encrypt16 k) bs = ecb_blocks (encrypt16 k') bs"
  by (simp add: ecb_blocks_def encrypt16_ERK [of _ k k'])

lemma ecb_loop_inverse:
  assumes "wf_key k" "16 * n \<le> length d"
  shows "ecb_loop (decrypt16 k) n (concat (ecb_blocks (encrypt16 k) (chunks 16 n d))) = take (16 * n) d"
  using assms(2)
proof (induction n arbitrary: d)
  case (Suc n)
  have "load16 (take 16 d) = load16 d" using load16_take [of d "[]"] Suc.prems by simp
  moreover have "store16 (load16 d) = take 16 d"
    using store_load16 [of "take 16 d"] calculation Suc.prems by simp
  ultimately show ?case
    using Suc block_cipher.D_E [OF wf_key_cipher [OF assms(1)], of "load16 d"]
    by (simp add: ecb_blocks_def take_add)
qed simp

lemma ecb_blocks_append: "ecb_blocks f (as @ bs) = ecb_blocks f as @ ecb_blocks f bs"
  by (simp add: ecb_blocks_def)

text \<open>The two calls recover the plaintext of an encryption under the same key schedule.\<close>

lemma stream_decrypt_ecb:
  assumes obj: "wf_obj obj" "objmode obj = 0" "pending obj = []" "padtype obj = 1" "wf_key (sm4key obj)"
    and key: "ERK k = ERK (sm4key obj)"
    and c: "c = concat (ecb_blocks (encrypt16 k) (blocks16 (pkcs_pad d)))"
    and u: "u = length c - 16" and cap: "int (length d) \<le> cap"
  shows "\<exists>obj' obj'' o1 o2. sm4_UpdateBlock obj (Some (take u c)) (Some cap) 1
      = Some (0, obj', o1, Some (int u))
    \<and> sm4_FinalBlock obj' (Some (drop u c)) (cap - int u) 1 = (0, obj'', o2, int (length o2))
    \<and> length o1 = u \<and> o1 @ o2 = d"
proof -
  let ?k = "sm4key obj" and ?n = "length d div 16"
  let ?p = "pad_len (length d)"
  let ?t = "drop (16 * ?n) d"
  let ?b = "?t @ replicate ?p (of_nat ?p)"
  let ?pre = "concat (ecb_blocks (encrypt16 ?k) (chunks 16 ?n d))"
  let ?lst = "store16 (encrypt16 ?k (load16 ?b))"
  have b: "length ?b = 16" by (simp add: pad_len_def)
  have cs: "c = ?pre @ ?lst"
    unfolding c ecb_blocks_ERK [OF key] blocks16_pkcs_pad by simp
  have pre: "length ?pre = 16 * ?n"
    using length_concat16 [OF ecb_blocks_16, of "encrypt16 ?k" "chunks 16 ?n d"] by (simp add: ecb_blocks_def)
  then have u': "u = 16 * ?n" "take u c = ?pre" "drop u c = ?lst" unfolding u cs by simp_all
  have "int (length ?pre) \<le> cap" using cap pre by linarith
  from sm4_UpdateBlock_decrypt_ecb [OF obj(1-3) _ this] pre obtain obj' where
    1: "sm4_UpdateBlock obj (Some ?pre) (Some cap) 1
        = Some (0, obj', ecb_loop (decrypt16 ?k) ?n ?pre, Some (int (16 * ?n)))"
      "wf_obj obj'" "pending obj' = []" "sm4key obj' = ?k" "objmode obj' = 0" "padtype obj' = 1"
    using obj(4) by auto
  have o1: "ecb_loop (decrypt16 ?k) ?n ?pre = take (16 * ?n) d"
    by (rule ecb_loop_inverse [OF obj(5)]) simp
  have "store16 (decrypt16 ?k (load16 ?lst)) = ?b"
    using block_cipher.D_E [OF wf_key_cipher [OF obj(5)], of "load16 ?b"] b by simp
  then have 2: "\<exists>obj''. sm4_FinalBlock obj' (Some ?lst) (cap - int u) 1 = (0, obj'', ?t, int (length ?t))"
    using 1 cap b pad_len_range(1) [of "length d"] u'(1)
    by (intro sm4_FinalBlock_decrypt_ecb [where p = ?p]) auto
  show ?thesis unfolding u'(2,3) using 1(1) 2 o1 u'(1) by auto
qed

section \<open>Properties\<close>

text \<open>
  \<^bold>\<open>C32\<close> An ECB encryption in pieces equals the one-shot encryption: after \<open>sm4_InitBlock\<close> with PKCS
  padding, for every way to cut the text into calls of \<open>sm4_UpdateBlock\<close> with large enough output
  buffers, the updates and \<open>sm4_FinalBlock\<close> succeed and write exactly what \<open>enin_sm4\<close> writes.
\<close>

theorem stream_ecb_eq_oneshot:
  assumes "padding \<noteq> 0" "16 \<le> cap" "list_all (\<lambda>m. int (length m) + 16 \<le> cap) ms"
    "int (length (concat ms)) + 16 \<le> cap'"
  shows "\<exists>obj obj' out obj'' lst n. sm4_InitBlock obj0 (Some key) 0 0 padding None = (0, obj)
    \<and> stream_updates obj ms cap 0 = Some (obj', out)
    \<and> sm4_FinalBlock obj' None cap 0 = (0, obj'', lst, 16)
    \<and> enin_sm4 (concat ms) cap' (sm4key obj) 1 = (0, out @ lst, n)"
proof -
  obtain obj where obj: "sm4_InitBlock obj0 (Some key) 0 0 padding None = (0, obj)" "wf_obj obj"
    "pending obj = []" "objmode obj = 0" "padtype obj \<noteq> 0"
    using sm4_InitBlock_ok [of 0 0 None obj0 key padding] assms(1) by auto
  have "int (length (pkcs_pad (concat ms))) \<le> cap'"
    using assms(4) pad_len_range(2) [of "length (concat ms)"] by simp
  then have one: "enin_sm4 (concat ms) cap' (sm4key obj) 1
      = (0, concat (ecb_blocks (encrypt16 (sm4key obj)) (blocks16 (pkcs_pad (concat ms)))),
         int (length (pkcs_pad (concat ms))))"
    by (intro enin_sm4_pkcs) simp_all
  from stream_encrypt_run [OF obj(2,3,5) assms(2)] assms(3) show ?thesis
    unfolding list_all_iff obj(4) run_blocks_pkcs_ecb using obj(1) one by fastforce
qed

theorem stream_ecb_eq_oneshot_witness:
  "\<exists>obj obj' out obj'' lst n.
     sm4_InitBlock \<lparr>sm4key = \<lparr>ERK = [], DRK = [], MK = []\<rparr>, sm4iv = [], ivtmp = [], leftbuf = [],
         objflag = 0, objmode = 0, leftsize = 0, padtype = 0\<rparr> (Some (replicate 16 0x11)) 0 0 1 None = (0, obj)
    \<and> stream_updates obj [[1, 2, 3], [4, 5]] 64 0 = Some (obj', out)
    \<and> sm4_FinalBlock obj' None 64 0 = (0, obj'', lst, 16)
    \<and> enin_sm4 (concat [[1, 2, 3], [4, 5]]) 64 (sm4key obj) 1 = (0, out @ lst, n)"
  by (rule stream_ecb_eq_oneshot) simp_all

text \<open>
  A CBC encryption in pieces equals the one-shot \<open>sm4_CBC\<close>, under the same cut and buffer
  conditions.
\<close>

theorem stream_cbc_eq_oneshot:
  assumes "padding \<noteq> 0" "16 \<le> cap" "list_all (\<lambda>m. int (length m) + 16 \<le> cap) ms"
  shows "\<exists>obj obj' out obj'' lst n. sm4_InitBlock obj0 (Some key) 0 1 padding (Some v) = (0, obj)
    \<and> stream_updates obj ms cap 0 = Some (obj', out)
    \<and> sm4_FinalBlock obj' None cap 0 = (0, obj'', lst, 16)
    \<and> sm4_CBC (Some (concat ms)) (Some v) (sm4key obj) cap' = (0, out @ lst, n)"
proof -
  obtain obj where obj: "sm4_InitBlock obj0 (Some key) 0 1 padding (Some v) = (0, obj)" "wf_obj obj"
    "pending obj = []" "objmode obj = 1" "padtype obj \<noteq> 0" "ivtmp obj = load16 v"
    using sm4_InitBlock_ok [of 0 1 "Some v" obj0 key padding] assms(1) by auto
  from stream_encrypt_run [OF obj(2,3,5) assms(2)] assms(3) show ?thesis
    unfolding list_all_iff obj(4,6) run_blocks_pkcs_cbc sm4_CBC_cbc using obj(1) by fastforce
qed

end
