(* ===== verification/Base64.thy ===== *)
theory Base64
  imports AstPrelude
begin

text \<open>
  The text encodings of \<open>src/public/astPackage/astpackage.cpp\<close>: the Base64 routines
  \<open>astPackage::encode\<close> and \<open>astPackage::decode\<close> and the hexadecimal reader \<open>astPackage::AToByte\<close>.

  C strings are lists of bytes without the terminating zero.  \<open>decode\<close> writes into a buffer whose
  previous content is an argument: it also writes the byte behind the decoded data when there is
  room, so the buffer, and not only the decoded prefix, is part of its result.
\<close>

unbundle bit_operations_syntax

section \<open>Routines\<close>

definition BASE64DECODE :: "byte list" where
  "BASE64DECODE = [
     0xff, 0xff, 0xff, 0xff, 0xff, 0xff, 0xff, 0xff, 0xff, 0xff, 0xff, 0xff, 0xff, 0xff, 0xff, 0xff,
     0xff, 0xff, 0xff, 0xff, 0xff, 0xff, 0xff, 0xff, 0xff, 0xff, 0xff, 0xff, 0xff, 0xff, 0xff, 0xff,
     0xff, 0xff, 0xff, 0xff, 0xff, 0xff, 0xff, 0xff, 0xff, 0xff, 0xff, 0x3e, 0xff, 0xff, 0xff, 0x3f,
     0x34, 0x35, 0x36, 0x37, 0x38, 0x39, 0x3a, 0x3b, 0x3c, 0x3d, 0xff, 0xff, 0xff, 0x40, 0xff, 0xff,
     0xff, 0x00, 0x01, 0x02, 0x03, 0x04, 0x05, 0x06, 0x07, 0x08, 0x09, 0x0a, 0x0b, 0x0c, 0x0d, 0x0e,
     0x0f, 0x10, 0x11, 0x12, 0x13, 0x14, 0x15, 0x16, 0x17, 0x18, 0x19, 0xff, 0xff, 0xff, 0xff, 0xff,
     0xff, 0x1a, 0x1b, 0x1c, 0x1d, 0x1e, 0x1f, 0x20, 0x21, 0x22, 0x23, 0x24, 0x25, 0x26, 0x27, 0x28,
     0x29, 0x2a, 0x2b, 0x2c, 0x2d, 0x2e, 0x2f, 0x30, 0x31, 0x32, 0x33, 0xff, 0xff, 0xff, 0xff, 0xff,
     0xff, 0xff, 0xff, 0xff, 0xff, 0xff, 0xff, 0xff, 0xff, 0xff, 0xff, 0xff, 0xff, 0xff, 0xff, 0xff,
     0xff, 0xff, 0xff, 0xff, 0xff, 0xff, 0xff, 0xff, 0xff, 0xff, 0xff, 0xff, 0xff, 0xff, 0xff, 0xff,
     0xff, 0xff, 0xff, 0xff, 0xff, 0xff, 0xff, 0xff, 0xff, 0xff, 0xff, 0xff, 0xff, 0xff, 0xff, 0xff,
     0xff, 0xff, 0xff, 0xff, 0xff, 0xff, 0xff, 0xff, 0xff, 0xff, 0xff, 0xff, 0xff, 0xff, 0xff, 0xff,
     0xff, 0xff, 0xff, 0xff, 0xff, 0xff, 0xff, 0xff, 0xff, 0xff, 0xff, 0xff, 0xff, 0xff, 0xff, 0xff,
     0xff, 0xff, 0xff, 0xff, 0xff, 0xff, 0xff, 0xff, 0xff, 0xff, 0xff, 0xff, 0xff, 0xff, 0xff, 0xff,
     0xff, 0xff, 0xff, 0xff, 0xff, 0xff, 0xff, 0xff, 0xff, 0xff, 0xff, 0xff, 0xff, 0xff, 0xff, 0xff,
     0xff, 0xff, 0xff, 0xff, 0xff, 0xff, 0xff, 0xff, 0xff, 0xff, 0xff, 0xff, 0xff, 0xff, 0xff, 0xff]"

definition base64digits :: "byte list" where
  "base64digits = map of_char ''ABCDEFGHIJKLMNOPQRSTUVWXYZabcdefghijklmnopqrstuvwxyz0123456789+/''"

definition digit :: "byte \<Rightarrow> byte" where
  "digit x = base64digits ! unat x"

text \<open>The character \<open>=\<close>.\<close>

definition pad_char :: byte where "pad_char = 0x3d"

fun encode :: "byte list \<Rightarrow> byte list" where
  "encode (a # b # c # inp) =
     digit (drop_bit 2 a) # digit ((push_bit 4 a AND 0x30) OR drop_bit 4 b)
       # digit ((push_bit 2 b AND 0x3c) OR drop_bit 6 c) # digit (c AND 0x3f) # encode inp"
| "encode [a, b] =
     [digit (drop_bit 2 a), digit ((push_bit 4 a AND 0x30) OR drop_bit 4 b),
      digit (push_bit 2 b AND 0x3c), pad_char]"
| "encode [a] = [digit (drop_bit 2 a), digit (push_bit 4 a AND 0x30), pad_char, pad_char]"
| "encode [] = []"

text \<open>
  The switch of \<open>decode\<close>: \<open>r\<close> is \<open>i % 4\<close>, \<open>pos\<close> the offset of \<open>out\<close> and \<open>cap\<close> that of \<open>pEnd\<close>.
\<close>

definition decode_step :: "nat \<Rightarrow> byte \<Rightarrow> byte list \<Rightarrow> nat \<Rightarrow> nat \<Rightarrow> byte list \<times> nat" where
  "decode_step r u buf pos cap =
     (if r = 0 then (buf[pos := push_bit 2 u], pos)
      else if r = 1
      then let buf1 = buf[pos := buf ! pos OR drop_bit 4 u]
           in (if Suc pos \<ge> cap then buf1 else buf1[Suc pos := push_bit 4 u], Suc pos)
      else if r = 2
      then let buf1 = buf[pos := buf ! pos OR drop_bit 2 u]
           in (if Suc pos \<ge> cap then buf1 else buf1[Suc pos := push_bit 6 u], Suc pos)
      else (buf[pos := buf ! pos OR u], Suc pos))"

fun decode_loop :: "nat \<Rightarrow> byte list \<Rightarrow> byte list \<Rightarrow> nat \<Rightarrow> nat \<Rightarrow> byte list \<times> nat" where
  "decode_loop i [] buf pos cap = (buf, pos)"
| "decode_loop i (c # cs) buf pos cap =
     (if \<not> pos < cap then (buf, pos)
      else let uCode = BASE64DECODE ! unat c
           in if uCode \<ge> 64 then (buf, pos)
              else let (buf', pos') = decode_step (i mod 4) uCode buf pos cap
                   in decode_loop (Suc i) cs buf' pos' cap)"

text \<open>\<open>decode(base64code, strlen, out, outlen)\<close>: the new buffer and the new \<open>outlen\<close>.\<close>

definition decode :: "byte list \<Rightarrow> byte list \<Rightarrow> nat \<Rightarrow> byte list \<times> nat" where
  "decode base64code out outlen = decode_loop 0 base64code out 0 outlen"

text \<open>One hexadecimal digit as \<open>AToByte\<close> reads it; any other character counts as 0.\<close>

definition hex_digit :: "byte \<Rightarrow> byte" where
  "hex_digit c =
     (if 0x30 \<le> c \<and> c \<le> 0x39 then c - 0x30
      else if 0x41 \<le> c \<and> c \<le> 0x46 then c - 0x41 + 10
      else if 0x61 \<le> c \<and> c \<le> 0x66 then c - 0x61 + 10
      else 0)"

text \<open>
  \<open>AToByte(asc, out, outlen)\<close>: the bytes written; \<open>asc\<close> has at least \<open>2 * outlen\<close> characters at
  its call site.  The assignment \<open>m_nAidLen = outlen\<close> is made by the caller of this function in the model.
\<close>

definition AToByte :: "byte list \<Rightarrow> nat \<Rightarrow> byte list" where
  "AToByte asc outlen =
     map (\<lambda>k. push_bit 4 (hex_digit (asc ! (2 * k))) + hex_digit (asc ! (2 * k + 1))) [0..<outlen]"

section \<open>Digits\<close>

lemma length_base64digits: "length base64digits = 64"
  by (simp add: base64digits_def)

lemma BASE64DECODE_digits:
  "n < 64 \<Longrightarrow> BASE64DECODE ! unat (base64digits ! n) = of_nat n"
proof -
  assume n: "n < 64"
  have "map (\<lambda>x. BASE64DECODE ! unat x) base64digits = map of_nat [0..<64]"
    by (simp add: BASE64DECODE_def base64digits_def upt_conv_Cons)
  from arg_cong [OF this, of "\<lambda>xs. xs ! n"] n show ?thesis
    by (simp add: length_base64digits del: upt_rec_numeral)
qed

lemma BASE64DECODE_pad: "BASE64DECODE ! unat pad_char = 0x40"
  by (simp add: BASE64DECODE_def pad_char_def)

lemma BASE64DECODE_digit [simp]: "x < 64 \<Longrightarrow> BASE64DECODE ! unat (digit x) = x"
  by (simp add: digit_def BASE64DECODE_digits word_less_nat_alt)

lemma masks:
  "(0x3f :: byte) = mask 6" "(0x30 :: byte) = push_bit 4 (mask 2)" "(0x3c :: byte) = push_bit 2 (mask 4)"
  by (simp_all add: mask_eq_exp_minus_1)

lemma less_64I:
  assumes "\<And>n. 6 \<le> n \<Longrightarrow> \<not> bit (x :: byte) n" shows "x < 64"
proof -
  have "take_bit 6 x = x"
    by (rule bit_word_eqI) (use assms in \<open>auto simp: bit_simps intro: leI\<close>)
  then have "unat x = take_bit 6 (unat x)" by (metis unsigned_take_bit_eq)
  moreover have "take_bit 6 (unat x) < 2 ^ 6" by (rule take_bit_nat_less_exp)
  ultimately show ?thesis by (simp add: word_less_nat_alt)
qed

lemma digit_codes [simp]:
  fixes a b :: byte
  shows "drop_bit 2 a < 64" "a AND 0x3f < 64" "(push_bit 4 a AND 0x30) OR drop_bit 4 b < 64"
    "(push_bit 2 a AND 0x3c) OR drop_bit 6 b < 64" "push_bit 2 a AND 0x3c < 64"
    "push_bit 4 a AND 0x30 < 64"
  unfolding masks by (rule less_64I; auto simp: bit_simps bit_byte_range)+

lemma byte_eqI:
  fixes a b :: byte
  assumes "bit a 0 = bit b 0" "bit a 1 = bit b 1" "bit a 2 = bit b 2" "bit a 3 = bit b 3"
    "bit a 4 = bit b 4" "bit a 5 = bit b 5" "bit a 6 = bit b 6" "bit a 7 = bit b 7"
  shows "a = b"
proof (rule bit_word_eqI)
  fix n assume "n < LENGTH(8)"
  then have "n \<in> {0, 1, 2, 3, 4, 5, 6, 7}" by auto
  then show "bit a n = bit b n" using assms by auto
qed

text \<open>Reassembling the bytes from the six-bit groups.\<close>

lemma join_bytes:
  fixes a b c :: byte
  shows "push_bit 2 (drop_bit 2 a) OR drop_bit 4 ((push_bit 4 a AND 0x30) OR drop_bit 4 b) = a"
    and "push_bit 4 ((push_bit 4 a AND 0x30) OR drop_bit 4 b)
           OR drop_bit 2 ((push_bit 2 b AND 0x3c) OR drop_bit 6 c) = b"
    and "push_bit 6 ((push_bit 2 b AND 0x3c) OR drop_bit 6 c) OR (c AND 0x3f) = c"
    and "push_bit 2 (drop_bit 2 a) OR drop_bit 4 (push_bit 4 a AND 0x30) = a"
    and "push_bit 4 ((push_bit 4 a AND 0x30) OR drop_bit 4 b) OR drop_bit 2 (push_bit 2 b AND 0x3c) = b"
  unfolding masks by (rule byte_eqI; simp add: bit_simps bit_byte_range)+

lemma not_code64: "x < 64 \<Longrightarrow> \<not> (64 :: byte) \<le> x"
  by simp

lemma mod4_steps:
  assumes "i mod 4 = 0"
  shows "Suc i mod 4 = 1" "Suc (Suc i) mod 4 = 2" "Suc (Suc (Suc i)) mod 4 = 3"
    "Suc (Suc (Suc (Suc i))) mod 4 = 0"
  using assms by presburger+

lemma decode_digit:
  assumes "pos < cap" "x < 64"
  shows "decode_loop i (digit x # cs) buf pos cap
    = (let (buf', pos') = decode_step (i mod 4) x buf pos cap in decode_loop (Suc i) cs buf' pos' cap)"
  using assms by (simp add: Let_def not_code64)

lemma decode_two:
  assumes "i mod 4 = 0" "pos < cap" "cap \<le> length buf" "x < 64" "y < 64"
  shows "decode_loop i (digit x # digit y # cs) buf pos cap
    = decode_loop (i + 2) cs
        (if Suc pos \<ge> cap then buf[pos := push_bit 2 x OR drop_bit 4 y]
         else buf[pos := push_bit 2 x OR drop_bit 4 y, Suc pos := push_bit 4 y]) (Suc pos) cap"
  using assms mod4_steps [OF assms(1)]
  by (simp add: decode_digit decode_step_def Let_def del: decode_loop.simps)

lemma decode_three:
  assumes "i mod 4 = 0" "pos + 1 < cap" "cap \<le> length buf" "x < 64" "y < 64" "z < 64"
  shows "decode_loop i (digit x # digit y # digit z # cs) buf pos cap
    = decode_loop (i + 3) cs
        (let buf1 = buf[pos := push_bit 2 x OR drop_bit 4 y, Suc pos := push_bit 4 y OR drop_bit 2 z]
         in if pos + 2 \<ge> cap then buf1 else buf1[pos + 2 := push_bit 6 z]) (pos + 2) cap"
proof -
  let ?buf = "buf[pos := push_bit 2 x OR drop_bit 4 y, Suc pos := push_bit 4 y]"
  have i2: "(i + 2) mod 4 = 2" "Suc (i + 2) = i + 3" "Suc (Suc pos) = pos + 2"
    using mod4_steps(2) [OF assms(1)] by simp_all
  have "decode_loop i (digit x # digit y # digit z # cs) buf pos cap
      = decode_loop (i + 2) (digit z # cs) ?buf (Suc pos) cap"
    using assms by (subst decode_two) simp_all
  also have "\<dots> = decode_loop (i + 3) cs
      (let buf1 = ?buf[Suc pos := ?buf ! Suc pos OR drop_bit 2 z]
       in if pos + 2 \<ge> cap then buf1 else buf1[pos + 2 := push_bit 6 z]) (pos + 2) cap"
    using assms(2,6) by (subst decode_digit) (simp_all only: decode_step_def i2 Let_def, simp_all)
  also have "?buf ! Suc pos = push_bit 4 y" using assms(2,3) by simp
  finally show ?thesis by (simp only: list_update_overwrite)
qed

lemma decode_four:
  assumes "i mod 4 = 0" "pos + 2 < cap" "cap \<le> length buf" "x < 64" "y < 64" "z < 64" "w < 64"
  shows "decode_loop i (digit x # digit y # digit z # digit w # cs) buf pos cap
    = decode_loop (i + 4) cs (buf[pos := push_bit 2 x OR drop_bit 4 y,
        Suc pos := push_bit 4 y OR drop_bit 2 z, pos + 2 := push_bit 6 z OR w]) (pos + 3) cap"
proof -
  let ?buf = "buf[pos := push_bit 2 x OR drop_bit 4 y, Suc pos := push_bit 4 y OR drop_bit 2 z,
    pos + 2 := push_bit 6 z]"
  have i3: "(i + 3) mod 4 = 3" "Suc (i + 3) = i + 4" "Suc (pos + 2) = pos + 3" 
    using mod4_steps(3) [OF assms(1)] by (simp_all add: add.commute)
  have "decode_loop i (digit x # digit y # digit z # digit w # cs) buf pos cap
      = decode_loop (i + 3) (digit w # cs) ?buf (pos + 2) cap"
    using assms by (subst decode_three) (simp_all add: Let_def)
  also have "\<dots> = decode_loop (i + 4) cs (?buf[pos + 2 := ?buf ! (pos + 2) OR w]) (pos + 3) cap"
    using assms(2,7) by (subst decode_digit) (simp_all only: decode_step_def i3, simp)
  also have "?buf ! (pos + 2) = push_bit 6 z" using assms(2,3) by simp
  finally show ?thesis by (simp only: list_update_overwrite)
qed

lemma decode_stop: "decode_loop i (pad_char # cs) buf pos cap = (buf, pos)"
  by (simp add: BASE64DECODE_pad)

lemma take_updates:
  "pos + 3 \<le> length buf \<Longrightarrow> take (pos + 3) (buf[pos := a, Suc pos := b, pos + 2 := c]) = take pos buf @ [a, b, c]"
  "pos + 2 \<le> length buf \<Longrightarrow> take (Suc (Suc pos)) (buf[pos := a, Suc pos := b]) = take pos buf @ [a, b]"
  "pos + 1 \<le> length buf \<Longrightarrow> take (Suc pos) (buf[pos := a]) = take pos buf @ [a]"
  by (rule nth_equalityI; auto simp: nth_append nth_list_update nth_Cons' less_Suc_eq)+

lemma decode_encode_loop:
  "i mod 4 = 0 \<Longrightarrow> pos + length d \<le> cap \<Longrightarrow> cap \<le> length buf
    \<Longrightarrow> \<exists>buf'. decode_loop i (encode d) buf pos cap = (buf', pos + length d)
          \<and> take (pos + length d) buf' = take pos buf @ d \<and> length buf' = length buf"
proof (induction d arbitrary: i buf pos rule: encode.induct)
  case (1 a b c d)
  let ?buf = "buf[pos := a, Suc pos := b, pos + 2 := c]"
  have "decode_loop i (encode (a # b # c # d)) buf pos cap = decode_loop (i + 4) (encode d) ?buf (pos + 3) cap"
    using "1.prems" unfolding encode.simps by (subst decode_four) (simp_all only: digit_codes join_bytes, simp_all)
  moreover obtain buf' where "decode_loop (i + 4) (encode d) ?buf (pos + 3) cap = (buf', pos + 3 + length d)"
    "length buf' = length buf" "take (pos + 3 + length d) buf' = take (pos + 3) ?buf @ d"
    using "1.IH" [of "i + 4" "pos + 3" ?buf] "1.prems" by auto
  ultimately show ?case
    using "1.prems" take_updates(1) [of pos buf a b c] by (simp add: numeral_3_eq_3)
next
  case (2 a b)
  then show ?case
    unfolding encode.simps
    by (subst decode_three) (simp_all only: digit_codes join_bytes decode_stop Let_def,
        auto simp: take_updates(2))
next
  case (3 a)
  then show ?case
    unfolding encode.simps
    by (subst decode_two) (simp_all only: digit_codes join_bytes decode_stop Let_def,
        auto simp: take_updates(3))
qed simp

lemma length_encode: "length (encode d) = 4 * ((length d + 2) div 3)"
proof (induction d rule: encode.induct)
  case (1 a b c d)
  have "(length (a # b # c # d) + 2) div 3 = Suc ((length d + 2) div 3)"
    using div_add_self2 [of 3 "length d + 2"] by (simp add: add.commute)
  with 1 show ?case by simp
qed simp_all

section \<open>Bounds\<close>

lemma decode_step_bounds:
  assumes "pos < cap"
  shows "snd (decode_step r u buf pos cap) \<le> cap"
    and "drop cap (fst (decode_step r u buf pos cap)) = drop cap buf"
    and "length (fst (decode_step r u buf pos cap)) = length buf"
  using assms by (auto simp: decode_step_def Let_def)

lemma decode_loop_bounds:
  "pos \<le> cap \<Longrightarrow> snd (decode_loop i cs buf pos cap) \<le> cap
     \<and> drop cap (fst (decode_loop i cs buf pos cap)) = drop cap buf
     \<and> length (fst (decode_loop i cs buf pos cap)) = length buf"
proof (induction cs arbitrary: i buf pos)
  case (Cons c cs)
  show ?case
  proof (cases "pos < cap \<and> \<not> BASE64DECODE ! unat c \<ge> 64")
    case True
    then show ?thesis
      using Cons.IH decode_step_bounds [of pos cap "i mod 4" "BASE64DECODE ! unat c" buf]
      by (simp add: Let_def split_beta)
  next
    case False
    then show ?thesis using Cons.prems by (auto simp: Let_def)
  qed
qed simp

section \<open>Hexadecimal\<close>

text \<open>The hexadecimal text of a byte string, as the server sends an agent id.\<close>

definition hex_char :: "byte \<Rightarrow> byte" where
  "hex_char n = (if n < 10 then 0x30 + n else 0x41 + (n - 10))"

definition hex_of :: "byte list \<Rightarrow> byte list" where
  "hex_of d = concat (map (\<lambda>b. [hex_char (drop_bit 4 b), hex_char (take_bit 4 b)]) d)"

lemma hex_digit_char: "n < 16 \<Longrightarrow> hex_digit (hex_char n) = n"
proof -
  assume "n < 16"
  then have "unat n \<in> {0..<16}" by (simp add: word_less_nat_alt)
  then have "(of_nat (unat n) :: byte) \<in> of_nat ` set [0..<16]" by (intro imageI) simp
  then have "n \<in> of_nat ` set [0..<16]" by (simp only: of_nat_unat ucast_id)
  moreover have "\<forall>x \<in> set (map of_nat [0..<16]). hex_digit (hex_char x) = (x :: byte)"
    by (simp add: upt_conv_Cons hex_digit_def hex_char_def)
  ultimately show ?thesis by (simp only: set_map)
qed

lemma nibbles: "drop_bit 4 (b :: byte) < 16" "take_bit 4 b < 16" "push_bit 4 (drop_bit 4 b) + take_bit 4 b = b"
proof -
  show "drop_bit 4 b < 16"
    using unsigned_less [of b, where ?'a = nat] unat_drop_bit_eq [of 4 b]
    by (simp add: word_less_nat_alt) (simp add: drop_bit_eq_div)
  show "take_bit 4 b < 16"
    using take_bit_nat_less_exp [of 4 "unat b"] by (simp add: word_less_nat_alt unsigned_take_bit_eq)
  show "push_bit 4 (drop_bit 4 b) + take_bit 4 b = b" by (rule bits_ident [of 4])
qed

lemma hex_of_nth:
  "k < length d \<Longrightarrow> hex_of d ! (2 * k) = hex_char (drop_bit 4 (d ! k))
     \<and> hex_of d ! (2 * k + 1) = hex_char (take_bit 4 (d ! k))"
proof (induction d arbitrary: k)
  case (Cons b d)
  then show ?case by (cases k) (simp_all add: hex_of_def)
qed simp

lemma AToByte_hex_of: "AToByte (hex_of d) (length d) = d"
proof (rule nth_equalityI)
  fix k assume "k < length (AToByte (hex_of d) (length d))"
  then have k: "k < length d" by (simp add: AToByte_def)
  then show "AToByte (hex_of d) (length d) ! k = d ! k"
    using hex_of_nth [OF k] by (simp add: AToByte_def hex_digit_char nibbles del: One_nat_def)
qed (simp add: AToByte_def)

lemma length_hex_of [simp]: "length (hex_of d) = 2 * length d"
  by (induction d) (simp_all add: hex_of_def)

lemma decode_encode:
  assumes "length d \<le> outlen" "outlen \<le> length buf"
  obtains buf' where "decode (encode d) buf outlen = (buf', length d)" "take (length d) buf' = d"
    "length buf' = length buf"
  using decode_encode_loop [of 0 0 d outlen buf] assms by (auto simp: decode_def)

section \<open>Texts without a zero byte\<close>

lemma digit_not_zero: "x < 64 \<Longrightarrow> digit x \<noteq> 0"
proof
  assume "x < 64" "digit x = 0"
  then have "x = 0xff" using BASE64DECODE_digit [of x] by (simp add: BASE64DECODE_def)
  with \<open>x < 64\<close> show False by simp
qed

lemma encode_not_zero: "0 \<notin> set (encode d)"
  by (induction d rule: encode.induct) (use digit_not_zero digit_codes in \<open>force simp: pad_char_def\<close>)+

lemma hex_not_zero: "0 \<notin> set (hex_of d)"
proof -
  have "hex_char n \<noteq> 0" if "n < 16" for n using hex_digit_char [OF that]
    that by (auto simp: hex_char_def hex_digit_def)
  then have "hex_char (drop_bit 4 b) \<noteq> 0" "hex_char (take_bit 4 b) \<noteq> 0" for b using nibbles [of b] by auto
  then show ?thesis by (auto simp: hex_of_def)
qed

section \<open>Properties\<close>

text \<open>
  \<^bold>\<open>C35\<close> Base64 round trip: \<open>decode\<close> of the text that \<open>encode\<close> wrote, into a buffer with room for
  the data, reports the data's length and leaves the data at the front of the buffer.
\<close>

theorem base64_roundtrip:
  assumes "length d \<le> outlen" "outlen \<le> length buf"
  shows "\<exists>buf'. decode (encode d) buf outlen = (buf', length d) \<and> take (length d) buf' = d"
  using decode_encode [OF assms] by metis

theorem base64_roundtrip_witness:
  "\<exists>buf'. decode (encode [1, 2, 3, 4]) (replicate 8 0) 8 = (buf', length ([1, 2, 3, 4] :: byte list))
     \<and> take (length ([1, 2, 3, 4] :: byte list)) buf' = [1, 2, 3, 4]"
  by (rule base64_roundtrip) simp_all

text \<open>
  \<^bold>\<open>C37\<close> \<open>decode\<close> stays in its buffer on every input, Base64 or not: the reported length is at
  most the capacity and no byte at or behind the capacity changes.
\<close>

theorem decode_in_bounds:
  "snd (decode code buf outlen) \<le> outlen \<and> drop outlen (fst (decode code buf outlen)) = drop outlen buf
     \<and> length (fst (decode code buf outlen)) = length buf"
  unfolding decode_def by (rule decode_loop_bounds) simp

text \<open>
  \<open>AToByte\<close> reads back the hexadecimal text of every byte string.
\<close>

theorem AToByte_hex: "AToByte (hex_of d) (length d) = d"
  by (rule AToByte_hex_of)

end
