(* ===== verification/AstPackage.thy ===== *)
theory AstPackage
  imports SM3 SM4_Stream Base64
begin

text \<open>
  The message layer of \<open>src/public/astPackage/astpackage.cpp\<close>: the 32-byte header, the class
  \<open>astPackage\<close> with its keys, and the operations that build, check and open messages
  (\<open>PutData\<close>, \<open>GetData\<close>, \<open>GetMsgLen\<close>), protect data under an id (\<open>MacByID\<close>, \<open>EncryptByID\<close>,
  \<open>DecryptByID\<close>) and take over a registration answer (\<open>InitReg\<close>).

  Memory a routine writes through a pointer is a list of bytes that is passed in and returned;
  reference parameters are passed in and returned as well.  The result \<^term>\<open>None\<close> is an access outside
  the given memory.  Local objects the source leaves uninitialised (\<open>SM3_CTX cSM3\<close>,
  \<open>SM4_KEY_OBJ cSM4\<close>) start from the constants \<open>cSM3_0\<close> and \<open>cSM4_0\<close>; that no result depends on
  them is part of the lemmas on \<open>SM3\<close> and on the incremental interface.
\<close>

unbundle bit_operations_syntax

section \<open>The header\<close>

record PACKAGE_HEADER =
  h_ver :: byte
  h_type :: byte
  h_flag :: byte
  h_reserved :: byte
  h_len :: "byte list"
  h_aid :: "byte list"
  h_sid :: "byte list"
  h_mac :: "byte list"

text \<open>\<open>sizeof(PACKAGE_HEADER)\<close>, and the header as the cast of a pointer to bytes shows it.\<close>

definition header_size :: nat where "header_size = 32"

definition header_of :: "byte list \<Rightarrow> PACKAGE_HEADER" where
  "header_of msg = \<lparr>h_ver = msg ! 0, h_type = msg ! 1, h_flag = msg ! 2, h_reserved = msg ! 3,
     h_len = take 4 (drop 4 msg), h_aid = take 16 (drop 8 msg), h_sid = take 4 (drop 24 msg),
     h_mac = take 4 (drop 28 msg)\<rparr>"

text \<open>\<open>memcpy\<close> of \<open>bs\<close> to offset \<open>off\<close> of a buffer.\<close>

definition put_at :: "nat \<Rightarrow> byte list \<Rightarrow> byte list \<Rightarrow> byte list" where
  "put_at off bs buf = take off buf @ bs @ drop (off + length bs) buf"

section \<open>The class and its keys\<close>

record astPackage =
  m_KI :: "byte list"
  m_KA :: "byte list"
  m_bInit :: bool
  m_AgentID :: "byte list"
  m_nAidLen :: int
  m_UUID :: "byte list"

definition cSM3_0 :: SM3_CTX where
  "cSM3_0 = \<lparr>Regs = replicate 8 0, BitLen0 = 0, BitLen1 = 0, W = replicate 68 0, WDot = replicate 64 0\<rparr>"

definition cSM4_0 :: SM4_KEY_OBJ where
  "cSM4_0 = \<lparr>sm4key = \<lparr>ERK = replicate 32 0, DRK = replicate 32 0, MK = replicate 4 0\<rparr>,
     sm4iv = replicate 16 0, ivtmp = replicate 4 0, leftbuf = replicate 16 0, objflag = 0, objmode = 0,
     leftsize = 0, padtype = 0\<rparr>"

text \<open>The string \<open>"20181009"\<close>.\<close>

definition ki_text :: "byte list" where
  "ki_text = [0x32, 0x30, 0x31, 0x38, 0x31, 0x30, 0x30, 0x39]"

text \<open>The constructor; \<open>uuid\<close> is the content of \<open>m_UUID\<close>, which it does not set.\<close>

definition astPackage_ctor :: "byte list \<Rightarrow> astPackage" where
  "astPackage_ctor uuid =
     \<lparr>m_KI = the (SM3 cSM3_0 ki_text (length ki_text)), m_KA = replicate 32 0, m_bInit = True,
      m_AgentID = replicate 64 0, m_nAidLen = 0, m_UUID = uuid\<rparr>"

definition InitKA :: "astPackage \<Rightarrow> byte list \<Rightarrow> astPackage" where
  "InitKA p ka = p\<lparr>m_KA := take 32 ka\<rparr>"

text \<open>\<open>SM3_Init\<close>, two calls of \<open>SM3_Update\<close> and \<open>SM3_Final\<close>.\<close>

definition sm3_two :: "byte list \<Rightarrow> byte list \<Rightarrow> byte list" where
  "sm3_two a b = the (ctx_final (ctx_update b (ctx_update a (snd (SM3_Init (Some cSM3_0))))))"

section \<open>Messages\<close>

text \<open>
  \<open>PutData\<close>: the code, the output buffer and \<open>outlen\<close>.  \<open>nMsgLen + sizeof(PACKAGE_HEADER)\<close> has
  type \<open>size_t\<close>, so \<open>outlen\<close> is converted to it in the comparison.
\<close>

definition PutData ::
    "astPackage \<Rightarrow> byte list \<Rightarrow> byte \<Rightarrow> byte \<Rightarrow> byte \<Rightarrow> byte list \<Rightarrow> byte list \<Rightarrow> int
       \<Rightarrow> byte list \<Rightarrow> int \<Rightarrow> (int \<times> byte list \<times> int) option" where
  "PutData p data ver typ flg sid aid macindex out outlen =
     (if m_bInit p \<and> macindex \<noteq> 0 then Some (- 1, out, outlen)
      else let nDataLen = length data;
               nPadLen = (if flg AND 1 \<noteq> 0 then 16 - nDataLen mod 16 else 0);
               nMsgLen = nDataLen + nPadLen
           in if size_t_of_int (int nMsgLen) + int header_size > size_t_of_int outlen
              then Some (1, out, outlen)
              else if macindex = 0 \<and> nPadLen > 0 then Some (2, out, outlen)
              else let out1 = put_at 28 [0, 0, 0, 0] out;
                       finish = (\<lambda>buf. let n = nMsgLen + header_size
                          in Some (0, put_at 4 (zs_PutBE32 (of_nat n)) (put_at 8 (take 16 aid)
                               (put_at 24 (take 4 sid) (put_at 0 [ver, typ, flg, 0] buf))), int n))
                   in if flg AND 2 \<noteq> 0
                      then let pRKey = (if macindex = 1 then m_KA p else m_KI p);
                               cKey = sm3_two (take 32 pRKey) (take 4 sid);
                               cMac = sm3_two data (take 16 (drop 16 cKey));
                               out2 = put_at 28 (take 4 cMac) out1
                           in if flg AND 1 \<noteq> 0
                              then let cSM4 = snd (sm4_InitBlock cSM4_0 (Some cKey) 0 0 1 None);
                                       cap = outlen - int header_size
                                   in case sm4_UpdateBlock cSM4 (Some data) (Some cap) 0 of
                                        None \<Rightarrow> None
                                      | Some (nError, obj, o1, nOut) \<Rightarrow>
                                          let out3 = put_at header_size o1 out2; nOutLen = the nOut
                                          in if nError \<noteq> 0 then Some (3, out3, outlen)
                                             else let (nError', obj', o2, nLast) =
                                                        sm4_FinalBlock obj None (cap - nOutLen) 0;
                                                      out4 = put_at (header_size + nat nOutLen) o2 out3
                                                  in if nError' \<noteq> 0 then Some (4, out4, outlen)
                                                     else if int nMsgLen \<noteq> nLast + nOutLen
                                                     then Some (5, out4, outlen)
                                                     else finish out4
                              else finish (put_at header_size data out2)
                      else finish (put_at header_size data out1))"

text \<open>
  \<open>GetData\<close>.  The reference parameters and the buffer \<open>data\<close> are the record \<open>GET_IO\<close>.
  \<open>msg\<close> is the readable memory: the header has to be in it, and the byte \<open>msg[msglen]\<close> that the routine
  sets to zero.  A data length below zero is an out-of-bounds \<open>memcpy\<close> or hash.
\<close>

record GET_IO =
  io_ver :: byte
  io_type :: byte
  io_sid :: "byte list"
  io_aid :: "byte list"
  io_data :: "byte list"
  io_datalen :: int

definition get_finish :: "PACKAGE_HEADER \<Rightarrow> byte list \<Rightarrow> int \<Rightarrow> GET_IO \<Rightarrow> int \<times> GET_IO" where
  "get_finish h buf nDataLen io =
     (0, io\<lparr>io_data := put_at (nat nDataLen) [0] buf, io_datalen := nDataLen, io_ver := h_ver h,
            io_type := h_type h, io_sid := h_sid h, io_aid := h_aid h\<rparr>)"

definition GetData ::
    "astPackage \<Rightarrow> byte list \<Rightarrow> int \<Rightarrow> int \<Rightarrow> GET_IO \<Rightarrow> (int \<times> GET_IO) option" where
  "GetData p msg0 msglen macindex io =
     (if m_bInit p \<and> macindex \<noteq> 0 then Some (- 1, io)
      else if msglen < 0 \<or> length msg0 \<le> nat msglen \<or> length msg0 < header_size then None
      else let msg = msg0[nat msglen := 0];
               h = header_of msg;
               pData = drop header_size msg;
               nMsgLen = int_of_u32 (zs_GetBE32 (h_len h))
           in if nMsgLen \<noteq> msglen then Some (1, io)
              else let nDataLen = nMsgLen - int header_size;
                       datalen = io_datalen io
                   in if h_flag h AND 2 \<noteq> 0
                      then let pRKey = (if macindex = 1 then m_KA p else m_KI p);
                               cKey = sm3_two (take 32 pRKey) (h_sid h);
                               mac_ok = (\<lambda>d. take 4 (sm3_two d (take 16 (drop 16 cKey))) = h_mac h)
                           in if h_flag h AND 1 \<noteq> 0
                              then (if nDataLen < 16 \<or> nDataLen mod 16 \<noteq> 0 then Some (2, io)
                                    else let cSM4 = snd (sm4_InitBlock cSM4_0 (Some cKey) 1 0 1 None)
                                         in case sm4_UpdateBlock cSM4 (Some (take (nat (nDataLen - 16)) pData))
                                                   (Some datalen) 1 of
                                              None \<Rightarrow> None
                                            | Some (nError, obj, o1, nOut) \<Rightarrow>
                                                let buf1 = put_at 0 o1 (io_data io); nOutLen = the nOut
                                                in if nError \<noteq> 0 then Some (3, io\<lparr>io_data := buf1\<rparr>)
                                                   else let (nError', obj', o2, nLast) =
                                                              sm4_FinalBlock obj
                                                                (Some (take (nat (nDataLen - nOutLen))
                                                                         (drop (nat nOutLen) pData)))
                                                                (datalen - nOutLen) 1;
                                                            buf2 = put_at (nat nOutLen) o2 buf1;
                                                            io2 = io\<lparr>io_data := buf2\<rparr>
                                                        in if nError' \<noteq> 0 then Some (4, io2)
                                                           else if datalen \<le> nOutLen + nLast then Some (5, io2)
                                                           else if mac_ok (take (nat (nOutLen + nLast)) buf2)
                                                           then Some (get_finish h buf2 (nOutLen + nLast) io2)
                                                           else Some (6, io2))
                              else if nDataLen < 0 then None
                              else if \<not> mac_ok (take (nat nDataLen) pData) then Some (6, io)
                              else if datalen \<le> nDataLen then Some (7, io)
                              else Some (get_finish h (put_at 0 (take (nat nDataLen) pData) (io_data io))
                                           nDataLen io)
                      else if datalen \<le> nDataLen then Some (7, io)
                      else if nDataLen < 0 then None
                      else Some (get_finish h (put_at 0 (take (nat nDataLen) pData) (io_data io)) nDataLen io))"

definition GetMsgLen :: "byte list \<Rightarrow> int \<Rightarrow> int" where
  "GetMsgLen msg msglen =
     (let nMsgLen = int_of_u32 (zs_GetBE32 (h_len (header_of msg)))
      in if msglen \<noteq> nMsgLen then - 1
         else if size_t_of_int nMsgLen < int header_size then - 2
         else nMsgLen)"

section \<open>Data under an id\<close>

text \<open>\<open>pRKey\<close>: the registration key, or \<open>m_KA\<close> for \<open>keyindex = 1\<close>, which needs a registered agent.\<close>

definition MacByID ::
    "astPackage \<Rightarrow> byte list \<Rightarrow> byte list \<Rightarrow> int \<Rightarrow> byte list \<Rightarrow> int \<times> byte list" where
  "MacByID p data ident keyindex mac =
     (if keyindex = 1 \<and> m_bInit p then (- 1, mac)
      else let pRKey = (if keyindex = 1 then m_KA p else m_KI p);
               cKey = sm3_two (take 32 pRKey) ident
           in (0, sm3_two data (take 16 (drop 16 cKey))))"

definition EncryptByID ::
    "astPackage \<Rightarrow> byte list \<Rightarrow> byte list \<Rightarrow> int \<Rightarrow> byte list \<Rightarrow> int \<Rightarrow> byte list
       \<Rightarrow> (int \<times> byte list \<times> int \<times> byte list) option" where
  "EncryptByID p data ident keyindex out outlen mac =
     (if keyindex = 1 \<and> m_bInit p then Some (- 1, out, outlen, mac)
      else let pRKey = (if keyindex = 1 then m_KA p else m_KI p);
               cKey = sm3_two (take 32 pRKey) ident;
               cSM4 = snd (sm4_InitBlock cSM4_0 (Some cKey) 0 0 1 None)
           in case sm4_UpdateBlock cSM4 (Some data) (Some outlen) 0 of
                None \<Rightarrow> None
              | Some (nError, obj, o1, nOut) \<Rightarrow>
                  let out1 = put_at 0 o1 out; nOutLen = the nOut
                  in if nError \<noteq> 0 then Some (1, out1, outlen, mac)
                     else let (nError', obj', o2, nLast) = sm4_FinalBlock obj None (outlen - nOutLen) 0;
                              out2 = put_at (nat nOutLen) o2 out1
                          in if nError' \<noteq> 0 then Some (2, out2, outlen, mac)
                             else Some (0, out2, nOutLen + nLast,
                                        sm3_two data (take 16 (drop 16 cKey))))"

definition DecryptByID ::
    "astPackage \<Rightarrow> byte list \<Rightarrow> byte list \<Rightarrow> int \<Rightarrow> byte list \<Rightarrow> int
       \<Rightarrow> (int \<times> byte list \<times> int) option" where
  "DecryptByID p edata ident keyindex out outlen =
     (if length edata < 16 then Some (1, out, outlen)
      else if keyindex = 1 \<and> m_bInit p then Some (- 1, out, outlen)
      else let pRKey = (if keyindex = 1 then m_KA p else m_KI p);
               cKey = sm3_two (take 32 pRKey) ident;
               cSM4 = snd (sm4_InitBlock cSM4_0 (Some cKey) 1 0 1 None)
           in case sm4_UpdateBlock cSM4 (Some (take (length edata - 16) edata)) (Some outlen) 1 of
                None \<Rightarrow> None
              | Some (nError, obj, o1, nOut) \<Rightarrow>
                  let out1 = put_at 0 o1 out; nOutLen = the nOut
                  in if nError \<noteq> 0 then Some (2, out1, outlen)
                     else let (nError', obj', o2, nLast) =
                                sm4_FinalBlock obj (Some (drop (nat nOutLen) edata)) (outlen - nOutLen) 1;
                              out2 = put_at (nat nOutLen) o2 out1
                          in if nError' \<noteq> 0 then Some (2, out2, outlen)
                             else Some (0, out2, nOutLen + nLast))"

section \<open>Agent id and registration\<close>

definition GetAidLen :: "astPackage \<Rightarrow> int" where
  "GetAidLen p = m_nAidLen p"

text \<open>\<open>ToAgentID\<close>: the bytes copied to \<open>out\<close>; \<open>strlen(m_AgentID)\<close> counts up to the first zero.\<close>

definition ToAgentID :: "astPackage \<Rightarrow> byte list" where
  "ToAgentID p =
     (if length (takeWhile (\<lambda>b. b \<noteq> 0) (m_AgentID p)) < 16
      then take (nat (m_nAidLen p)) (m_AgentID p) else take 16 (m_AgentID p))"

text \<open>
  \<open>InitReg\<close>.  \<open>cTmp\<close>, \<open>out\<close> and \<open>mac\<close> are local buffers of 128, 128 and 32 bytes with the content
  \<open>tmp0\<close>, \<open>out0\<close> and \<open>mac0\<close>.  The comparison of the MACs is \<open>memcmp(mac, cTmp, nTmp)\<close>, where
  \<open>nTmp\<close> is the length of the decoded MAC; more than 32 bytes read behind \<open>mac\<close>.  The
  assignment to \<open>m_nAidLen\<close> is the last statement of \<open>AToByte\<close>.
\<close>

definition InitReg ::
    "astPackage \<Rightarrow> byte list \<Rightarrow> byte list \<Rightarrow> byte list \<Rightarrow> byte list
       \<Rightarrow> byte list \<Rightarrow> byte list \<Rightarrow> byte list \<Rightarrow> (int \<times> astPackage) option" where
  "InitReg p aid ka mka ident tmp0 out0 mac0 =
     (let (cTmp, nTmp) = decode ka tmp0 128
      in case DecryptByID p (take nTmp cTmp) ident 0 out0 128 of
           None \<Rightarrow> None
         | Some (nError, out, nOut) \<Rightarrow>
             if nError \<noteq> 0 then Some (1, p)
             else let (cTmp', nTmp') = decode mka cTmp 128;
                      (nError', mac) = MacByID p (take (nat nOut) out) ident 0 mac0
                  in if nError' \<noteq> 0 then Some (2, p)
                     else if nTmp' > 32 then None
                     else if take nTmp' mac \<noteq> take nTmp' cTmp' then Some (3, p)
                     else let n = length aid div 2;
                              agent = put_at 0 (AToByte aid n) (put_at 0 (replicate 16 0) (m_AgentID p))
                          in if n > length (m_AgentID p) then None
                             else Some (0, p\<lparr>m_AgentID := agent, m_nAidLen := int n,
                                             m_KA := take 32 out, m_bInit := False\<rparr>))"

section \<open>Key derivation\<close>

lemma sm3_two_standard [simp]: "sm3_two a b = sm3_standard (a @ b)"
  using sm3.pieces [OF SM3_Init_ctx, of "[a, b]"] by (simp add: sm3_two_def)

lemma length_sm3_standard [simp]: "length (sm3_standard m) = 32"
proof -
  have "length (concat (map PutBE32 r)) = 4 * length r" for r by (induction r) simp_all
  then show ?thesis by (simp add: sm3_standard_def)
qed

section \<open>The calls of the cipher\<close>

definition ecb_text :: "byte list \<Rightarrow> byte list \<Rightarrow> byte list" where
  "ecb_text key d =
     concat (ecb_blocks (encrypt16 (snd (sm4_SetKey (sm4key cSM4_0) (Some key) 0))) (blocks16 (pkcs_pad d)))"

lemma length_ecb_text [simp]: "length (ecb_text key d) = length d + pad_len (length d)"
  using cipher_blocks_facts(1) [of "ecb_blocks (encrypt16 k) (blocks16 (pkcs_pad d))" d for k]
  by (simp add: ecb_text_def ecb_blocks_16) (simp add: ecb_blocks_def)

lemma encrypt_calls:
  assumes "int (length d) + 16 \<le> cap"
  shows "\<exists>obj' o1 obj'' o2. sm4_UpdateBlock (snd (sm4_InitBlock cSM4_0 (Some key) 0 0 1 None)) (Some d) (Some cap) 0
      = Some (0, obj', o1, Some (int (length o1)))
    \<and> sm4_FinalBlock obj' None (cap - int (length o1)) 0 = (0, obj'', o2, int (length o2))
    \<and> o1 @ o2 = ecb_text key d"
proof -
  obtain obj where obj: "sm4_InitBlock cSM4_0 (Some key) 0 0 1 None = (0, obj)" "wf_obj obj"
    "pending obj = []" "objmode obj = 0" "padtype obj \<noteq> 0"
    "sm4key obj = snd (sm4_SetKey (sm4key cSM4_0) (Some key) 0)"
    using sm4_InitBlock_ok [of 0 0 None cSM4_0 key 1] by auto
  let ?n = "length d div 16"
  obtain obj' where u: "sm4_UpdateBlock obj (Some d) (Some cap) 0
      = Some (0, obj', fst (run_blocks (step_of obj 0) ?n (ivtmp obj) d), Some (16 * int ?n))"
    using sm4_UpdateBlock_run [OF obj(2) _ assms, of 0] obj(3) by (auto simp: Let_def)
  let ?o1 = "fst (run_blocks (step_of obj 0) ?n (ivtmp obj) d)"
  have o1: "int (length ?o1) = 16 * int ?n" by simp
  have "16 * int ?n \<le> int (length d)" by linarith
  then have cap: "16 \<le> cap - int (length ?o1)" using assms o1 by linarith
  obtain obj'' o2 where "sm4_FinalBlock obj' None (cap - int (length ?o1)) 0 = (0, obj'', o2, 16)"
    "?o1 @ o2 = ecb_text key d"
    using stream_encrypt_run [OF obj(2,3,5) cap, where ms = "[d]" and cap = cap] assms u
    unfolding obj(4) run_blocks_pkcs_ecb by (auto simp: ecb_text_def obj(6))
  moreover have "length o2 = 16"
  proof -
    have "16 * ?n + length o2 = length d + pad_len (length d)"
      using arg_cong [OF calculation(2), of length] by simp
    then show ?thesis using mult_div_mod_eq [of 16 "length d"] mod_less_divisor [of 16 "length d"]
      unfolding pad_len_def by linarith
  qed
  ultimately show ?thesis unfolding obj(1) snd_conv u using o1 by auto
qed

lemma decrypt_calls:
  assumes c: "c = ecb_text key d" and u: "u = length c - 16" and cap: "int (length d) \<le> cap"
  shows "\<exists>obj' obj'' o1 o2. sm4_UpdateBlock (snd (sm4_InitBlock cSM4_0 (Some key) 1 0 1 None))
        (Some (take u c)) (Some cap) 1 = Some (0, obj', o1, Some (int (length o1)))
    \<and> sm4_FinalBlock obj' (Some (drop u c)) (cap - int (length o1)) 1 = (0, obj'', o2, int (length o2))
    \<and> length o1 = u \<and> o1 @ o2 = d"
proof -
  obtain obj where obj: "sm4_InitBlock cSM4_0 (Some key) 1 0 1 None = (0, obj)" "wf_obj obj"
    "objmode obj = 0" "pending obj = []" "padtype obj = 1"
    "sm4key obj = snd (sm4_SetKey (sm4key cSM4_0) (Some key) 1)"
    using sm4_InitBlock_ok [of 1 0 None cSM4_0 key 1] by auto
  have "wf_key (sm4key obj)" by (simp add: obj(6) wf_key_SetKey)
  moreover have "ERK (snd (sm4_SetKey (sm4key cSM4_0) (Some key) 0)) = ERK (sm4key obj)"
    unfolding obj(6) by (rule ERK_SetKey_flag)
  ultimately show ?thesis
    using stream_decrypt_ecb [OF obj(2-5) _ _ c [unfolded ecb_text_def] u cap] unfolding obj(1) by fastforce
qed

section \<open>Buffers\<close>

lemma put_at_again:
  "off \<le> length buf \<Longrightarrow> length as = length bs \<Longrightarrow> put_at off bs (put_at off as buf) = put_at off bs buf"
  by (simp add: put_at_def min_def)

lemma put_at_adjacent:
  "off \<le> length buf \<Longrightarrow> put_at (off + length as) bs (put_at off as buf) = put_at off (as @ bs) buf"
  by (simp add: put_at_def min_def add.commute add.left_commute)

lemma put_at_adjacent0: "put_at (length as) bs (put_at 0 as buf) = put_at 0 (as @ bs) buf"
  using put_at_adjacent [of 0 buf as bs] by simp

lemma take_put_at0 [simp]: "take (length bs) (put_at 0 bs buf) = bs"
  by (simp add: put_at_def)

lemma length_put_at: "off + length bs \<le> length buf \<Longrightarrow> length (put_at off bs buf) = length buf"
  by (simp add: put_at_def)

lemma put_at_parts:
  assumes "length a = off" "length b = length bs"
  shows "put_at off bs (a @ b @ c) = a @ bs @ c"
  using assms by (simp add: put_at_def)

section \<open>Encryption under an id\<close>

text \<open>The key of an id and the MAC under it, as functions of the standard hash.\<close>

definition id_key :: "astPackage \<Rightarrow> int \<Rightarrow> byte list \<Rightarrow> byte list" where
  "id_key p keyindex ident = sm3_standard (take 32 (if keyindex = 1 then m_KA p else m_KI p) @ ident)"

definition key_mac :: "byte list \<Rightarrow> byte list \<Rightarrow> byte list" where
  "key_mac cKey d = sm3_standard (d @ take 16 (drop 16 cKey))"

lemma MacByID_ok:
  "keyindex = 1 \<longrightarrow> \<not> m_bInit p \<Longrightarrow> MacByID p d ident keyindex mac = (0, key_mac (id_key p keyindex ident) d)"
  by (simp add: MacByID_def Let_def id_key_def key_mac_def)

lemma EncryptByID_ok:
  assumes "keyindex = 1 \<longrightarrow> \<not> m_bInit p" "int (length d) + 16 \<le> outlen"
  shows "EncryptByID p d ident keyindex out outlen mac
    = (let c = ecb_text (id_key p keyindex ident) d
       in Some (0, put_at 0 c out, int (length c), key_mac (id_key p keyindex ident) d))"
proof -
  obtain obj' o1 obj'' o2 where
    "sm4_UpdateBlock (snd (sm4_InitBlock cSM4_0 (Some (id_key p keyindex ident)) 0 0 1 None)) (Some d) (Some outlen) 0
      = Some (0, obj', o1, Some (int (length o1)))"
    "sm4_FinalBlock obj' None (outlen - int (length o1)) 0 = (0, obj'', o2, int (length o2))"
    "ecb_text (id_key p keyindex ident) d = o1 @ o2"
    using encrypt_calls [OF assms(2), of "id_key p keyindex ident"] by metis
  then show ?thesis
    using assms(1) by (simp add: EncryptByID_def Let_def id_key_def key_mac_def put_at_adjacent0)
qed

lemma DecryptByID_ok:
  assumes "keyindex = 1 \<longrightarrow> \<not> m_bInit p" "int (length d) \<le> outlen"
  shows "DecryptByID p (ecb_text (id_key p keyindex ident) d) ident keyindex out outlen
    = Some (0, put_at 0 d out, int (length d))"
proof -
  define k where "k = id_key p keyindex ident"
  define c where "c = ecb_text k d"
  obtain obj' obj'' o1 o2 where calls:
    "sm4_UpdateBlock (snd (sm4_InitBlock cSM4_0 (Some k) 1 0 1 None))
        (Some (take (length c - 16) c)) (Some outlen) 1 = Some (0, obj', o1, Some (int (length o1)))"
    "sm4_FinalBlock obj' (Some (drop (length o1) c)) (outlen - int (length o1)) 1
        = (0, obj'', o2, int (length o2))" "o1 @ o2 = d"
    using decrypt_calls [OF c_def refl assms(2)] by metis
  have c: "\<not> length c < 16" by (simp add: c_def pad_len_def)
  have k: "sm3_two (take 32 (if keyindex = 1 then m_KA p else m_KI p)) ident = k"
    by (simp add: k_def id_key_def)
  have "DecryptByID p c ident keyindex out outlen = Some (0, put_at 0 (o1 @ o2) out, int (length (o1 @ o2)))"
    using assms(1) c by (simp add: DecryptByID_def k calls(1,2) Let_def put_at_adjacent0 del: sm3_two_standard)
  then show ?thesis by (simp only: c_def k_def calls(3))
qed

section \<open>Messages\<close>

definition message ::
    "byte \<Rightarrow> byte \<Rightarrow> byte \<Rightarrow> byte list \<Rightarrow> byte list \<Rightarrow> byte list \<Rightarrow> byte list \<Rightarrow> byte list" where
  "message ver typ flg aid sid mac body =
     [ver, typ, flg, 0] @ PutBE32 (of_nat (length body + 32)) @ aid @ sid @ mac @ body"

lemma split_buffer:
  assumes "32 + n \<le> length out"
  obtains a b c d e f g where "out = a @ b @ c @ d @ e @ f @ g" "length a = 4" "length b = 4"
    "length c = 16" "length d = 4" "length e = 4" "length f = n"
proof -
  have "take k (drop m out) @ drop (m + k) out = drop m out" for k m
    by (metis add.commute append_take_drop_id drop_drop)
  from this [of n 32] this [of 4 28] this [of 4 24] this [of 16 8] this [of 4 4] this [of 4 0]
  have p: "take n (drop 32 out) @ drop (32 + n) out = drop 32 out" "take 4 (drop 28 out) @ drop 32 out = drop 28 out"
    "take 4 (drop 24 out) @ drop 28 out = drop 24 out" "take 16 (drop 8 out) @ drop 24 out = drop 8 out"
    "take 4 (drop 4 out) @ drop 8 out = drop 4 out" "take 4 out @ drop 4 out = out" by simp_all
  have "out = take 4 out @ take 4 (drop 4 out) @ take 16 (drop 8 out) @ take 4 (drop 24 out)
      @ take 4 (drop 28 out) @ take n (drop 32 out) @ drop (32 + n) out"
    by (simp only: p)
  then show ?thesis using assms by (intro that) auto
qed

lemma put_message:
  assumes "32 + length body \<le> length out" "length aid = 16" "length sid = 4" "length mac = 4"
  shows "put_at 4 (PutBE32 (of_nat (length body + 32))) (put_at 8 aid (put_at 24 sid
      (put_at 0 [ver, typ, flg, 0] (put_at 32 body (put_at 28 mac out)))))
    = put_at 0 (message ver typ flg aid sid mac body) out"
proof -
  obtain a b c d e f g where "out = a @ b @ c @ d @ e @ f @ g" "length a = 4" "length b = 4"
    "length c = 16" "length d = 4" "length e = 4" "length f = length body"
    using split_buffer [OF assms(1)] .
  then show ?thesis using assms(2-) by (simp add: put_at_def message_def)
qed

lemma header_message:
  assumes "length aid = 16" "length sid = 4" "length mac = 4"
  shows "header_of (message ver typ flg aid sid mac body @ t)
    = \<lparr>h_ver = ver, h_type = typ, h_flag = flg, h_reserved = 0, h_len = PutBE32 (of_nat (length body + 32)),
       h_aid = aid, h_sid = sid, h_mac = mac\<rparr>"
  using assms by (simp add: header_of_def message_def numeral_2_eq_2 numeral_3_eq_3)

lemma length_message:
  "length aid = 16 \<Longrightarrow> length sid = 4 \<Longrightarrow> length mac = 4
    \<Longrightarrow> length (message ver typ flg aid sid mac body) = 32 + length body"
  by (simp add: message_def)

lemma drop_message:
  "length aid = 16 \<Longrightarrow> length sid = 4 \<Longrightarrow> length mac = 4
    \<Longrightarrow> drop 32 (message ver typ flg aid sid mac body @ t) = body @ t"
  by (simp add: message_def)

text \<open>The MAC field and the body that \<open>PutData\<close> sends for a flag.\<close>

definition sent_mac :: "byte list \<Rightarrow> byte \<Rightarrow> byte list \<Rightarrow> byte list" where
  "sent_mac cKey flg data = (if flg AND 2 \<noteq> 0 then take 4 (key_mac cKey data) else [0, 0, 0, 0])"

definition sent_body :: "byte list \<Rightarrow> byte \<Rightarrow> byte list \<Rightarrow> byte list" where
  "sent_body cKey flg data = (if flg AND 1 \<noteq> 0 then ecb_text cKey data else data)"

lemma length_sent_mac [simp]: "length (sent_mac k flg d) = 4"
  by (simp add: sent_mac_def key_mac_def)

lemma PutData_ok:
  assumes "macindex \<noteq> 0 \<longrightarrow> \<not> m_bInit p" "flg AND 1 \<noteq> 0 \<longrightarrow> macindex \<noteq> 0 \<and> flg AND 2 \<noteq> 0"
    "int (length data) + 48 \<le> outlen" "outlen < 2 ^ 31" "nat outlen \<le> length out"
    "length sid = 4" "length aid = 16"
  shows "PutData p data ver typ flg sid aid macindex out outlen
    = (let k = id_key p macindex sid; b = sent_body k flg data
       in Some (0, put_at 0 (message ver typ flg aid sid (sent_mac k flg data) b) out, int (32 + length b)))"
proof -
  define k where "k = id_key p macindex sid"
  define b where "b = sent_body k flg data"
  have k: "sm3_standard (take 32 (if macindex = 1 then m_KA p else m_KI p) @ sid) = k"
    by (simp add: k_def id_key_def)
  have len: "length b = length data + (if flg AND 1 \<noteq> 0 then 16 - length data mod 16 else 0)"
    by (simp add: b_def sent_body_def pad_len_def)
  then have lb: "length b \<le> length data + 16" by simp
  then have out: "32 + length b \<le> length out" using assms(3,5) by linarith
  have guard: "\<not> size_t_of_int (int (length b)) + int header_size > size_t_of_int outlen"
    using lb assms(3,4) by (simp add: header_size_def)
  note pm = put_message [OF out assms(7,6)]
  have k16: "take 16 (drop 16 k) = drop 16 k" by (simp add: k_def id_key_def)
  have again: "put_at 28 m (put_at 28 [0, 0, 0, 0] out) = put_at 28 m out" if "length m = 4" for m
    using that out by (intro put_at_again) simp_all
  show ?thesis
  proof (cases "flg AND 1 = 0")
    case True
    then have b: "b = data" by (simp add: b_def sent_body_def)
    have "size_t_of_int (int (length data)) + 32 \<le> size_t_of_int outlen"
      using guard by (simp add: b header_size_def)
    then show ?thesis
      using True assms(1,6,7) pm [of "[0, 0, 0, 0]" ver "typ" flg]
        pm [of "take 4 (key_mac k data)" ver "typ" flg]
      unfolding k_def [symmetric] Let_def b_def [symmetric] b
      by (auto simp: PutData_def Let_def header_size_def zs_PutBE32_def k k16 sent_mac_def key_mac_def
          add.commute again)
  next
    case False
    then have ix: "macindex \<noteq> 0" "\<not> m_bInit p" "flg AND 2 \<noteq> 0" using assms(1,2) by auto
    have b: "b = ecb_text k data" using False by (simp add: b_def sent_body_def)
    have cap: "int (length data) + 16 \<le> outlen - 32" using assms(3) by linarith
    obtain obj' o1 obj'' o2 where calls:
      "sm4_UpdateBlock (snd (sm4_InitBlock cSM4_0 (Some k) 0 0 1 None)) (Some data) (Some (outlen - 32)) 0
        = Some (0, obj', o1, Some (int (length o1)))"
      "sm4_FinalBlock obj' None (outlen - 32 - int (length o1)) 0 = (0, obj'', o2, int (length o2))"
      "o1 @ o2 = b"
      using encrypt_calls [OF cap, of k] unfolding b by metis
    have len': "length data + (16 - length data mod 16) = length b" using len False by simp
    have lo: "length b = length o1 + length o2" using arg_cong [OF calls(3), of length] by simp
    have "length (put_at 28 m out) = length out" if "length m = 4" for m
      using that out by (simp add: length_put_at)
    then have adj: "put_at (length o1 + 32) o2 (put_at 32 o1 (put_at 28 m out)) = put_at 32 b (put_at 28 m out)"
      if "length m = 4" for m
      using put_at_adjacent [of 32 "put_at 28 m out" o1 o2] that out calls(3) by (simp add: add.commute)
    have leni: "int (length data) + (16 - int (length data mod 16)) = int (length o1) + int (length o2)"
      using len' lo mod_less_divisor [of 16 "length data"] by linarith
    show ?thesis
      using False ix assms(6,7) pm [of "take 4 (key_mac k data)" ver "typ" flg] guard lo out
      unfolding k_def [symmetric] Let_def b_def [symmetric]
      by (simp add: PutData_def Let_def header_size_def zs_PutBE32_def k k16 sent_mac_def key_mac_def
          len' leni calls(1,2) again adj nat_add_distrib add.commute)
  qed
qed

text \<open>What \<open>GetData\<close> writes to its reference parameters on success.\<close>

definition received :: "byte \<Rightarrow> byte \<Rightarrow> byte list \<Rightarrow> byte list \<Rightarrow> byte list \<Rightarrow> GET_IO \<Rightarrow> GET_IO" where
  "received ver typ sid aid data io =
     io\<lparr>io_data := put_at 0 (data @ [0]) (io_data io), io_datalen := int (length data), io_ver := ver,
        io_type := typ, io_sid := sid, io_aid := aid\<rparr>"

lemma get_finish_received:
  assumes "h_ver h = ver" "h_type h = typ" "h_sid h = sid" "h_aid h = aid"
  shows "get_finish h (put_at 0 data (io_data io)) (int (length data)) io = (0, received ver typ sid aid data io)"
    and "get_finish h (put_at 0 data (io_data io)) (int (length data)) (io\<lparr>io_data := b\<rparr>)
      = (0, received ver typ sid aid data io)"
  using assms by (simp_all add: get_finish_def received_def put_at_adjacent0)

lemma GetData_ok:
  assumes "macindex \<noteq> 0 \<longrightarrow> \<not> m_bInit p" "flg AND 1 \<noteq> 0 \<longrightarrow> flg AND 2 \<noteq> 0"
    and len: "length sid = 4" "length aid = 16" "length data + 48 < 2 ^ 31" "rest \<noteq> []"
    and cap: "int (length data) < io_datalen io"
    and k: "k = id_key p macindex sid" and b: "b = sent_body k flg data"
  shows "GetData p (message ver typ flg aid sid (sent_mac k flg data) b @ rest) (int (32 + length b)) macindex io
    = Some (0, received ver typ sid aid data io)"
proof -
  define m where "m = message ver typ flg aid sid (sent_mac k flg data) b"
  define M where "M = m @ rest"
  have lm: "length m = 32 + length b" using len by (simp add: m_def length_message)
  obtain x rs where rest: "rest = x # rs" using len(4) by (cases rest) auto
  define M' where "M' = m @ 0 # rs"
  have upd: "M[32 + length b := 0] = M'"
    unfolding M_def M'_def by (subst lm [symmetric], simp only: rest list_update_length)
  have hdr: "header_of M' = \<lparr>h_ver = ver, h_type = typ, h_flag = flg, h_reserved = 0,
      h_len = PutBE32 (of_nat (length b + 32)), h_aid = aid, h_sid = sid, h_mac = sent_mac k flg data\<rparr>"
    unfolding M'_def m_def using len by (simp add: header_message)
  have pd: "drop 32 M' = b @ 0 # rs" unfolding M'_def m_def using len by (subst drop_message) simp_all
  have lb: "length b \<le> length data + 16"
    by (simp add: b sent_body_def pad_len_def)
  then have n: "int_of_u32 (of_nat (length b + 32)) = int (32 + length b)"
    using len(3) by (subst int_of_u32_of_nat) simp_all
  have kk: "sm3_two (take 32 (if macindex = 1 then m_KA p else m_KI p)) sid = k"
    by (simp add: k id_key_def)
  have guards: "\<not> length M \<le> 32 + length b" "\<not> length M < 32" "\<not> (m_bInit p \<and> macindex \<noteq> 0)"
    using lm assms(1) by (auto simp: M_def rest)
  have mac: "flg AND 2 \<noteq> 0 \<Longrightarrow> take 4 (sm3_two data (take 16 (drop 16 k))) = sent_mac k flg data"
    by (simp add: sent_mac_def key_mac_def)
  have minus: "int (32 + length b) - 32 = int (length b)" by simp
  note facts = guards upd hdr pd n
  show ?thesis
  proof (cases "flg AND 1 = 0")
    case True
    then have bd: "b = data" by (simp add: b sent_body_def)
    show ?thesis
      using True cap facts [unfolded bd] unfolding bd GetData_def m_def [symmetric, unfolded bd] M_def [symmetric]
      by (simp add: Let_def header_size_def zs_GetBE32_def get_finish_received kk mac
          minus [unfolded bd] del: of_nat_add sm3_two_standard)
  next
    case False
    then have f2: "flg AND 2 \<noteq> 0" using assms(2) by simp
    have be: "b = ecb_text k data" using False by (simp add: b sent_body_def)
    have cap': "int (length data) \<le> io_datalen io" using cap by simp
    have b16: "length b mod 16 = 0" "16 \<le> length b"
      using dvd_pkcs_pad [of data] by (simp_all add: be pad_len_def)
    obtain obj' obj'' o1 o2 where calls:
      "sm4_UpdateBlock (snd (sm4_InitBlock cSM4_0 (Some k) 1 0 1 None))
         (Some (take (length b - 16) b)) (Some (io_datalen io)) 1 = Some (0, obj', o1, Some (int (length o1)))"
      "sm4_FinalBlock obj' (Some (drop (length o1) b)) (io_datalen io - int (length o1)) 1
         = (0, obj'', o2, int (length o2))" "length o1 = length b - 16" "o1 @ o2 = data"
      using decrypt_calls [OF be refl cap'] by metis
    have lo: "int (length o1) + int (length o2) = int (length data)"
      using arg_cong [OF calls(4), of length] by simp
    have "int (length b mod 16) = int (length b) mod 16" by (simp add: zmod_int)
    then have bi: "int (length b) mod 16 = 0" "16 \<le> length b" using b16 by simp_all
    have lob: "length o1 \<le> length b" using calls(3) by simp
    have nats: "nat (int (length b) - 16) = length b - 16" "nat (int (length b) - int (length o1)) = length b - length o1"
      by simp_all
    show ?thesis
      using False f2 facts bi cap lo nats lob unfolding GetData_def m_def [symmetric] M_def [symmetric]
      by (simp add: Let_def header_size_def zs_GetBE32_def get_finish_received kk mac
          minus calls(1,2,4) put_at_adjacent0 del: of_nat_add sm3_two_standard)
  qed
qed

section \<open>What a received message guarantees\<close>

lemma length_put_at_ge: "length buf \<le> length (put_at off bs buf)"
  by (simp add: put_at_def)

lemma take_put_at_end: "n \<le> length buf \<Longrightarrow> take n (put_at n bs buf) = take n buf"
  by (simp add: put_at_def)

lemma get_finish_data:
  assumes "get_finish h buf n io0 = (c, io')" "n \<le> int (length buf)"
  shows "io_datalen io' = n" "take (nat n) (io_data io') = take (nat n) buf" "io_ver io' = h_ver h"
    "io_type io' = h_type h" "io_sid io' = h_sid h" "io_aid io' = h_aid h"
  using assms by (auto simp: get_finish_def take_put_at_end)

lemma get_finish_io: "get_finish h buf n (io\<lparr>io_data := b\<rparr>) = get_finish h buf n io"
  by (simp add: get_finish_def)

lemma GetData_plain_mac:
  assumes get: "GetData p msg0 msglen macindex io = Some (0, io')"
    and cap: "io_datalen io \<le> int (length (io_data io))"
    and h: "h = header_of (msg0[nat msglen := 0])"
    and cKey: "cKey = sm3_two (take 32 (if macindex = 1 then m_KA p else m_KI p)) (h_sid h)"
    and flg: "h_flag h AND 2 \<noteq> 0" "h_flag h AND 1 = 0"
  shows "\<exists>buf n. get_finish h buf n io = (0, io') \<and> n \<le> int (length buf)
    \<and> take 4 (sm3_two (take (nat n) buf) (take 16 (drop 16 cKey))) = h_mac h"
proof -
  let ?n = "msglen - int header_size"
  let ?d = "take (nat ?n) (drop header_size (msg0[nat msglen := 0]))"
  have r: "\<not> msglen < 0" "nat msglen < length msg0" "\<not> ?n < 0" "?n < io_datalen io"
    "get_finish h (put_at 0 ?d (io_data io)) ?n io = (0, io')"
    "take 4 (sm3_two ?d (take 16 (drop 16 cKey))) = h_mac h"
    using get flg unfolding GetData_def h [symmetric] Let_def cKey [symmetric]
    by (simp_all split: if_splits del: sm3_two_standard)
  have "length ?d = nat ?n" using r(1-3) by (simp add: header_size_def)
  then have "take (nat ?n) (put_at 0 ?d (io_data io)) = ?d" using take_put_at0 by metis
  moreover have "?n \<le> int (length (put_at 0 ?d (io_data io)))"
    using r(4) cap length_put_at_ge [of "io_data io" 0 ?d] by linarith
  ultimately show ?thesis using r(5,6) by metis
qed

lemma GetData_cipher_mac:
  assumes get: "GetData p msg0 msglen macindex io = Some (0, io')"
    and cap: "io_datalen io \<le> int (length (io_data io))"
    and h: "h = header_of (msg0[nat msglen := 0])"
    and cKey: "cKey = sm3_two (take 32 (if macindex = 1 then m_KA p else m_KI p)) (h_sid h)"
    and flg: "h_flag h AND 2 \<noteq> 0" "h_flag h AND 1 \<noteq> 0"
  shows "\<exists>buf n. get_finish h buf n io = (0, io') \<and> n \<le> int (length buf)
    \<and> take 4 (sm3_two (take (nat n) buf) (take 16 (drop 16 cKey))) = h_mac h"
proof -
  let ?io = "\<lambda>o1 o2 n. put_at n o2 (put_at 0 o1 (io_data io))"
  obtain o1 o2 k nLast where r: "k + nLast < io_datalen io"
    "get_finish h (?io o1 o2 (nat k)) (k + nLast) io = (0, io')"
    "take 4 (sm3_two (take (nat (k + nLast)) (?io o1 o2 (nat k))) (take 16 (drop 16 cKey))) = h_mac h"
    using get flg unfolding GetData_def h [symmetric] Let_def cKey [symmetric]
    by (auto simp: get_finish_io not_le split: if_splits option.splits prod.splits simp del: sm3_two_standard)
  have "length (io_data io) \<le> length (?io o1 o2 (nat k))"
    using length_put_at_ge le_trans by metis
  then show ?thesis using r cap by (intro exI conjI) auto
qed

section \<open>Registration\<close>

lemma id_key_KI: "keyindex \<noteq> 1 \<Longrightarrow> m_KI q = m_KI p \<Longrightarrow> id_key q keyindex ident = id_key p keyindex ident"
  by (simp add: id_key_def)

text \<open>\<open>InitReg\<close> once the key text decodes to an encryption of \<open>d\<close>.\<close>

lemma InitReg_decrypted:
  assumes ka: "decode ka tmp0 128 = (t, length c)" "take (length c) t = c"
    and c: "c = ecb_text (id_key p 0 ident) d" "length d \<le> 128"
    and mka: "decode mka t 128 = (t', n)" "n \<le> 32"
    and aid: "length aid div 2 \<le> length (m_AgentID p)"
  shows "InitReg p aid ka mka ident tmp0 out0 mac0
    = (if take n (key_mac (id_key p 0 ident) d) \<noteq> take n t' then Some (3, p)
       else Some (0, p\<lparr>m_AgentID := put_at 0 (AToByte aid (length aid div 2))
                          (put_at 0 (replicate 16 0) (m_AgentID p)),
                       m_nAidLen := int (length aid div 2),
                       m_KA := take 32 (put_at 0 d out0), m_bInit := False\<rparr>))"
proof -
  have "DecryptByID p c ident 0 out0 128 = Some (0, put_at 0 d out0, int (length d))"
    unfolding c(1) using c(2) by (intro DecryptByID_ok) simp_all
  then show ?thesis
    using assms by (simp add: InitReg_def MacByID_ok Let_def)
qed

lemma length_key_mac [simp]: "length (key_mac k d) = 32"
  by (simp add: key_mac_def)

lemma InitReg_genuine:
  assumes "length KA = 32" "length A \<le> 16" "length (m_AgentID p) = 64" "128 \<le> length tmp0"
  shows "InitReg p (hex_of A) (encode (ecb_text (id_key p 0 ident) KA)) (encode (key_mac (id_key p 0 ident) KA))
      ident tmp0 out0 mac0
    = Some (0, p\<lparr>m_AgentID := A @ replicate (16 - length A) 0 @ drop 16 (m_AgentID p), m_nAidLen := int (length A),
        m_KA := KA, m_bInit := False\<rparr>)"
proof -
  define ct where "ct = ecb_text (id_key p 0 ident) KA"
  define m where "m = key_mac (id_key p 0 ident) KA"
  have len: "length ct = 48" using assms(1) by (simp add: ct_def pad_len_def)
  obtain t where t: "decode (encode ct) tmp0 128 = (t, length ct)" "take (length ct) t = ct" "length t = length tmp0"
    using decode_encode [of ct 128 tmp0] len assms(4) by auto
  obtain t' where t': "decode (encode m) t 128 = (t', 32)" "take 32 t' = m"
    using decode_encode [of m 128 t] t(3) assms(4) by (auto simp: m_def)
  have "put_at 0 A (put_at 0 (replicate 16 0) (m_AgentID p)) = A @ replicate (16 - length A) 0 @ drop 16 (m_AgentID p)"
    using assms(2) by (simp add: put_at_def)
  moreover have "take 32 (put_at 0 KA out0) = KA" using take_put_at0 [of KA out0] assms(1) by simp
  ultimately show ?thesis
    using InitReg_decrypted [OF t(1,2) ct_def _ t'(1), of "hex_of A" out0 mac0] t'(2) assms(1-3)
    by (simp add: m_def ct_def AToByte_hex_of)
qed

section \<open>Properties\<close>

text \<open>
  \<^bold>\<open>C1\<close> Message round trip: with a registered agent (or the registration key, \<open>macindex = 0\<close>,
  without encryption), and a flag other than ``encrypted but not authenticated'', \<open>PutData\<close>
  succeeds on every text that fits, and \<open>GetData\<close> of the message it built returns code 0, the text
  with a terminating zero, its length, and version, type, session id and agent id.
\<close>

theorem put_get_roundtrip:
  assumes "macindex \<noteq> 0 \<longrightarrow> \<not> m_bInit p" "flg AND 1 \<noteq> 0 \<longrightarrow> macindex \<noteq> 0 \<and> flg AND 2 \<noteq> 0"
    and "int (length data) + 48 \<le> outlen" "outlen < 2 ^ 31" "nat outlen < length out"
    and "length sid = 4" "length aid = 16" "int (length data) < io_datalen io"
  shows "\<exists>msg n. PutData p data ver typ flg sid aid macindex out outlen = Some (0, msg, n)
    \<and> GetData p msg n macindex io = Some (0, io\<lparr>io_data := put_at 0 (data @ [0]) (io_data io),
        io_datalen := int (length data), io_ver := ver, io_type := typ, io_sid := sid, io_aid := aid\<rparr>)"
proof -
  define k where "k = id_key p macindex sid"
  define b where "b = sent_body k flg data"
  define m where "m = message ver typ flg aid sid (sent_mac k flg data) b"
  have lm: "length m = 32 + length b" using assms(6,7) by (simp add: m_def length_message)
  have "length b \<le> length data + 16" by (simp add: b_def sent_body_def pad_len_def)
  then have "32 + length b < length out" using assms(3,5) by linarith
  then obtain rest where rest: "put_at 0 m out = m @ rest" "rest \<noteq> []" using lm by (simp add: put_at_def)
  have "PutData p data ver typ flg sid aid macindex out outlen = Some (0, put_at 0 m out, int (32 + length b))"
    using PutData_ok [of macindex p flg data outlen out sid aid ver "typ"] assms
    by (simp add: k_def b_def m_def Let_def)
  moreover have "GetData p (m @ rest) (int (32 + length b)) macindex io = Some (0, received ver typ sid aid data io)"
    unfolding m_def using assms rest(2) by (intro GetData_ok [OF _ _ _ _ _ _ _ k_def b_def]) auto
  ultimately show ?thesis unfolding rest(1) received_def by blast
qed

theorem put_get_roundtrip_witness:
  "\<exists>msg n. PutData \<lparr>m_KI = replicate 32 1, m_KA = replicate 32 2, m_bInit = False, m_AgentID = replicate 64 0,
        m_nAidLen = 0, m_UUID = []\<rparr> [0x41, 0x42] 1 1 3 [1, 2, 3, 4] (replicate 16 7) 1 (replicate 100 0) 99
      = Some (0, msg, n)
    \<and> GetData \<lparr>m_KI = replicate 32 1, m_KA = replicate 32 2, m_bInit = False, m_AgentID = replicate 64 0,
        m_nAidLen = 0, m_UUID = []\<rparr> msg n 1
        \<lparr>io_ver = 0, io_type = 0, io_sid = [], io_aid = [], io_data = replicate 20 0, io_datalen = 20\<rparr>
      = Some (0, \<lparr>io_ver = 0, io_type = 0, io_sid = [], io_aid = [], io_data = replicate 20 0, io_datalen = 20\<rparr>
          \<lparr>io_data := put_at 0 ([0x41, 0x42] @ [0]) (io_data \<lparr>io_ver = 0, io_type = 0, io_sid = [], io_aid = [],
              io_data = replicate 20 0, io_datalen = 20\<rparr>),
           io_datalen := int (length ([0x41, 0x42] :: byte list)), io_ver := 1, io_type := 1,
           io_sid := [1, 2, 3, 4], io_aid := replicate 16 7\<rparr>)"
  by (rule put_get_roundtrip) simp_all

text \<open>
  \<^bold>\<open>C3\<close> What \<open>GetData\<close> accepts is authenticated: whenever it returns 0 on a message whose header
  asks for a MAC, the first four bytes of the hash of the returned text and of the second half of
  the key derived from the agent's key and the session id are the MAC field of the header.
\<close>

theorem GetData_authentic:
  assumes "GetData p msg0 msglen macindex io = Some (0, io')" "io_datalen io \<le> int (length (io_data io))"
    "h_flag (header_of (msg0[nat msglen := 0])) AND 2 \<noteq> 0"
  shows "take 4 (sm3_standard (take (nat (io_datalen io')) (io_data io')
      @ take 16 (drop 16 (sm3_standard (take 32 (if macindex = 1 then m_KA p else m_KI p)
          @ h_sid (header_of (msg0[nat msglen := 0]))))))) = h_mac (header_of (msg0[nat msglen := 0]))"
proof -
  obtain buf n where
    "get_finish (header_of (msg0[nat msglen := 0])) buf n io = (0, io')" "n \<le> int (length buf)"
    "take 4 (sm3_two (take (nat n) buf) (take 16 (drop 16 (sm3_two
       (take 32 (if macindex = 1 then m_KA p else m_KI p)) (h_sid (header_of (msg0[nat msglen := 0]))))))) =
       h_mac (header_of (msg0[nat msglen := 0]))"
    using GetData_plain_mac [OF assms(1,2) refl refl assms(3)]
      GetData_cipher_mac [OF assms(1,2) refl refl assms(3)] by metis
  then show ?thesis using get_finish_data(1,2) by (simp only: sm3_two_standard)
qed

theorem GetData_authentic_witness:
  "\<exists>msg io'. GetData \<lparr>m_KI = replicate 32 1, m_KA = replicate 32 2, m_bInit = False, m_AgentID = replicate 64 0,
        m_nAidLen = 0, m_UUID = []\<rparr> msg 34 1
        \<lparr>io_ver = 0, io_type = 0, io_sid = [], io_aid = [], io_data = replicate 20 0, io_datalen = 20\<rparr> = Some (0, io')
    \<and> take 4 (sm3_standard (take (nat (io_datalen io')) (io_data io')
      @ take 16 (drop 16 (sm3_standard (take 32 (if (1 :: int) = 1 then m_KA \<lparr>m_KI = replicate 32 1, m_KA = replicate 32 2, m_bInit = False, m_AgentID = replicate 64 0,
        m_nAidLen = 0, m_UUID = []\<rparr> else m_KI \<lparr>m_KI = replicate 32 1, m_KA = replicate 32 2, m_bInit = False, m_AgentID = replicate 64 0,
        m_nAidLen = 0, m_UUID = []\<rparr>)
          @ h_sid (header_of (msg[nat 34 := 0]))))))) = h_mac (header_of (msg[nat 34 := 0]))"
proof -
  define p where "p = \<lparr>m_KI = replicate 32 1, m_KA = replicate 32 2, m_bInit = False, m_AgentID = replicate 64 0,
        m_nAidLen = 0, m_UUID = []\<rparr>"
  define io where "io = \<lparr>io_ver = 0, io_type = 0, io_sid = [], io_aid = [], io_data = replicate 20 0 :: byte list,
    io_datalen = 20\<rparr>"
  define k where "k = id_key p 1 [1, 2, 3, 4]"
  define m where "m = message 1 1 2 (replicate 16 7) [1, 2, 3, 4] (sent_mac k 2 [0x41, 0x42]) [0x41, 0x42]"
  have "GetData p (m @ [0]) (int (32 + length ([0x41, 0x42] :: byte list))) 1 io
      = Some (0, received 1 1 [1, 2, 3, 4] (replicate 16 7) [0x41, 0x42] io)"
    unfolding m_def by (rule GetData_ok [OF _ _ _ _ _ _ _ k_def])
      (simp_all add: p_def io_def sent_body_def)
  then have g: "GetData p (m @ [0]) 34 1 io = Some (0, received 1 1 [1, 2, 3, 4] (replicate 16 7) [0x41, 0x42] io)"
    by simp
  have len: "length m = 34" by (simp add: m_def length_message)
  then have "(m @ [0])[nat 34 := 0] = m @ [0]" by (simp add: list_update_append)
  then have f: "h_flag (header_of ((m @ [0])[nat 34 := 0])) AND 2 \<noteq> 0"
    by (simp add: m_def header_message)
  show ?thesis
    using GetData_authentic [OF g _ f] g unfolding p_def io_def by force
qed



text \<open>
  \<^bold>\<open>C10\<close> Encryption under an id round trip, and the MAC it returns is the one \<open>MacByID\<close> computes:
  a party with the same key and id recovers the data from the ciphertext.
\<close>

theorem encrypt_decrypt_by_id:
  assumes "keyindex = 1 \<longrightarrow> \<not> m_bInit p" "int (length d) + 16 \<le> outlen" "int (length d) \<le> outlen'"
  shows "\<exists>c n m. EncryptByID p d ident keyindex out outlen mac = Some (0, c, n, m)
    \<and> DecryptByID p (take (nat n) c) ident keyindex out' outlen' = Some (0, put_at 0 d out', int (length d))
    \<and> MacByID p d ident keyindex mac' = (0, m)"
  unfolding EncryptByID_ok [OF assms(1,2)] Let_def
  using DecryptByID_ok [OF assms(1,3)] MacByID_ok [OF assms(1)] by (simp del: length_ecb_text)

theorem encrypt_decrypt_by_id_witness:
  "\<exists>c n m. EncryptByID \<lparr>m_KI = replicate 32 1, m_KA = replicate 32 2, m_bInit = True, m_AgentID = replicate 64 0,
        m_nAidLen = 0, m_UUID = []\<rparr> [5, 6, 7] [9, 9] 0 (replicate 32 0) 32 [] = Some (0, c, n, m)
    \<and> DecryptByID \<lparr>m_KI = replicate 32 1, m_KA = replicate 32 2, m_bInit = True, m_AgentID = replicate 64 0,
        m_nAidLen = 0, m_UUID = []\<rparr> (take (nat n) c) [9, 9] 0 (replicate 32 0) 32
      = Some (0, put_at 0 [5, 6, 7] (replicate 32 0), int (length ([5, 6, 7] :: byte list)))
    \<and> MacByID \<lparr>m_KI = replicate 32 1, m_KA = replicate 32 2, m_bInit = True, m_AgentID = replicate 64 0,
        m_nAidLen = 0, m_UUID = []\<rparr> [5, 6, 7] [9, 9] 0 [] = (0, m)"
  by (rule encrypt_decrypt_by_id) simp_all

text \<open>
  \<^bold>\<open>C4\<close> Registration succeeds on a genuine answer: when a server with the same registration key
  encrypts a 32-byte agent key under the id, and sends the agent id in hexadecimal and key and MAC in
  Base64, \<open>InitReg\<close> returns 0 and leaves exactly this agent key and agent id, marked as registered.
\<close>

theorem InitReg_accepts:
  assumes "EncryptByID q KA ident 0 sbuf slen smac = Some (0, c, n, m)" "m_KI q = m_KI p" "length KA = 32"
    "48 \<le> slen" "length A \<le> 16" "length (m_AgentID p) = 64" "128 \<le> length tmp0"
  shows "InitReg p (hex_of A) (encode (take (nat n) c)) (encode m) ident tmp0 out0 mac0
    = Some (0, p\<lparr>m_AgentID := A @ replicate (16 - length A) 0 @ drop 16 (m_AgentID p), m_nAidLen := int (length A),
        m_KA := KA, m_bInit := False\<rparr>)"
proof -
  have "int (length KA) + 16 \<le> slen" using assms(3,4) by simp
  then have "take (nat n) c = ecb_text (id_key p 0 ident) KA" "m = key_mac (id_key p 0 ident) KA"
    using EncryptByID_ok [of 0 q KA slen ident sbuf smac] id_key_KI [OF _ assms(2)] assms(1)
    by (auto simp: Let_def simp del: length_ecb_text)
  then show ?thesis using InitReg_genuine [OF assms(3,5-7)] by simp
qed

theorem InitReg_accepts_witness:
  "\<exists>c n m. EncryptByID \<lparr>m_KI = replicate 32 1, m_KA = replicate 32 2, m_bInit = True, m_AgentID = replicate 64 0,
        m_nAidLen = 0, m_UUID = []\<rparr> (replicate 32 0x5a) [7, 7] 0 (replicate 48 0) 48 [] = Some (0, c, n, m)
    \<and> InitReg \<lparr>m_KI = replicate 32 1, m_KA = replicate 32 2, m_bInit = True, m_AgentID = replicate 64 0,
        m_nAidLen = 0, m_UUID = []\<rparr> (hex_of [0xab, 0xcd]) (encode (take (nat n) c)) (encode m) [7, 7] (replicate 128 0) (replicate 128 0) []
      = Some (0, \<lparr>m_KI = replicate 32 1, m_KA = replicate 32 2, m_bInit = True, m_AgentID = replicate 64 0,
        m_nAidLen = 0, m_UUID = []\<rparr>\<lparr>m_AgentID := [0xab, 0xcd] @ replicate (16 - length ([0xab, 0xcd] :: byte list)) 0
                       @ drop 16 (m_AgentID \<lparr>m_KI = replicate 32 1, m_KA = replicate 32 2, m_bInit = True, m_AgentID = replicate 64 0,
        m_nAidLen = 0, m_UUID = []\<rparr>),
                    m_nAidLen := int (length ([0xab, 0xcd] :: byte list)), m_KA := replicate 32 0x5a, m_bInit := False\<rparr>)"
proof -
  have "\<exists>c n m. EncryptByID \<lparr>m_KI = replicate 32 1, m_KA = replicate 32 2, m_bInit = True, m_AgentID = replicate 64 0,
        m_nAidLen = 0, m_UUID = []\<rparr> (replicate 32 0x5a) [7, 7] 0 (replicate 48 0) 48 [] = Some (0, c, n, m)"
    by (subst EncryptByID_ok) (simp_all add: Let_def)
  then obtain c n m where e: "EncryptByID \<lparr>m_KI = replicate 32 1, m_KA = replicate 32 2, m_bInit = True, m_AgentID = replicate 64 0,
        m_nAidLen = 0, m_UUID = []\<rparr> (replicate 32 0x5a) [7, 7] 0 (replicate 48 0) 48 [] = Some (0, c, n, m)" by blast
  from InitReg_accepts [OF e, of "\<lparr>m_KI = replicate 32 1, m_KA = replicate 32 2, m_bInit = True, m_AgentID = replicate 64 0,
        m_nAidLen = 0, m_UUID = []\<rparr>" "[0xab, 0xcd]" "replicate 128 0" "replicate 128 0" "[]"] e show ?thesis by fastforce
qed

text \<open>
  An empty MAC is accepted: \<open>InitReg\<close> compares as many bytes as the received MAC decodes to,
  so with an empty MAC text every key text that decrypts at all, whatever its origin, is installed
  as the agent key.
\<close>

theorem InitReg_empty_mac:
  assumes "length d \<le> 64" "length (m_AgentID p) = 64" "length aid \<le> 128" "128 \<le> length tmp0"
  shows "\<exists>p'. InitReg p aid (encode (ecb_text (id_key p 0 ident) d)) [] ident tmp0 out0 mac0 = Some (0, p')
    \<and> \<not> m_bInit p' \<and> m_KA p' = take 32 (put_at 0 d out0)"
proof -
  have "length (ecb_text (id_key p 0 ident) d) \<le> 128"
    using assms(1) pad_len_range(2) [of "length d"] by simp
  then obtain t where t: "decode (encode (ecb_text (id_key p 0 ident) d)) tmp0 128
      = (t, length (ecb_text (id_key p 0 ident) d))"
    "take (length (ecb_text (id_key p 0 ident) d)) t = ecb_text (id_key p 0 ident) d"
    using decode_encode assms(4) by blast
  show ?thesis
    using InitReg_decrypted [OF t refl _ _, of "[]" t 0 aid out0 mac0] assms by (simp add: decode_def)
qed

text \<open>
  The flag \<open>0x01\<close> alone does not encrypt: \<open>PutData\<close> succeeds, announces a padded length, and
  the text stands in the clear behind the header.
\<close>

theorem PutData_flag1_plaintext:
  assumes "\<not> m_bInit p" "macindex \<noteq> 0" "flg AND 1 \<noteq> 0" "flg AND 2 = 0"
    "int (length data) + 48 \<le> outlen" "outlen < 2 ^ 31" "nat outlen \<le> length out" "length sid = 4" "length aid = 16"
  shows "\<exists>msg. PutData p data ver typ flg sid aid macindex out outlen
      = Some (0, msg, 32 + int (length data) + int (16 - length data mod 16))
    \<and> take (length data) (drop 32 msg) = data"
proof -
  let ?b = "put_at 32 data (put_at 28 [0, 0, 0, 0] out)"
  let ?n = "length data + (16 - length data mod 16)"
  have out: "48 + length data \<le> length out" using assms(5,7) by linarith
  have "\<not> size_t_of_int (int ?n) + 32 > size_t_of_int outlen"
    using assms(5,6) by (simp add: algebra_simps)
  then have "PutData p data ver typ flg sid aid macindex out outlen
      = Some (0, put_at 4 (PutBE32 (of_nat (?n + 32))) (put_at 8 aid (put_at 24 sid (put_at 0 [ver, typ, flg, 0] ?b))),
          int (?n + 32))"
    using assms by (simp add: PutData_def Let_def header_size_def zs_PutBE32_def)
  moreover have "take (length data) (drop 32 (put_at 4 (PutBE32 (of_nat (?n + 32)))
      (put_at 8 aid (put_at 24 sid (put_at 0 [ver, typ, flg, 0] ?b))))) = data"
    using out assms(8,9) by (simp add: put_at_def)
  ultimately show ?thesis by (auto simp: algebra_simps)
qed

end
