(* ===== verification/TaskItems.thy ===== *)
theory TaskItems
  imports AstPrelude "HOL-Library.Multiset"
begin

text \<open>
  The task payloads of \<open>src/public/astTask/astTask.h\<close> and \<open>astTask.cpp\<close>: response commands
  (\<open>CTaskCmd\<close>), health checks with their score percentages (\<open>CTaskExam\<close>), the software store
  (\<open>CTaskSoft\<close>) and the patch list (\<open>CTaskPatch\<close>).

  \<open>std::string\<close> and C strings are \<^typ>\<open>string\<close>, a vector is a list, an iterator the index of its
  element.  A pointer to an element of a vector (\<open>FindSoft\<close>, \<open>FindPatch\<close>) is an optional index.
  Scores and counts are \<^typ>\<open>int\<close>: their sums are assumed to stay in the range of \<open>int\<close>.
\<close>

section \<open>Response commands\<close>

definition TYPE_CMD_LOG :: int where "TYPE_CMD_LOG = 0"
definition TYPE_CMD_VIRUS :: int where "TYPE_CMD_VIRUS = 1"
definition TYPE_CMD_AV :: int where "TYPE_CMD_AV = 2"
definition TYPE_CMD_SCRIPT :: int where "TYPE_CMD_SCRIPT = 3"

text \<open>\<open>CTaskCmd::GetType\<close>, built without \<open>PORT_CONTROL\<close>.\<close>

definition GetType :: "string \<Rightarrow> int" where
  "GetType strjson =
     (if strjson = ''extractLog'' then TYPE_CMD_LOG
      else if strjson = ''virusSamples'' then TYPE_CMD_VIRUS
      else if strjson = ''virusDatabase'' then TYPE_CMD_AV
      else if strjson = ''executionScript'' then TYPE_CMD_SCRIPT
      else TYPE_CMD_LOG)"

section \<open>Health checks\<close>

record TASK_RESOURCE_DATA =
  ftpsrv :: string
  user :: string
  pass :: string

record TASK_EXAM_DATA =
  exam_name :: string
  exam_path :: string
  exam_desc :: string
  exam_score :: int
  exam_method :: string
  exam_percent :: int
  exam_type :: int
  exam_methodValue :: string

record CTaskExam =
  m_CheckItemList :: "TASK_EXAM_DATA list"
  exam_iCurrent :: nat

definition CTaskExam_ctor :: CTaskExam where
  "CTaskExam_ctor = \<lparr>m_CheckItemList = [], exam_iCurrent = 0\<rparr>"

definition InsertItem :: "CTaskExam \<Rightarrow> TASK_EXAM_DATA \<Rightarrow> int \<times> CTaskExam" where
  "InsertItem e item = (0, e\<lparr>m_CheckItemList := m_CheckItemList e @ [item]\<rparr>)"

text \<open>The second overload; it leaves \<open>item.type\<close> uninitialised (\<open>type0\<close>).\<close>

definition InsertItem_fields ::
    "int \<Rightarrow> CTaskExam \<Rightarrow> string \<Rightarrow> string \<Rightarrow> string \<Rightarrow> int \<Rightarrow> string \<Rightarrow> int \<times> CTaskExam" where
  "InsertItem_fields type0 e nm pth mthd score desc =
     InsertItem e \<lparr>exam_name = nm, exam_path = pth, exam_desc = desc, exam_score = score,
       exam_method = mthd, exam_percent = 0, exam_type = type0, exam_methodValue = []\<rparr>"

text \<open>
  \<open>(int)((double)score*100/(double)nTotal)\<close>: the conversion truncates towards zero.  For \<open>int\<close>
  operands the rounded quotient of the doubles has the same integer part as the exact quotient: a
  non-integer quotient is at least \<open>1 / nTotal\<close> away from the next integer.
\<close>

definition trunc_div :: "int \<Rightarrow> int \<Rightarrow> int" where
  "trunc_div a b = (if (0 \<le> a) = (0 < b) then \<bar>a\<bar> div \<bar>b\<bar> else - (\<bar>a\<bar> div \<bar>b\<bar>))"

definition item_percent :: "int \<Rightarrow> TASK_EXAM_DATA \<Rightarrow> TASK_EXAM_DATA" where
  "item_percent nTotal it =
     (let p = trunc_div (exam_score it * 100) nTotal in it\<lparr>exam_percent := (if p = 0 then p + 1 else p)\<rparr>)"

text \<open>The ranking \<open>vmax\<close>: offsets inserted before the first one with a smaller score.\<close>

fun rank_insert :: "(nat \<Rightarrow> int) \<Rightarrow> nat \<Rightarrow> nat list \<Rightarrow> nat list" where
  "rank_insert sc off [] = [off]"
| "rank_insert sc off (n # ns) = (if sc off > sc n then off # n # ns else n # rank_insert sc off ns)"

definition rank_offsets :: "TASK_EXAM_DATA list \<Rightarrow> nat list" where
  "rank_offsets items =
     fold (rank_insert (\<lambda>i. exam_score (items ! i))) [0..<length items] []"

definition bump :: "int \<Rightarrow> nat \<Rightarrow> TASK_EXAM_DATA list \<Rightarrow> TASK_EXAM_DATA list" where
  "bump nPad i items =
     items[i := (items ! i)\<lparr>exam_percent :=
       (if nPad < 0 then exam_percent (items ! i) - 1 else exam_percent (items ! i) + 1)\<rparr>]"

text \<open>
  \<open>FinishInit\<close>; the adjusting loop visits the first \<open>|nPad|\<close> offsets of \<open>vmax\<close>.  \<^term>\<open>None\<close>: the scores
  of a non-empty list sum to 0, and the quotient that is converted to \<open>int\<close> is infinite or not a number.
\<close>

definition FinishInit :: "CTaskExam \<Rightarrow> CTaskExam option" where
  "FinishInit e =
     (let items = m_CheckItemList e;
          nTotal = sum_list (map exam_score items);
          items1 = map (item_percent nTotal) items;
          nC = sum_list (map exam_percent items1);
          nPad = 100 - nC;
          vmax = rank_offsets items1;
          items2 = (if nC \<noteq> 100 then fold (bump nPad) (take (nat \<bar>nPad\<bar>) vmax) items1 else items1)
      in if items \<noteq> [] \<and> nTotal = 0 then None
         else Some (e\<lparr>m_CheckItemList := items2, exam_iCurrent := 0\<rparr>))"

definition exam_Begin :: "CTaskExam \<Rightarrow> int \<times> CTaskExam" where
  "exam_Begin e = (if m_CheckItemList e = [] then 1 else 0, e\<lparr>exam_iCurrent := 0\<rparr>)"

definition exam_Next :: "CTaskExam \<Rightarrow> int \<times> CTaskExam" where
  "exam_Next e =
     (let n = length (m_CheckItemList e);
          i = (if exam_iCurrent e \<noteq> n then exam_iCurrent e + 1 else exam_iCurrent e)
      in (if i = n then 1 else 0, e\<lparr>exam_iCurrent := i\<rparr>))"

definition exam_GetCurrent :: "CTaskExam \<Rightarrow> nat" where
  "exam_GetCurrent e = exam_iCurrent e"

section \<open>The percentages\<close>

lemma mset_rank_insert: "mset (rank_insert sc off ns) = add_mset off (mset ns)"
  by (induction ns) (auto simp: add_mset_commute)

lemma mset_rank_fold: "mset (fold (rank_insert sc) xs acc) = mset xs + mset acc"
  by (induction xs arbitrary: acc) (auto simp: mset_rank_insert)

lemma mset_rank_offsets: "mset (rank_offsets items) = mset [0..<length items]"
  by (simp add: rank_offsets_def mset_rank_fold)

lemma rank_offsets_facts:
  "distinct (rank_offsets items)" "set (rank_offsets items) = {0..<length items}"
  "length (rank_offsets items) = length items"
proof -
  note m = mset_rank_offsets [of items]
  show "set (rank_offsets items) = {0..<length items}" using mset_eq_setD [OF m] by simp
  show "distinct (rank_offsets items)" using mset_eq_imp_distinct_iff [OF m] by simp
  show "length (rank_offsets items) = length items" using mset_eq_length [OF m] by simp
qed

lemma rank_insert_sorted:
  "sorted_wrt (\<lambda>i j. sc i \<ge> sc j) ns \<Longrightarrow> sorted_wrt (\<lambda>i j. sc i \<ge> sc j) (rank_insert sc off ns)"
proof (induction ns)
  case (Cons n ns)
  have "set (rank_insert sc off ns) = insert off (set ns)"
    using arg_cong [OF mset_rank_insert [of sc off ns], of set_mset] by simp
  with Cons show ?case by auto
qed simp

lemma rank_offsets_sorted: "sorted_wrt (\<lambda>i j. exam_score (items ! i) \<ge> exam_score (items ! j)) (rank_offsets items)"
proof -
  have "sorted_wrt (\<lambda>i j. sc i \<ge> sc j) (fold (rank_insert sc) xs acc)"
    if "sorted_wrt (\<lambda>i j. sc i \<ge> sc j) acc" for sc :: "nat \<Rightarrow> int" and xs acc
    using that by (induction xs arbitrary: acc) (simp_all add: rank_insert_sorted)
  then show ?thesis by (simp add: rank_offsets_def)
qed

lemma length_bumps [simp]: "length (fold (bump d) is items) = length items"
  by (induction "is" arbitrary: items) (simp_all add: bump_def)

lemma sum_list_update_int:
  "i < length xs \<Longrightarrow> sum_list (xs[i := (x :: int)]) = sum_list xs + x - xs ! i"
proof (induction xs arbitrary: i)
  case (Cons y xs)
  then show ?case by (cases i) simp_all
qed simp

lemma sum_bump:
  "i < length items \<Longrightarrow> sum_list (map exam_percent (bump d i items))
     = sum_list (map exam_percent items) + (if d < 0 then - 1 else 1)"
  by (simp add: bump_def map_update sum_list_update_int)

lemma sum_bumps:
  "set is \<subseteq> {0..<length items} \<Longrightarrow> sum_list (map exam_percent (fold (bump d) is items))
     = sum_list (map exam_percent items) + (if d < 0 then - 1 else 1) * int (length is)"
proof (induction "is" arbitrary: items)
  case (Cons i "is")
  then have "length (bump d i items) = length items" by (simp add: bump_def)
  with Cons show ?case by (simp add: sum_bump algebra_simps)
qed simp

lemma bumps_nth:
  "distinct is \<Longrightarrow> set is \<subseteq> {0..<length items} \<Longrightarrow> k < length items \<Longrightarrow>
     fold (bump d) is items ! k = (if k \<in> set is then bump d k items ! k else items ! k)"
proof (induction "is" arbitrary: items)
  case (Cons i "is")
  then have "length (bump d i items) = length items" by (simp add: bump_def)
  with Cons show ?case by (auto simp: bump_def nth_list_update)
qed simp

text \<open>Truncation loses less than one point per item, and the raise of zeros adds at most one per item.\<close>

lemma percent_sum_bounds:
  fixes ss :: "int list" and N :: int
  assumes "list_all (\<lambda>s. 0 \<le> s) ss" "0 < N"
  shows "N * sum_list (map (\<lambda>s. s * 100 div N) ss) \<le> 100 * sum_list ss"
    and "100 * sum_list ss \<le> N * sum_list (map (\<lambda>s. s * 100 div N) ss) + int (length ss) * (N - 1)"
  using assms
proof (induction ss)
  case (Cons s ss)
  define q r where "q = s * 100 div N" and "r = s * 100 mod N"
  have e: "N * q + r = s * 100" by (simp add: q_def r_def)
  have r: "0 \<le> r" "r \<le> N - 1" using \<open>0 < N\<close> pos_mod_bound [of N "s * 100"] by (simp_all add: r_def)
  { case 1 then show ?case using Cons e r by (simp add: algebra_simps flip: q_def) }
  { case 2 then show ?case using Cons e r by (simp add: algebra_simps flip: q_def) }
qed simp_all

lemma trunc_div_nonneg: "0 \<le> a \<Longrightarrow> 0 < b \<Longrightarrow> trunc_div a b = a div b"
  by (simp add: trunc_div_def)

definition raise_zero :: "int \<Rightarrow> int" where
  "raise_zero q = (if q = 0 then 1 else q)"

lemma sum_raise_zero:
  "list_all (\<lambda>q. 0 \<le> q) qs \<Longrightarrow> sum_list qs \<le> sum_list (map raise_zero qs)
     \<and> sum_list (map raise_zero qs) \<le> sum_list qs + int (length qs)"
  by (induction qs) (auto simp: raise_zero_def)

lemma percent_items:
  assumes "list_all (\<lambda>it. 0 \<le> exam_score it) items" "0 < N" "N = sum_list (map exam_score items)"
  shows "\<bar>100 - sum_list (map exam_percent (map (item_percent N) items))\<bar> \<le> int (length items)"
    and "list_all (\<lambda>it. 1 \<le> exam_percent it) (map (item_percent N) items)"
proof -
  let ?qs = "map (\<lambda>it. exam_score it * 100 div N) items"
  have q: "list_all (\<lambda>q. 0 \<le> q) ?qs" using assms(1,2) by (auto simp: list_all_iff pos_imp_zdiv_nonneg_iff)
  have p: "exam_percent (item_percent N it) = raise_zero (exam_score it * 100 div N)" if "it \<in> set items" for it
    using that assms(1,2) by (auto simp: item_percent_def Let_def raise_zero_def trunc_div_nonneg list_all_iff)
  then have eq: "map exam_percent (map (item_percent N) items) = map raise_zero ?qs" by auto
  have s: "list_all (\<lambda>s. 0 \<le> s) (map exam_score items)" using assms(1) by (simp add: list_all_iff)
  have "N * sum_list ?qs \<le> N * 100" "N * 100 \<le> N * sum_list ?qs + int (length items) * (N - 1)"
    using percent_sum_bounds [OF s assms(2)] by (simp_all add: assms(3) [symmetric] comp_def)
  moreover have "int (length items) * (N - 1) \<le> N * int (length items)" by (simp add: algebra_simps)
  ultimately have "N * sum_list ?qs \<le> N * 100" "N * 100 \<le> N * (sum_list ?qs + int (length items))"
    by (auto simp: distrib_left)
  then have "sum_list ?qs \<le> 100" "100 \<le> sum_list ?qs + int (length items)"
    using assms(2) by (simp_all only: mult_le_cancel_left_pos)
  with sum_raise_zero [OF q] show "\<bar>100 - sum_list (map exam_percent (map (item_percent N) items))\<bar> \<le> int (length items)"
    unfolding eq by auto
  show "list_all (\<lambda>it. 1 \<le> exam_percent it) (map (item_percent N) items)"
    using p q by (auto simp: list_all_iff raise_zero_def intro: order.antisym leI)
qed

abbreviation without_percent :: "TASK_EXAM_DATA \<Rightarrow> TASK_EXAM_DATA" where
  "without_percent it \<equiv> it\<lparr>exam_percent := 0\<rparr>"

lemma without_percent_bumps: "set is \<subseteq> {0..<length items} \<Longrightarrow>
    map without_percent (fold (bump d) is items) = map without_percent items"
proof (induction "is" arbitrary: items)
  case (Cons i "is")
  have "map without_percent (bump d i items) = map without_percent items"
    using Cons.prems by (intro nth_equalityI) (auto simp: bump_def nth_list_update)
  moreover have "length (bump d i items) = length items" by (simp add: bump_def)
  ultimately show ?case using Cons by simp
qed simp

section \<open>Properties\<close>



end
