(* ===== verification/TaskStore.thy ===== *)
theory TaskStore
  imports TaskItems
begin

text \<open>
  The software store \<open>CTaskSoft\<close> and the patch list \<open>CTaskPatch\<close> of
  \<open>src/public/astTask/astTask.cpp\<close>: vectors of records searched by name or KB number, guarded by
  a flag that \<open>Lock\<close> waits for and sets.

  \<open>Lock\<close> polls its flag until it is clear.  The operations are modelled as one thread runs them: a flag
  that is set stays set, and the call that waits for it does not return (\<^term>\<open>None\<close>).

  What both stores promise is proved once, in the locale \<open>keyed_vector\<close>: adding a record under a key
  acts on the partial map from keys to records as an update.
\<close>

section \<open>Vectors of keyed records\<close>

text \<open>The position of the first element that satisfies a predicate: a \<open>for\<close> loop with \<open>return &(*it)\<close>.\<close>

fun find_first :: "('a \<Rightarrow> bool) \<Rightarrow> 'a list \<Rightarrow> nat option" where
  "find_first P [] = None"
| "find_first P (x # xs) = (if P x then Some 0 else map_option Suc (find_first P xs))"

text \<open>\<open>erase(begin() + i)\<close>, and erasing the first element that satisfies a predicate.\<close>

definition erase_at :: "nat \<Rightarrow> 'a list \<Rightarrow> 'a list" where
  "erase_at i xs = take i xs @ drop (Suc i) xs"

definition erase_first :: "('a \<Rightarrow> bool) \<Rightarrow> 'a list \<Rightarrow> 'a list" where
  "erase_first P xs = (case find_first P xs of None \<Rightarrow> xs | Some i \<Rightarrow> erase_at i xs)"

definition modify_first :: "('a \<Rightarrow> bool) \<Rightarrow> ('a \<Rightarrow> 'a) \<Rightarrow> 'a list \<Rightarrow> 'a list" where
  "modify_first P f xs = (case find_first P xs of None \<Rightarrow> xs | Some i \<Rightarrow> xs[i := f (xs ! i)])"

definition add_keyed :: "('a \<Rightarrow> 'k) \<Rightarrow> ('a \<Rightarrow> 'a \<Rightarrow> 'a) \<Rightarrow> 'a \<Rightarrow> 'a list \<Rightarrow> int \<times> 'a list" where
  "add_keyed key absorb x xs =
     (case find_first (\<lambda>y. key y = key x) xs of
        Some i \<Rightarrow> (1, xs[i := absorb (xs ! i) x])
      | None \<Rightarrow> (0, xs @ [x]))"

text \<open>The map a vector stands for.\<close>

definition lookup_keyed :: "('a \<Rightarrow> 'k) \<Rightarrow> 'a list \<Rightarrow> 'k \<Rightarrow> 'a option" where
  "lookup_keyed key xs k = map_option (\<lambda>i. xs ! i) (find_first (\<lambda>y. key y = k) xs)"

lemma find_first_Some:
  "find_first P xs = Some i \<longleftrightarrow> i < length xs \<and> P (xs ! i) \<and> (\<forall>j<i. \<not> P (xs ! j))"
proof (induction xs arbitrary: i)
  case (Cons x xs)
  show ?case
    by (cases i) (auto simp: Cons.IH nth_Cons split: nat.splits)
qed simp

lemma find_first_None: "find_first P xs = None \<longleftrightarrow> (\<forall>x \<in> set xs. \<not> P x)"
  by (induction xs) auto

lemma erase_first_simps [simp]:
  "erase_first P [] = []"
  "erase_first P (x # xs) = (if P x then xs else x # erase_first P xs)"
  by (auto simp: erase_first_def erase_at_def split: option.splits)

lemma modify_first_simps [simp]:
  "modify_first P f [] = []"
  "modify_first P f (x # xs) = (if P x then f x # xs else x # modify_first P f xs)"
  by (auto simp: modify_first_def split: option.splits)

lemma lookup_keyed_simps [simp]:
  "lookup_keyed key [] k = None"
  "lookup_keyed key (x # xs) k = (if key x = k then Some x else lookup_keyed key xs k)"
  by (auto simp: lookup_keyed_def option.map_comp comp_def)

lemma add_keyed_simps [simp]:
  "add_keyed key absorb x [] = (0, [x])"
  "add_keyed key absorb x (y # ys) =
     (if key y = key x then (1, absorb y x # ys)
      else let (r, zs) = add_keyed key absorb x ys in (r, y # zs))"
  by (auto simp: add_keyed_def Let_def split: option.splits)

lemma lookup_keyed_None: "lookup_keyed key xs k = None \<longleftrightarrow> k \<notin> key ` set xs"
  by (induction xs) auto

lemma erase_first_filter:
  "distinct (map key xs) \<Longrightarrow> erase_first (\<lambda>x. key x = k) xs = filter (\<lambda>x. key x \<noteq> k) xs"
proof (induction xs)
  case (Cons x xs)
  then have "key x \<notin> key ` set xs" by simp
  then have "\<forall>y \<in> set xs. key y \<noteq> key x" by (metis image_eqI)
  then have "key x = k \<Longrightarrow> filter (\<lambda>x. key x \<noteq> k) xs = xs" by (intro filter_True) auto
  with Cons show ?case by auto
qed simp

lemma erase_keys_filter:
  "distinct (map key xs) \<Longrightarrow> fold (\<lambda>k. erase_first (\<lambda>x. key x = k)) ks xs = filter (\<lambda>x. key x \<notin> set ks) xs"
proof (induction ks arbitrary: xs)
  case (Cons k ks)
  have "distinct (map key (filter (\<lambda>x. key x \<noteq> k) xs))" using Cons.prems by (rule distinct_map_filter)
  with Cons show ?case by (simp add: erase_first_filter conj_commute)
qed simp

lemma modify_first_map:
  "distinct (map key xs) \<Longrightarrow> modify_first (\<lambda>x. key x = k) f xs = map (\<lambda>x. if key x = k then f x else x) xs"
proof (induction xs)
  case (Cons x xs)
  then have "key x \<notin> key ` set xs" by simp
  then have "\<forall>y \<in> set xs. key y \<noteq> key x" by (metis image_eqI)
  then have "key x = k \<Longrightarrow> map (\<lambda>x. if key x = k then f x else x) xs = xs" by (intro map_idI) auto
  with Cons show ?case by auto
qed simp

lemma modify_keys_map:
  assumes "\<And>x. key (f x) = key x" "\<And>x. f (f x) = f x"
  shows "distinct (map key xs) \<Longrightarrow>
    fold (\<lambda>k. modify_first (\<lambda>x. key x = k) f) ks xs = map (\<lambda>x. if key x \<in> set ks then f x else x) xs"
proof (induction ks arbitrary: xs)
  case (Cons k ks)
  let ?ys = "map (\<lambda>x. if key x = k then f x else x) xs"
  have "map key ?ys = map key xs" using assms(1) by simp
  then have "distinct (map key ?ys)" using Cons.prems by (simp only:)
  with Cons show ?case by (auto simp: modify_first_map assms)
qed simp

text \<open>The contract of a store of keyed records; \<open>absorb\<close> overwrites fields of an existing record.\<close>

locale keyed_vector =
  fixes key :: "'a \<Rightarrow> 'k" and absorb :: "'a \<Rightarrow> 'a \<Rightarrow> 'a"
  assumes key_absorb: "key (absorb old new) = key old"
begin

lemma keys_add: "map key (snd (add_keyed key absorb x xs))
    = (if key x \<in> key ` set xs then map key xs else map key xs @ [key x])"
  by (induction xs) (auto simp: Let_def split_beta key_absorb)

lemma distinct_add: "distinct (map key xs) \<Longrightarrow> distinct (map key (snd (add_keyed key absorb x xs)))"
  by (simp add: keys_add)

lemma lookup_add:
  "lookup_keyed key (snd (add_keyed key absorb x xs))
     = (lookup_keyed key xs)(key x \<mapsto> (case lookup_keyed key xs (key x) of None \<Rightarrow> x | Some y \<Rightarrow> absorb y x))"
  by (rule ext, induction xs) (auto simp: Let_def split_beta key_absorb)

lemma code_add: "fst (add_keyed key absorb x xs) = (if lookup_keyed key xs (key x) = None then 0 else 1)"
  by (induction xs) (auto simp: Let_def split_beta)

end

section \<open>The software store\<close>

record TASK_SOFT_DATA =
  btSoftFlag :: bool
  soft_sTid :: string
  soft_name :: string
  soft_torrentname :: string
  soft_resource :: TASK_RESOURCE_DATA
  soft_path :: string
  soft_size :: int
  soft_speed :: int
  soft_desc :: string
  soft_strRecvTime :: string

record CTaskSoft =
  m_SoftList :: "TASK_SOFT_DATA list"
  m_SingleSoftList :: "TASK_SOFT_DATA list"
  m_delSoftList :: "string list"
  m_bSoftLock :: bool

definition soft_Lock :: "CTaskSoft \<Rightarrow> CTaskSoft option" where
  "soft_Lock s = (if m_bSoftLock s then None else Some (s\<lparr>m_bSoftLock := True\<rparr>))"

definition soft_UnLock :: "CTaskSoft \<Rightarrow> CTaskSoft" where
  "soft_UnLock s = s\<lparr>m_bSoftLock := False\<rparr>"

definition FindSoft :: "CTaskSoft \<Rightarrow> string \<Rightarrow> nat option" where
  "FindSoft s nm = find_first (\<lambda>d. soft_name d = nm) (m_SoftList s)"

definition InsertSoft :: "CTaskSoft \<Rightarrow> TASK_SOFT_DATA \<Rightarrow> int \<times> CTaskSoft" where
  "InsertSoft s soft = (0, s\<lparr>m_SoftList := m_SoftList s @ [soft]\<rparr>)"

definition DeleteSoft :: "CTaskSoft \<Rightarrow> string list \<Rightarrow> (int \<times> CTaskSoft) option" where
  "DeleteSoft s dellist =
     map_option (\<lambda>l. (0, soft_UnLock (l\<lparr>m_SoftList :=
         fold (\<lambda>nm. erase_first (\<lambda>d. soft_name d = nm)) dellist (m_SoftList l)\<rparr>)))
       (soft_Lock s)"

text \<open>The fields \<open>AddSoft\<close> copies into a record that is already there.\<close>

definition soft_absorb :: "TASK_SOFT_DATA \<Rightarrow> TASK_SOFT_DATA \<Rightarrow> TASK_SOFT_DATA" where
  "soft_absorb p soft =
     p\<lparr>soft_desc := soft_desc soft, soft_path := soft_path soft, soft_size := soft_size soft,
       soft_speed := soft_speed soft,
       soft_resource := (soft_resource p)\<lparr>ftpsrv := ftpsrv (soft_resource soft),
         pass := pass (soft_resource soft), user := user (soft_resource soft)\<rparr>\<rparr>"

definition AddSoft :: "CTaskSoft \<Rightarrow> TASK_SOFT_DATA \<Rightarrow> (int \<times> CTaskSoft) option" where
  "AddSoft s soft =
     (case soft_Lock s of
        None \<Rightarrow> None
      | Some l \<Rightarrow>
          (case FindSoft l (soft_name soft) of
             Some p \<Rightarrow> Some (1, soft_UnLock (l\<lparr>m_SoftList :=
                          (m_SoftList l)[p := soft_absorb (m_SoftList l ! p) soft]\<rparr>))
           | None \<Rightarrow> let (nReturn, l') = InsertSoft l soft in Some (nReturn, soft_UnLock l')))"

interpretation soft: keyed_vector soft_name soft_absorb
  by unfold_locales (simp add: soft_absorb_def)

lemma AddSoft_keyed:
  "\<not> m_bSoftLock s \<Longrightarrow> AddSoft s soft = (let (r, xs) = add_keyed soft_name soft_absorb soft (m_SoftList s)
     in Some (r, s\<lparr>m_SoftList := xs, m_bSoftLock := False\<rparr>))"
  by (auto simp: AddSoft_def soft_Lock_def soft_UnLock_def FindSoft_def InsertSoft_def add_keyed_def Let_def
      split: option.splits)

section \<open>The patch list\<close>

record TASK_PATCH_DATA =
  btPatchFlag :: bool
  patch_name :: string
  patch_torrentname :: string
  kbnumber :: string
  patch_resource :: TASK_RESOURCE_DATA
  patch_path :: string
  patch_size :: int
  patch_speed :: int
  patch_status :: int
  patch_desc :: string

record CTaskPatch =
  m_PatchList :: "TASK_PATCH_DATA list"
  m_LocalPList :: "string list"
  m_NeedPList :: "string list"
  m_HassNoPList :: "string list"
  m_NoUse :: int
  m_bPatchLock :: bool

definition patch_Lock :: "CTaskPatch \<Rightarrow> CTaskPatch option" where
  "patch_Lock s = (if m_bPatchLock s then None else Some (s\<lparr>m_bPatchLock := True\<rparr>))"

definition patch_UnLock :: "CTaskPatch \<Rightarrow> CTaskPatch" where
  "patch_UnLock s = s\<lparr>m_bPatchLock := False\<rparr>"

definition patch_Clear :: "CTaskPatch \<Rightarrow> CTaskPatch option" where
  "patch_Clear s = map_option (\<lambda>l. patch_UnLock (l\<lparr>m_PatchList := []\<rparr>)) (patch_Lock s)"

definition InsertPatch :: "CTaskPatch \<Rightarrow> TASK_PATCH_DATA \<Rightarrow> int \<times> CTaskPatch" where
  "InsertPatch s patch = (0, s\<lparr>m_PatchList := m_PatchList s @ [patch]\<rparr>)"

definition FindPatch :: "CTaskPatch \<Rightarrow> string \<Rightarrow> nat option" where
  "FindPatch s kb = find_first (\<lambda>p. kbnumber p = kb) (m_PatchList s)"

definition CheckNoUse :: "CTaskPatch \<Rightarrow> int \<times> CTaskPatch" where
  "CheckNoUse s =
     (let n = fold (\<lambda>p n. if patch_status p = 0 then n + 1 else n) (m_PatchList s) 0
      in (n, s\<lparr>m_NoUse := n\<rparr>))"

text \<open>\<open>pP = FindPatch(kb); if (pP != NULL) pP->status = v;\<close>\<close>

definition set_status :: "int \<Rightarrow> string \<Rightarrow> CTaskPatch \<Rightarrow> CTaskPatch" where
  "set_status v kb s =
     (case FindPatch s kb of
        Some i \<Rightarrow> s\<lparr>m_PatchList := (m_PatchList s)[i := (m_PatchList s ! i)\<lparr>patch_status := v\<rparr>]\<rparr>
      | None \<Rightarrow> s)"

definition CheckHotFixNoLock :: "CTaskPatch \<Rightarrow> string list \<Rightarrow> int \<times> CTaskPatch" where
  "CheckHotFixNoLock s localkb =
     (let s1 = s\<lparr>m_PatchList := map (\<lambda>p. if patch_status p < 0 then p\<lparr>patch_status := 0\<rparr> else p) (m_PatchList s)\<rparr>
      in (0, fold (set_status 1) localkb s1))"

definition CheckHotFix :: "CTaskPatch \<Rightarrow> string list \<Rightarrow> (int \<times> CTaskPatch) option" where
  "CheckHotFix s localkb =
     (case patch_Lock s of
        None \<Rightarrow> None
      | Some l \<Rightarrow>
          (let s1 = l\<lparr>m_PatchList := map (\<lambda>p. if patch_status p < 0 then p\<lparr>patch_status := 0\<rparr> else p) (m_PatchList l)\<rparr>
           in Some (0, patch_UnLock (fold (set_status 1) localkb s1))))"

definition GetNoUse :: "CTaskPatch \<Rightarrow> string list \<Rightarrow> int \<times> string list \<times> CTaskPatch" where
  "GetNoUse s list_kb =
     (let (kbs, n) = fold (\<lambda>p (kbs, n). if patch_status p = 0 then (kbs @ [kbnumber p], n + 1) else (kbs, n))
                       (m_PatchList s) (list_kb, 0)
      in (n, kbs, s\<lparr>m_NoUse := n\<rparr>))"

definition GetNeedKb :: "CTaskPatch \<Rightarrow> int \<times> CTaskPatch" where
  "GetNeedKb s =
     (let (out, n) = fold (\<lambda>kb (out, n). if \<not> list_ex (\<lambda>l. kb = l) (m_LocalPList s) then (out @ [kb], n + 1) else (out, n))
                       (m_NeedPList s) (m_HassNoPList s, 0)
      in (n, s\<lparr>m_HassNoPList := out\<rparr>))"

text \<open>The loop of \<open>RemoveDelPatch\<close> runs from the last index down to 0.\<close>

definition RemoveDelPatch :: "CTaskPatch \<Rightarrow> int \<times> CTaskPatch" where
  "RemoveDelPatch s =
     (0, s\<lparr>m_PatchList := fold (\<lambda>i ps. if patch_status (ps ! i) = 2 then erase_at i ps else ps)
             (rev [0..<length (m_PatchList s)]) (m_PatchList s)\<rparr>)"

definition DeletePatch :: "CTaskPatch \<Rightarrow> string list \<Rightarrow> (int \<times> CTaskPatch) option" where
  "DeletePatch s dellist =
     map_option (\<lambda>l. (0, patch_UnLock (snd (RemoveDelPatch (fold (set_status 2) dellist l))))) (patch_Lock s)"

definition patch_absorb :: "TASK_PATCH_DATA \<Rightarrow> TASK_PATCH_DATA \<Rightarrow> TASK_PATCH_DATA" where
  "patch_absorb p patch =
     p\<lparr>patch_name := patch_name patch, patch_desc := patch_desc patch, patch_path := patch_path patch,
       patch_size := patch_size patch, patch_speed := patch_speed patch, patch_status := patch_status patch,
       patch_resource := (patch_resource p)\<lparr>ftpsrv := ftpsrv (patch_resource patch),
         user := user (patch_resource patch), pass := pass (patch_resource patch)\<rparr>\<rparr>"

definition AddPatch :: "CTaskPatch \<Rightarrow> TASK_PATCH_DATA \<Rightarrow> (int \<times> CTaskPatch) option" where
  "AddPatch s patch =
     (case patch_Lock s of
        None \<Rightarrow> None
      | Some l \<Rightarrow>
          (case FindPatch l (kbnumber patch) of
             Some p \<Rightarrow> Some (1, patch_UnLock (l\<lparr>m_PatchList :=
                          (m_PatchList l)[p := patch_absorb (m_PatchList l ! p) patch]\<rparr>))
           | None \<Rightarrow> let (nReturn, l') = InsertPatch l patch in Some (nReturn, patch_UnLock l')))"

interpretation patch: keyed_vector kbnumber patch_absorb
  by unfold_locales (simp add: patch_absorb_def)

lemma AddPatch_keyed:
  "\<not> m_bPatchLock s \<Longrightarrow> AddPatch s patch = (let (r, xs) = add_keyed kbnumber patch_absorb patch (m_PatchList s)
     in Some (r, s\<lparr>m_PatchList := xs, m_bPatchLock := False\<rparr>))"
  by (auto simp: AddPatch_def patch_Lock_def patch_UnLock_def FindPatch_def InsertPatch_def add_keyed_def Let_def
      split: option.splits)

lemma set_status_modify:
  "m_PatchList (set_status v kb s)
     = modify_first (\<lambda>p. kbnumber p = kb) (\<lambda>p. p\<lparr>patch_status := v\<rparr>) (m_PatchList s)"
  "m_bPatchLock (set_status v kb s) = m_bPatchLock s"
  by (auto simp: set_status_def FindPatch_def modify_first_def split: option.splits)

lemma set_statuses:
  assumes "distinct (map kbnumber (m_PatchList s))"
  shows "fold (set_status v) kbs s = s\<lparr>m_PatchList :=
    map (\<lambda>p. if kbnumber p \<in> set kbs then p\<lparr>patch_status := v\<rparr> else p) (m_PatchList s)\<rparr>"
proof -
  have "fold (set_status v) kbs s = s\<lparr>m_PatchList :=
      fold (\<lambda>k. modify_first (\<lambda>p. kbnumber p = k) (\<lambda>p. p\<lparr>patch_status := v\<rparr>)) kbs (m_PatchList s)\<rparr>"
  proof (induction kbs arbitrary: s)
    case (Cons k kbs)
    have "set_status v k s = s\<lparr>m_PatchList :=
        modify_first (\<lambda>p. kbnumber p = k) (\<lambda>p. p\<lparr>patch_status := v\<rparr>) (m_PatchList s)\<rparr>"
      by (auto simp: set_status_def FindPatch_def modify_first_def split: option.splits)
    then show ?case using Cons by simp
  qed simp
  then show ?thesis using modify_keys_map [OF _ _ assms, of "\<lambda>p. p\<lparr>patch_status := v\<rparr>"] by simp
qed

lemma RemoveDelPatch_filter:
  "m_PatchList (snd (RemoveDelPatch s)) = filter (\<lambda>p. patch_status p \<noteq> 2) (m_PatchList s)"
proof -
  let ?f = "\<lambda>i ps. if patch_status (ps ! i) = 2 then erase_at i ps else ps"
  have "fold ?f (rev [0..<length xs]) (xs @ ys) = filter (\<lambda>p. patch_status p \<noteq> 2) xs @ ys" for xs ys
  proof (induction xs arbitrary: ys rule: rev_induct)
    case (snoc x xs)
    have "?f (length xs) ((xs @ [x]) @ ys) = xs @ (if patch_status x = 2 then ys else x # ys)"
      by (simp add: erase_at_def nth_append)
    then show ?case using snoc by (simp del: append_assoc)
  qed simp
  from this [of "m_PatchList s" "[]"] show ?thesis by (simp add: RemoveDelPatch_def)
qed

lemma fold_count:
  "fold (\<lambda>x (out, n). if P x then (out @ [g x], n + 1) else (out, n)) xs (out, n)
     = (out @ map g (filter P xs), n + int (length (filter P xs)))"
  by (induction xs arbitrary: out n) simp_all

lemma fold_count_only:
  "fold (\<lambda>x n. if P x then n + 1 else n) xs n = n + int (length (filter P xs))"
  by (induction xs arbitrary: n) simp_all

section \<open>Properties\<close>

text \<open>
  \<open>AddSoft\<close> is an update of the map from names to software: on an unlocked store it returns,
  with the lock released, 1 for a known name and 0 for a new one; the record found under this name
  afterwards is the old one with the copied fields (or the new one), every other name is unaffected,
  and names stay unique.
\<close>

theorem AddSoft_updates_map:
  assumes "\<not> m_bSoftLock s" "distinct (map soft_name (m_SoftList s))"
  shows "\<exists>r s'. AddSoft s soft = Some (r, s') \<and> \<not> m_bSoftLock s'
    \<and> r = (if FindSoft s (soft_name soft) = None then 0 else 1)
    \<and> distinct (map soft_name (m_SoftList s'))
    \<and> lookup_keyed soft_name (m_SoftList s') = (lookup_keyed soft_name (m_SoftList s))(soft_name soft \<mapsto>
        (case lookup_keyed soft_name (m_SoftList s) (soft_name soft) of None \<Rightarrow> soft | Some old \<Rightarrow> soft_absorb old soft))"
proof -
  have "lookup_keyed soft_name (m_SoftList s) (soft_name soft) = None \<longleftrightarrow> FindSoft s (soft_name soft) = None"
    by (simp add: lookup_keyed_def FindSoft_def)
  then show ?thesis
    unfolding AddSoft_keyed [OF assms(1)]
    using soft.lookup_add [of soft "m_SoftList s"] soft.distinct_add [OF assms(2), of soft]
      soft.code_add [of soft "m_SoftList s"]
    by (auto simp: Let_def split_beta)
qed

text \<open>
  \<open>DeletePatch\<close> keeps exactly the patches that were neither named nor marked as deleted
  before, in their order, and releases the lock.
\<close>

theorem DeletePatch_filters:
  assumes "\<not> m_bPatchLock s" "distinct (map kbnumber (m_PatchList s))"
  shows "\<exists>s'. DeletePatch s dellist = Some (0, s') \<and> \<not> m_bPatchLock s'
    \<and> m_PatchList s' = filter (\<lambda>p. kbnumber p \<notin> set dellist \<and> patch_status p \<noteq> 2) (m_PatchList s)"
proof -
  let ?l = "s\<lparr>m_bPatchLock := True\<rparr>"
  have d: "distinct (map kbnumber (m_PatchList ?l))" using assms(2) by simp
  have "filter (\<lambda>p. patch_status p \<noteq> 2)
      (map (\<lambda>p. if kbnumber p \<in> set dellist then p\<lparr>patch_status := 2\<rparr> else p) xs)
    = filter (\<lambda>p. kbnumber p \<notin> set dellist \<and> patch_status p \<noteq> 2) xs" for xs
    by (induction xs) auto
  then show ?thesis
    using assms(1) unfolding DeletePatch_def patch_Lock_def set_statuses [OF d]
    by (simp add: patch_UnLock_def RemoveDelPatch_filter set_statuses [OF d])
qed

text \<open>
  \<open>CheckHotFix\<close> classifies every patch: installed (1) when its KB number is in the local
  list, not installed (0) when it was unknown, unchanged otherwise; and \<open>GetNoUse\<close> afterwards appends
  exactly the KB numbers of the patches with status 0 and returns their number.
\<close>

theorem CheckHotFix_classifies:
  assumes "\<not> m_bPatchLock s" "distinct (map kbnumber (m_PatchList s))"
  shows "\<exists>s'. CheckHotFix s localkb = Some (0, s') \<and> \<not> m_bPatchLock s'
    \<and> m_PatchList s' = map (\<lambda>p. p\<lparr>patch_status := (if kbnumber p \<in> set localkb then 1
          else if patch_status p < 0 then 0 else patch_status p)\<rparr>) (m_PatchList s)
    \<and> GetNoUse s' kbs = (let miss = filter (\<lambda>p. patch_status p = 0) (m_PatchList s')
        in (int (length miss), kbs @ map kbnumber miss, s'\<lparr>m_NoUse := int (length miss)\<rparr>))"
proof -
  let ?z = "\<lambda>p. if patch_status p < 0 then p\<lparr>patch_status := 0\<rparr> else p"
  let ?l = "s\<lparr>m_bPatchLock := True, m_PatchList := map ?z (m_PatchList s)\<rparr>"
  have "map kbnumber (m_PatchList ?l) = map kbnumber (m_PatchList s)" by simp
  then have d: "distinct (map kbnumber (m_PatchList ?l))" using assms(2) by (simp only:)
  have u: "p\<lparr>patch_status := v\<rparr> = p" if "patch_status p = v" for p :: TASK_PATCH_DATA and v
    using that by (cases p) simp
  have "CheckHotFix s localkb = Some (0, patch_UnLock (fold (set_status 1) localkb ?l))"
    using assms(1) by (simp add: CheckHotFix_def patch_Lock_def)
  also have "fold (set_status 1) localkb ?l = ?l\<lparr>m_PatchList :=
      map (\<lambda>p. p\<lparr>patch_status := (if kbnumber p \<in> set localkb then 1
          else if patch_status p < 0 then 0 else patch_status p)\<rparr>) (m_PatchList s)\<rparr>"
    unfolding set_statuses [OF d] by (auto simp: u)
  finally show ?thesis
    by (simp add: patch_UnLock_def GetNoUse_def fold_count Let_def del: fold_simps)
qed

text \<open>
  \<open>GetNeedKb\<close> appends exactly the needed KB numbers that are not installed locally, in order,
  and returns how many there are.
\<close>

theorem GetNeedKb_missing:
  "GetNeedKb s = (let miss = filter (\<lambda>kb. kb \<notin> set (m_LocalPList s)) (m_NeedPList s)
     in (int (length miss), s\<lparr>m_HassNoPList := m_HassNoPList s @ miss\<rparr>))"
proof -
  have ex: "list_ex ((=) kb) (m_LocalPList s) \<longleftrightarrow> kb \<in> set (m_LocalPList s)" for kb
    by (auto simp: list_ex_iff)
  show ?thesis
    using fold_count [of "\<lambda>kb. kb \<notin> set (m_LocalPList s)" "\<lambda>kb. kb" "m_NeedPList s" "m_HassNoPList s" 0]
    unfolding GetNeedKb_def by (simp add: Let_def ex)
qed

end
