(* ===== verification/CText.thy ===== *)
theory CText
  imports AstPrelude
begin

text \<open>
  The part of the C library that handles texts, as far as several components use it: characters as
  bytes, strings in buffers, and decimal numbers read by \<open>atoi\<close> and printed by \<open>%d\<close>.
\<close>

section \<open>Texts and bytes\<close>

definition byte_char :: "byte \<Rightarrow> char" where
  "byte_char b = char_of (unat b)"

definition char_byte :: "char \<Rightarrow> byte" where
  "char_byte c = of_nat (of_char c)"

definition chars_of :: "byte list \<Rightarrow> string" where
  "chars_of bs = map byte_char bs"

definition bytes_of :: "string \<Rightarrow> byte list" where
  "bytes_of s = map char_byte s"

text \<open>The string in a buffer of characters.\<close>

definition buf_str :: "byte list \<Rightarrow> byte list" where
  "buf_str bs = takeWhile (\<lambda>b. b \<noteq> 0) bs"

text \<open>What a routine sees of a \<open>std::string\<close> it gets as a \<open>char *\<close>.\<close>

definition c_text :: "string \<Rightarrow> string" where
  "c_text t = takeWhile (\<lambda>c. c \<noteq> CHR 0x00) t"

section \<open>Decimal numbers\<close>

definition is_space :: "char \<Rightarrow> bool" where
  "is_space c \<longleftrightarrow> of_char c \<in> {9 :: nat, 10, 11, 12, 13, 32}"

definition is_digit :: "char \<Rightarrow> bool" where
  "is_digit c \<longleftrightarrow> (48 :: nat) \<le> of_char c \<and> of_char c \<le> (57 :: nat)"

definition digits_val :: "string \<Rightarrow> int" where
  "digits_val s = foldl (\<lambda>n c. 10 * n + (of_char c - 48)) 0 (takeWhile is_digit s)"

text \<open>\<open>atoi\<close> of the C library, for values in the range of \<open>int\<close>.\<close>

definition atoi :: "string \<Rightarrow> int" where
  "atoi s =
     (let s' = dropWhile is_space s
      in case s' of
           [] \<Rightarrow> 0
         | c # r \<Rightarrow> if c = CHR ''-'' then - digits_val r else if c = CHR ''+'' then digits_val r else digits_val s')"

abbreviation newline :: char where "newline \<equiv> CHR 0x0A"

definition digit_char :: "nat \<Rightarrow> char" where
  "digit_char d = char_of (48 + d)"

fun digits_of :: "nat \<Rightarrow> string" where
  "digits_of n = (if n < 10 then [digit_char n] else digits_of (n div 10) @ [digit_char (n mod 10)])"

declare digits_of.simps [simp del]

text \<open>\<open>%d\<close> of \<open>fprintf\<close>.\<close>

definition print_int :: "int \<Rightarrow> string" where
  "print_int i = (if i < 0 then CHR ''-'' # digits_of (nat (- i)) else digits_of (nat i))"

section \<open>Facts\<close>

lemma c_text_id: "CHR 0x00 \<notin> set t \<Longrightarrow> c_text t = t"
  by (auto simp: c_text_def)

lemma of_byte_char [simp]: "(of_char (byte_char b) :: nat) = unat b"
proof -
  have "unat b < 2 ^ LENGTH(8)" by (rule unsigned_less)
  then show ?thesis by (simp add: byte_char_def)
qed

lemma char_byte_char [simp]: "char_byte (byte_char b) = b"
  by (simp add: char_byte_def)

lemma bytes_chars [simp]: "bytes_of (chars_of bs) = bs"
  by (simp add: bytes_of_def chars_of_def comp_def)

lemma byte_char_byte [simp]: "byte_char (char_byte c) = c"
  by (simp add: byte_char_def char_byte_def unsigned_of_nat take_bit_nat_eq_self)

lemma chars_bytes [simp]: "chars_of (bytes_of s) = s"
  by (simp add: bytes_of_def chars_of_def comp_def)

lemma length_bytes [simp]: "length (bytes_of s) = length s"
  by (simp add: bytes_of_def)

lemma bytes_of_take: "take n (bytes_of s) = bytes_of (take n s)"
  by (simp add: bytes_of_def take_map)

lemma bytes_of_Nil [simp]: "bytes_of s = [] \<longleftrightarrow> s = []" "bytes_of [] = []"
  by (simp_all add: bytes_of_def)

lemma length_chars [simp]: "length (chars_of bs) = length bs"
  by (simp add: chars_of_def)

lemma atoi_Nil [simp]: "atoi [] = 0"
  by (simp add: atoi_def)

lemma of_digit_char: "d < 10 \<Longrightarrow> of_char (digit_char d) = 48 + d"
  by (simp add: digit_char_def)

lemma is_digit_char: "d < 10 \<Longrightarrow> is_digit (digit_char d)"
  by (simp add: is_digit_def of_digit_char)

lemma digits_of_facts: "digits_of n \<noteq> [] \<and> list_all is_digit (digits_of n)"
  by (induction n rule: digits_of.induct) (subst digits_of.simps, auto simp: is_digit_char)+

lemma digit_not_space: "is_digit c \<Longrightarrow> \<not> is_space c"
  by (auto simp: is_digit_def is_space_def)

lemma digit_not_sign: "is_digit c \<Longrightarrow> c \<noteq> CHR ''-'' \<and> c \<noteq> CHR ''+'' \<and> c \<noteq> newline"
  by (auto simp: is_digit_def)

lemma newline_facts: "is_space newline" "\<not> is_digit newline"
  by (simp_all add: is_space_def is_digit_def)

lemma int_of_char: "(of_char c :: int) = int (of_char c)"
  by (simp add: of_nat_of_char)

lemma foldl_digits: "foldl (\<lambda>n c. 10 * n + (of_char c - 48)) 0 (digits_of k) = int k"
proof (induction k rule: digits_of.induct)
  case (1 n)
  show ?case
  proof (cases "n < 10")
    case True
    then show ?thesis by (subst digits_of.simps) (simp add: int_of_char of_digit_char)
  next
    case False
    then show ?thesis using 1
      by (subst digits_of.simps) (simp add: int_of_char of_digit_char zmod_int zdiv_int)
  qed
qed

lemma takeWhile_digits:
  "\<not> is_digit c \<Longrightarrow> takeWhile is_digit (digits_of n @ c # r) = digits_of n \<and> dropWhile is_digit (digits_of n @ c # r) = c # r"
  using digits_of_facts [of n]
  by (auto simp: list_all_iff takeWhile_append2 dropWhile_append2)

lemma takeWhile_digits_end: "takeWhile is_digit (digits_of n) = digits_of n"
  using digits_of_facts [of n] by (simp add: list_all_iff takeWhile_eq_all_conv)

lemma digits_val_of [simp]: "digits_val (digits_of n) = int n"
  by (simp add: digits_val_def takeWhile_digits_end foldl_digits)

lemma digits_of_Cons: "\<exists>c cs. digits_of n = c # cs \<and> is_digit c"
  using digits_of_facts [of n] by (cases "digits_of n") auto

lemma atoi_print [simp]: "atoi (print_int i) = i"
proof -
  obtain c cs where d: "digits_of (nat \<bar>i\<bar>) = c # cs" "is_digit c" using digits_of_Cons by blast
  have "\<not> is_space (CHR ''-'')" by (simp add: is_space_def)
  then show ?thesis
    using d digit_not_space [OF d(2)] digit_not_sign [OF d(2)] digits_val_of [of "nat \<bar>i\<bar>"]
    by (cases "i < 0") (simp_all add: atoi_def print_int_def Let_def)
qed

lemma length_digits_of: "n < 10 ^ Suc k \<Longrightarrow> length (digits_of n) \<le> Suc k"
proof (induction k arbitrary: n)
  case 0
  then show ?case by (subst digits_of.simps) simp
next
  case (Suc k)
  then have "n div 10 < 10 ^ Suc k" by (simp add: less_mult_imp_div_less)
  with Suc.IH have "length (digits_of (n div 10)) \<le> Suc k" by blast
  then show ?case by (subst digits_of.simps) simp
qed

end
