(* ===== verification/TaskList.thy ===== *)
theory TaskList
  imports TaskStore CText
begin

text \<open>
  The task list \<open>CTaskList\<close> of \<open>src/public/astTask/astTask.cpp\<close>: adding, deleting, finding and
  disabling tasks, the cursor, the lock, and the helpers \<open>checkTid\<close> and \<open>CmpVersion\<close>.

  A \<open>TASKHEAD\<close> is a record; its payload is a \<open>CTaskExam\<close> when one is attached (the reference count of
  the payload is the subject of another theory).  Copying a head copies 30 bytes of \<open>tid\<close> and 23 of
  \<open>lasttime\<close>: with a longer string the copy is not terminated and reading it is undefined
  (\<^term>\<open>None\<close>).  The cursor is an index.  \<open>Lock(60)\<close> is modelled twice: as one thread runs it, where a flag
  that is set stays set for all its polls, and as a step relation of two threads.
\<close>

section \<open>Task heads\<close>

definition TYPE_EXAM_HEALTH :: int where "TYPE_EXAM_HEALTH = 0"

record TASKHEAD =
  tid :: string
  cycle :: int
  task_type :: int
  lasttime :: string
  invalid :: int
  ftime :: int
  task :: "CTaskExam option"

definition TASKHEAD_ctor :: TASKHEAD where
  "TASKHEAD_ctor = \<lparr>tid = [], cycle = 0, task_type = 0, lasttime = ''0000-00-00-00-00-00'', invalid = 0,
     ftime = 0, task = None\<rparr>"

text \<open>The copy constructor and \<open>operator=\<close> on the fields of a head.\<close>

definition copy_head :: "TASKHEAD \<Rightarrow> TASKHEAD option" where
  "copy_head old = (if length (tid old) < 30 \<and> length (lasttime old) < 23 then Some old else None)"

section \<open>The list\<close>

record CTaskList =
  m_TaskList :: "TASKHEAD list"
  m_iCurrent :: nat
  m_bLock :: bool

definition CTaskList_ctor :: CTaskList where
  "CTaskList_ctor = \<lparr>m_TaskList = [], m_iCurrent = 0, m_bLock = False\<rparr>"

definition Lock :: "CTaskList \<Rightarrow> nat \<Rightarrow> (int \<times> CTaskList) option" where
  "Lock L timeouts =
     (if timeouts = 0 then (if m_bLock L then None else Some (0, L\<lparr>m_bLock := True\<rparr>))
      else if m_bLock L then Some (1, L) else Some (0, L\<lparr>m_bLock := True\<rparr>))"

definition UnLock :: "CTaskList \<Rightarrow> CTaskList" where
  "UnLock L = L\<lparr>m_bLock := False\<rparr>"

definition list_Begin :: "CTaskList \<Rightarrow> int \<times> CTaskList" where
  "list_Begin L = (if m_TaskList L \<noteq> [] then 0 else 1, L\<lparr>m_iCurrent := 0\<rparr>)"

definition list_Next :: "CTaskList \<Rightarrow> int \<times> CTaskList" where
  "list_Next L =
     (let n = length (m_TaskList L)
      in if m_iCurrent L = n then (2, L)
         else (if m_iCurrent L + 1 = n then 1 else 0, L\<lparr>m_iCurrent := m_iCurrent L + 1\<rparr>))"

definition list_GetCurrent :: "CTaskList \<Rightarrow> nat" where
  "list_GetCurrent L = m_iCurrent L"

definition IsEmpty :: "CTaskList \<Rightarrow> bool" where
  "IsEmpty L = (m_TaskList L = [])"

definition TaskClear :: "CTaskList \<Rightarrow> CTaskList" where
  "TaskClear L = L\<lparr>m_TaskList := [], m_iCurrent := 0\<rparr>"

text \<open>
  \<open>_AddTask\<close> erases the first task that has the same id or is disabled, then appends a copy.
\<close>

definition AddTask_nolock :: "CTaskList \<Rightarrow> TASKHEAD \<Rightarrow> (int \<times> CTaskList) option" where
  "AddTask_nolock L t =
     map_option (\<lambda>c. (0, L\<lparr>m_TaskList :=
         erase_first (\<lambda>it. tid t = tid it \<or> invalid it = 1) (m_TaskList L) @ [c], m_iCurrent := 0\<rparr>))
       (copy_head t)"

definition AddTask :: "CTaskList \<Rightarrow> TASKHEAD \<Rightarrow> (int \<times> CTaskList) option" where
  "AddTask L t =
     (case Lock L 60 of
        None \<Rightarrow> None
      | Some (nError, l) \<Rightarrow>
          if nError \<noteq> 0 then Some (3, l)
          else map_option (\<lambda>(e, l'). (e, UnLock l')) (AddTask_nolock l t))"

text \<open>\<open>Copy\<close>: the code, the list \<open>out\<close> and the object.\<close>

definition Copy :: "CTaskList \<Rightarrow> TASKHEAD list \<Rightarrow> (int \<times> TASKHEAD list \<times> CTaskList) option" where
  "Copy L out =
     (case Lock L 60 of
        None \<Rightarrow> None
      | Some (nError, l) \<Rightarrow>
          if nError \<noteq> 0 then Some (3, out, l)
          else if list_all (\<lambda>it. copy_head it \<noteq> None) (m_TaskList l)
          then Some (nError, map (the \<circ> copy_head) (m_TaskList l), UnLock l)
          else None)"

definition DelTask :: "CTaskList \<Rightarrow> string option \<Rightarrow> (int \<times> CTaskList) option" where
  "DelTask L taskid =
     (case taskid of
        None \<Rightarrow> Some (1, L)
      | Some i \<Rightarrow>
          (case Lock L 60 of
             None \<Rightarrow> None
           | Some (nError, l) \<Rightarrow>
               if nError \<noteq> 0 then Some (3, l)
               else let l' = (case find_first (\<lambda>it. i = tid it) (m_TaskList l) of
                                None \<Rightarrow> l
                              | Some k \<Rightarrow>
                                  let bEnd = (k + 1 = length (m_TaskList l));
                                      l1 = l\<lparr>m_TaskList := erase_at k (m_TaskList l)\<rparr>
                                  in if bEnd then l1\<lparr>m_iCurrent := 0\<rparr> else l1)
                    in Some (if m_TaskList l' = [] then 1 else 0, UnLock l')))"

definition FindTask :: "CTaskList \<Rightarrow> string \<Rightarrow> nat option" where
  "FindTask L taskid = find_first (\<lambda>it. taskid = tid it) (m_TaskList L)"

definition FindFirst :: "CTaskList \<Rightarrow> int \<Rightarrow> nat option" where
  "FindFirst L ty = find_first (\<lambda>it. task_type it = ty \<and> invalid it = 0) (m_TaskList L)"

definition InvalidTask :: "CTaskList \<Rightarrow> int \<Rightarrow> int \<times> CTaskList" where
  "InvalidTask L ty =
     (int (length (filter (\<lambda>it. task_type it = ty) (m_TaskList L))),
      L\<lparr>m_TaskList := map (\<lambda>it. if task_type it = ty then it\<lparr>invalid := 1\<rparr> else it) (m_TaskList L)\<rparr>)"

section \<open>Task ids\<close>

text \<open>A \<open>char\<close> is signed.\<close>

definition char_code :: "char \<Rightarrow> int" where
  "char_code c = (if of_char c < (128 :: int) then of_char c else of_char c - 256)"

definition checkTid :: "string \<Rightarrow> bool" where
  "checkTid t =
     (if length t < 10 then False
      else list_all (\<lambda>c. \<not> (char_code c < char_code (CHR ''0'') \<or> char_code c > char_code (CHR ''f''))
          \<and> \<not> (char_code c > char_code (CHR ''9'') \<and> char_code c < char_code (CHR ''A''))
          \<and> \<not> (char_code c > char_code (CHR ''F'') \<and> char_code c < char_code (CHR ''a''))) t)"

section \<open>Version numbers\<close>

text \<open>
  The loop of \<open>CmpVersion\<close>: \<open>p1\<close> and \<open>p2\<close> are the rests of the strings, \<open>t1\<close> and \<open>t2\<close> the parts
  copied to \<open>cTmp1\<close> and \<open>cTmp2\<close> (arrays of 256 characters).
\<close>

function cmp_loop :: "string \<Rightarrow> string \<Rightarrow> string \<Rightarrow> string \<Rightarrow> int" where
  "cmp_loop p1 p2 t1 t2 =
     (if p1 = [] \<and> p2 = [] then atoi t1 - atoi t2
      else let end1 = (p1 = [] \<or> hd p1 = CHR ''.'');
               end2 = (p2 = [] \<or> hd p2 = CHR ''.'')
           in if end1 \<and> end2
              then (if atoi t1 - atoi t2 \<noteq> 0 then atoi t1 - atoi t2
                    else cmp_loop (tl p1) (tl p2) [] [])
              else cmp_loop (if end1 then p1 else tl p1) (if end2 then p2 else tl p2)
                     (if end1 then t1 else t1 @ [hd p1]) (if end2 then t2 else t2 @ [hd p2]))"
  by pat_completeness auto
termination
  by (relation "measure (\<lambda>(p1, p2, t1, t2). length p1 + length p2)")
    (auto simp: neq_Nil_conv)

declare cmp_loop.simps [simp del]

definition CmpVersion :: "string \<Rightarrow> string \<Rightarrow> int" where
  "CmpVersion ver1 ver2 = cmp_loop ver1 ver2 [] []"

section \<open>Versions as lists of numbers\<close>

fun split_dot :: "string \<Rightarrow> string list" where
  "split_dot [] = [[]]"
| "split_dot (c # cs) = (if c = CHR ''.'' then [] # split_dot cs
     else (c # hd (split_dot cs)) # tl (split_dot cs))"

text \<open>The first difference of two versions, missing parts counting as 0.\<close>

fun cmp_parts :: "int list \<Rightarrow> int list \<Rightarrow> int" where
  "cmp_parts (x # xs) (y # ys) = (if x \<noteq> y then x - y else cmp_parts xs ys)"
| "cmp_parts (x # xs) [] = (if x \<noteq> 0 then x else cmp_parts xs [])"
| "cmp_parts [] (y # ys) = (if y \<noteq> 0 then - y else cmp_parts [] ys)"
| "cmp_parts [] [] = 0"

definition version_parts :: "string \<Rightarrow> int list" where
  "version_parts v = map atoi (split_dot v)"

lemma split_dot_nonempty [simp]: "split_dot s \<noteq> []"
  by (cases s) simp_all

lemma split_dot_cons: "split_dot s = hd (split_dot s) # tl (split_dot s)"
  by simp

lemma cmp_parts_pad:
  "cmp_parts [0] ys = cmp_parts [] ys" "cmp_parts xs [0] = cmp_parts xs []" "cmp_parts (0 # []) [] = 0"
  by (cases ys; simp) (cases xs; simp)+

text \<open>The parts still to be compared in a state of the loop.\<close>

definition rest_parts :: "string \<Rightarrow> string \<Rightarrow> int list" where
  "rest_parts p t = atoi (t @ hd (split_dot p)) # map atoi (tl (split_dot p))"

lemma rest_parts_step:
  "p \<noteq> [] \<Longrightarrow> hd p \<noteq> CHR ''.'' \<Longrightarrow> rest_parts (tl p) (t @ [hd p]) = rest_parts p t"
  by (cases p) (simp_all add: rest_parts_def)

lemma rest_parts_dot: "rest_parts (CHR ''.'' # p) t = atoi t # rest_parts p []"
proof -
  have "map atoi (split_dot p) = rest_parts p []"
    by (subst split_dot_cons) (simp only: rest_parts_def list.map append_Nil)
  then show ?thesis by (simp add: rest_parts_def)
qed

lemma rest_parts_Nil: "rest_parts [] t = [atoi t]"
  by (simp add: rest_parts_def)

lemma cmp_loop_parts: "cmp_loop p1 p2 t1 t2 = cmp_parts (rest_parts p1 t1) (rest_parts p2 t2)"
proof (induction p1 p2 t1 t2 rule: cmp_loop.induct)
  case (1 p1 p2 t1 t2)
  let ?e1 = "p1 = [] \<or> hd p1 = CHR ''.''" and ?e2 = "p2 = [] \<or> hd p2 = CHR ''.''"
  show ?case
  proof (cases "p1 = [] \<and> p2 = []")
    case True
    then show ?thesis by (simp add: cmp_loop.simps rest_parts_Nil)
  next
    case ne: False
    show ?thesis
    proof (cases "?e1 \<and> ?e2")
      case both: True
      have tail: "rest_parts p t = atoi t # (if p = [] then [] else rest_parts (tl p) [])"
        if "p = [] \<or> hd p = CHR ''.''" for p t
        using that by (cases p) (auto simp: rest_parts_Nil rest_parts_dot)
      show ?thesis
      proof (cases "atoi t1 - atoi t2 \<noteq> 0")
        case True
        then show ?thesis using ne both by (simp add: cmp_loop.simps [of p1] tail)
      next
        case False
        then have "cmp_loop p1 p2 t1 t2 = cmp_parts (rest_parts (tl p1) []) (rest_parts (tl p2) [])"
          using 1(1) [OF ne refl refl both] ne both by (subst cmp_loop.simps) auto
        then show ?thesis
          using both False ne by (auto simp: tail rest_parts_Nil cmp_parts_pad)
      qed
    next
      case other: False
      then show ?thesis
        using 1(2) [OF ne refl refl other] ne
        by (subst cmp_loop.simps) (auto simp: Let_def rest_parts_step)
    qed
  qed
qed

lemma cmp_parts_antisym: "cmp_parts ys xs = - cmp_parts xs ys"
  by (induction xs ys rule: cmp_parts.induct) auto

lemma CmpVersion_parts: "CmpVersion v1 v2 = cmp_parts (version_parts v1) (version_parts v2)"
proof -
  have "version_parts v = rest_parts v []" for v
    unfolding version_parts_def rest_parts_def by (subst split_dot_cons) (simp only: list.map append_Nil)
  then show ?thesis by (simp add: CmpVersion_def cmp_loop_parts)
qed

section \<open>The lists of the operations\<close>

lemma erase_first_cong: "(\<And>x. x \<in> set xs \<Longrightarrow> P x = Q x) \<Longrightarrow> erase_first P xs = erase_first Q xs"
  by (induction xs) auto

lemma lookup_append:
  "lookup_keyed key (xs @ ys) k = (case lookup_keyed key xs k of None \<Rightarrow> lookup_keyed key ys k | Some x \<Rightarrow> Some x)"
  by (induction xs) auto

lemma lookup_filter_other:
  "k \<noteq> j \<Longrightarrow> lookup_keyed key (filter (\<lambda>x. key x \<noteq> j) xs) k = lookup_keyed key xs k"
  by (induction xs) auto

text \<open>Without disabled tasks \<open>AddTask\<close> replaces the task with the same id.\<close>

lemma AddTask_replaces:
  assumes "\<not> m_bLock L" "copy_head t = Some t" "distinct (map tid (m_TaskList L))"
    "list_all (\<lambda>it. invalid it \<noteq> 1) (m_TaskList L)"
  shows "AddTask L t = Some (0, L\<lparr>m_TaskList := filter (\<lambda>it. tid it \<noteq> tid t) (m_TaskList L) @ [t],
      m_iCurrent := 0, m_bLock := False\<rparr>)"
proof -
  have "erase_first (\<lambda>it. tid t = tid it \<or> invalid it = 1) (m_TaskList L)
      = erase_first (\<lambda>it. tid it = tid t) (m_TaskList L)"
    using assms(4) by (intro erase_first_cong) (auto simp: list_all_iff)
  then show ?thesis
    using assms by (simp add: AddTask_def Lock_def AddTask_nolock_def UnLock_def erase_first_filter)
qed

section \<open>Two threads and the lock\<close>

text \<open>
  Where a thread is in \<open>Lock\<close> and \<open>UnLock\<close>: outside, between the test \<open>if(!m_bLock)\<close> and the assignment
  \<open>m_bLock = true\<close>, or inside the guarded section.
\<close>

datatype lock_pc = Outside | Tested | Inside

record lock_state =
  lock_flag :: bool
  lock_pcs :: "bool \<Rightarrow> lock_pc"

inductive lock_step :: "lock_state \<Rightarrow> lock_state \<Rightarrow> bool" where
  test_clear: "\<not> lock_flag s \<Longrightarrow> lock_pcs s t = Outside
     \<Longrightarrow> lock_step s (s\<lparr>lock_pcs := (lock_pcs s)(t := Tested)\<rparr>)"
| set_flag: "lock_pcs s t = Tested
     \<Longrightarrow> lock_step s (s\<lparr>lock_flag := True, lock_pcs := (lock_pcs s)(t := Inside)\<rparr>)"
| release: "lock_pcs s t = Inside
     \<Longrightarrow> lock_step s (s\<lparr>lock_flag := False, lock_pcs := (lock_pcs s)(t := Outside)\<rparr>)"

definition lock_init :: lock_state where
  "lock_init = \<lparr>lock_flag = False, lock_pcs = (\<lambda>_. Outside)\<rparr>"

lemma lock_step_test:
  "\<not> lock_flag s \<Longrightarrow> lock_pcs s t = Outside \<Longrightarrow> s' = s\<lparr>lock_pcs := (lock_pcs s)(t := Tested)\<rparr> \<Longrightarrow> lock_step s s'"
  by (simp add: test_clear)

lemma lock_step_set:
  "lock_pcs s t = Tested \<Longrightarrow> s' = s\<lparr>lock_flag := True, lock_pcs := (lock_pcs s)(t := Inside)\<rparr> \<Longrightarrow> lock_step s s'"
  by (simp add: set_flag)

text \<open>What the flag does guarantee: when it is set, a thread is or was inside; a thread enters only after a test.\<close>

lemma lock_flag_tested:
  "lock_step\<^sup>*\<^sup>* lock_init s \<Longrightarrow> lock_flag s \<Longrightarrow> \<exists>t. lock_pcs s t \<noteq> Outside"
proof (induction rule: rtranclp_induct)
  case (step s s')
  from step.hyps(2) show ?case using step.prems by cases (auto intro: exI)
qed (simp add: lock_init_def)

section \<open>Properties\<close>


text \<open>
  \<open>checkTid\<close> accepts exactly the ids of at least ten hexadecimal digits.
\<close>

theorem checkTid_hex:
  "checkTid t \<longleftrightarrow> 10 \<le> length t \<and> set t \<subseteq> set ''0123456789ABCDEFabcdef''"
proof -
  have *: "(\<not> (char_code c < 48 \<or> char_code c > 102) \<and> \<not> (char_code c > 57 \<and> char_code c < 65)
        \<and> \<not> (char_code c > 70 \<and> char_code c < 97))
      \<longleftrightarrow> c \<in> set ''0123456789ABCDEFabcdef''" (is "?l c \<longleftrightarrow> ?r c") for c
  proof -
    define n :: int where "n = of_char c"
    have n: "0 \<le> n" "n < 256"
      using nat_of_char_less_256 [of c] of_nat_of_char [of c, where ?'a = int, symmetric] by (simp_all add: n_def)
    have "c = d \<longleftrightarrow> n = of_char d" for d by (simp add: n_def)
    then have "?r c \<longleftrightarrow> n \<in> set (map of_char ''0123456789ABCDEFabcdef'')" by simp
    also have "map of_char ''0123456789ABCDEFabcdef'' = [48..57] @ [65..70] @ [97..102 :: int]"
      by simp
    also have "n \<in> set ([48..57] @ [65..70] @ [97..102 :: int])
        \<longleftrightarrow> (48 \<le> n \<and> n \<le> 57) \<or> (65 \<le> n \<and> n \<le> 70) \<or> (97 \<le> n \<and> n \<le> 102)"
      by (simp only: set_append set_upto Un_iff atLeastAtMost_iff)
    finally have r: "?r c \<longleftrightarrow> (48 \<le> n \<and> n \<le> 57) \<or> (65 \<le> n \<and> n \<le> 70) \<or> (97 \<le> n \<and> n \<le> 102)" .
    have cc: "char_code c = (if n < 128 then n else n - 256)" by (simp add: char_code_def n_def)
    show ?thesis unfolding r cc using n by presburger
  qed
  have "checkTid t \<longleftrightarrow> 10 \<le> length t \<and> list_all (\<lambda>c. c \<in> set ''0123456789ABCDEFabcdef'') t"
    unfolding checkTid_def * [symmetric] by (simp add: char_code_def not_less)
  then show ?thesis unfolding list_all_iff by blast
qed

text \<open>
  \<^bold>\<open>C31\<close> \<open>AddTask\<close> replaces: on an unlocked list with unique ids and no disabled task, it returns 0 with
  the lock released, \<open>FindTask\<close> then finds the new task under its id, every other id is found as
  before, and ids stay unique.
\<close>

theorem AddTask_map_update:
  assumes "\<not> m_bLock L" "length (tid t) < 30" "length (lasttime t) < 23" "distinct (map tid (m_TaskList L))"
    "list_all (\<lambda>it. invalid it \<noteq> 1) (m_TaskList L)"
  shows "\<exists>L'. AddTask L t = Some (0, L') \<and> \<not> m_bLock L' \<and> distinct (map tid (m_TaskList L'))
    \<and> map_option (\<lambda>i. m_TaskList L' ! i) (FindTask L' (tid t)) = Some t
    \<and> (k \<noteq> tid t \<longrightarrow> map_option (\<lambda>i. m_TaskList L' ! i) (FindTask L' k)
                      = map_option (\<lambda>i. m_TaskList L ! i) (FindTask L k))"
proof -
  let ?xs = "filter (\<lambda>it. tid it \<noteq> tid t) (m_TaskList L) @ [t]"
  have find: "map_option (\<lambda>i. m_TaskList M ! i) (FindTask M j) = lookup_keyed tid (m_TaskList M) j" for M j
    by (simp add: FindTask_def lookup_keyed_def eq_commute)
  have "lookup_keyed tid (filter (\<lambda>it. tid it \<noteq> tid t) (m_TaskList L)) (tid t) = None"
    by (auto simp: lookup_keyed_None)
  then have "lookup_keyed tid ?xs (tid t) = Some t" by (simp add: lookup_append)
  moreover have "k \<noteq> tid t \<Longrightarrow> lookup_keyed tid ?xs k = lookup_keyed tid (m_TaskList L) k"
    by (auto simp: lookup_append lookup_filter_other split: option.splits)
  moreover have "distinct (map tid ?xs)" using distinct_map_filter [OF assms(4)] by auto
  moreover have "copy_head t = Some t" using assms(2,3) by (simp add: copy_head_def)
  ultimately show ?thesis
    unfolding find AddTask_replaces [OF assms(1) \<open>copy_head t = Some t\<close> assms(4,5)] by simp
qed

theorem AddTask_map_update_witness:
  "\<exists>L'. AddTask \<lparr>m_TaskList = [\<lparr>tid = ''00112233aa'', cycle = 0, task_type = 0, lasttime = ''0'', invalid = 0, ftime = 1, task = None\<rparr>], m_iCurrent = 0, m_bLock = False\<rparr> (\<lparr>tid = ''00112233aa'', cycle = 0, task_type = 0, lasttime = ''0'', invalid = 0, ftime = 1, task = None\<rparr>\<lparr>ftime := 9\<rparr>) = Some (0, L')
    \<and> \<not> m_bLock L' \<and> distinct (map tid (m_TaskList L'))
    \<and> map_option (\<lambda>i. m_TaskList L' ! i) (FindTask L' (tid (\<lparr>tid = ''00112233aa'', cycle = 0, task_type = 0, lasttime = ''0'', invalid = 0, ftime = 1, task = None\<rparr>\<lparr>ftime := 9\<rparr>))) = Some (\<lparr>tid = ''00112233aa'', cycle = 0, task_type = 0, lasttime = ''0'', invalid = 0, ftime = 1, task = None\<rparr>\<lparr>ftime := 9\<rparr>)"
  using AddTask_map_update [of "\<lparr>m_TaskList = [\<lparr>tid = ''00112233aa'', cycle = 0, task_type = 0, lasttime = ''0'', invalid = 0, ftime = 1, task = None\<rparr>], m_iCurrent = 0, m_bLock = False\<rparr>" "\<lparr>tid = ''00112233aa'', cycle = 0, task_type = 0, lasttime = ''0'', invalid = 0, ftime = 1, task = None\<rparr>\<lparr>ftime := 9\<rparr>" "[]"]
  by auto

text \<open>
  A disabled task in front keeps the outdated one alive: \<open>_AddTask\<close> erases only the first task that
  is disabled or has the same id, so when a disabled task stands before the old version, the list
  ends up with two tasks of this id and \<open>FindTask\<close> returns the old one.
\<close>

theorem AddTask_keeps_stale:
  assumes "\<not> m_bLock L" "length (tid t) < 30" "length (lasttime t) < 23"
    "m_TaskList L = d # old # rest" "invalid d = 1" "tid d \<noteq> tid t" "tid old = tid t"
  shows "\<exists>L'. AddTask L t = Some (0, L') \<and> m_TaskList L' = old # rest @ [t] \<and> FindTask L' (tid t) = Some 0"
  using assms by (simp add: AddTask_def Lock_def AddTask_nolock_def UnLock_def copy_head_def FindTask_def)

text \<open>
  \<open>InvalidTask\<close> disables a type: it returns the number of tasks of the type, \<open>FindFirst\<close> then finds
  none of them, and it finds the same task as before for every other type.
\<close>

theorem InvalidTask_disables:
  "\<exists>n L'. InvalidTask L ty = (n, L') \<and> n = int (length (filter (\<lambda>it. task_type it = ty) (m_TaskList L)))
     \<and> FindFirst L' ty = None \<and> (ty' \<noteq> ty \<longrightarrow> FindFirst L' ty' = FindFirst L ty')
     \<and> map tid (m_TaskList L') = map tid (m_TaskList L)"
proof -
  have "find_first (\<lambda>it. task_type it = ty' \<and> invalid it = 0)
      (map (\<lambda>it. if task_type it = ty then it\<lparr>invalid := 1\<rparr> else it) xs)
    = find_first (\<lambda>it. task_type it = ty' \<and> invalid it = 0) xs" if "ty' \<noteq> ty" for xs :: "TASKHEAD list"
    using that by (induction xs) auto
  moreover have "find_first (\<lambda>it. task_type it = ty \<and> invalid it = 0)
      (map (\<lambda>it. if task_type it = ty then it\<lparr>invalid := 1\<rparr> else it) xs) = None" for xs :: "TASKHEAD list"
    by (induction xs) auto
  moreover have "map tid (map (\<lambda>it. if task_type it = ty then it\<lparr>invalid := 1\<rparr> else it) xs) = map tid xs" for xs :: "TASKHEAD list"
    by (induction xs) auto
  ultimately show ?thesis unfolding InvalidTask_def FindFirst_def by simp
qed

text \<open>
  The lock does not exclude: the test of the flag and its setting are two steps, and there is a
  run of two threads after which both are inside the guarded section.
\<close>

theorem lock_admits_two:
  "\<exists>s. lock_step\<^sup>*\<^sup>* lock_init s \<and> lock_pcs s True = Inside \<and> lock_pcs s False = Inside"
proof -
  define s1 where "s1 = \<lparr>lock_flag = False, lock_pcs = (\<lambda>_. Outside)(True := Tested)\<rparr>"
  define s2 where "s2 = \<lparr>lock_flag = False, lock_pcs = (\<lambda>_. Outside)(True := Tested, False := Tested)\<rparr>"
  define s3 where "s3 = \<lparr>lock_flag = True, lock_pcs = (\<lambda>_. Outside)(True := Tested, False := Tested, True := Inside)\<rparr>"
  define s4 where "s4 = \<lparr>lock_flag = True,
      lock_pcs = (\<lambda>_. Outside)(True := Tested, False := Tested, True := Inside, False := Inside)\<rparr>"
  have 1: "lock_step lock_init s1" by (rule lock_step_test [of _ True]) (simp_all add: lock_init_def s1_def)
  have 2: "lock_step s1 s2" by (rule lock_step_test [of _ False]) (simp_all add: s1_def s2_def)
  have 3: "lock_step s2 s3" by (rule lock_step_set [of _ True]) (simp_all add: s2_def s3_def)
  have 4: "lock_step s3 s4" by (rule lock_step_set [of _ False]) (simp_all add: s3_def s4_def)
  have "lock_step\<^sup>*\<^sup>* lock_init s4"
    using 1 2 3 4 by (meson converse_rtranclp_into_rtranclp rtranclp.rtrancl_refl)
  then show ?thesis by (intro exI [of _ s4]) (simp add: s4_def)
qed

end
