(* ===== verification/IniFile.thy ===== *)
theory IniFile
  imports TaskList "HOL-Library.Sublist"
begin

text \<open>
  Initialisation files: \<open>src/public/rwIni/ini_parser.cpp\<close>, and the class \<open>astConfig\<close> of
  \<open>src/public/astconfig.cpp\<close>, which has the same code with the path of the file as a field.

  A file is its text; the file system is a partial map from paths to texts.  The buffers \<open>buf\<close> and
  \<open>w_buf\<close> hold 16384 characters and start as zeros, so a position behind the text reads as the zero
  character (for texts that end at least two characters before the end of the buffer).
  \<^term>\<open>None\<close> is an assertion that fails, a buffer that overflows, or a \<open>sprintf\<close> of the text of the file
  as a format with a conversion in it.
\<close>

section \<open>Characters\<close>

abbreviation NUL :: char where "NUL \<equiv> CHR 0x00"

definition MAX_FILE_SIZE :: nat where "MAX_FILE_SIZE = 1024 * 16"

definition is_newline :: "char \<Rightarrow> bool" where
  "is_newline c \<longleftrightarrow> CHR 0x0A = c \<or> CHR 0x0D = c"

definition end_of_string :: "char \<Rightarrow> bool" where
  "end_of_string c \<longleftrightarrow> NUL = c"

definition left_barce :: "char \<Rightarrow> bool" where
  "left_barce c \<longleftrightarrow> CHR ''['' = c"

definition isright_brace :: "char \<Rightarrow> bool" where
  "isright_brace c \<longleftrightarrow> CHR '']'' = c"

text \<open>\<open>p[i]\<close> for a zero-terminated text in a buffer of zeros.\<close>

definition at :: "string \<Rightarrow> nat \<Rightarrow> char" where
  "at p i = (if i < length p then p ! i else NUL)"

text \<open>\<open>strncmp(a, b, n) == 0\<close>.\<close>

fun strncmp_eq :: "string \<Rightarrow> string \<Rightarrow> nat \<Rightarrow> bool" where
  "strncmp_eq a b 0 = True"
| "strncmp_eq a b (Suc n) = (at a 0 = at b 0 \<and> (at a 0 = NUL \<or> strncmp_eq (drop 1 a) (drop 1 b) n))"

section \<open>Reading and parsing a file\<close>

text \<open>\<open>load_ini_file\<close>: the code, the text and its size; a byte \<open>0xFF\<close> is taken for the end of the file.\<close>

definition load_ini_file :: "string option \<Rightarrow> (bool \<times> string \<times> nat) option" where
  "load_ini_file file =
     (case file of
        None \<Rightarrow> Some (False, [], 0)
      | Some text \<Rightarrow>
          let buf = takeWhile (\<lambda>c. c \<noteq> CHR 0xFF) text
          in if length buf < MAX_FILE_SIZE then Some (True, buf, length buf) else None)"

text \<open>\<open>while(!stop(p[i]) && !end_of_string(p[i])) i++;\<close> and \<open>while(isspace(p[i])) i++;\<close>\<close>

function scan_to :: "(char \<Rightarrow> bool) \<Rightarrow> string \<Rightarrow> nat \<Rightarrow> nat" where
  "scan_to stop p i = (if \<not> stop (at p i) \<and> \<not> end_of_string (at p i) then scan_to stop p (i + 1) else i)"
  by pat_completeness auto
termination
  by (relation "measure (\<lambda>(stop, p, i). length p - i)") (auto simp: at_def end_of_string_def split: if_splits)

function skip_space :: "string \<Rightarrow> nat \<Rightarrow> nat" where
  "skip_space p i = (if is_space (at p i) then skip_space p (i + 1) else i)"
  by pat_completeness auto
termination
  by (relation "measure (\<lambda>(p, i). length p - i)") (auto simp: at_def is_space_def split: if_splits)

text \<open>The search for \<open>=\<close> in the line from \<open>newline_start\<close> to \<open>i\<close>; it succeeds at the matching key.\<close>

function key_loop :: "string \<Rightarrow> string \<Rightarrow> nat \<Rightarrow> nat \<Rightarrow> nat \<Rightarrow> nat option" where
  "key_loop key p newline_start j i =
     (if j < i \<and> at p j \<noteq> CHR ''=''
      then if CHR ''='' = at p (j + 1) \<and> strncmp_eq key (drop newline_start p) (j + 1 - newline_start)
           then Some (j + 1)
           else key_loop key p newline_start (j + 1) i
      else None)"
  by pat_completeness auto
termination
  by (relation "measure (\<lambda>(key, p, n, j, i). i - j)") auto

declare scan_to.simps [simp del] skip_space.simps [simp del] key_loop.simps [simp del]

lemma scan_to_ge: "i \<le> scan_to stop p i"
proof (induction stop p i rule: scan_to.induct)
  case (1 stop p i)
  then show ?case by (subst scan_to.simps) auto
qed

lemma skip_space_ge: "i \<le> skip_space p i"
proof (induction p i rule: skip_space.induct)
  case (1 p i)
  then show ?case by (subst skip_space.simps) auto
qed

lemma at_less: "\<not> end_of_string (at p i) \<Longrightarrow> i < length p"
  by (auto simp: at_def end_of_string_def split: if_splits)

text \<open>The lines of a section: where the key, its \<open>=\<close> and the end of its line are, or where the section ends.\<close>

function sec_loop :: "string \<Rightarrow> string \<Rightarrow> nat \<Rightarrow> nat + nat \<times> nat \<times> nat" where
  "sec_loop key p i =
     (if \<not> (is_newline (at p (i - 1)) \<and> left_barce (at p i)) \<and> \<not> end_of_string (at p i)
      then let newline_start = i;
               e = scan_to is_newline p i
           in case (if CHR '';'' \<noteq> at p newline_start then key_loop key p newline_start newline_start e else None) of
                Some j \<Rightarrow> Inr (newline_start, j, e)
              | None \<Rightarrow> sec_loop key p (e + 1)
      else Inl i)"
  by pat_completeness auto
termination
proof (relation "measure (\<lambda>(key, p, i). length p - i)", goal_cases)
  case (2 key p i)
  then show ?case using scan_to_ge [of i is_newline p] at_less [of p i] by auto
qed simp

declare sec_loop.simps [simp del]

lemma sec_loop_ge: "sec_loop key p i = Inl e \<Longrightarrow> i \<le> e"
proof (induction key p i rule: sec_loop.induct)
  case (1 key p i)
  then show ?case using scan_to_ge [of i is_newline p]
    by (subst (asm) (2) sec_loop.simps) (fastforce simp: Let_def split: if_splits option.splits)
qed

record ini_pos =
  sec_s :: int
  sec_e :: int
  key_s :: int
  key_e :: int
  value_s :: int
  value_e :: int

definition no_pos :: ini_pos where
  "no_pos = \<lparr>sec_s = - 1, sec_e = - 1, key_s = - 1, key_e = - 1, value_s = - 1, value_e = - 1\<rparr>"

function parse_loop :: "string \<Rightarrow> string \<Rightarrow> string \<Rightarrow> nat \<Rightarrow> ini_pos \<Rightarrow> bool \<times> ini_pos" where
  "parse_loop section key p i pos =
     (if end_of_string (at p i) then (False, pos)
      else if (i = 0 \<or> is_newline (at p (i - 1))) \<and> left_barce (at p i)
      then let section_start = i + 1;
               b = scan_to isright_brace p (i + 1)
           in if strncmp_eq (drop section_start p) section (b - section_start)
              then let s = skip_space p (b + 1);
                       pos1 = pos\<lparr>sec_s := int section_start, sec_e := int s\<rparr>
                   in case sec_loop key p s of
                        Inl e \<Rightarrow> parse_loop section key p e pos1
                      | Inr (newline_start, j, e) \<Rightarrow>
                          (True, pos1\<lparr>key_s := int newline_start, key_e := int j - 1,
                                      value_s := int j + 1, value_e := int e\<rparr>)
              else parse_loop section key p b pos
      else parse_loop section key p (i + 1) pos)"
  by pat_completeness auto
termination
proof (relation "measure (\<lambda>(section, key, p, i, pos). length p - i)", goal_cases)
  case (2 sect key p i pos start b s pos1 e)
  then show ?case
    using at_less [of p i] sec_loop_ge [of key p s e] skip_space_ge [of "b + 1" p]
      scan_to_ge [of "i + 1" isright_brace p] by simp
next
  case (3 sect key p i pos start b)
  then show ?case using at_less [of p i] scan_to_ge [of "i + 1" isright_brace p] by simp
next
  case (4 sect key p i pos)
  then show ?case using at_less [of p i] by auto
qed simp

declare parse_loop.simps [simp del]

definition parse_file :: "string \<Rightarrow> string \<Rightarrow> string \<Rightarrow> (bool \<times> ini_pos) option" where
  "parse_file section key buf =
     (if section = [] \<or> key = [] then None else Some (parse_loop section key buf 0 no_pos))"

text \<open>
  \<open>read_profile_string\<close>: the code and the string in \<open>value\<close>; \<open>value0\<close> is its content before.  A default
  that does not fit is copied without terminator.
\<close>

definition read_profile_string ::
    "string \<Rightarrow> string \<Rightarrow> string \<Rightarrow> nat \<Rightarrow> string option \<Rightarrow> string option \<Rightarrow> (bool \<times> string) option" where
  "read_profile_string section key value0 nsize default_value file =
     (let deflt = (case default_value of None \<Rightarrow> value0 | Some d \<Rightarrow> take nsize d)
      in if section = [] \<or> key = [] \<or> nsize = 0 then None
         else case load_ini_file file of
                None \<Rightarrow> None
              | Some (False, _, _) \<Rightarrow> Some (False, deflt)
              | Some (True, buf, file_size) \<Rightarrow>
                  (case parse_file section key buf of
                     None \<Rightarrow> None
                   | Some (False, _) \<Rightarrow> Some (False, deflt)
                   | Some (True, pos) \<Rightarrow>
                       let cpcount = nat (value_e pos - value_s pos);
                           cpcount' = (if nsize - 1 < cpcount then nsize - 1 else cpcount)
                       in Some (True, take cpcount' (drop (nat (value_s pos)) buf))))"

definition read_profile_int :: "string \<Rightarrow> string \<Rightarrow> int \<Rightarrow> string option \<Rightarrow> int option" where
  "read_profile_int section key default_value file =
     map_option (\<lambda>(ok, value). if ok then atoi value else default_value)
       (read_profile_string section key [] 32 None file)"

section \<open>Writing\<close>

text \<open>\<open>sprintf\<close> of a format without arguments to use.\<close>

fun sprintf_plain :: "string \<Rightarrow> string option" where
  "sprintf_plain [] = Some []"
| "sprintf_plain (c # cs) =
     (if c \<noteq> CHR ''%'' then map_option (\<lambda>r. c # r) (sprintf_plain cs)
      else case cs of
             [] \<Rightarrow> None
           | d # ds \<Rightarrow> if d = CHR ''%'' then map_option (\<lambda>r. CHR ''%'' # r) (sprintf_plain ds) else None)"

text \<open>\<open>memcpy(w_buf, buf, n)\<close>.\<close>

definition buf_take :: "nat \<Rightarrow> string \<Rightarrow> string" where
  "buf_take n buf = take n buf @ replicate (n - length buf) NUL"

definition c_str :: "string \<Rightarrow> string" where
  "c_str s = takeWhile (\<lambda>c. c \<noteq> NUL) s"

text \<open>The content of \<open>w_buf\<close> (from the parameters and the file) before it is written.\<close>

definition new_text :: "string \<Rightarrow> string \<Rightarrow> string \<Rightarrow> bool \<times> ini_pos \<Rightarrow> string \<Rightarrow> string option" where
  "new_text section key value r buf =
     (let pos = snd r; n = length buf
      in if sec_s pos = - 1
         then if n = 0 then Some (''['' @ section @ '']'' @ [CHR 0x0A] @ key @ ''='' @ value @ [CHR 0x0A])
              else Some (buf @ [CHR 0x0A] @ ''['' @ section @ '']'' @ [CHR 0x0A] @ key @ ''='' @ value @ [CHR 0x0A])
         else if key_s pos = - 1
         then let e = nat (sec_e pos)
              in map_option (\<lambda>rest. buf_take e buf @ key @ ''='' @ value @ [CHR 0x0A] @ rest)
                   (sprintf_plain (c_str (drop e buf)))
         else Some (take (nat (value_s pos)) buf @ value @ drop (nat (value_e pos)) buf))"

text \<open>
  \<open>write_profile_string\<close>: the code and the file afterwards.  \<open>opened\<close>: \<open>fopen\<close> for writing succeeds;
  \<open>left = Some t\<close>: \<open>fputs\<close> fails and leaves \<open>t\<close> in the file.
\<close>

definition write_profile_string ::
    "bool \<Rightarrow> string option \<Rightarrow> string \<Rightarrow> string \<Rightarrow> string \<Rightarrow> string option \<Rightarrow> (bool \<times> string option) option" where
  "write_profile_string opened left section key value file =
     (if section = [] \<or> key = [] then None
      else case load_ini_file file of
             None \<Rightarrow> None
           | Some (ok, buf, file_size) \<Rightarrow>
               (case (if ok then parse_file section key buf else Some (False, no_pos)) of
                  None \<Rightarrow> None
                | Some r \<Rightarrow>
                    (case new_text section key value r buf of
                       None \<Rightarrow> None
                     | Some w_buf \<Rightarrow>
                         if length w_buf \<ge> MAX_FILE_SIZE then None
                         else if \<not> opened then Some (False, file)
                         else case left of
                                Some t \<Rightarrow> Some (False, Some t)
                              | None \<Rightarrow> Some (True, Some (c_str w_buf)))))"

section \<open>The class \<open>astConfig\<close>\<close>

type_synonym files = "string \<rightharpoonup> string"

record astConfig =
  m_cIp :: string
  m_nPort :: int
  m_nTimeOut :: int
  m_nLogLevel :: int
  m_nLangId :: int
  m_strFilePath :: string

definition cfg_read_string ::
    "files \<Rightarrow> astConfig \<Rightarrow> string \<Rightarrow> string \<Rightarrow> string \<Rightarrow> nat \<Rightarrow> string option \<Rightarrow> (bool \<times> string) option" where
  "cfg_read_string fs cfg section key value0 nsize default_value =
     read_profile_string section key value0 nsize default_value (fs (m_strFilePath cfg))"

definition cfg_read_int :: "files \<Rightarrow> astConfig \<Rightarrow> string \<Rightarrow> string \<Rightarrow> int \<Rightarrow> int option" where
  "cfg_read_int fs cfg section key default_value =
     map_option (\<lambda>(ok, value). if ok then atoi value else default_value)
       (cfg_read_string fs cfg section key [] 32 None)"

text \<open>\<open>wr\<close> says whether a path can be opened for writing; writing to an open file succeeds.\<close>

definition cfg_write_string ::
    "(string \<Rightarrow> bool) \<Rightarrow> files \<Rightarrow> astConfig \<Rightarrow> string \<Rightarrow> string \<Rightarrow> string \<Rightarrow> (bool \<times> files) option" where
  "cfg_write_string wr fs cfg section key value =
     map_option (\<lambda>(ok, t). (ok, fs(m_strFilePath cfg := t)))
       (write_profile_string (wr (m_strFilePath cfg)) None section key value (fs (m_strFilePath cfg)))"

text \<open>\<open>LoadIni\<close>; the language is read from the key of the log level.\<close>

definition LoadIni :: "files \<Rightarrow> astConfig \<Rightarrow> string \<Rightarrow> (bool \<times> astConfig) option" where
  "LoadIni fs cfg cIniPath =
     (let c0 = cfg\<lparr>m_strFilePath := cIniPath\<rparr>
      in case cfg_read_string fs c0 ''SERVER'' ''ip'' (m_cIp c0) 31 None of
           None \<Rightarrow> None
         | Some (False, v) \<Rightarrow> Some (False, c0\<lparr>m_cIp := v\<rparr>)
         | Some (True, v) \<Rightarrow>
             let c1 = c0\<lparr>m_cIp := v\<rparr>
             in case (cfg_read_int fs c1 ''SERVER'' ''port'' 11000, cfg_read_int fs c1 ''SERVER'' ''timeout'' 3000,
                      cfg_read_int fs c1 ''LOG'' ''level'' 0, cfg_read_int fs c1 ''LOG'' ''level'' 2052) of
                  (Some port, Some tmo, Some lvl, Some lang) \<Rightarrow>
                    Some (True, c1\<lparr>m_nPort := port, m_nTimeOut := tmo, m_nLogLevel := lvl, m_nLangId := lang\<rparr>)
                | _ \<Rightarrow> None)"

section \<open>Positions on any text\<close>

lemma scan_to_le: "i \<le> length p \<Longrightarrow> scan_to stop p i \<le> length p"
proof (induction stop p i rule: scan_to.induct)
  case (1 stop p i)
  then show ?case using at_less [of p i] by (subst scan_to.simps) auto
qed

lemma skip_space_le: "i \<le> m \<Longrightarrow> length p \<le> m \<Longrightarrow> skip_space p i \<le> m"
proof (induction p i rule: skip_space.induct)
  case (1 p i)
  have "is_space (at p i) \<Longrightarrow> i < length p" by (auto simp: at_def is_space_def split: if_splits)
  then show ?case using 1 by (subst skip_space.simps) auto
qed

lemma key_loop_bounds: "key_loop key p n j i = Some e \<Longrightarrow> j < e \<and> e \<le> i \<and> at p e = CHR ''=''"
proof (induction key p n j i rule: key_loop.induct)
  case (1 key p n j i)
  show ?case
  proof (cases "CHR ''='' = at p (j + 1) \<and> strncmp_eq key (drop n p) (j + 1 - n)")
    case True
    then show ?thesis using 1(2) by (subst (asm) key_loop.simps) (auto split: if_splits)
  next
    case False
    then have "key_loop key p n (j + 1) i = Some e" "j < i \<and> at p j \<noteq> CHR ''=''"
      using 1(2) by (subst (asm) key_loop.simps, auto split: if_splits)+
    then show ?thesis using 1(1) False by auto
  qed
qed

lemma scan_to_stops: "stop (at p (scan_to stop p i)) \<or> at p (scan_to stop p i) = NUL"
proof (induction stop p i rule: scan_to.induct)
  case (1 stop p i)
  show ?case
  proof (cases "\<not> stop (at p i) \<and> \<not> end_of_string (at p i)")
    case True
    then have "scan_to stop p i = scan_to stop p (i + 1)" by (subst scan_to.simps) simp
    then show ?thesis using 1 True by simp
  next
    case False
    then have "scan_to stop p i = i" by (subst scan_to.simps) auto
    then show ?thesis using False by (auto simp: end_of_string_def)
  qed
qed

lemma scan_to_between: "i \<le> m \<Longrightarrow> m < scan_to stop p i \<Longrightarrow> \<not> stop (at p m) \<and> at p m \<noteq> NUL"
proof (induction stop p i rule: scan_to.induct)
  case (1 stop p i)
  show ?case
  proof (cases "\<not> stop (at p i) \<and> \<not> end_of_string (at p i)")
    case True
    then have "scan_to stop p i = scan_to stop p (i + 1)" by (subst scan_to.simps) simp
    then show ?thesis using 1 True by (cases "m = i") (auto simp: end_of_string_def)
  next
    case False
    then show ?thesis using 1(2,3) by (subst (asm) scan_to.simps) auto
  qed
qed

definition sec_goes :: "string \<Rightarrow> nat \<Rightarrow> bool" where
  "sec_goes p i \<longleftrightarrow> \<not> (is_newline (at p (i - 1)) \<and> left_barce (at p i)) \<and> \<not> end_of_string (at p i)"

definition line_key :: "string \<Rightarrow> string \<Rightarrow> nat \<Rightarrow> nat option" where
  "line_key key p i = (if CHR '';'' \<noteq> at p i then key_loop key p i i (scan_to is_newline p i) else None)"

lemma sec_loop_step:
  "sec_loop key p i =
     (if sec_goes p i
      then (case line_key key p i of
              Some j \<Rightarrow> Inr (i, j, scan_to is_newline p i)
            | None \<Rightarrow> sec_loop key p (scan_to is_newline p i + 1))
      else Inl i)"
  by (subst sec_loop.simps) (simp only: sec_goes_def line_key_def Let_def)

lemma sec_loop_induct [consumes 0, case_names step]:
  assumes "\<And>i. (sec_goes p i \<Longrightarrow> line_key key p i = None \<Longrightarrow> P (scan_to is_newline p i + 1)) \<Longrightarrow> P i"
  shows "P i"
proof (induction "length p - i" arbitrary: i rule: less_induct)
  case less
  show ?case
  proof (rule assms)
    assume "sec_goes p i"
    then have "i < length p" using at_less by (simp add: sec_goes_def)
    then show "P (scan_to is_newline p i + 1)" using scan_to_ge [of i is_newline p] by (intro less) simp
  qed
qed

lemma line_key_bounds:
  assumes "sec_goes p i" "line_key key p i = Some j"
  shows "i < j \<and> j < scan_to is_newline p i \<and> scan_to is_newline p i \<le> length p
    \<and> (\<forall>m. i \<le> m \<and> m < scan_to is_newline p i \<longrightarrow> \<not> is_newline (at p m) \<and> at p m \<noteq> NUL)"
proof -
  have k: "i < j" "j \<le> scan_to is_newline p i" "at p j = CHR ''=''"
    using assms(2) key_loop_bounds [of key p i i "scan_to is_newline p i" j] by (simp_all add: line_key_def split: if_splits)
  have "at p (scan_to is_newline p i) \<noteq> CHR ''=''"
    using scan_to_stops [of is_newline p i] by (auto simp: is_newline_def)
  then have "j \<noteq> scan_to is_newline p i" using k(3) by metis
  moreover have "i < length p" using assms(1) at_less by (simp add: sec_goes_def)
  ultimately show ?thesis
    using k scan_to_le [of i p is_newline] scan_to_between [of i _ is_newline p] by simp
qed

lemma sec_loop_bounds:
  "sec_loop key p i = Inr (n, j, e) \<Longrightarrow>
     n < j \<and> j < e \<and> e \<le> length p \<and> (\<forall>m. n \<le> m \<and> m < e \<longrightarrow> \<not> is_newline (at p m) \<and> at p m \<noteq> NUL)"
proof (induction i rule: sec_loop_induct [where p = p and key = key])
  case (step i)
  then show ?case
    using line_key_bounds [of p i key] by (subst (asm) (2) sec_loop_step) (auto split: if_splits option.splits)
qed

lemma sec_loop_le: "sec_loop key p i = Inl e \<Longrightarrow> i \<le> length p + 1 \<Longrightarrow> e \<le> length p + 1"
proof (induction i rule: sec_loop_induct [where p = p and key = key])
  case (step i)
  have "sec_goes p i \<Longrightarrow> scan_to is_newline p i \<le> length p"
    using at_less [of p i] by (intro scan_to_le) (auto simp: sec_goes_def)
  then show ?case
    using step by (subst (asm) (2) sec_loop_step) (auto split: if_splits option.splits)
qed

definition pos_ok :: "string \<Rightarrow> bool \<times> ini_pos \<Rightarrow> bool" where
  "pos_ok p r \<longleftrightarrow> sec_e (snd r) \<le> int (length p) + 1
     \<and> (fst r \<longrightarrow> (\<exists>n j e. snd r = (snd r)\<lparr>key_s := int n, key_e := int j - 1, value_s := int j + 1, value_e := int e\<rparr>
          \<and> n < j \<and> j < e \<and> e \<le> length p \<and> (\<forall>m. n \<le> m \<and> m < e \<longrightarrow> \<not> is_newline (at p m) \<and> at p m \<noteq> NUL)))"

lemma parse_loop_bounds: "sec_e pos \<le> int (length p) + 1 \<Longrightarrow> pos_ok p (parse_loop sect key p i pos)"
proof (induction sect key p i pos rule: parse_loop.induct)
  case (1 sect key p i pos)
  let ?b = "scan_to isright_brace p (i + 1)"
  let ?s = "skip_space p (?b + 1)"
  consider (stop) "end_of_string (at p i)"
    | (plain) "\<not> end_of_string (at p i)" "\<not> ((i = 0 \<or> is_newline (at p (i - 1))) \<and> left_barce (at p i))"
    | (other) "\<not> end_of_string (at p i)" "(i = 0 \<or> is_newline (at p (i - 1))) \<and> left_barce (at p i)"
        "\<not> strncmp_eq (drop (i + 1) p) sect (?b - (i + 1))"
    | (own) "\<not> end_of_string (at p i)" "(i = 0 \<or> is_newline (at p (i - 1))) \<and> left_barce (at p i)"
        "strncmp_eq (drop (i + 1) p) sect (?b - (i + 1))"
    by blast
  then show ?case
  proof cases
    case stop
    then show ?thesis using 1(4) by (subst parse_loop.simps) (simp add: pos_ok_def)
  next
    case plain
    then show ?thesis using 1(3) 1(4) by (subst parse_loop.simps) auto
  next
    case other
    then show ?thesis using 1(2) 1(4) by (subst parse_loop.simps) auto
  next
    case own
    have b: "?s \<le> length p + 1"
      using scan_to_le [of "i + 1" p isright_brace] at_less [OF own(1)] by (intro skip_space_le) auto
    show ?thesis
    proof (cases "sec_loop key p ?s")
      case (Inl e)
      then show ?thesis using 1(1) [OF own(1,2) refl refl own(3) refl refl Inl] own b
        by (subst parse_loop.simps) (simp add: Let_def)
    next
      case (Inr x)
      obtain n j e where x: "x = (n, j, e)" by (cases x)
      from sec_loop_bounds [OF Inr [unfolded x]] show ?thesis
        using own b Inr x by (subst parse_loop.simps) (auto simp: Let_def pos_ok_def)
    qed
  qed
qed

section \<open>Property\<close>

lemma take_drop_at: "b \<le> length p \<Longrightarrow> take (b - a) (drop a p) = map (at p) [a..<b]"
  by (rule nth_equalityI) (auto simp: at_def)



end
