(* ===== verification/IniStore.thy ===== *)
theory IniStore
  imports IniFile
begin

text \<open>
  Initialisation files as a store: on a file of sections with keys and values, reading and writing
  (\<open>IniFile\<close>) are lookup and update of a two-level map.  The locale \<open>profile_store\<close> is what a client of
  the configuration file relies on; it is interpreted on \<open>read_profile_string\<close> and
  \<open>write_profile_string\<close>.
\<close>

section \<open>Positions in a text\<close>

lemma at_simps [simp]: "at [] i = NUL" "at (c # x) 0 = c" "at (c # x) (Suc i) = at x i"
  by (simp_all add: at_def)

lemma at_append [simp]: "at (pre @ x) (length pre + k) = at x k" "at (pre @ x) (length pre) = at x 0"
  by (simp_all add: at_def nth_append)

lemma at_inside: "i < length l \<Longrightarrow> at (l @ x) i = l ! i"
  by (simp add: at_def nth_append)

lemma at_before: "pre \<noteq> [] \<Longrightarrow> at (pre @ x) (length pre - 1) = last pre"
  by (simp add: at_inside last_conv_nth)

lemma scan_to_append:
  assumes "list_all (\<lambda>c. \<not> stop c \<and> c \<noteq> NUL) l" "stop (at r 0) \<or> at r 0 = NUL"
  shows "scan_to stop (pre @ l @ r) (length pre) = length pre + length l"
  using assms(1)
proof (induction l arbitrary: pre)
  case Nil
  then show ?case using assms(2) by (subst scan_to.simps) (auto simp: end_of_string_def)
next
  case (Cons c l)
  then show ?case using Cons.IH [of "pre @ [c]"]
    by (subst scan_to.simps) (auto simp: end_of_string_def)
qed

lemma skip_space_append:
  assumes "list_all is_space l" "\<not> is_space (at r 0)"
  shows "skip_space (pre @ l @ r) (length pre) = length pre + length l"
  using assms(1)
proof (induction l arbitrary: pre)
  case Nil
  then show ?case using assms(2) by (subst skip_space.simps) simp
next
  case (Cons c l)
  then show ?case using Cons.IH [of "pre @ [c]"] by (subst skip_space.simps) simp
qed

lemma strncmp_sym: "strncmp_eq a b n = strncmp_eq b a n"
  by (induction a b n rule: strncmp_eq.induct) auto

lemma strncmp_prefix: "NUL \<notin> set k \<Longrightarrow> strncmp_eq key (k @ w) (length k) = prefix k key"
proof (induction k arbitrary: key)
  case (Cons c k)
  then show ?case by (cases key) auto
qed simp

section \<open>Lines and sections\<close>

lemma key_loop_line:
  assumes "CHR ''='' \<notin> set k" "NUL \<notin> set k" "m < length k" "length pre + length k < e"
  shows "key_loop key (pre @ k @ CHR ''='' # w) (length pre) (length pre + m) e
    = (if prefix k key then Some (length pre + length k) else None)"
  using assms(3)
proof (induction "length k - m" arbitrary: m)
  case (Suc d)
  let ?p = "pre @ k @ CHR ''='' # w"
  have eq: "at ?p (length pre + m) \<noteq> CHR ''=''"
    using assms(1) Suc.prems by (auto simp: at_inside in_set_conv_nth)
  have nx: "at ?p (length pre + m + 1) = CHR ''='' \<longleftrightarrow> Suc m = length k"
  proof (cases "Suc m = length k")
    case True
    then have "length pre + m + 1 = length (pre @ k)" by simp
    then show ?thesis using True at_append(2) [of "pre @ k" "CHR ''='' # w"] by (simp only: append_assoc at_simps refl simp_thms)
  next
    case False
    then have "Suc m < length k" using Suc.prems by simp
    then have "at ?p (length pre + Suc m) = k ! Suc m" by (simp only: at_append at_inside)
    then show ?thesis using False assms(1) \<open>Suc m < length k\<close> by (auto simp: in_set_conv_nth)
  qed
  have cmp: "strncmp_eq key (drop (length pre) ?p) (length k) = prefix k key"
    using strncmp_prefix [OF assms(2)] by simp
  show ?case
  proof (cases "Suc m = length k")
    case True
    have "key_loop key ?p (length pre) (Suc (length pre + m)) e = None"
      using nx True by (subst key_loop.simps) simp
    then show ?thesis using True eq nx cmp assms(4)
      by (subst key_loop.simps) (simp del: at_append)
  next
    case False
    then have "key_loop key ?p (length pre) (length pre + Suc m) e
      = (if prefix k key then Some (length pre + length k) else None)"
      using Suc by (intro Suc.hyps(1)) auto
    then show ?thesis using False eq nx assms(4) Suc.prems by (subst key_loop.simps) simp
  qed
qed simp

section \<open>Rendered files\<close>

type_synonym ini = "(string \<times> (string \<times> string) list) list"

definition render_key :: "string \<times> string \<Rightarrow> string" where
  "render_key kv = fst kv @ CHR ''='' # snd kv @ [CHR 0x0A]"

definition render_sec :: "string \<times> (string \<times> string) list \<Rightarrow> string" where
  "render_sec x = CHR ''['' # fst x @ CHR '']'' # CHR 0x0A # concat (map render_key (snd x))"

definition render_rest :: "ini \<Rightarrow> string" where
  "render_rest xs = concat (map (\<lambda>x. CHR 0x0A # render_sec x) xs)"

fun render :: "ini \<Rightarrow> string" where
  "render [] = []"
| "render (x # xs) = render_sec x @ render_rest xs"

fun before :: "ini \<Rightarrow> string" where
  "before [] = []"
| "before (x # xs) = render_sec x @ CHR 0x0A # before xs"

lemma render_split: "render (A @ x # B) = before A @ render_sec x @ render_rest B"
proof (induction A)
  case (Cons a A)
  have "render_rest (A @ x # B) = CHR 0x0A # render (A @ x # B)" by (cases A) (simp_all add: render_rest_def)
  with Cons show ?case by simp
qed simp

lemma render_rest_Cons: "render_rest (x # B) = CHR 0x0A # render (x # B)"
  by (simp add: render_rest_def)

definition good_val :: "string \<Rightarrow> bool" where
  "good_val v \<longleftrightarrow> list_all (\<lambda>c. c \<noteq> NUL \<and> \<not> is_newline c \<and> c \<noteq> CHR 0xFF \<and> c \<noteq> CHR ''%'') v"

definition good_key :: "string \<Rightarrow> bool" where
  "good_key k \<longleftrightarrow> k \<noteq> [] \<and> good_val k \<and> CHR ''='' \<notin> set k \<and> hd k \<noteq> CHR '';'' \<and> hd k \<noteq> CHR ''['' \<and> \<not> is_space (hd k)"

definition good_sec :: "string \<Rightarrow> bool" where
  "good_sec s \<longleftrightarrow> s \<noteq> [] \<and> good_val s \<and> CHR '']'' \<notin> set s"

lemma scan_line:
  assumes "good_key k" "good_val v"
  shows "scan_to is_newline (pre @ render_key (k, v) @ r) (length pre) = length pre + length k + 1 + length v"
proof -
  have "scan_to is_newline (pre @ (k @ CHR ''='' # v) @ (CHR 0x0A # r)) (length pre) = length pre + length (k @ CHR ''='' # v)"
    using assms by (intro scan_to_append) (auto simp: good_key_def good_val_def list_all_iff is_newline_def)
  then show ?thesis by (simp add: render_key_def)
qed

lemma sec_loop_key:
  assumes "good_key k" "good_val v"
  shows "sec_loop key (pre @ render_key (k, v) @ r) (length pre)
    = (if prefix k key then Inr (length pre, length pre + length k, length pre + length k + 1 + length v)
       else sec_loop key (pre @ render_key (k, v) @ r) (length pre + length (render_key (k, v))))"
proof -
  define p where "p = pre @ render_key (k, v) @ r"
  obtain c cs where k: "k = c # cs" using assms(1) by (cases k) (auto simp: good_key_def)
  have c: "at p (length pre) = c" "c \<noteq> CHR ''[''" "c \<noteq> CHR '';''" "c \<noteq> NUL"
    using assms(1) by (auto simp: p_def render_key_def good_key_def good_val_def k)
  have p': "p = pre @ k @ CHR ''='' # v @ CHR 0x0A # r" by (simp add: p_def render_key_def)
  have nul: "NUL \<notin> set k" using assms(1) by (auto simp: good_key_def good_val_def list_all_iff)
  have kl: "key_loop key p (length pre) (length pre) (length pre + length k + 1 + length v)
      = (if prefix k key then Some (length pre + length k) else None)"
    unfolding p'
    using key_loop_line [of k 0 pre "length pre + length k + 1 + length v" key "v @ CHR 0x0A # r"] assms(1) nul
    by (simp add: good_key_def k)
  have "scan_to is_newline p (length pre) = length pre + length k + 1 + length v"
    unfolding p_def by (rule scan_line [OF assms])
  then have "sec_loop key p (length pre)
    = (if prefix k key then Inr (length pre, length pre + length k, length pre + length k + 1 + length v)
       else sec_loop key p (length pre + length k + 1 + length v + 1))"
    using c kl by (subst sec_loop.simps) (simp add: end_of_string_def left_barce_def Let_def)
  moreover have "length (render_key (k, v)) = length k + 1 + length v + 1" by (simp add: render_key_def)
  ultimately show ?thesis unfolding p_def by (simp add: ac_simps)
qed

lemma sec_loop_keys:
  assumes "list_all (\<lambda>(k, v). good_key k \<and> good_val v \<and> \<not> prefix k key) ks"
  shows "sec_loop key (pre @ concat (map render_key ks) @ r) (length pre)
    = sec_loop key (pre @ concat (map render_key ks) @ r) (length pre + length (concat (map render_key ks)))"
  using assms
proof (induction ks arbitrary: pre)
  case (Cons x ks)
  obtain k v where x: "x = (k, v)" by (cases x)
  then show ?case
    using Cons sec_loop_key [of k v key pre "concat (map render_key ks) @ r"] Cons.IH [of "pre @ render_key x"]
    by (simp add: algebra_simps)
qed simp

lemma sec_loop_end:
  assumes "list_all (\<lambda>(s, ks). good_sec s) B" "pre \<noteq> []"
  shows "sec_loop key (pre @ render_rest B) (length pre) = Inl (length pre + (if B = [] then 0 else 1))"
proof (cases B)
  case Nil
  then show ?thesis by (subst sec_loop.simps) (simp add: render_rest_def end_of_string_def at_def)
next
  case (Cons x B')
  let ?p = "pre @ render_rest B"
  obtain r where r: "render_rest B = CHR 0x0A # CHR ''['' # r"
    by (simp add: Cons render_rest_def render_sec_def)
  have e: "scan_to is_newline ?p (length pre) = length pre"
    by (subst scan_to.simps) (simp add: r is_newline_def)
  have k: "key_loop key ?p (length pre) (length pre) (length pre) = None" by (subst key_loop.simps) simp
  have "sec_loop key ?p (length pre) = sec_loop key ?p (length pre + 1)"
    using e k by (subst sec_loop.simps) (simp add: r left_barce_def end_of_string_def)
  also have "\<dots> = Inl (length pre + 1)"
    using at_append(1) [of pre "render_rest B" 1] by (subst sec_loop.simps) (simp add: r left_barce_def is_newline_def)
  finally show ?thesis by (simp add: Cons)
qed

section \<open>The parser on a rendered file\<close>

definition line_start :: "string \<Rightarrow> bool" where
  "line_start pre \<longleftrightarrow> pre = [] \<or> is_newline (last pre)"

text \<open>Text without a bracket at the start of a line.\<close>

fun quiet :: "bool \<Rightarrow> string \<Rightarrow> bool" where
  "quiet b [] = True"
| "quiet b (c # cs) = (\<not> (b \<and> left_barce c) \<and> c \<noteq> NUL \<and> quiet (is_newline c) cs)"

lemma line_start_iff: "(length pre = 0 \<or> is_newline (at (pre @ x) (length pre - 1))) = line_start pre"
  using at_before [of pre x] by (cases "pre = []") (simp_all add: line_start_def)

lemma parse_quiet:
  "quiet (line_start pre) l \<Longrightarrow>
    parse_loop sect key (pre @ l @ r) (length pre) pos = parse_loop sect key (pre @ l @ r) (length pre + length l) pos"
proof (induction l arbitrary: pre)
  case (Cons c l)
  have "line_start (pre @ [c]) = is_newline c" by (simp add: line_start_def)
  then have "parse_loop sect key (pre @ c # l @ r) (length pre + 1) pos
      = parse_loop sect key (pre @ c # l @ r) (length pre + length (c # l)) pos"
    using Cons.IH [of "pre @ [c]"] Cons.prems by simp
  moreover have "(line_start pre \<and> left_barce c) = False" "c \<noteq> NUL" using Cons.prems by auto
  ultimately show ?case
    using line_start_iff [of pre "c # l @ r"]
    by (subst parse_loop.simps) (auto simp: end_of_string_def)
qed simp

lemma quiet_append: "quiet b (l @ m) = (quiet b l \<and> quiet (if l = [] then b else is_newline (last l)) m)"
  by (induction l arbitrary: b) auto

lemma quiet_val: "good_val v \<Longrightarrow> v = [] \<or> \<not> b \<or> hd v \<noteq> CHR ''['' \<Longrightarrow> quiet b v"
  by (induction v arbitrary: b) (auto simp: good_val_def left_barce_def)

lemma quiet_key: "good_key k \<Longrightarrow> good_val v \<Longrightarrow> quiet b (render_key (k, v))"
  using quiet_val [of k b] quiet_val [of v False]
  by (auto simp: render_key_def quiet_append good_key_def is_newline_def left_barce_def)

definition good_keys :: "(string \<times> string) list \<Rightarrow> bool" where
  "good_keys ks \<longleftrightarrow> list_all (\<lambda>(k, v). good_key k \<and> good_val v) ks"

lemma quiet_keys: "good_keys ks \<Longrightarrow> quiet b (concat (map render_key ks))"
  by (induction ks arbitrary: b) (auto simp: good_keys_def quiet_append quiet_key)

lemma scan_brace:
  assumes "good_sec s"
  shows "scan_to isright_brace (pre @ render_sec (s, ks) @ r) (length pre + 1) = length pre + 1 + length s"
proof -
  have "scan_to isright_brace ((pre @ ''['') @ s @ (CHR '']'' # CHR 0x0A # concat (map render_key ks) @ r)) (length (pre @ ''[''))
    = length (pre @ ''['') + length s"
    using assms by (intro scan_to_append) (auto simp: good_sec_def good_val_def list_all_iff isright_brace_def)
  then show ?thesis by (simp add: render_sec_def)
qed

lemma sec_name_cmp:
  assumes "good_sec s"
  shows "strncmp_eq (drop (length pre + 1) (pre @ render_sec (s, ks) @ r)) sect (length s) = prefix s sect"
proof -
  have "drop (length pre + 1) (pre @ render_sec (s, ks) @ r) = s @ CHR '']'' # CHR 0x0A # concat (map render_key ks) @ r"
    by (simp add: render_sec_def)
  moreover have "NUL \<notin> set s" using assms by (auto simp: good_sec_def good_val_def list_all_iff)
  ultimately show ?thesis using strncmp_prefix [of s sect] strncmp_sym by metis
qed

lemma parse_other_section:
  assumes "good_sec s" "good_keys ks" "\<not> prefix s sect" "line_start pre"
  shows "parse_loop sect key (pre @ render_sec (s, ks) @ r) (length pre) pos
    = parse_loop sect key (pre @ render_sec (s, ks) @ r) (length pre + length (render_sec (s, ks))) pos"
proof -
  define p where "p = pre @ render_sec (s, ks) @ r"
  have a: "at p (length pre) = CHR ''[''" by (simp add: p_def render_sec_def)
  have "parse_loop sect key p (length pre) pos = parse_loop sect key p (length pre + 1 + length s) pos"
    using scan_brace [OF assms(1), of pre ks r] sec_name_cmp [OF assms(1), of pre ks r sect] assms(3,4) a
      line_start_iff [of pre "render_sec (s, ks) @ r"]
    by (subst parse_loop.simps) (simp add: p_def [symmetric] end_of_string_def left_barce_def)
  also have "p = (pre @ ''['' @ s) @ (CHR '']'' # CHR 0x0A # concat (map render_key ks)) @ r"
    by (simp add: p_def render_sec_def)
  also have "parse_loop sect key \<dots> (length pre + 1 + length s) pos
      = parse_loop sect key \<dots> (length (pre @ ''['' @ s) + length (CHR '']'' # CHR 0x0A # concat (map render_key ks))) pos"
  proof -
    have "quiet (line_start (pre @ ''['' @ s)) (CHR '']'' # CHR 0x0A # concat (map render_key ks))"
      using quiet_keys [OF assms(2)] by (simp add: left_barce_def is_newline_def)
    from parse_quiet [OF this, of sect key r pos] show ?thesis by simp
  qed
  finally show ?thesis by (simp add: render_sec_def ac_simps)
qed

definition sec_at :: "nat \<Rightarrow> string \<Rightarrow> ini_pos \<Rightarrow> ini_pos" where
  "sec_at n s pos = pos\<lparr>sec_s := 1 + int n, sec_e := int (n + length s + 3)\<rparr>"

lemma parse_own_section:
  assumes "good_sec s" "good_keys ks" "ks \<noteq> []" "prefix s sect" "line_start pre"
  shows "parse_loop sect key (pre @ render_sec (s, ks) @ r) (length pre) pos
    = (case sec_loop key (pre @ render_sec (s, ks) @ r) (length pre + length s + 3) of
         Inl e \<Rightarrow> parse_loop sect key (pre @ render_sec (s, ks) @ r) e (sec_at (length pre) s pos)
       | Inr (n, j, e) \<Rightarrow> (True, (sec_at (length pre) s pos)\<lparr>key_s := int n, key_e := int j - 1,
                                      value_s := int j + 1, value_e := int e\<rparr>))"
proof -
  define p where "p = pre @ render_sec (s, ks) @ r"
  have a: "at p (length pre) = CHR ''[''" by (simp add: p_def render_sec_def)
  obtain c w where w: "concat (map render_key ks) = c # w" "\<not> is_space c"
    using assms(2,3) by (cases ks) (auto simp: good_keys_def good_key_def render_key_def neq_Nil_conv)
  have "skip_space ((pre @ ''['' @ s @ '']'') @ [CHR 0x0A] @ (concat (map render_key ks) @ r)) (length (pre @ ''['' @ s @ '']''))
    = length (pre @ ''['' @ s @ '']'') + length [CHR 0x0A]"
    using w by (intro skip_space_append) (simp_all add: is_space_def)
  then have sk: "skip_space p (length pre + 1 + length s + 1) = length pre + length s + 3"
    by (simp add: p_def render_sec_def)
  show ?thesis
    unfolding p_def [symmetric] sec_at_def
    using scan_brace [OF assms(1), of pre ks r] sec_name_cmp [OF assms(1), of pre ks r sect] assms(4,5) a sk
      line_start_iff [of pre "render_sec (s, ks) @ r"]
    by (subst parse_loop.simps)
      (simp add: p_def [symmetric] end_of_string_def left_barce_def Let_def)
qed

definition good_ini :: "ini \<Rightarrow> bool" where
  "good_ini xs \<longleftrightarrow> list_all (\<lambda>(s, ks). good_sec s \<and> good_keys ks \<and> ks \<noteq> []) xs"

lemma good_ini_sec: "good_ini xs \<Longrightarrow> list_all (\<lambda>(s, ks). good_sec s) xs"
  by (auto simp: good_ini_def list_all_iff)

lemma line_start_sec:
  "good_keys ks \<Longrightarrow> ks \<noteq> [] \<Longrightarrow> line_start (pre @ render_sec (s, ks))"
  by (cases ks rule: rev_cases) (auto simp: line_start_def render_sec_def render_key_def is_newline_def)

lemma parse_blank: "parse_loop sect key (pre @ CHR 0x0A # r) (length pre) pos = parse_loop sect key (pre @ CHR 0x0A # r) (length pre + 1) pos"
  using parse_quiet [of pre "[CHR 0x0A]" sect key r pos] by (simp add: left_barce_def)

lemma parse_absent:
  assumes "good_ini xs" "list_all (\<lambda>(s, ks). \<not> prefix s sect) xs" "line_start pre"
  shows "parse_loop sect key (pre @ render xs) (length pre) pos = (False, pos)"
  using assms
proof (induction xs arbitrary: pre)
  case Nil
  then show ?case by (subst parse_loop.simps) (simp add: at_def end_of_string_def)
next
  case (Cons x xs)
  obtain s ks where x: "x = (s, ks)" by (cases x)
  have g: "good_sec s" "good_keys ks" "ks \<noteq> []" "\<not> prefix s sect" using Cons.prems by (auto simp: x good_ini_def)
  note step = parse_other_section [OF g(1,2,4) Cons.prems(3), of key "render_rest xs" pos]
  show ?case
  proof (cases xs)
    case Nil
    then show ?thesis using step
      by (subst (asm) (2) parse_loop.simps) (simp add: x render_rest_def at_def end_of_string_def)
  next
    case (Cons y ys)
    let ?pre = "pre @ render_sec x @ [CHR 0x0A]"
    have "parse_loop sect key (?pre @ render xs) (length ?pre) pos = (False, pos)"
      using Cons.prems by (intro Cons.IH) (auto simp: good_ini_def line_start_def is_newline_def)
    then show ?thesis
      using step parse_blank [of sect key "pre @ render_sec x" "render xs" pos]
      by (simp add: Cons x render_rest_Cons)
  qed
qed


lemma parse_skip_sections:
  assumes "good_ini A" "list_all (\<lambda>(s, ks). \<not> prefix s sect) A" "line_start pre"
  shows "line_start (pre @ before A)
    \<and> parse_loop sect key (pre @ before A @ r) (length pre) pos
      = parse_loop sect key (pre @ before A @ r) (length pre + length (before A)) pos"
  using assms
proof (induction A arbitrary: pre)
  case (Cons x A)
  obtain s ks where x: "x = (s, ks)" by (cases x)
  have g: "good_sec s" "good_keys ks" "ks \<noteq> []" "\<not> prefix s sect" using Cons.prems by (auto simp: x good_ini_def)
  let ?pre = "pre @ render_sec x @ [CHR 0x0A]"
  have "line_start (?pre @ before A) \<and> parse_loop sect key (?pre @ before A @ r) (length ?pre) pos
      = parse_loop sect key (?pre @ before A @ r) (length ?pre + length (before A)) pos"
    using Cons.prems by (intro Cons.IH) (auto simp: good_ini_def line_start_def is_newline_def)
  then show ?case
    using parse_other_section [OF g(1,2,4) Cons.prems(3), of key "CHR 0x0A # before A @ r" pos]
      parse_blank [of sect key "pre @ render_sec x" "before A @ r" pos]
    by (simp add: x ac_simps)
qed simp

lemma parse_found:
  assumes "good_ini (A @ (s, K1 @ (k, v) # K2) # B)" "list_all (\<lambda>(t, ks). \<not> prefix t sect) A"
    "list_all (\<lambda>(j, w). \<not> prefix j key) K1" "prefix s sect" "prefix k key"
  defines "n \<equiv> length (before A)"
  defines "j \<equiv> n + length s + 3 + length (concat (map render_key K1)) + length k"
  shows "\<exists>pos. parse_loop sect key (render (A @ (s, K1 @ (k, v) # K2) # B)) 0 no_pos = (True, pos)
    \<and> sec_s pos \<noteq> - 1 \<and> key_s pos \<noteq> - 1 \<and> value_s pos = int (j + 1) \<and> value_e pos = int (j + 1 + length v)"
proof -
  let ?ks = "K1 @ (k, v) # K2"
  have g: "good_ini A" "good_sec s" "good_keys ?ks" "good_ini B" using assms(1) by (auto simp: good_ini_def)
  then have gk: "good_key k" "good_val v" "list_all (\<lambda>(j, w). good_key j \<and> good_val w \<and> \<not> prefix j key) K1"
    using assms(3) by (auto simp: good_keys_def list_all_iff)
  define p where "p = before A @ render_sec (s, ?ks) @ render_rest B"
  have "line_start []" by (simp add: line_start_def)
  from parse_skip_sections [OF g(1) assms(2) this, of key "render_sec (s, ?ks) @ render_rest B" no_pos]
  have ls: "line_start (before A)" "parse_loop sect key p 0 no_pos = parse_loop sect key p n no_pos"
    by (simp_all add: p_def n_def)
  let ?pre = "before A @ ''['' @ s @ '']'' @ [CHR 0x0A]"
  define q where "q = ?pre @ concat (map render_key K1)"
  have p1: "p = ?pre @ concat (map render_key K1) @ (render_key (k, v) @ concat (map render_key K2) @ render_rest B)"
    "p = q @ render_key (k, v) @ concat (map render_key K2) @ render_rest B"
    by (simp_all add: p_def q_def render_sec_def)
  have lp: "n + length s + 3 = length ?pre" by (simp add: n_def)
  have lq: "n + length s + 3 + length (concat (map render_key K1)) = length q" "j = length q + length k"
    by (simp_all add: n_def j_def q_def)
  have "sec_loop key p (n + length s + 3) = sec_loop key p (n + length s + 3 + length (concat (map render_key K1)))"
    unfolding lp unfolding p1(1) by (rule sec_loop_keys [OF gk(3)])
  also have "\<dots> = Inr (j - length k, j, j + 1 + length v)"
    unfolding lq(1) using sec_loop_key [OF gk(1,2), of key q "concat (map render_key K2) @ render_rest B"] assms(5) lq(2)
    by (simp add: p1(2))
  finally have sl: "sec_loop key p (n + length s + 3) = Inr (j - length k, j, j + 1 + length v)" .
  have "parse_loop sect key p n no_pos = (True, (sec_at n s no_pos)\<lparr>key_s := int (j - length k), key_e := int j - 1,
      value_s := int j + 1, value_e := int (j + 1 + length v)\<rparr>)"
    using parse_own_section [OF g(2,3) _ assms(4) ls(1), of key "render_rest B" no_pos] sl
    by (simp add: n_def p_def [symmetric])
  then show ?thesis using ls(2) unfolding render_split p_def [symmetric] by (simp add: sec_at_def)
qed

lemma parse_key_absent:
  assumes "good_ini (A @ (s, ks) # B)" "list_all (\<lambda>(t, ks). \<not> prefix t s) A" "list_all (\<lambda>(t, ks). \<not> prefix t s) B"
    "list_all (\<lambda>(j, w). \<not> prefix j k) ks"
  shows "parse_loop s k (render (A @ (s, ks) # B)) 0 no_pos = (False, sec_at (length (before A)) s no_pos)"
proof -
  let ?n = "length (before A)"
  have g: "good_ini A" "good_sec s" "good_keys ks" "ks \<noteq> []" "good_ini B" using assms(1) by (auto simp: good_ini_def)
  then have gk: "list_all (\<lambda>(j, w). good_key j \<and> good_val w \<and> \<not> prefix j k) ks"
    using assms(4) by (auto simp: good_keys_def list_all_iff)
  define p where "p = before A @ render_sec (s, ks) @ render_rest B"
  have "line_start []" by (simp add: line_start_def)
  from parse_skip_sections [OF g(1) assms(2) this, of k "render_sec (s, ks) @ render_rest B" no_pos]
  have ls: "line_start (before A)" "parse_loop s k p 0 no_pos = parse_loop s k p ?n no_pos"
    by (simp_all add: p_def)
  let ?pre = "before A @ ''['' @ s @ '']'' @ [CHR 0x0A]" and ?S = "before A @ render_sec (s, ks)"
  define e where "e = length ?S + (if B = [] then 0 else 1)"
  have lp: "?n + length s + 3 = length ?pre" "length ?S = length ?pre + length (concat (map render_key ks))"
    by (simp_all add: render_sec_def)
  have p1: "p = ?pre @ concat (map render_key ks) @ render_rest B" by (simp add: p_def render_sec_def)
  have "sec_loop k p (?n + length s + 3) = sec_loop k p (length ?S)"
    unfolding lp unfolding p1 by (rule sec_loop_keys [OF gk])
  also have "\<dots> = Inl e"
    using sec_loop_end [OF good_ini_sec [OF g(5)], of ?S k] by (simp add: p_def e_def render_sec_def)
  finally have sl: "sec_loop k p (?n + length s + 3) = Inl e" .
  have "parse_loop s k p e (sec_at ?n s no_pos) = (False, sec_at ?n s no_pos)"
  proof (cases B)
    case Nil
    then show ?thesis by (subst parse_loop.simps) (simp add: e_def p_def render_rest_def at_def end_of_string_def)
  next
    case (Cons y ys)
    have "line_start (?S @ [CHR 0x0A])" by (simp add: line_start_def is_newline_def)
    from parse_absent [OF g(5) assms(3) this, of k "sec_at ?n s no_pos"]
    show ?thesis by (simp add: Cons p_def e_def render_rest_Cons)
  qed
  then have "parse_loop s k p ?n no_pos = (False, sec_at ?n s no_pos)"
    using parse_own_section [OF g(2,3,4) _ ls(1), of s k "render_rest B" no_pos] sl
    by (simp add: p_def [symmetric])
  then show ?thesis using ls(2) unfolding render_split p_def [symmetric] by simp
qed


section \<open>Reading and writing rendered files\<close>

text \<open>
  The names the program uses; none is a prefix of another one.  In a file of this form reading and
  writing are lookup and update of a two-level map.
\<close>

definition ini_sections :: "string list" where
  "ini_sections = [''SERVER'', ''LOG'', ''SECRETKEY'']"

definition ini_keys :: "string list" where
  "ini_keys = [''ip'', ''port'', ''timeout'', ''level'', ''agentid'', ''uuid'', ''ka'', ''mac'']"

definition wf_keys :: "(string \<times> string) list \<Rightarrow> bool" where
  "wf_keys ks \<longleftrightarrow> distinct (map fst ks) \<and> list_all (\<lambda>(k, v). k \<in> set ini_keys \<and> good_val v) ks"

definition wf_ini :: "ini \<Rightarrow> bool" where
  "wf_ini xs \<longleftrightarrow> distinct (map fst xs) \<and> list_all (\<lambda>(s, ks). s \<in> set ini_sections \<and> ks \<noteq> [] \<and> wf_keys ks) xs"

definition ini_get :: "ini \<Rightarrow> string \<Rightarrow> string \<Rightarrow> string option" where
  "ini_get xs s k = (case map_of xs s of None \<Rightarrow> None | Some ks \<Rightarrow> map_of ks k)"

fun key_put :: "string \<Rightarrow> string \<Rightarrow> (string \<times> string) list \<Rightarrow> (string \<times> string) list" where
  "key_put k v [] = []"
| "key_put k v ((j, w) # ks) = (if j = k then (j, v) # ks else (j, w) # key_put k v ks)"

definition key_set :: "string \<Rightarrow> string \<Rightarrow> (string \<times> string) list \<Rightarrow> (string \<times> string) list" where
  "key_set k v ks = (if k \<in> fst ` set ks then key_put k v ks else (k, v) # ks)"

fun ini_set :: "string \<Rightarrow> string \<Rightarrow> string \<Rightarrow> ini \<Rightarrow> ini" where
  "ini_set s k v [] = [(s, [(k, v)])]"
| "ini_set s k v ((t, ks) # xs) = (if t = s then (t, key_set k v ks) # xs else (t, ks) # ini_set s k v xs)"

lemma names_prefix_free:
  "s \<in> set ini_sections \<Longrightarrow> t \<in> set ini_sections \<Longrightarrow> prefix s t \<longleftrightarrow> s = t"
  "j \<in> set ini_keys \<Longrightarrow> k \<in> set ini_keys \<Longrightarrow> prefix j k \<longleftrightarrow> j = k"
  by (auto simp: ini_sections_def ini_keys_def)

lemma names_good: "s \<in> set ini_sections \<Longrightarrow> good_sec s" "k \<in> set ini_keys \<Longrightarrow> good_key k"
  by (auto simp: ini_sections_def ini_keys_def good_sec_def good_key_def good_val_def is_newline_def is_space_def)

lemma wf_ini_good: "wf_ini xs \<Longrightarrow> good_ini xs"
  using names_good by (fastforce simp: wf_ini_def good_ini_def wf_keys_def good_keys_def list_all_iff)

lemma map_of_split:
  assumes "map_of xs a = Some b"
  obtains A B where "xs = A @ (a, b) # B" "a \<notin> fst ` set A"
  using assms
proof (induction xs arbitrary: thesis)
  case (Cons x xs)
  show ?case
  proof (cases "fst x = a")
    case True
    then show ?thesis using Cons.prems(1) [of "[]" xs] Cons.prems(2) by (cases x) auto
  next
    case False
    then obtain A B where "xs = A @ (a, b) # B" "a \<notin> fst ` set A"
      using Cons.IH Cons.prems(2) by (cases x) auto
    then show ?thesis using Cons.prems(1) [of "x # A" B] False by auto
  qed
qed simp

lemma others_no_prefix:
  assumes "wf_ini (A @ (s, ks) # B)" "s \<in> set ini_sections"
  shows "list_all (\<lambda>(t, ks). \<not> prefix t s) A" "list_all (\<lambda>(t, ks). \<not> prefix t s) B"
proof -
  have "\<not> prefix t s" if "(t, ks') \<in> set A \<union> set B" for t ks'
  proof -
    have "s \<notin> fst ` set A" "s \<notin> fst ` set B" using assms(1) by (simp_all add: wf_ini_def)
    moreover have "t \<in> fst ` set A \<union> fst ` set B" using that by (auto intro: image_eqI [where x = "(t, ks')"])
    moreover have "t \<in> set ini_sections" using assms(1) that by (auto simp: wf_ini_def list_all_iff)
    ultimately have "t \<in> set ini_sections" "t \<noteq> s" by auto
    then show ?thesis using names_prefix_free(1) assms(2) by blast
  qed
  then show "list_all (\<lambda>(t, ks). \<not> prefix t s) A" "list_all (\<lambda>(t, ks). \<not> prefix t s) B"
    by (auto simp: list_all_iff)
qed

lemma keys_no_prefix:
  assumes "wf_keys ks" "k \<in> set ini_keys" "k \<notin> fst ` set K1" "set K1 \<subseteq> set ks"
  shows "list_all (\<lambda>(j, w). \<not> prefix j k) K1"
proof -
  have "\<not> prefix j k" if "(j, w) \<in> set K1" for j w
  proof -
    have "j \<in> set ini_keys" "j \<noteq> k" using assms(1,3,4) that by (force simp: wf_keys_def list_all_iff)+
    then show ?thesis using names_prefix_free(2) assms(2) by blast
  qed
  then show ?thesis by (auto simp: list_all_iff)
qed

lemma wf_ini_split: "wf_ini (A @ (s, ks) # B) \<Longrightarrow> wf_keys ks \<and> s \<in> set ini_sections"
  by (simp add: wf_ini_def)

lemma wf_absent:
  assumes "wf_ini xs" "s \<in> set ini_sections" "map_of xs s = None"
  shows "list_all (\<lambda>(t, ks). \<not> prefix t s) xs"
proof -
  have "\<not> prefix t s" if "(t, ks) \<in> set xs" for t ks
  proof -
    have "t \<in> set ini_sections" "t \<noteq> s"
      using assms(1,3) that by (force simp: wf_ini_def list_all_iff map_of_eq_None_iff)+
    then show ?thesis using names_prefix_free(1) assms(2) by blast
  qed
  then show ?thesis by (auto simp: list_all_iff)
qed

text \<open>The three cases of a search.\<close>

lemma ini_cases:
  assumes "wf_ini xs" "s \<in> set ini_sections" "k \<in> set ini_keys"
  obtains (found) A B K1 K2 v where "xs = A @ (s, K1 @ (k, v) # K2) # B" "ini_get xs s k = Some v"
      "s \<notin> fst ` set A" "k \<notin> fst ` set K1"
      "list_all (\<lambda>(t, ks). \<not> prefix t s) A" "list_all (\<lambda>(j, w). \<not> prefix j k) K1"
  | (no_key) A B ks where "xs = A @ (s, ks) # B" "ini_get xs s k = None" "s \<notin> fst ` set A" "k \<notin> fst ` set ks"
      "list_all (\<lambda>(t, ks). \<not> prefix t s) A" "list_all (\<lambda>(t, ks). \<not> prefix t s) B" "list_all (\<lambda>(j, w). \<not> prefix j k) ks"
  | (no_section) "ini_get xs s k = None" "map_of xs s = None" "list_all (\<lambda>(t, ks). \<not> prefix t s) xs"
proof (cases "map_of xs s")
  case None
  then show ?thesis using no_section wf_absent [OF assms(1,2)] by (simp add: ini_get_def)
next
  case (Some ks)
  then obtain A B where xs: "xs = A @ (s, ks) # B" "s \<notin> fst ` set A" by (rule map_of_split)
  note wf = wf_ini_split [OF assms(1) [unfolded xs(1)]]
  note np = others_no_prefix [OF assms(1) [unfolded xs(1)] assms(2)]
  show ?thesis
  proof (cases "map_of ks k")
    case None
    then have k: "k \<notin> fst ` set ks" by (simp add: map_of_eq_None_iff)
    show ?thesis
      using no_key [OF xs(1) _ xs(2) k np keys_no_prefix [OF _ assms(3) k, of ks]] wf None Some by (simp add: ini_get_def)
  next
    case (Some v)
    then obtain K1 K2 where ks: "ks = K1 @ (k, v) # K2" "k \<notin> fst ` set K1" by (rule map_of_split)
    have "list_all (\<lambda>(j, w). \<not> prefix j k) K1" using wf ks by (intro keys_no_prefix [OF _ assms(3)]) auto
    then show ?thesis using found [OF xs(1) [unfolded ks(1)] _ xs(2) ks(2) np(1)] Some \<open>map_of xs s = Some ks\<close>
      by (simp add: ini_get_def)
  qed
qed

section \<open>Reading and writing\<close>

definition plain_text :: "string \<Rightarrow> bool" where
  "plain_text t \<longleftrightarrow> list_all (\<lambda>c. c \<noteq> NUL \<and> c \<noteq> CHR 0xFF \<and> c \<noteq> CHR ''%'') t"

lemma plain_text_simps [simp]:
  "plain_text []" "plain_text (c # t) \<longleftrightarrow> c \<noteq> NUL \<and> c \<noteq> CHR 0xFF \<and> c \<noteq> CHR ''%'' \<and> plain_text t"
  "plain_text (t @ u) \<longleftrightarrow> plain_text t \<and> plain_text u"
  by (auto simp: plain_text_def)

lemma plain_val: "good_val v \<Longrightarrow> plain_text v"
  by (auto simp: good_val_def plain_text_def list_all_iff)

lemma plain_keys: "good_keys ks \<Longrightarrow> plain_text (concat (map render_key ks))"
  by (induction ks) (auto simp: good_keys_def render_key_def good_key_def plain_val)

lemma plain_sec: "good_sec s \<Longrightarrow> good_keys ks \<Longrightarrow> plain_text (render_sec (s, ks))"
  by (simp add: render_sec_def plain_keys good_sec_def plain_val)

lemma plain_rest: "good_ini xs \<Longrightarrow> plain_text (render_rest xs)"
  by (induction xs) (auto simp: good_ini_def render_rest_def plain_sec)

lemma plain_before: "good_ini xs \<Longrightarrow> plain_text (before xs)"
  by (induction xs) (auto simp: good_ini_def plain_sec)

lemma plain_render: "good_ini xs \<Longrightarrow> plain_text (render xs)"
  using plain_rest by (cases xs) (auto simp: good_ini_def plain_sec)

lemma plain_c_str [simp]: "plain_text t \<Longrightarrow> c_str t = t" "plain_text t \<Longrightarrow> takeWhile (\<lambda>c. c \<noteq> CHR 0xFF) t = t"
  by (simp_all add: c_str_def plain_text_def takeWhile_eq_all_conv list_all_iff)

lemma plain_sprintf [simp]: "plain_text t \<Longrightarrow> sprintf_plain t = Some t"
  by (induction t) auto

lemma load_rendered:
  assumes "good_ini xs" "length (render xs) < MAX_FILE_SIZE"
  shows "load_ini_file (Some (render xs)) = Some (True, render xs, length (render xs))"
  using assms plain_render [OF assms(1)] by (simp add: load_ini_file_def Let_def)

lemma names_nonempty: "s \<in> set ini_sections \<Longrightarrow> s \<noteq> []" "k \<in> set ini_keys \<Longrightarrow> k \<noteq> []"
  by (auto simp: ini_sections_def ini_keys_def)

lemma render_found:
  "render (A @ (s, K1 @ (k, v) # K2) # B)
    = (before A @ ''['' @ s @ '']'' @ [CHR 0x0A] @ concat (map render_key K1) @ k @ ''='') @ v
      @ [CHR 0x0A] @ concat (map render_key K2) @ render_rest B"
  by (simp add: render_split render_sec_def render_key_def)

lemma read_rendered:
  assumes "wf_ini xs" "s \<in> set ini_sections" "k \<in> set ini_keys" "length (render xs) < MAX_FILE_SIZE" "0 < n"
  shows "read_profile_string s k v0 n d (Some (render xs))
    = Some (case ini_get xs s k of
              None \<Rightarrow> (False, case d of None \<Rightarrow> v0 | Some x \<Rightarrow> take n x)
            | Some v \<Rightarrow> (True, take (n - 1) v))"
  using assms(1-3)
proof (cases rule: ini_cases)
  case (found A B K1 K2 v)
  define X where "X = before A @ ''['' @ s @ '']'' @ [CHR 0x0A] @ concat (map render_key K1) @ k @ ''=''"
  have lx: "length X = length (before A) + length s + 3 + length (concat (map render_key K1)) + length k + 1"
    by (simp add: X_def)
  obtain pos where pos: "parse_loop s k (render xs) 0 no_pos = (True, pos)"
    "value_s pos = int (length X)" "value_e pos = int (length X + length v)"
    using parse_found [of A s K1 k v K2 B s k] found wf_ini_good [OF assms(1)] unfolding lx by blast
  have "render xs = X @ v @ [CHR 0x0A] @ concat (map render_key K2) @ render_rest B"
    unfolding found(1) X_def by (rule render_found)
  then show ?thesis
    using pos found(2) names_nonempty(1) [OF assms(2)] names_nonempty(2) [OF assms(3)] assms(5)
      load_rendered [OF wf_ini_good [OF assms(1)] assms(4)]
    by (simp add: read_profile_string_def parse_file_def Let_def)
next
  case (no_key A B ks)
  then show ?thesis
    using parse_key_absent [of A s ks B k] wf_ini_good [OF assms(1)] names_nonempty assms
      load_rendered [OF wf_ini_good [OF assms(1)] assms(4)]
    by (auto simp: read_profile_string_def parse_file_def)
next
  case no_section
  then show ?thesis
    using parse_absent [of xs s "[]" k no_pos] wf_ini_good [OF assms(1)] names_nonempty assms
      load_rendered [OF wf_ini_good [OF assms(1)] assms(4)]
    by (auto simp: read_profile_string_def parse_file_def line_start_def)
qed

lemma before_render: "xs \<noteq> [] \<Longrightarrow> before xs = render xs @ [CHR 0x0A]"
proof (induction xs)
  case (Cons x xs)
  then show ?case by (cases xs) (simp_all add: render_rest_def)
qed simp

lemma key_put_split: "k \<notin> fst ` set K1 \<Longrightarrow> key_put k v (K1 @ (k, w) # K2) = K1 @ (k, v) # K2"
  by (induction K1) auto

lemma ini_set_split: "s \<notin> fst ` set A \<Longrightarrow> ini_set s k v (A @ (s, ks) # B) = A @ (s, key_set k v ks) # B"
  by (induction A) auto

lemma ini_set_absent: "map_of xs s = None \<Longrightarrow> ini_set s k v xs = xs @ [(s, [(k, v)])]"
  by (induction xs) (auto split: if_splits)

lemma write_rendered:
  assumes "wf_ini xs" "s \<in> set ini_sections" "k \<in> set ini_keys" "good_val v"
    "length (render xs) < MAX_FILE_SIZE" "length (render (ini_set s k v xs)) < MAX_FILE_SIZE"
  shows "write_profile_string True None s k v (Some (render xs)) = Some (True, Some (render (ini_set s k v xs)))"
proof -
  let ?new = "render (ini_set s k v xs)"
  note good = wf_ini_good [OF assms(1)]
  obtain r where r: "parse_loop s k (render xs) 0 no_pos = r" "new_text s k v r (render xs) = Some ?new \<and> plain_text ?new"
    using assms(1-3)
  proof (cases rule: ini_cases)
    case (found A B K1 K2 w)
    define X Y where "X = before A @ ''['' @ s @ '']'' @ [CHR 0x0A] @ concat (map render_key K1) @ k @ ''=''"
      and "Y = [CHR 0x0A] @ concat (map render_key K2) @ render_rest B"
    have lx: "length X = length (before A) + length s + 3 + length (concat (map render_key K1)) + length k + 1"
      by (simp add: X_def)
    obtain pos where pos: "parse_loop s k (render xs) 0 no_pos = (True, pos)" "sec_s pos \<noteq> - 1" "key_s pos \<noteq> - 1"
      "value_s pos = int (length X)" "value_e pos = int (length X + length w)"
      using parse_found [of A s K1 k w K2 B s k] found good unfolding lx by blast
    have x: "render xs = X @ w @ Y" unfolding found(1) X_def Y_def by (rule render_found)
    have "ini_set s k v xs = A @ (s, K1 @ (k, v) # K2) # B"
      using found(1,3,4) by (simp add: ini_set_split key_set_def key_put_split)
    then have n: "?new = X @ v @ Y" unfolding X_def Y_def by (simp only: render_found)
    have "plain_text (X @ v @ Y)" using plain_render [OF good] plain_val [OF assms(4)] x by simp
    then show ?thesis using that [OF pos(1)] pos x n by (simp add: new_text_def Let_def)
  next
    case (no_key A B ks)
    define X Y where "X = before A @ ''['' @ s @ '']'' @ [CHR 0x0A]" and "Y = concat (map render_key ks) @ render_rest B"
    have x: "render xs = X @ Y" by (simp add: no_key(1) X_def Y_def render_split render_sec_def)
    have n: "?new = X @ k @ ''='' @ v @ [CHR 0x0A] @ Y"
      using no_key(1,3,4) by (simp add: ini_set_split key_set_def X_def Y_def render_split render_sec_def render_key_def)
    have lx: "length (before A) + length s + 3 = length X" by (simp add: X_def)
    have pl: "plain_text X" "plain_text Y" "plain_text k" "plain_text v"
      using plain_render [OF good] x plain_val assms(4) names_good(2) [OF assms(3)] by (auto simp: good_key_def)
    have "parse_loop s k (render xs) 0 no_pos = (False, sec_at (length (before A)) s no_pos)"
      using parse_key_absent [of A s ks B k] no_key good by simp
    then show ?thesis
      by (rule that) (use x n pl lx in \<open>simp add: new_text_def Let_def sec_at_def no_pos_def buf_take_def\<close>)
  next
    case no_section
    have p: "parse_loop s k (render xs) 0 no_pos = (False, no_pos)"
      using parse_absent [of xs s "[]" k no_pos] no_section(3) good by (simp add: line_start_def)
    have n: "?new = before xs @ ''['' @ s @ '']'' @ [CHR 0x0A] @ k @ ''='' @ v @ [CHR 0x0A]"
      using no_section(2) render_split [of xs "(s, [(k, v)])" "[]"]
      by (simp add: ini_set_absent render_sec_def render_key_def render_rest_def)
    have "plain_text ?new"
      unfolding n using plain_before [OF good] plain_val assms(4) names_good(1) [OF assms(2)] names_good(2) [OF assms(3)]
      by (auto simp: good_key_def good_sec_def)
    moreover have "render xs = [] \<longleftrightarrow> xs = []" by (cases xs) (auto simp: render_sec_def)
    ultimately show ?thesis
      using n by (intro that [OF p]) (auto simp: new_text_def no_pos_def Let_def before_render)
  qed
  then show ?thesis
    using load_rendered [OF good assms(5)] assms(6) names_nonempty(1) [OF assms(2)] names_nonempty(2) [OF assms(3)]
    by (simp add: write_profile_string_def parse_file_def)
qed

lemma write_new_file:
  assumes "s \<in> set ini_sections" "k \<in> set ini_keys" "good_val v" "length s + length k + length v + 5 < MAX_FILE_SIZE"
  shows "write_profile_string True None s k v None = Some (True, Some (render (ini_set s k v [])))"
proof -
  have "plain_text (render [(s, [(k, v)])])"
    using names_good(1) [OF assms(1)] names_good(2) [OF assms(2)] assms(3) by (intro plain_render) (simp add: good_ini_def good_keys_def)
  then show ?thesis
    using assms(4) names_nonempty(1) [OF assms(1)] names_nonempty(2) [OF assms(2)]
    by (simp add: write_profile_string_def load_ini_file_def new_text_def no_pos_def render_sec_def render_key_def render_rest_def Let_def)
qed

section \<open>The map in the file\<close>

lemma map_of_key_put: "k \<in> fst ` set ks \<Longrightarrow> map_of (key_put k v ks) = (map_of ks)(k \<mapsto> v)"
proof (induction ks)
  case (Cons x ks)
  then show ?case by (cases x) (cases "fst x = k", auto)
qed simp

lemma map_of_key_set: "map_of (key_set k v ks) = (map_of ks)(k \<mapsto> v)"
  by (simp add: key_set_def map_of_key_put)

lemma ini_get_set: "ini_get (ini_set s k v xs) s' k' = (if s' = s \<and> k' = k then Some v else ini_get xs s' k')"
  by (induction s k v xs rule: ini_set.induct) (auto simp: ini_get_def map_of_key_set)

lemma fst_key_put: "map fst (key_put k v ks) = map fst ks"
  by (induction ks) auto

lemma set_key_put: "set (key_put k v ks) \<subseteq> insert (k, v) (set ks)"
  by (induction ks) (auto split: if_splits)

lemma wf_key_set: "wf_keys ks \<Longrightarrow> k \<in> set ini_keys \<Longrightarrow> good_val v \<Longrightarrow> wf_keys (key_set k v ks)"
  using set_key_put [of k v ks] by (auto simp: wf_keys_def key_set_def fst_key_put list_all_iff)

lemma fst_ini_set: "set (map fst (ini_set s k v xs)) = insert s (set (map fst xs))"
  by (induction s k v xs rule: ini_set.induct) auto

lemma key_set_nonempty: "ks \<noteq> [] \<Longrightarrow> key_set k v ks \<noteq> []"
  using fst_key_put [of k v ks] by (auto simp: key_set_def)

lemma wf_ini_set:
  assumes "wf_ini xs" "s \<in> set ini_sections" "k \<in> set ini_keys" "good_val v"
  shows "wf_ini (ini_set s k v xs)"
  using assms
proof (induction s k v xs rule: ini_set.induct)
  case (1 s k v)
  then show ?case by (simp add: wf_ini_def wf_keys_def)
next
  case (2 s k v t ks xs)
  then show ?case
    using fst_ini_set [of s k v xs] key_set_nonempty wf_key_set by (auto simp: wf_ini_def)
qed

lemma length_key_put: "length (concat (map render_key (key_put k v ks))) \<le> length (concat (map render_key ks)) + length v"
  by (induction ks) (auto simp: render_key_def)

lemma length_key_set:
  "length (concat (map render_key (key_set k v ks))) \<le> length (concat (map render_key ks)) + length k + length v + 2"
  using length_key_put [of k v ks] by (auto simp: key_set_def render_key_def)

lemma length_render_key: "length (render_key (k, v)) = length k + length v + 2"
  by (simp add: render_key_def)

lemma length_render: "length (render xs) + (if xs = [] then 0 else 1) = length (render_rest xs)"
  by (cases xs) (simp_all add: render_rest_def)

lemma length_ini_set: "length (render (ini_set s k v xs)) \<le> length (render xs) + length s + length k + length v + 6"
proof (induction s k v xs rule: ini_set.induct)
  case (1 s k v)
  then show ?case by (simp add: render_sec_def render_key_def render_rest_def)
next
  case (2 s k v t ks xs)
  have "ini_set s k v xs \<noteq> []" using fst_ini_set [of s k v xs] by auto
  then show ?case
    using 2 length_key_set [of k v ks] length_render [of "ini_set s k v xs"] length_render [of xs]
    by (auto simp: render_sec_def length_render_key split: if_splits)
qed

lemma value_fits: "map_of xs s = Some ks \<Longrightarrow> map_of ks k = Some v \<Longrightarrow> length v < length (render xs)"
proof -
  assume "map_of xs s = Some ks" "map_of ks k = Some v"
  then obtain A B K1 K2 where "xs = A @ (s, ks) # B" "ks = K1 @ (k, v) # K2"
    by (metis map_of_split)
  then show ?thesis by (simp add: render_found)
qed

section \<open>The store as an interface\<close>

text \<open>
  What a client of the configuration file relies on: \<open>get\<close> is the content, \<open>rd\<close> the bounded read of the
  program, \<open>wr\<close> the write, \<open>used\<close> the size of the file in a buffer of \<open>cap\<close> characters.
\<close>

locale profile_store =
  fixes get :: "'f \<Rightarrow> string \<Rightarrow> string \<Rightarrow> string option"
    and rd :: "nat \<Rightarrow> 'f \<Rightarrow> string \<Rightarrow> string \<Rightarrow> (bool \<times> string) option"
    and wr :: "'f \<Rightarrow> string \<Rightarrow> string \<Rightarrow> string \<Rightarrow> 'f option"
    and ok :: "'f \<Rightarrow> bool"
    and used :: "'f \<Rightarrow> nat"
    and cap :: nat
    and sections :: "string set"
    and keys :: "string set"
    and fits :: "string \<Rightarrow> bool"
  assumes rd_get: "ok f \<Longrightarrow> s \<in> sections \<Longrightarrow> k \<in> keys \<Longrightarrow> 0 < n \<Longrightarrow>
      rd n f s k = Some (case get f s k of None \<Rightarrow> (False, []) | Some v \<Rightarrow> (True, take (n - 1) v))"
    and wr_succeeds: "ok f \<Longrightarrow> s \<in> sections \<Longrightarrow> k \<in> keys \<Longrightarrow> fits v \<Longrightarrow>
      used f + length s + length k + length v + 6 < cap \<Longrightarrow>
      \<exists>f'. wr f s k v = Some f' \<and> ok f' \<and> used f' \<le> used f + length s + length k + length v + 6
        \<and> (\<forall>s' \<in> sections. \<forall>k' \<in> keys. get f' s' k' = (if s' = s \<and> k' = k then Some v else get f s' k'))"

fun wr_all :: "('f \<Rightarrow> string \<Rightarrow> string \<Rightarrow> string \<Rightarrow> 'f option) \<Rightarrow> 'f \<Rightarrow> string \<Rightarrow> (string \<times> string) list \<Rightarrow> 'f option" where
  "wr_all wr f s [] = Some f"
| "wr_all wr f s ((k, v) # kvs) = (case wr f s k v of None \<Rightarrow> None | Some f' \<Rightarrow> wr_all wr f' s kvs)"

definition need :: "string \<Rightarrow> (string \<times> string) list \<Rightarrow> nat" where
  "need s kvs = sum_list (map (\<lambda>(k, v). length s + length k + length v + 6) kvs)"

context profile_store
begin

lemma wr_all_succeeds:
  assumes "ok f" "s \<in> sections" "list_all (\<lambda>(k, v). k \<in> keys \<and> fits v) kvs" "distinct (map fst kvs)"
    "used f + need s kvs < cap"
  shows "\<exists>f'. wr_all wr f s kvs = Some f' \<and> ok f'
    \<and> (\<forall>s' \<in> sections. \<forall>k \<in> keys. get f' s' k = (if s' = s then (case map_of kvs k of Some v \<Rightarrow> Some v | None \<Rightarrow> get f s k) else get f s' k))"
  using assms
proof (induction kvs arbitrary: f)
  case Nil
  then show ?case by auto
next
  case (Cons x kvs)
  obtain k v where x: "x = (k, v)" by (cases x)
  obtain f1 where f1: "wr f s k v = Some f1" "ok f1" "used f1 \<le> used f + length s + length k + length v + 6"
    "\<forall>s' \<in> sections. \<forall>k' \<in> keys. get f1 s' k' = (if s' = s \<and> k' = k then Some v else get f s' k')"
    using wr_succeeds [of f s k v] Cons.prems by (auto simp: x need_def)
  obtain f' where f': "wr_all wr f1 s kvs = Some f'" "ok f'"
    "\<forall>s' \<in> sections. \<forall>k \<in> keys. get f' s' k = (if s' = s then (case map_of kvs k of Some v \<Rightarrow> Some v | None \<Rightarrow> get f1 s k) else get f1 s' k)"
    using Cons.IH [OF f1(2)] Cons.prems f1(3) by (auto simp: x need_def)
  have "map_of kvs k = None" using Cons.prems(4) by (simp add: x map_of_eq_None_iff)
  then show ?case
    using f1 f' Cons.prems(2) by (auto simp: x split: option.splits)
qed

lemma rd_after_wr_all:
  assumes "ok f" "s \<in> sections" "list_all (\<lambda>(k, v). k \<in> keys \<and> fits v) kvs" "distinct (map fst kvs)"
    "used f + need s kvs < cap"
  shows "\<exists>f'. wr_all wr f s kvs = Some f' \<and> ok f'
    \<and> (\<forall>(k, v) \<in> set kvs. \<forall>n > 0. rd n f' s k = Some (True, take (n - 1) v))"
proof -
  obtain f' where f': "wr_all wr f s kvs = Some f'" "ok f'"
    "\<forall>s' \<in> sections. \<forall>k \<in> keys. get f' s' k = (if s' = s then (case map_of kvs k of Some v \<Rightarrow> Some v | None \<Rightarrow> get f s k) else get f s' k)"
    using wr_all_succeeds [OF assms] by blast
  have "rd n f' s k = Some (True, take (n - 1) v)" if "(k, v) \<in> set kvs" "0 < n" for k v n
    using f' assms(2-4) that rd_get [OF f'(2) assms(2), of k n] by (auto simp: list_all_iff)
  then show ?thesis using f'(1,2) by blast
qed

end

definition file_get :: "string option \<Rightarrow> string \<Rightarrow> string \<Rightarrow> string option" where
  "file_get f s k = (case read_profile_string s k [] MAX_FILE_SIZE None f of Some (True, v) \<Rightarrow> Some v | _ \<Rightarrow> None)"

definition file_read :: "nat \<Rightarrow> string option \<Rightarrow> string \<Rightarrow> string \<Rightarrow> (bool \<times> string) option" where
  "file_read n f s k = read_profile_string s k [] n (Some []) f"

definition file_write :: "string option \<Rightarrow> string \<Rightarrow> string \<Rightarrow> string \<Rightarrow> string option option" where
  "file_write f s k v = map_option snd (write_profile_string True None s k v f)"

definition file_ok :: "string option \<Rightarrow> bool" where
  "file_ok f \<longleftrightarrow> (\<exists>xs. wf_ini xs \<and> length (render xs) < MAX_FILE_SIZE \<and> (f = Some (render xs) \<or> f = None \<and> xs = []))"

definition file_used :: "string option \<Rightarrow> nat" where
  "file_used f = (case f of None \<Rightarrow> 0 | Some t \<Rightarrow> length t)"

lemma file_get_rendered:
  assumes "wf_ini xs" "s \<in> set ini_sections" "k \<in> set ini_keys" "length (render xs) < MAX_FILE_SIZE"
  shows "file_get (Some (render xs)) s k = ini_get xs s k"
proof -
  have "0 < MAX_FILE_SIZE" by (simp add: MAX_FILE_SIZE_def)
  moreover have "take (MAX_FILE_SIZE - 1) v = v" if "ini_get xs s k = Some v" for v
    using that value_fits [of xs s _ k v] assms(4) by (auto simp: ini_get_def split: option.splits)
  ultimately show ?thesis
    using read_rendered [OF assms, of MAX_FILE_SIZE "[]" None] by (simp add: file_get_def split: option.splits)
qed

lemma file_none: "s \<in> set ini_sections \<Longrightarrow> k \<in> set ini_keys \<Longrightarrow> file_get None s k = None"
  "s \<in> set ini_sections \<Longrightarrow> k \<in> set ini_keys \<Longrightarrow> 0 < n \<Longrightarrow> file_read n None s k = Some (False, [])"
  using names_nonempty
  by (auto simp: file_get_def file_read_def read_profile_string_def load_ini_file_def MAX_FILE_SIZE_def)

interpretation ini: profile_store file_get file_read file_write file_ok file_used MAX_FILE_SIZE
  "set ini_sections" "set ini_keys" good_val
proof (unfold_locales, goal_cases)
  case (1 f s k n)
  then obtain xs where xs: "wf_ini xs" "length (render xs) < MAX_FILE_SIZE" "f = Some (render xs) \<or> f = None"
    by (auto simp: file_ok_def)
  then show ?case
    using 1 read_rendered [OF xs(1) 1(2,3) xs(2) 1(4), of "[]" "Some []"] file_get_rendered [OF xs(1) 1(2,3) xs(2)]
      file_none [OF 1(2,3)] by (cases "ini_get xs s k") (auto simp: file_read_def)
next
  case (2 f s k v)
  then obtain xs where xs: "wf_ini xs" "length (render xs) < MAX_FILE_SIZE" "f = Some (render xs) \<or> f = None \<and> xs = []"
    by (auto simp: file_ok_def)
  have u: "file_used f = length (render xs)" using xs(3) by (auto simp: file_used_def)
  let ?new = "ini_set s k v xs"
  have new: "wf_ini ?new" "length (render ?new) \<le> length (render xs) + length s + length k + length v + 6"
    "length (render ?new) < MAX_FILE_SIZE"
    using wf_ini_set [OF xs(1) 2(2-4)] length_ini_set [of s k v xs] 2(5) u by auto
  have w: "file_write f s k v = Some (Some (render ?new))"
    using xs(3) write_rendered [OF xs(1) 2(2-4) xs(2) new(3)] write_new_file [OF 2(2-4)] 2(5)
    by (auto simp: file_write_def)
  have g: "file_get f s' k' = ini_get xs s' k'" if "s' \<in> set ini_sections" "k' \<in> set ini_keys" for s' k'
    using xs(3) file_get_rendered [OF xs(1) that xs(2)] file_none(1) [OF that] by (auto simp: ini_get_def)
  show ?case
    using w new u g file_get_rendered [OF new(1) _ _ new(3)]
    by (auto simp: file_ok_def file_used_def ini_get_set)
qed

section \<open>Properties\<close>



text \<open>
  Names match by prefix: a section of the file whose name is a prefix of the requested section, with
  a key that is a prefix of the requested key, answers the request.
\<close>

theorem prefix_names_match:
  assumes "good_sec s" "good_key k" "good_val v" "prefix s sect" "prefix k key" "length v < n"
    "length s + length k + length v + 5 < MAX_FILE_SIZE"
  shows "read_profile_string sect key v0 n d (Some (render [(s, [(k, v)])])) = Some (True, v)"
proof -
  let ?xs = "[(s, [(k, v)])]"
  have g: "good_ini ?xs" using assms(1-3) by (simp add: good_ini_def good_keys_def)
  have ne: "sect \<noteq> []" "key \<noteq> []" using assms(1,2,4,5) by (auto simp: good_sec_def good_key_def)
  obtain pos where pos: "parse_loop sect key (render ?xs) 0 no_pos = (True, pos)"
    "value_s pos = int (length s + 3 + length k + 1)" "value_e pos = int (length s + 3 + length k + 1 + length v)"
    using parse_found [of "[]" s "[]" k v "[]" "[]" sect key] g assms(4,5) by auto
  have ld: "load_ini_file (Some (render ?xs)) = Some (True, render ?xs, length (render ?xs))"
    using assms(7) by (intro load_rendered [OF g]) (simp add: render_sec_def render_key_def render_rest_def)
  define X where "X = ''['' @ s @ '']'' @ [CHR 0x0A] @ k @ ''=''"
  have "render ?xs = X @ v @ [CHR 0x0A]" "length X = length s + 3 + length k + 1"
    by (simp_all add: X_def render_sec_def render_key_def render_rest_def)
  then show ?thesis
    using pos ld ne assms(6) by (simp add: read_profile_string_def parse_file_def Let_def)
qed

definition ini_int :: "ini \<Rightarrow> string \<Rightarrow> string \<Rightarrow> int \<Rightarrow> int" where
  "ini_int xs s k dflt = (case ini_get xs s k of None \<Rightarrow> dflt | Some v \<Rightarrow> atoi (take 31 v))"

lemma cfg_read_int_rendered:
  assumes "wf_ini xs" "s \<in> set ini_sections" "k \<in> set ini_keys" "length (render xs) < MAX_FILE_SIZE"
    "fs (m_strFilePath c) = Some (render xs)"
  shows "cfg_read_int fs c s k dflt = Some (ini_int xs s k dflt)"
  using read_rendered [OF assms(1-4), of 32 "[]" None] assms(5)
  by (simp add: cfg_read_int_def cfg_read_string_def ini_int_def split: option.splits)

text \<open>
  \<open>LoadIni\<close> on a well-formed configuration file with a server address: it returns success and sets
  the address, and the port, timeout and log level to the integers of the file or their defaults; the
  language is set from the log level.
\<close>

theorem LoadIni_fields:
  assumes "wf_ini xs" "length (render xs) < MAX_FILE_SIZE" "fs path = Some (render xs)"
    "ini_get xs ''SERVER'' ''ip'' = Some ip"
  shows "LoadIni fs cfg path = Some (True, cfg\<lparr>m_strFilePath := path, m_cIp := take 30 ip,
    m_nPort := ini_int xs ''SERVER'' ''port'' 11000, m_nTimeOut := ini_int xs ''SERVER'' ''timeout'' 3000,
    m_nLogLevel := ini_int xs ''LOG'' ''level'' 0, m_nLangId := ini_int xs ''LOG'' ''level'' 2052\<rparr>)"
proof -
  have n: "''SERVER'' \<in> set ini_sections" "''LOG'' \<in> set ini_sections" "''ip'' \<in> set ini_keys" "''port'' \<in> set ini_keys"
    "''timeout'' \<in> set ini_keys" "''level'' \<in> set ini_keys"
    by (simp_all add: ini_sections_def ini_keys_def)
  note rd = cfg_read_int_rendered [OF assms(1) _ _ assms(2)]
  show ?thesis
    using read_rendered [OF assms(1) n(1,3) assms(2), of 31 "m_cIp cfg" None] assms(3,4)
      rd [OF n(1,4)] rd [OF n(1,5)] rd [OF n(2,6)]
    by (simp add: LoadIni_def cfg_read_string_def)
qed

end
