(* ===== verification/AstConf.thy ===== *)
theory AstConf
  imports AstPackage IniStore
begin

text \<open>
  The key file of the message layer: \<open>astPackage::LoadConf\<close> and \<open>SaveConf\<close> of
  \<open>src/public/astPackage/astpackage.cpp\<close>, over the class \<open>astConfig\<close> (\<open>IniFile\<close>), the codecs and the
  cipher.  The configuration object \<open>m_clsAstConfig\<close> of the class is an argument and a result.

  Texts of the file are \<^typ>\<open>string\<close>, buffers of the class are lists of bytes.  \<open>m_UUID\<close> is its array
  of 64 characters, \<open>strlen\<close> counts up to the first zero.  \<^term>\<open>None\<close> is the abnormal end of a file operation.
\<close>

section \<open>The uuid\<close>

text \<open>\<open>strncpy(m_UUID, cBuf, 40); m_UUID[40]='\0';\<close>\<close>

definition copy_uuid :: "byte list \<Rightarrow> byte list \<Rightarrow> byte list" where
  "copy_uuid s old = take 40 (s @ replicate 40 0) @ [0] @ drop 41 old"

section \<open>The operations\<close>

text \<open>The loop that cuts trailing zeros: \<open>nIndex + 1\<close> at its end.\<close>

fun trim_len :: "byte list \<Rightarrow> nat \<Rightarrow> nat" where
  "trim_len bs 0 = 0"
| "trim_len bs (Suc i) = (if bs ! i = 0 then trim_len bs i else Suc i)"

text \<open>\<open>SM3_Init\<close>, three calls of \<open>SM3_Update\<close> and \<open>SM3_Final\<close>: the MAC of the key file.\<close>

definition sm3_three :: "byte list \<Rightarrow> byte list \<Rightarrow> byte list \<Rightarrow> byte list" where
  "sm3_three a b c =
     the (ctx_final (ctx_update c (ctx_update b (ctx_update a (snd (SM3_Init (Some cSM3_0)))))))"

text \<open>The rest of \<open>LoadConf\<close> behind the key: it is decrypted, and installed when the MAC matches.\<close>

definition load_key ::
    "files \<Rightarrow> astConfig \<Rightarrow> astPackage \<Rightarrow> byte list \<Rightarrow> byte list \<Rightarrow> byte list \<Rightarrow> (int \<times> astPackage) option" where
  "load_key fs cfg p cEKA cKA0 cMAC0 =
     (case DecryptByID p cEKA (buf_str (m_UUID p)) 0 cKA0 48 of
        None \<Rightarrow> None
      | Some (nRet, cKA, nKA) \<Rightarrow>
          if nRet \<noteq> 0 \<or> nKA \<noteq> 32 then Some (5, p)
          else case cfg_read_string fs cfg ''SECRETKEY'' ''mac'' [] 127 (Some []) of
                 None \<Rightarrow> None
               | Some (False, _) \<Rightarrow> Some (4, p)
               | Some (True, cBuf) \<Rightarrow>
                   let (cMAC, nMAC) = decode (bytes_of cBuf) cMAC0 32;
                       cMac = sm3_three (buf_str (m_UUID p)) (take 16 (m_AgentID p)) (take 32 cKA)
                   in if take 32 cMAC \<noteq> cMac then Some (6, p)
                      else Some (0, p\<lparr>m_KA := take 32 cKA, m_bInit := False\<rparr>))"

text \<open>
  \<open>LoadConf\<close>; \<open>cEKA0\<close>, \<open>cKA0\<close> and \<open>cMAC0\<close> are the contents of the local arrays of 64, 128 and 32 bytes.
  The agent id and the uuid are set before the key is checked.
\<close>

definition LoadConf ::
    "files \<Rightarrow> astConfig \<Rightarrow> astPackage \<Rightarrow> string \<Rightarrow> byte list \<Rightarrow> byte list \<Rightarrow> byte list
       \<Rightarrow> (int \<times> astPackage \<times> astConfig) option" where
  "LoadConf fs cfg0 p confile cEKA0 cKA0 cMAC0 =
     (case LoadIni fs cfg0 confile of
        None \<Rightarrow> None
      | Some (_, cfg) \<Rightarrow>
          (case cfg_read_string fs cfg ''SECRETKEY'' ''agentid'' [] 127 (Some []) of
             None \<Rightarrow> None
           | Some (False, _) \<Rightarrow> Some (1, p, cfg)
           | Some (True, cBuf) \<Rightarrow>
               let (aid, nAIDLen) = decode (bytes_of cBuf) (m_AgentID p) 16;
                   p1 = p\<lparr>m_AgentID := aid, m_nAidLen := int (trim_len aid nAIDLen)\<rparr>
               in case cfg_read_string fs cfg ''SECRETKEY'' ''uuid'' [] 127 (Some []) of
                    None \<Rightarrow> None
                  | Some (False, _) \<Rightarrow> Some (2, p1, cfg)
                  | Some (True, cBuf2) \<Rightarrow>
                      let p2 = p1\<lparr>m_UUID := copy_uuid (bytes_of cBuf2) (m_UUID p1)\<rparr>
                      in case cfg_read_string fs cfg ''SECRETKEY'' ''ka'' [] 127 (Some []) of
                           None \<Rightarrow> None
                         | Some (False, _) \<Rightarrow> Some (3, p2, cfg)
                         | Some (True, cBuf3) \<Rightarrow>
                             let (cEKA, nEKA) = decode (bytes_of cBuf3) cEKA0 64
                             in if nEKA \<noteq> 48 then Some (3, p2, cfg)
                                else map_option (\<lambda>(e, p3). (e, p3, cfg)) (load_key fs cfg p2 (take 48 cEKA) cKA0 cMAC0)))"

text \<open>
  \<open>SaveConf\<close>; the results of the writes are ignored.  \<open>cEnKey0\<close> is the content of the local array of 128
  bytes.  The text of more than 127 characters does not fit \<open>cBuf\<close>.
\<close>

definition SaveConf ::
    "(string \<Rightarrow> bool) \<Rightarrow> files \<Rightarrow> astConfig \<Rightarrow> astPackage \<Rightarrow> string \<Rightarrow> byte list
       \<Rightarrow> (int \<times> files \<times> astConfig) option" where
  "SaveConf wr fs0 cfg0 p confile cEnKey0 =
     (case LoadIni fs0 cfg0 confile of
        None \<Rightarrow> None
      | Some (_, cfg) \<Rightarrow>
          let put = (\<lambda>k v fs. map_option snd (cfg_write_string wr fs cfg ''SECRETKEY'' k v));
              uuid = buf_str (m_UUID p);
              cMac = sm3_three uuid (take 16 (m_AgentID p)) (take 32 (m_KA p))
          in case put ''agentid'' (chars_of (encode (take 16 (m_AgentID p)))) fs0 of
               None \<Rightarrow> None
             | Some fs1 \<Rightarrow>
                 (case put ''uuid'' (chars_of uuid) fs1 of
                    None \<Rightarrow> None
                  | Some fs2 \<Rightarrow>
                      (case put ''mac'' (chars_of (encode cMac)) fs2 of
                         None \<Rightarrow> None
                       | Some fs3 \<Rightarrow>
                           (case EncryptByID p (take 32 (m_KA p)) uuid 0 cEnKey0 128 cMac of
                              None \<Rightarrow> None
                            | Some (_, cEnKey, nEnKey, _) \<Rightarrow>
                                let t = encode (take (nat nEnKey) cEnKey)
                                in if length t \<ge> 128 then None
                                   else map_option (\<lambda>fs4. (0, fs4, cfg)) (put ''ka'' (chars_of t) fs3)))))"

section \<open>Conversions\<close>

lemma good_byte:
  assumes "unat b \<notin> {0, 10, 13, 255, 37}"
  shows "byte_char b \<noteq> NUL \<and> \<not> is_newline (byte_char b) \<and> byte_char b \<noteq> CHR 0xFF \<and> byte_char b \<noteq> CHR ''%''"
proof -
  have "byte_char b \<noteq> c" if "of_char c \<in> {0, 10, 13, 255, 37 :: nat}" for c
    using assms that of_byte_char [of b] by metis
  from this [of NUL] this [of "CHR 0x0A"] this [of "CHR 0x0D"] this [of "CHR 0xFF"] this [of "CHR ''%''"]
  show ?thesis by (simp add: is_newline_def eq_commute [of _ "byte_char b"])
qed

lemma good_base64: "b \<in> insert pad_char (set base64digits) \<Longrightarrow> unat b \<notin> {0, 10, 13, 255, 37}"
  by (auto simp: base64digits_def pad_char_def)

lemma digit_in: "x < 64 \<Longrightarrow> digit x \<in> set base64digits"
  by (simp add: digit_def length_base64digits word_less_nat_alt)

lemma set_encode: "set (encode d) \<subseteq> insert pad_char (set base64digits)"
  by (induction d rule: encode.induct) (auto intro: digit_in)

lemma good_encode: "good_val (chars_of (encode d))"
  using set_encode good_byte [OF good_base64] by (auto simp: good_val_def chars_of_def list_all_iff)

lemma decode_encoded:
  assumes "length d \<le> cap" "cap \<le> length buf"
  shows "\<exists>buf'. decode (encode d) buf cap = (buf', length d) \<and> take (length d) buf' = d \<and> length buf' = length buf"
  using decode_encode_loop [of 0 0 d cap buf] assms by (simp add: decode_def)

lemma buf_str_uuid:
  assumes "0 \<notin> set u" "length u \<le> 40"
  shows "buf_str (copy_uuid u old) = u"
proof -
  have "copy_uuid u old = u @ replicate (40 - length u) 0 @ 0 # drop 41 old"
    using assms(2) by (simp add: copy_uuid_def)
  moreover have "takeWhile (\<lambda>b. b \<noteq> 0) (u @ replicate n 0 @ 0 # r) = u" for n r
    using assms(1) by (cases n) (auto simp: takeWhile_tail takeWhile_append2)
  ultimately show ?thesis by (simp add: buf_str_def)
qed

lemma buf_str_no_zero: "0 \<notin> set (buf_str bs)"
  by (auto simp: buf_str_def dest: set_takeWhileD)

lemma trim_len_take: "n \<le> m \<Longrightarrow> trim_len (take m bs) n = trim_len bs n"
  by (induction n) auto

lemma sm3_three_standard: "sm3_three a b c = sm3_standard (a @ b @ c)"
  using sm3.pieces [OF SM3_Init_ctx, of "[a, b, c]"] by (simp add: sm3_three_def)

section \<open>File operations\<close>

lemma read_total:
  assumes "file_ok f" "s \<in> set ini_sections" "k \<in> set ini_keys" "0 < n"
  shows "\<exists>r. read_profile_string s k v0 n d f = Some r"
proof -
  obtain xs where xs: "wf_ini xs" "length (render xs) < MAX_FILE_SIZE" "f = Some (render xs) \<or> f = None"
    using assms(1) by (auto simp: file_ok_def)
  then show ?thesis
    using read_rendered [OF xs(1) assms(2,3) xs(2) assms(4), of v0 d] assms(4)
      names_nonempty(1) [OF assms(2)] names_nonempty(2) [OF assms(3)]
    by (auto simp: read_profile_string_def load_ini_file_def)
qed

lemma names_in: "''SECRETKEY'' \<in> set ini_sections" "''SERVER'' \<in> set ini_sections" "''LOG'' \<in> set ini_sections"
  "''agentid'' \<in> set ini_keys" "''uuid'' \<in> set ini_keys" "''ka'' \<in> set ini_keys" "''mac'' \<in> set ini_keys"
  "''ip'' \<in> set ini_keys" "''port'' \<in> set ini_keys" "''timeout'' \<in> set ini_keys" "''level'' \<in> set ini_keys"
  by (simp_all add: ini_sections_def ini_keys_def)

lemma cfg_read_int_total:
  assumes "file_ok (fs (m_strFilePath c))" "s \<in> set ini_sections" "k \<in> set ini_keys"
  shows "\<exists>i. cfg_read_int fs c s k d = Some i"
  using read_total [OF assms, of 32 "[]" None] by (auto simp: cfg_read_int_def cfg_read_string_def)

lemma LoadIni_total:
  assumes "file_ok (fs path)"
  shows "\<exists>b c. LoadIni fs cfg path = Some (b, c) \<and> m_strFilePath c = path"
proof -
  define c0 where "c0 = cfg\<lparr>m_strFilePath := path\<rparr>"
  obtain b v where r: "cfg_read_string fs c0 ''SERVER'' ''ip'' (m_cIp c0) 31 None = Some (b, v)"
    using read_total [OF assms names_in(2,8), of 31 "m_cIp c0" None] by (auto simp: cfg_read_string_def c0_def)
  show ?thesis
  proof (cases b)
    case True
    let ?c = "c0\<lparr>m_cIp := v\<rparr>"
    note t = cfg_read_int_total [where fs = fs and c = ?c]
    have f: "file_ok (fs (m_strFilePath ?c))" using assms by (simp add: c0_def)
    obtain i j k l where "cfg_read_int fs ?c ''SERVER'' ''port'' 11000 = Some i"
      "cfg_read_int fs ?c ''SERVER'' ''timeout'' 3000 = Some j" "cfg_read_int fs ?c ''LOG'' ''level'' 0 = Some k"
      "cfg_read_int fs ?c ''LOG'' ''level'' 2052 = Some l"
      using t [OF f names_in(2,9), of 11000] t [OF f names_in(2,10), of 3000] t [OF f names_in(3,11), of 0]
        t [OF f names_in(3,11), of 2052] by blast
    then show ?thesis using r True by (simp add: LoadIni_def c0_def [symmetric]) (auto simp: c0_def)
  next
    case False
    then show ?thesis using r by (simp add: LoadIni_def c0_def [symmetric]) (auto simp: c0_def)
  qed
qed

lemma put_file:
  assumes "wr (m_strFilePath cfg)"
  shows "map_option snd (cfg_write_string wr fs cfg s k v)
    = map_option (\<lambda>t. fs(m_strFilePath cfg := t)) (file_write (fs (m_strFilePath cfg)) s k v)"
  using assms by (simp add: cfg_write_string_def file_write_def option.map_comp comp_def split_beta)

section \<open>Saving and loading\<close>

definition conf_mac :: "astPackage \<Rightarrow> byte list" where
  "conf_mac p = sm3_standard (buf_str (m_UUID p) @ take 16 (m_AgentID p) @ take 32 (m_KA p))"

definition conf_key :: "astPackage \<Rightarrow> byte list" where
  "conf_key p = ecb_text (id_key p 0 (buf_str (m_UUID p))) (take 32 (m_KA p))"

definition conf_keys :: "astPackage \<Rightarrow> (string \<times> string) list" where
  "conf_keys p =
     [(''agentid'', chars_of (encode (take 16 (m_AgentID p)))), (''uuid'', chars_of (buf_str (m_UUID p))),
      (''mac'', chars_of (encode (conf_mac p))), (''ka'', chars_of (encode (conf_key p)))]"

lemma length_conf:
  assumes "length (m_KA p) = 32"
  shows "length (conf_key p) = 48" "length (conf_mac p) = 32"
  using assms by (simp_all add: conf_key_def conf_mac_def pad_len_def)

lemma SaveConf_writes:
  assumes "length (m_KA p) = 32" "wr path" "file_ok (fs path)"
  shows "\<exists>cfg'. m_strFilePath cfg' = path \<and> SaveConf wr fs cfg p path en0
    = map_option (\<lambda>t. (0, fs(path := t), cfg')) (wr_all file_write (fs path) ''SECRETKEY'' (conf_keys p))"
proof -
  obtain b c where c: "LoadIni fs cfg path = Some (b, c)" "m_strFilePath c = path"
    using LoadIni_total [where fs = fs and path = path, OF assms(3)] by blast
  have en: "EncryptByID p (take 32 (m_KA p)) (buf_str (m_UUID p)) 0 en0 128 mac
    = Some (0, put_at 0 (conf_key p) en0, 48, key_mac (id_key p 0 (buf_str (m_UUID p))) (take 32 (m_KA p)))" for mac
    using EncryptByID_ok [of 0 p "take 32 (m_KA p)" 128 "buf_str (m_UUID p)" en0 mac] assms(1) length_conf(1) [OF assms(1)]
    by (simp add: Let_def conf_key_def)
  have tk: "take 48 (put_at 0 (conf_key p) en0) = conf_key p"
    using take_put_at0 [of "conf_key p" en0] length_conf(1) [OF assms(1)] by simp
  have le: "length (encode (conf_key p)) = 64" using length_conf(1) [OF assms(1)] by (simp add: length_encode)
  note put = put_file [of wr c, unfolded c(2), OF assms(2)]
  have "SaveConf wr fs cfg p path en0
      = map_option (\<lambda>t. (0, fs(path := t), c)) (wr_all file_write (fs path) ''SECRETKEY'' (conf_keys p))"
    unfolding SaveConf_def c(1) conf_keys_def
    by (simp only: Let_def option.case prod.case put sm3_three_standard conf_mac_def [symmetric] en)
      (simp add: tk le option.map_comp comp_def split: option.splits)
  then show ?thesis using c(2) by blast
qed

lemma load_key_saved:
  assumes "cfg_read_string fs cfg ''SECRETKEY'' ''mac'' [] 127 (Some []) = Some (True, chars_of (encode (conf_mac p)))"
    "m_KI q = m_KI p" "buf_str (m_UUID q) = buf_str (m_UUID p)" "take 16 (m_AgentID q) = take 16 (m_AgentID p)"
    "length (m_KA p) = 32" "length cMAC0 = 32"
  shows "load_key fs cfg q (conf_key p) cKA0 cMAC0 = Some (0, q\<lparr>m_KA := m_KA p, m_bInit := False\<rparr>)"
proof -
  have "id_key q 0 (buf_str (m_UUID q)) = id_key p 0 (buf_str (m_UUID p))" using assms(2,3) by (simp add: id_key_def)
  then have dec: "DecryptByID q (conf_key p) (buf_str (m_UUID q)) 0 cKA0 48 = Some (0, put_at 0 (m_KA p) cKA0, 32)"
    using DecryptByID_ok [of 0 q "take 32 (m_KA p)" 48 "buf_str (m_UUID q)" cKA0] assms(5) by (simp add: conf_key_def)
  obtain cMAC where mac: "decode (encode (conf_mac p)) cMAC0 32 = (cMAC, 32)" "take 32 cMAC = conf_mac p"
    using decode_encoded [of "conf_mac p" 32 cMAC0] length_conf(2) [OF assms(5)] assms(6) by auto
  have "take 32 (put_at 0 (m_KA p) cKA0) = m_KA p" using take_put_at0 [of "m_KA p" cKA0] assms(5) by simp
  then show ?thesis
    using dec assms(1,3,4,5) mac by (simp add: load_key_def sm3_three_standard conf_mac_def)
qed

lemma LoadConf_saved:
  assumes "file_ok (fs path)" "length (m_AgentID q) = 64" "length cEKA0 = 64" "length cMAC0 = 32"
    "length (m_KA p) = 32" "length (m_AgentID p) = 64" "length (buf_str (m_UUID p)) \<le> 40" "m_KI q = m_KI p"
    and rd: "\<And>k v n. (k, v) \<in> set (conf_keys p) \<Longrightarrow> 0 < n \<Longrightarrow> file_read n (fs path) ''SECRETKEY'' k = Some (True, take (n - 1) v)"
  shows "\<exists>q' c. LoadConf fs cfg q path cEKA0 cKA0 cMAC0 = Some (0, q', c) \<and> m_KA q' = m_KA p
    \<and> take 16 (m_AgentID q') = take 16 (m_AgentID p) \<and> m_nAidLen q' = int (trim_len (m_AgentID p) 16)
    \<and> buf_str (m_UUID q') = buf_str (m_UUID p) \<and> m_KI q' = m_KI p \<and> \<not> m_bInit q'"
proof -
  obtain b c where c: "LoadIni fs cfg path = Some (b, c)" "m_strFilePath c = path"
    using LoadIni_total [where fs = fs and path = path, OF assms(1)] by blast
  have cr: "cfg_read_string fs c ''SECRETKEY'' k [] 127 (Some []) = Some (True, v)"
    if "(k, v) \<in> set (conf_keys p)" "length v \<le> 126" for k v
    using rd [OF that(1), of 127] that(2) c(2) by (simp add: cfg_read_string_def file_read_def)
  have "length (chars_of (encode (take 16 (m_AgentID p)))) \<le> 126" "length (chars_of (encode (conf_mac p))) \<le> 126"
    "length (chars_of (encode (conf_key p))) \<le> 126" "length (chars_of (buf_str (m_UUID p))) \<le> 126"
    using assms(5-7) length_conf [OF assms(5)] by (simp_all add: length_encode)
  note r = cr [OF _ this(1), of "''agentid''"] cr [OF _ this(4), of "''uuid''"] cr [OF _ this(3), of "''ka''"]
    cr [OF _ this(2), of "''mac''"]
  obtain aid where aid: "decode (encode (take 16 (m_AgentID p))) (m_AgentID q) 16 = (aid, 16)" "take 16 aid = take 16 (m_AgentID p)"
    using decode_encoded [of "take 16 (m_AgentID p)" 16 "m_AgentID q"] assms(2,6) by auto
  obtain ek where ek: "decode (encode (conf_key p)) cEKA0 64 = (ek, 48)" "take 48 ek = conf_key p"
    using decode_encoded [of "conf_key p" 64 cEKA0] length_conf(1) [OF assms(5)] assms(3) by auto
  define q2 where "q2 = q\<lparr>m_AgentID := aid, m_nAidLen := int (trim_len aid 16),
    m_UUID := copy_uuid (buf_str (m_UUID p)) (m_UUID q)\<rparr>"
  have u: "buf_str (m_UUID q2) = buf_str (m_UUID p)"
    using buf_str_uuid [OF buf_str_no_zero assms(7)] by (simp add: q2_def)
  have "load_key fs c q2 (conf_key p) cKA0 cMAC0 = Some (0, q2\<lparr>m_KA := m_KA p, m_bInit := False\<rparr>)"
    using r(4) aid(2) assms(4,5,8) u by (intro load_key_saved) (simp_all add: q2_def conf_keys_def)
  then have "LoadConf fs cfg q path cEKA0 cKA0 cMAC0 = Some (0, q2\<lparr>m_KA := m_KA p, m_bInit := False\<rparr>, c)"
    using c(1) r(1-3) aid(1) ek by (simp add: LoadConf_def conf_keys_def q2_def)
  moreover have "trim_len aid 16 = trim_len (m_AgentID p) 16"
    using trim_len_take [of 16 16 aid] trim_len_take [of 16 16 "m_AgentID p"] aid(2) by simp
  ultimately show ?thesis using u aid(2) assms(8) by (auto simp: q2_def)
qed

section \<open>Properties\<close>

text \<open>
  \<^bold>\<open>C25\<close> Saving and loading the keys: when the key file is missing or well formed and has room, \<open>SaveConf\<close>
  succeeds, and \<open>LoadConf\<close> of this file in an object with the same registration key returns 0 and
  restores the agent key, the agent id with its length, and the uuid, and marks the object registered.
\<close>

theorem save_load_conf:
  assumes "file_ok (fs path)" "file_used (fs path) + 256 < MAX_FILE_SIZE" "wr path"
    "length (m_KA p) = 32" "length (m_AgentID p) = 64" "length (buf_str (m_UUID p)) \<le> 40"
    "good_val (chars_of (buf_str (m_UUID p)))" "m_KI q = m_KI p" "length (m_AgentID q) = 64"
    "length cEKA0 = 64" "length cMAC0 = 32"
  shows "\<exists>fs' c. SaveConf wr fs cfg p path en0 = Some (0, fs', c)
    \<and> (\<exists>q' c'. LoadConf fs' cfg' q path cEKA0 cKA0 cMAC0 = Some (0, q', c') \<and> m_KA q' = m_KA p
        \<and> take 16 (m_AgentID q') = take 16 (m_AgentID p) \<and> m_nAidLen q' = int (trim_len (m_AgentID p) 16)
        \<and> buf_str (m_UUID q') = buf_str (m_UUID p) \<and> m_KI q' = m_KI p \<and> \<not> m_bInit q')"
proof -
  have keys: "list_all (\<lambda>(k, v). k \<in> set ini_keys \<and> good_val v) (conf_keys p)"
    using assms(7) names_in good_encode by (simp add: conf_keys_def)
  have need: "file_used (fs path) + need ''SECRETKEY'' (conf_keys p) < MAX_FILE_SIZE"
    using assms(2,5,6) length_conf [OF assms(4)] by (simp add: need_def conf_keys_def length_encode)
  obtain t where t: "wr_all file_write (fs path) ''SECRETKEY'' (conf_keys p) = Some t" "file_ok t"
    "\<forall>(k, v) \<in> set (conf_keys p). \<forall>n > 0. file_read n t ''SECRETKEY'' k = Some (True, take (n - 1) v)"
    using ini.rd_after_wr_all [OF assms(1) names_in(1) keys _ need] by (auto simp: conf_keys_def)
  obtain c where c: "SaveConf wr fs cfg p path en0 = Some (0, fs(path := t), c)"
    using SaveConf_writes [where wr = wr and fs = fs and path = path, OF assms(4,3,1)] t(1) by auto
  have rd: "file_read n ((fs(path := t)) path) ''SECRETKEY'' k = Some (True, take (n - 1) v)"
    if "(k, v) \<in> set (conf_keys p)" "0 < n" for k v n using t(3) that by auto
  have "file_ok ((fs(path := t)) path)" using t(2) by simp
  from LoadConf_saved [where fs = "fs(path := t)" and path = path, OF this assms(9,10,11,4,5,6,8) rd]
  show ?thesis using c by blast
qed

theorem save_load_conf_witness:
  "\<exists>fs' c. SaveConf (\<lambda>_. True) Map.empty
        \<lparr>m_cIp = [], m_nPort = 0, m_nTimeOut = 0, m_nLogLevel = 0, m_nLangId = 0, m_strFilePath = []\<rparr>
        \<lparr>m_KI = replicate 32 1, m_KA = replicate 32 7, m_bInit = False, m_AgentID = replicate 64 5, m_nAidLen = 16,
          m_UUID = 65 # replicate 63 0\<rparr> ''key.ini'' (replicate 128 0) = Some (0, fs', c)
    \<and> (\<exists>q' c'. LoadConf fs'
        \<lparr>m_cIp = [], m_nPort = 0, m_nTimeOut = 0, m_nLogLevel = 0, m_nLangId = 0, m_strFilePath = []\<rparr>
        \<lparr>m_KI = replicate 32 1, m_KA = replicate 32 0, m_bInit = True, m_AgentID = replicate 64 0, m_nAidLen = 0,
          m_UUID = replicate 64 0\<rparr> ''key.ini'' (replicate 64 0) (replicate 128 0) (replicate 32 0) = Some (0, q', c')
        \<and> m_KA q' = replicate 32 7 \<and> \<not> m_bInit q')"
proof -
  let ?cfg = "\<lparr>m_cIp = [], m_nPort = 0, m_nTimeOut = 0, m_nLogLevel = 0, m_nLangId = 0, m_strFilePath = []\<rparr>"
  let ?p = "\<lparr>m_KI = replicate 32 1, m_KA = replicate 32 7, m_bInit = False, m_AgentID = replicate 64 5, m_nAidLen = 16,
    m_UUID = 65 # replicate 63 0\<rparr>"
  let ?q = "\<lparr>m_KI = replicate 32 1, m_KA = replicate 32 0, m_bInit = True, m_AgentID = replicate 64 0, m_nAidLen = 0,
    m_UUID = replicate 64 0\<rparr>"
  have u: "buf_str (m_UUID ?p) = [65]" by (simp add: buf_str_def takeWhile_replicate)
  have g: "good_val (chars_of [65])" using good_byte [of 65] by (simp add: good_val_def chars_of_def)
  have f: "file_ok None" by (auto simp: file_ok_def wf_ini_def MAX_FILE_SIZE_def)
  have len: "file_used None + 256 < MAX_FILE_SIZE" by (simp add: file_used_def MAX_FILE_SIZE_def)
  show ?thesis
    using save_load_conf [of Map.empty "''key.ini''" "\<lambda>_. True" ?p ?q "replicate 64 0" "replicate 32 0" ?cfg "replicate 128 0" ?cfg "replicate 128 0"]
      u g f len by auto
qed

lemma load_key_checked:
  assumes "load_key fs cfg p ek cKA0 cMAC0 = Some (e, q)"
  shows "if e = 0 then \<not> m_bInit q \<and> m_KI q = m_KI p \<and> m_UUID q = m_UUID p \<and> m_AgentID q = m_AgentID p
      \<and> (\<exists>txt. cfg_read_string fs cfg ''SECRETKEY'' ''mac'' [] 127 (Some []) = Some (True, txt)
            \<and> take 32 (fst (decode (bytes_of txt) cMAC0 32))
              = sm3_standard (buf_str (m_UUID q) @ take 16 (m_AgentID q) @ m_KA q))
    else q = p"
  using assms
  by (auto simp: load_key_def sm3_three_standard Let_def split_beta split: option.splits prod.splits bool.splits if_splits)



end
