(* ===== verification/TaskFile.thy ===== *)
theory TaskFile
  imports TaskList
begin

text \<open>
  The text file of the task list: \<open>CTaskList::Save\<close>, \<open>Load\<close> and the private \<open>SaveTask\<close>,
  \<open>SaveExamTask\<close>, \<open>LoadTask\<close>, \<open>LoadExamTask\<close> of \<open>src/public/astTask/astTask.cpp\<close>, over the part of
  the C library they use: \<open>fprintf\<close> with \<open>%d\<close> and \<open>%s\<close>, \<open>fscanf\<close> with \<open>"%d\n"\<close> and \<open>"%s\n"\<close>, \<open>fgets\<close>.

  A file is its text; reading returns the rest of the text.  \<^term>\<open>None\<close> is undefined behaviour: a token
  that does not fit its array, \<open>cTmp[strlen(cTmp)-1]\<close> on an empty buffer, a missing payload, or the
  conversion in \<open>FinishInit\<close>.  Content of uninitialised variables (\<open>nNum\<close>, \<open>cTmp\<close>) is an argument.
\<close>

section \<open>The C library\<close>

definition print_d :: "int \<Rightarrow> string" where "print_d i = print_int i @ [newline]"

definition print_s :: "string \<Rightarrow> string" where "print_s s = s @ [newline]"

definition skip_ws :: "string \<Rightarrow> string" where "skip_ws s = dropWhile is_space s"

text \<open>\<open>fscanf(fp, "%d\n", &v)\<close>: the number, if one was read, and the rest of the file.\<close>

definition scan_d :: "string \<Rightarrow> int option \<times> string" where
  "scan_d s =
     (let s' = skip_ws s;
          (neg, d) = (case s' of [] \<Rightarrow> (False, s')
             | c # r \<Rightarrow> if c = CHR ''-'' then (True, r) else if c = CHR ''+'' then (False, r) else (False, s'));
          ds = takeWhile is_digit d
      in if ds = [] then (None, s')
         else (Some (if neg then - digits_val ds else digits_val ds), skip_ws (dropWhile is_digit d)))"

text \<open>\<open>fscanf(fp, "%s\n", buf)\<close>: \<^term>\<open>None\<close> for end of file.\<close>

definition scan_s :: "string \<Rightarrow> string option \<times> string" where
  "scan_s s =
     (let s' = skip_ws s
      in if s' = [] then (None, [])
         else (Some (takeWhile (\<lambda>c. \<not> is_space c) s'), skip_ws (dropWhile (\<lambda>c. \<not> is_space c) s')))"

text \<open>\<open>fgets(cTmp, 1024, fp)\<close>: at the end of the file the buffer stays as it is.\<close>

fun line_prefix :: "nat \<Rightarrow> string \<Rightarrow> string" where
  "line_prefix 0 s = []"
| "line_prefix (Suc n) [] = []"
| "line_prefix (Suc n) (c # s) = (if c = newline then [c] else c # line_prefix n s)"

definition fgets_1024 :: "string \<Rightarrow> string \<Rightarrow> string \<times> string" where
  "fgets_1024 cTmp s =
     (if s = [] then (cTmp, []) else let l = line_prefix 1023 s in (l, drop (length l) s))"

section \<open>Saving\<close>

definition SaveItem :: "TASK_EXAM_DATA \<Rightarrow> string" where
  "SaveItem it =
     print_s (exam_name it) @ print_s (exam_path it) @ print_s (exam_desc it) @ print_d (exam_score it)
       @ print_s (exam_method it) @ print_d (exam_percent it) @ print_d (exam_type it)
       @ print_s (exam_methodValue it)"

definition SaveExamTask :: "TASKHEAD \<Rightarrow> string option" where
  "SaveExamTask node =
     (if invalid node = 0
      then map_option (\<lambda>pitem.
             print_s (tid node) @ print_d (cycle node) @ print_d (task_type node) @ print_s (lasttime node)
               @ print_d (invalid node) @ print_d (ftime node)
               @ print_d (int (length (m_CheckItemList pitem)))
               @ concat (map SaveItem (m_CheckItemList pitem))) (task node)
      else Some [])"

definition SaveTask :: "TASKHEAD \<Rightarrow> string option" where
  "SaveTask node = (if task_type node = TYPE_EXAM_HEALTH then SaveExamTask node else Some [])"

definition saved_task :: "TASKHEAD \<Rightarrow> bool" where
  "saved_task it \<longleftrightarrow> invalid it = 0 \<and> task_type it = TYPE_EXAM_HEALTH"

fun save_loop :: "TASKHEAD list \<Rightarrow> string option" where
  "save_loop [] = Some []"
| "save_loop (it # its) =
     (if saved_task it
      then (case SaveTask it of None \<Rightarrow> None | Some a \<Rightarrow> map_option (\<lambda>b. a @ b) (save_loop its))
      else save_loop its)"

text \<open>\<open>Save\<close>: the code, the text written if the file was opened (\<open>opened\<close>), and the object.\<close>

definition Save :: "CTaskList \<Rightarrow> bool \<Rightarrow> (int \<times> string option \<times> CTaskList) option" where
  "Save L opened =
     (case Lock L 60 of
        None \<Rightarrow> None
      | Some (nLock, l) \<Rightarrow>
          if nLock \<noteq> 0 then Some (3, None, l)
          else if \<not> opened then Some (2, None, UnLock l)
          else map_option (\<lambda>body. (0, Some (print_d (int (length (filter saved_task (m_TaskList l)))) @ body), UnLock l))
                 (save_loop (m_TaskList l)))"

section \<open>Loading\<close>

text \<open>\<open>fgets(cTmp, 1024, fp); cTmp[strlen(cTmp)-1] = '\0';\<close> repeated: the lines, \<open>cTmp\<close> and the rest.\<close>

fun read_lines :: "nat \<Rightarrow> string \<Rightarrow> string \<Rightarrow> (string list \<times> string \<times> string) option" where
  "read_lines 0 cTmp s = Some ([], cTmp, s)"
| "read_lines (Suc n) cTmp s =
     (let (l, r) = fgets_1024 cTmp s
      in if l = [] then None
         else map_option (\<lambda>(ls, c, r'). (butlast l # ls, c, r')) (read_lines n (butlast l) r))"

definition item_of_lines :: "string list \<Rightarrow> TASK_EXAM_DATA" where
  "item_of_lines ls =
     \<lparr>exam_name = ls ! 0, exam_path = ls ! 1, exam_desc = ls ! 2, exam_score = atoi (ls ! 3),
      exam_method = ls ! 4, exam_percent = atoi (ls ! 5), exam_type = atoi (ls ! 6), exam_methodValue = ls ! 7\<rparr>"

fun load_items :: "nat \<Rightarrow> string \<Rightarrow> string \<Rightarrow> CTaskExam \<Rightarrow> (CTaskExam \<times> string) option" where
  "load_items 0 cTmp s pitem = Some (pitem, s)"
| "load_items (Suc n) cTmp s pitem =
     (case read_lines 8 cTmp s of
        None \<Rightarrow> None
      | Some (ls, c, r) \<Rightarrow> load_items n c r (snd (InsertItem pitem (item_of_lines ls))))"

definition LoadExamTask :: "string \<Rightarrow> string \<Rightarrow> TASKHEAD \<Rightarrow> (TASKHEAD \<times> string) option" where
  "LoadExamTask cTmp s node =
     (let (n, r) = scan_d s;
          nNum = (case n of None \<Rightarrow> 0 | Some v \<Rightarrow> v)
      in case load_items (nat nNum) cTmp r CTaskExam_ctor of
           None \<Rightarrow> None
         | Some (pitem, r') \<Rightarrow> map_option (\<lambda>e. (node\<lparr>task := Some e\<rparr>, r')) (FinishInit pitem))"

definition set_int :: "int option \<Rightarrow> int \<Rightarrow> int" where
  "set_int n old = (case n of None \<Rightarrow> old | Some v \<Rightarrow> v)"

text \<open>The five fields after the id; \<open>lasttime\<close> has 24 characters.\<close>

definition load_fields :: "string \<Rightarrow> TASKHEAD \<Rightarrow> (TASKHEAD \<times> string) option" where
  "load_fields s node =
     (let (c, s1) = scan_d s; (ty, s2) = scan_d s1; (lt, s3) = scan_s s2; (iv, s4) = scan_d s3; (ft, s5) = scan_d s4;
          lt' = (case lt of None \<Rightarrow> lasttime node | Some x \<Rightarrow> x);
          iv' = set_int iv (invalid node)
      in if length lt' \<ge> 24 then None
         else Some (node\<lparr>cycle := set_int c (cycle node), task_type := set_int ty (task_type node), lasttime := lt',
                         invalid := (if iv' = 3 then 0 else iv'), ftime := set_int ft (ftime node)\<rparr>, s5))"

text \<open>\<open>LoadTask\<close>: the code, the node and the rest; \<open>tid\<close> has 32 characters.\<close>

definition LoadTask :: "string \<Rightarrow> string \<Rightarrow> TASKHEAD \<Rightarrow> (int \<times> TASKHEAD \<times> string) option" where
  "LoadTask cTmp s node =
     (case scan_s s of
        (None, r) \<Rightarrow> Some (- 1, node, r)
      | (Some t, r) \<Rightarrow>
          if length t \<ge> 32 then None
          else if \<not> checkTid t then Some (1, node\<lparr>tid := t\<rparr>, r)
          else case load_fields r (node\<lparr>tid := t\<rparr>) of
                 None \<Rightarrow> None
               | Some (node1, r1) \<Rightarrow>
                   if task_type node1 = TYPE_EXAM_HEALTH
                   then map_option (\<lambda>(node2, r2). (0, node2, r2)) (LoadExamTask cTmp r1 node1)
                   else Some (0, node1, r1))"

section \<open>Reading consumes text\<close>

lemma length_skip_ws: "length (skip_ws s) \<le> length s"
  by (simp add: skip_ws_def length_dropWhile_le)

lemma length_scan_d: "length (snd (scan_d s)) \<le> length s"
proof -
  have "length (skip_ws (dropWhile is_digit d)) \<le> length s" if "length d \<le> length (skip_ws s)" for d
    using that length_skip_ws [of s] length_skip_ws [of "dropWhile is_digit d"] length_dropWhile_le [of is_digit d]
    by linarith
  moreover have "length (skip_ws s) \<le> length s" by (rule length_skip_ws)
  ultimately show ?thesis by (auto simp: scan_d_def Let_def split: list.split)
qed

lemma length_scan_s:
  "fst (scan_s s) = Some x \<Longrightarrow> length (snd (scan_s s)) < length s" "length (snd (scan_s s)) \<le> length s"
proof -
  let ?s = "skip_ws s" and ?ns = "\<lambda>c. \<not> is_space c"
  have le: "length (skip_ws (dropWhile ?ns ?s)) \<le> length (dropWhile ?ns ?s)" by (rule length_skip_ws)
  show "length (snd (scan_s s)) \<le> length s"
    using le length_dropWhile_le [of ?ns ?s] length_skip_ws [of s] by (auto simp: scan_s_def Let_def)
  assume "fst (scan_s s) = Some x"
  then have ne: "?s \<noteq> []" by (auto simp: scan_s_def Let_def split: if_splits)
  then have "?ns (hd ?s)" unfolding skip_ws_def by (rule hd_dropWhile)
  with ne have "length (dropWhile ?ns ?s) < length ?s"
    by (cases ?s) (auto intro: le_imp_less_Suc length_dropWhile_le)
  then show "length (snd (scan_s s)) < length s"
    using le ne length_skip_ws [of s] by (simp add: scan_s_def Let_def)
qed

lemma length_read_lines: "read_lines n c s = Some (ls, c', r) \<Longrightarrow> length r \<le> length s"
proof (induction n arbitrary: c s ls)
  case (Suc n)
  obtain l r1 where f: "fgets_1024 c s = (l, r1)" by (cases "fgets_1024 c s")
  then have "length r1 \<le> length s" by (auto simp: fgets_1024_def Let_def split: if_splits)
  moreover have "length r \<le> length r1" using Suc f by (auto split: if_splits)
  ultimately show ?case by linarith
qed simp

lemma length_load_items: "load_items n c s e = Some (e', r) \<Longrightarrow> length r \<le> length s"
proof (induction n arbitrary: c s e)
  case (Suc n)
  obtain ls c1 r1 where l: "read_lines 8 c s = Some (ls, c1, r1)"
    using Suc.prems by (auto split: option.splits prod.splits)
  then have "length r \<le> length r1" using Suc by (auto simp del: read_lines.simps)
  with length_read_lines [OF l] show ?case by linarith
qed simp

lemma length_LoadExamTask: "LoadExamTask c s node = Some (node', r) \<Longrightarrow> length r \<le> length s"
  using length_scan_d [of s]
  by (auto simp: LoadExamTask_def Let_def split_beta split: option.splits prod.splits dest!: length_load_items)

lemma length_load_fields: "load_fields s node = Some (node', r) \<Longrightarrow> length r \<le> length s"
proof -
  assume "load_fields s node = Some (node', r)"
  then have "r = snd (scan_d (snd (scan_d (snd (scan_s (snd (scan_d (snd (scan_d s)))))))))"
    by (auto simp: load_fields_def Let_def split_beta split: if_splits)
  then show ?thesis
    using length_scan_d [of s] length_scan_d [of "snd (scan_d s)"]
      length_scan_s(2) [of "snd (scan_d (snd (scan_d s)))"]
      length_scan_d [of "snd (scan_s (snd (scan_d (snd (scan_d s)))))"]
      length_scan_d [of "snd (scan_d (snd (scan_s (snd (scan_d (snd (scan_d s)))))))"] by simp
qed

lemma length_LoadTask:
  assumes "LoadTask c s node = Some (e, node', r)" "\<not> e < 0" shows "length r < length s"
proof -
  obtain t r0 where t: "scan_s s = (Some t, r0)"
    using assms by (auto simp: LoadTask_def split: option.splits prod.splits)
  then have "length r0 < length s" using length_scan_s(1) [of s t] by simp
  moreover have "length r \<le> length r0"
    using assms t by (auto simp: LoadTask_def split: option.splits prod.splits if_splits
        dest!: length_load_fields length_LoadExamTask)
  ultimately show ?thesis by linarith
qed

section \<open>The loop of \<open>Load\<close>\<close>

text \<open>
  A rejected id does not count (\<open>continue\<close> without \<open>i++\<close>); every round that does not end the loop
  consumes text.
\<close>

function load_loop :: "string \<Rightarrow> nat \<Rightarrow> string \<Rightarrow> CTaskList \<Rightarrow> CTaskList option" where
  "load_loop cTmp n s L =
     (if n = 0 then Some L
      else case LoadTask cTmp s TASKHEAD_ctor of
             None \<Rightarrow> None
           | Some (nError, iTask, r) \<Rightarrow>
               if nError < 0 then Some L
               else if nError \<noteq> 0 then load_loop cTmp n r L
               else case AddTask_nolock L iTask of
                      None \<Rightarrow> None
                    | Some (_, L') \<Rightarrow> load_loop cTmp (n - 1) r L')"
  by pat_completeness auto
termination
  by (relation "measure (\<lambda>(cTmp, n, s, L). length s)") (auto intro: length_LoadTask)

declare load_loop.simps [simp del]

definition Load :: "CTaskList \<Rightarrow> string option \<Rightarrow> int \<Rightarrow> string \<Rightarrow> (int \<times> CTaskList) option" where
  "Load L file nNum0 cTmp =
     (case Lock L 60 of
        None \<Rightarrow> None
      | Some (nLock, l) \<Rightarrow>
          if nLock \<noteq> 0 then Some (3, l)
          else case file of
                 None \<Rightarrow> Some (1, UnLock l)
               | Some text \<Rightarrow>
                   let (n, r) = scan_d text;
                       nNum = set_int n nNum0
                   in map_option (\<lambda>l'. (0, UnLock l')) (load_loop cTmp (nat nNum) r (l\<lparr>m_TaskList := []\<rparr>)))"

section \<open>The time stamp\<close>

text \<open>\<open>TASKHEAD::SetTime\<close>, on the local time; \<open>lasttime\<close> has 24 characters.\<close>

record tm =
  tm_year :: int
  tm_mon :: int
  tm_mday :: int
  tm_hour :: int
  tm_min :: int
  tm_sec :: int

definition print_02d :: "int \<Rightarrow> string" where
  "print_02d i = (if 0 \<le> i \<and> i < 10 then CHR ''0'' # print_int i else print_int i)"

definition print_4d :: "int \<Rightarrow> string" where
  "print_4d i = replicate (4 - length (print_int i)) (CHR '' '') @ print_int i"

definition set_date :: "tm \<Rightarrow> string" where
  "set_date t = print_4d (1900 + tm_year t) @ ''-'' @ print_02d (tm_mon t + 1) @ ''-'' @ print_02d (tm_mday t)"

definition set_clock :: "tm \<Rightarrow> string" where
  "set_clock t = print_02d (tm_hour t) @ '':'' @ print_02d (tm_min t) @ '':'' @ print_02d (tm_sec t)"

definition SetTime :: "tm \<Rightarrow> TASKHEAD \<Rightarrow> TASKHEAD option" where
  "SetTime t node =
     (let s = set_date t @ '' '' @ set_clock t
      in if length s \<ge> 24 then None else Some (node\<lparr>lasttime := s\<rparr>))"

section \<open>Printing and scanning numbers\<close>

lemma skip_ws_idem [simp]: "skip_ws (skip_ws s) = skip_ws s"
  by (simp add: skip_ws_def)

lemma skip_ws_Cons: "skip_ws (c # s) = (if is_space c then skip_ws s else c # s)"
  by (simp add: skip_ws_def)

lemma scan_d_print: "scan_d (print_d i @ r) = (Some i, skip_ws r)"
proof -
  obtain c cs where d: "digits_of (nat \<bar>i\<bar>) = c # cs" "is_digit c" using digits_of_Cons by blast
  note tw = takeWhile_digits [OF newline_facts(2), of "nat \<bar>i\<bar>" r]
  note facts = digit_not_space [OF d(2)] digit_not_sign [OF d(2)] newline_facts
  show ?thesis
  proof (cases "i < 0")
    case True
    then have "print_d i @ r = CHR ''-'' # digits_of (nat \<bar>i\<bar>) @ newline # r"
      by (simp add: print_d_def print_int_def)
    moreover have "\<not> is_space (CHR ''-'')" by (simp add: is_space_def)
    ultimately show ?thesis
      using tw d(1) True facts digits_val_of [of "nat \<bar>i\<bar>"]
      by (simp add: scan_d_def skip_ws_Cons Let_def)
  next
    case False
    then have "print_d i @ r = digits_of (nat \<bar>i\<bar>) @ newline # r"
      by (simp add: print_d_def print_int_def)
    then show ?thesis
      using tw d False facts digits_val_of [of "nat \<bar>i\<bar>"]
      by (simp add: scan_d_def skip_ws_Cons Let_def)
  qed
qed

lemma print_int_line:
  assumes "- (2 ^ 31) \<le> i" "i < 2 ^ 31"
  shows "length (print_int i) \<le> 1022" "newline \<notin> set (print_int i)"
proof -
  have "nat \<bar>i\<bar> < 10 ^ Suc 9" using assms by simp
  from length_digits_of [OF this] show "length (print_int i) \<le> 1022" by (auto simp: print_int_def)
  show "newline \<notin> set (print_int i)"
    using digits_of_facts newline_facts(2) by (auto simp: print_int_def list_all_iff)
qed

section \<open>Scanning tokens and lines\<close>

lemma scan_s_print:
  assumes "t \<noteq> []" "list_all (\<lambda>c. \<not> is_space c) t"
  shows "scan_s (print_s t @ r) = (Some t, skip_ws r)"
proof -
  obtain c cs where t: "t = c # cs" "\<not> is_space c" using assms by (cases t) auto
  have "takeWhile (\<lambda>c. \<not> is_space c) (t @ newline # r) = t" "dropWhile (\<lambda>c. \<not> is_space c) (t @ newline # r) = newline # r"
    using assms(2) newline_facts(1) by (auto simp: list_all_iff takeWhile_append2 dropWhile_append2)
  then show ?thesis
    using t newline_facts(1) by (simp add: scan_s_def print_s_def Let_def skip_ws_Cons)
qed

lemma scan_skip [simp]: "scan_s (skip_ws s) = scan_s s" "scan_d (skip_ws s) = scan_d s"
  by (simp_all add: scan_s_def scan_d_def)

lemma line_prefix_line: "newline \<notin> set l \<Longrightarrow> length l < n \<Longrightarrow> line_prefix n (l @ newline # r) = l @ [newline]"
proof (induction l arbitrary: n)
  case Nil
  then show ?case by (cases n) simp_all
next
  case (Cons c l)
  then show ?case by (cases n) auto
qed

lemma fgets_line:
  assumes "newline \<notin> set l" "length l \<le> 1022"
  shows "fgets_1024 c (print_s l @ r) = (l @ [newline], r)"
proof -
  have "line_prefix 1023 (l @ newline # r) = l @ [newline]"
    using assms by (intro line_prefix_line) simp_all
  then show ?thesis by (simp add: fgets_1024_def print_s_def)
qed

lemma read_lines_print:
  "list_all (\<lambda>l. newline \<notin> set l \<and> length l \<le> 1022) ls \<Longrightarrow>
    \<exists>c'. read_lines (length ls) c (concat (map print_s ls) @ r) = Some (ls, c', r)"
proof (induction ls arbitrary: c)
  case (Cons l ls)
  have "fgets_1024 c (print_s l @ (concat (map print_s ls) @ r)) = (l @ [newline], concat (map print_s ls) @ r)"
    using Cons.prems by (intro fgets_line) auto
  then show ?case using Cons.IH [of l] Cons.prems by fastforce
qed simp

section \<open>What survives a file\<close>

definition line_ok :: "string \<Rightarrow> bool" where
  "line_ok l \<longleftrightarrow> newline \<notin> set l \<and> length l \<le> 1022"

definition int_ok :: "int \<Rightarrow> bool" where
  "int_ok i \<longleftrightarrow> - (2 ^ 31) \<le> i \<and> i < 2 ^ 31"

definition item_ok :: "TASK_EXAM_DATA \<Rightarrow> bool" where
  "item_ok it \<longleftrightarrow> line_ok (exam_name it) \<and> line_ok (exam_path it) \<and> line_ok (exam_desc it) \<and> line_ok (exam_method it)
     \<and> line_ok (exam_methodValue it) \<and> int_ok (exam_score it) \<and> int_ok (exam_percent it) \<and> int_ok (exam_type it)"

text \<open>
  A task that survives: a valid id that fits its array, a time without blanks, and a payload with
  single-line items whose percentages are the ones \<open>FinishInit\<close> computes; the name of the first item
  must not be empty or start with a blank, because \<open>"%d\n"\<close> skips blanks behind the number of items.
\<close>

definition head_ok :: "TASKHEAD \<Rightarrow> bool" where
  "head_ok h \<longleftrightarrow> saved_task h \<and> checkTid (tid h) \<and> length (tid h) < 30
     \<and> lasttime h \<noteq> [] \<and> length (lasttime h) < 23 \<and> list_all (\<lambda>c. \<not> is_space c) (lasttime h)
     \<and> (case task h of
          None \<Rightarrow> False
        | Some e \<Rightarrow> FinishInit e = Some e \<and> list_all item_ok (m_CheckItemList e)
            \<and> (case m_CheckItemList e of
                 [] \<Rightarrow> True
               | it # _ \<Rightarrow> exam_name it \<noteq> [] \<and> \<not> is_space (hd (exam_name it))))"

lemma SaveItem_lines:
  "SaveItem it = concat (map print_s [exam_name it, exam_path it, exam_desc it, print_int (exam_score it),
     exam_method it, print_int (exam_percent it), print_int (exam_type it), exam_methodValue it])"
  by (simp add: SaveItem_def print_d_def print_s_def)

lemma item_of_lines_print:
  "item_of_lines [exam_name it, exam_path it, exam_desc it, print_int (exam_score it),
     exam_method it, print_int (exam_percent it), print_int (exam_type it), exam_methodValue it] = it"
  by (simp add: item_of_lines_def numeral_eq_Suc)

lemma read_item:
  assumes "item_ok it"
  shows "\<exists>ls c'. read_lines 8 c (SaveItem it @ r) = Some (ls, c', r) \<and> item_of_lines ls = it"
proof -
  let ?ls = "[exam_name it, exam_path it, exam_desc it, print_int (exam_score it),
     exam_method it, print_int (exam_percent it), print_int (exam_type it), exam_methodValue it]"
  have "list_all (\<lambda>l. newline \<notin> set l \<and> length l \<le> 1022) ?ls"
    using assms print_int_line by (simp add: item_ok_def line_ok_def int_ok_def)
  from read_lines_print [OF this, of c r] show ?thesis
    unfolding SaveItem_lines using item_of_lines_print [of it] by (auto simp: numeral_eq_Suc)
qed

lemma load_items_print:
  "list_all item_ok its \<Longrightarrow> load_items (length its) c (concat (map SaveItem its) @ r) e
     = Some (e\<lparr>m_CheckItemList := m_CheckItemList e @ its\<rparr>, r)"
proof (induction its arbitrary: c e)
  case (Cons it its)
  then obtain ls c' where "read_lines 8 c (SaveItem it @ (concat (map SaveItem its) @ r))
      = Some (ls, c', concat (map SaveItem its) @ r)" "item_of_lines ls = it"
    using read_item [of it c "concat (map SaveItem its) @ r"] by auto
  then show ?case using Cons by (simp add: InsertItem_def)
qed simp

lemma FinishInit_list: "m_CheckItemList e = m_CheckItemList e' \<Longrightarrow> FinishInit e = FinishInit e'"
  by (cases e; cases e') (simp add: FinishInit_def Let_def)

lemma LoadExamTask_print:
  assumes "FinishInit e = Some e" "list_all item_ok (m_CheckItemList e)"
    "case m_CheckItemList e of [] \<Rightarrow> True | it # _ \<Rightarrow> exam_name it \<noteq> [] \<and> \<not> is_space (hd (exam_name it))"
  shows "\<exists>r'. LoadExamTask c (print_d (int (length (m_CheckItemList e))) @ concat (map SaveItem (m_CheckItemList e)) @ r) node
      = Some (node\<lparr>task := Some e\<rparr>, r') \<and> skip_ws r' = skip_ws r"
proof -
  let ?its = "m_CheckItemList e"
  let ?r = "if ?its = [] then skip_ws r else r"
  have "skip_ws (concat (map SaveItem ?its) @ r) = concat (map SaveItem ?its) @ ?r"
  proof (cases ?its)
    case (Cons it its)
    then obtain x xs where "exam_name it = x # xs" "\<not> is_space x"
      using assms(3) by (cases "exam_name it") auto
    then show ?thesis using Cons by (simp add: SaveItem_def print_s_def skip_ws_Cons)
  qed simp
  then have "scan_d (print_d (int (length ?its)) @ concat (map SaveItem ?its) @ r)
      = (Some (int (length ?its)), concat (map SaveItem ?its) @ ?r)"
    by (simp only: scan_d_print)
  moreover have "load_items (length ?its) c (concat (map SaveItem ?its) @ ?r) CTaskExam_ctor
      = Some (CTaskExam_ctor\<lparr>m_CheckItemList := ?its\<rparr>, ?r)"
    using load_items_print [OF assms(2), of c ?r CTaskExam_ctor] by (simp add: CTaskExam_ctor_def)
  moreover have "FinishInit (CTaskExam_ctor\<lparr>m_CheckItemList := ?its\<rparr>) = Some e"
    using FinishInit_list [of "CTaskExam_ctor\<lparr>m_CheckItemList := ?its\<rparr>" e] assms(1) by simp
  ultimately show ?thesis by (simp add: LoadExamTask_def)
qed

lemma checkTid_no_space: "checkTid t \<Longrightarrow> t \<noteq> [] \<and> list_all (\<lambda>c. \<not> is_space c) t"
proof -
  assume t: "checkTid t"
  have "\<not> is_space c" if "\<not> char_code c < 48" for c
  proof -
    have "(48 :: int) \<le> int (of_char c)" using that by (auto simp: char_code_def int_of_char split: if_splits)
    then show ?thesis by (auto simp: is_space_def)
  qed
  moreover have "list_all (\<lambda>c. \<not> char_code c < 48) t" "t \<noteq> []"
    using t by (auto simp: checkTid_def list_all_iff char_code_def split: if_splits)
  ultimately show ?thesis by (simp add: list_all_iff)
qed

lemma LoadTask_saved:
  assumes "head_ok h"
  shows "\<exists>out. SaveTask h = Some out
    \<and> (\<forall>c r. \<exists>r'. LoadTask c (out @ r) TASKHEAD_ctor = Some (0, h, r') \<and> skip_ws r' = skip_ws r)"
proof -
  obtain e where h: "invalid h = 0" "task_type h = 0" "task h = Some e" "FinishInit e = Some e"
    "list_all item_ok (m_CheckItemList e)" "checkTid (tid h)" "length (tid h) < 30" "length (lasttime h) < 23"
    "case m_CheckItemList e of [] \<Rightarrow> True | it # _ \<Rightarrow> exam_name it \<noteq> [] \<and> \<not> is_space (hd (exam_name it))"
    "lasttime h \<noteq> []" "list_all (\<lambda>c. \<not> is_space c) (lasttime h)"
    using assms by (auto simp: head_ok_def saved_task_def TYPE_EXAM_HEALTH_def split: option.splits)
  let ?items = "print_d (int (length (m_CheckItemList e))) @ concat (map SaveItem (m_CheckItemList e))"
  let ?out = "print_s (tid h) @ print_d (cycle h) @ print_d (task_type h) @ print_s (lasttime h)
      @ print_d (invalid h) @ print_d (ftime h) @ ?items"
  have s: "SaveTask h = Some ?out" using h(1-3) by (simp add: SaveTask_def SaveExamTask_def TYPE_EXAM_HEALTH_def)
  note tid = checkTid_no_space [OF h(6)]
  note scans = scan_d_print scan_s_print [OF conjunct1 [OF tid] conjunct2 [OF tid]] scan_s_print [OF h(10,11)]
  have "\<exists>r'. LoadTask c (?out @ r) TASKHEAD_ctor = Some (0, h, r') \<and> skip_ws r' = skip_ws r" for c r
  proof -
    let ?node = "TASKHEAD_ctor\<lparr>tid := tid h, cycle := cycle h, task_type := 0, lasttime := lasttime h,
      invalid := 0, ftime := ftime h\<rparr>"
    have f: "load_fields (skip_ws (print_d (cycle h) @ print_d (task_type h) @ print_s (lasttime h)
        @ print_d (invalid h) @ print_d (ftime h) @ ?items @ r)) (TASKHEAD_ctor\<lparr>tid := tid h\<rparr>)
      = Some (?node, skip_ws (?items @ r))"
      using h(8) by (simp add: load_fields_def scans set_int_def h(1,2))
    obtain r' where "LoadExamTask c (?items @ r) ?node = Some (?node\<lparr>task := Some e\<rparr>, r')" "skip_ws r' = skip_ws r"
      using LoadExamTask_print [OF h(4,5,9), of c r ?node] by auto
    moreover have "LoadExamTask c (skip_ws (?items @ r)) ?node = LoadExamTask c (?items @ r) ?node"
      by (simp add: LoadExamTask_def del: append_assoc)
    moreover have "?node\<lparr>task := Some e\<rparr> = h"
      using h(1-3) by (cases h) (simp add: TASKHEAD_ctor_def)
    ultimately show ?thesis
      using h(6,7) f by (simp add: LoadTask_def scans TYPE_EXAM_HEALTH_def)
  qed
  then show ?thesis using s by blast
qed

lemma LoadTask_skip: "skip_ws s = skip_ws s' \<Longrightarrow> LoadTask c s node = LoadTask c s' node"
  by (simp add: LoadTask_def scan_s_def)

lemma erase_first_none: "(\<And>x. x \<in> set xs \<Longrightarrow> \<not> P x) \<Longrightarrow> erase_first P xs = xs"
  by (induction xs) auto

lemma AddTask_appends:
  assumes "head_ok h" "tid h \<notin> tid ` set (m_TaskList L)" "list_all (\<lambda>it. invalid it \<noteq> 1) (m_TaskList L)"
  shows "AddTask_nolock L h = Some (0, L\<lparr>m_TaskList := m_TaskList L @ [h], m_iCurrent := 0\<rparr>)"
proof -
  have "erase_first (\<lambda>it. tid h = tid it \<or> invalid it = 1) (m_TaskList L) = m_TaskList L"
    using assms(2,3) by (intro erase_first_none) (auto simp: list_all_iff)
  then show ?thesis using assms(1) by (simp add: AddTask_nolock_def copy_head_def head_ok_def)
qed

lemma save_loop_filter: "save_loop its = save_loop (filter saved_task its)"
  by (induction its) (simp_all split: option.splits)

lemma load_loop_saved:
  assumes "list_all head_ok its" "distinct (map tid its)" "tid ` set its \<inter> tid ` set (m_TaskList L) = {}"
    "list_all (\<lambda>it. invalid it \<noteq> 1) (m_TaskList L)"
  shows "\<exists>out. save_loop its = Some out
    \<and> (\<forall>s. skip_ws s = skip_ws out \<longrightarrow> (\<exists>L'. load_loop c (length its) s L = Some L'
          \<and> m_TaskList L' = m_TaskList L @ its))"
  using assms
proof (induction its arbitrary: L)
  case Nil
  then show ?case by (simp add: load_loop.simps)
next
  case (Cons h its)
  let ?L = "L\<lparr>m_TaskList := m_TaskList L @ [h], m_iCurrent := 0\<rparr>"
  have h: "head_ok h" "saved_task h" "invalid h \<noteq> 1"
    using Cons.prems(1) by (auto simp: head_ok_def saved_task_def)
  obtain out where out: "save_loop its = Some out" "\<And>s. skip_ws s = skip_ws out \<Longrightarrow> (\<exists>L'.
      load_loop c (length its) s ?L = Some L' \<and> m_TaskList L' = m_TaskList ?L @ its)"
    using Cons.IH [of ?L] Cons.prems h by auto
  obtain a where a: "SaveTask h = Some a"
    "\<And>c r. \<exists>r'. LoadTask c (a @ r) TASKHEAD_ctor = Some (0, h, r') \<and> skip_ws r' = skip_ws r"
    using LoadTask_saved [OF h(1)] by blast
  have add: "AddTask_nolock L h = Some (0, ?L)"
    using AddTask_appends [OF h(1)] Cons.prems(3,4) by auto
  have "\<exists>L'. load_loop c (length (h # its)) s L = Some L' \<and> m_TaskList L' = m_TaskList L @ h # its"
    if s: "skip_ws s = skip_ws (a @ out)" for s
  proof -
    obtain r' where r': "LoadTask c s TASKHEAD_ctor = Some (0, h, r')" "skip_ws r' = skip_ws out"
      using a(2) [of c out] LoadTask_skip [OF s, of c TASKHEAD_ctor] by auto
    then have "load_loop c (length (h # its)) s L = load_loop c (length its) r' ?L"
      using add by (subst load_loop.simps) simp
    then show ?thesis using out(2) [OF r'(2)] by simp
  qed
  then show ?case using a(1) out(1) h(2) by auto
qed

section \<open>Properties\<close>




section \<open>The time stamp in the file\<close>

definition tm_ok :: "tm \<Rightarrow> bool" where
  "tm_ok t \<longleftrightarrow> 0 \<le> tm_year t \<and> tm_year t < 8100 \<and> 0 \<le> tm_mon t \<and> tm_mon t < 12 \<and> 1 \<le> tm_mday t \<and> tm_mday t < 32
     \<and> 0 \<le> tm_hour t \<and> tm_hour t < 24 \<and> 0 \<le> tm_min t \<and> tm_min t < 60 \<and> 0 \<le> tm_sec t \<and> tm_sec t < 61"

lemma print_02d_facts:
  assumes "0 \<le> i" "i < 100"
  shows "length (print_02d i) = 2" "list_all is_digit (print_02d i)" "digits_val (print_02d i) = i"
proof -
  have d0: "is_digit (CHR ''0'')" by (simp add: is_digit_def)
  have n: "nat i < 100" using assms by simp
  consider "i < 10" | "10 \<le> i" by linarith
  then have "length (print_02d i) = 2 \<and> list_all is_digit (print_02d i) \<and> digits_val (print_02d i) = i"
  proof cases
    case 1
    then have "print_02d i = [CHR ''0'', digit_char (nat i)]"
      using assms by (simp add: print_02d_def print_int_def digits_of.simps)
    then show ?thesis using 1 assms d0 by (simp add: is_digit_char digits_val_def int_of_char of_digit_char)
  next
    case 2
    then have p: "print_02d i = digits_of (nat i)" using assms by (simp add: print_02d_def print_int_def)
    have "digits_of (nat i) = [digit_char (nat i div 10), digit_char (nat i mod 10)]"
      using 2 n by (simp add: digits_of.simps [of "nat i"] digits_of.simps [of "nat i div 10"] less_mult_imp_div_less)
    then have "length (digits_of (nat i)) = 2" by simp
    then show ?thesis using p digits_of_facts [of "nat i"] assms by simp
  qed
  then show "length (print_02d i) = 2" "list_all is_digit (print_02d i)" "digits_val (print_02d i) = i" by auto
qed

lemma print_4d_facts:
  assumes "1000 \<le> i" "i < 10000"
  shows "length (print_4d i) = 4 \<and> list_all is_digit (print_4d i)"
proof -
  have n: "1000 \<le> nat i" "nat i < 10000" using assms by auto
  have l1: "length (digits_of k) = 1" if "k < 10" for k using that by (simp add: digits_of.simps)
  have ls: "length (digits_of k) = Suc (length (digits_of (k div 10)))" if "10 \<le> k" for k
    using that by (simp add: digits_of.simps [of k])
  have "10 \<le> nat i" "10 \<le> nat i div 10" "10 \<le> nat i div 10 div 10" "nat i div 10 div 10 div 10 < 10"
    using n by simp_all
  then have "length (digits_of (nat i)) = 4"
    using ls [of "nat i"] ls [of "nat i div 10"] ls [of "nat i div 10 div 10"] l1 [of "nat i div 10 div 10 div 10"] by simp
  then show ?thesis using assms digits_of_facts [of "nat i"] by (simp add: print_4d_def print_int_def)
qed

lemma scan_d_clock:
  assumes "0 \<le> i" "i < 100"
  shows "scan_d (print_02d i @ CHR '':'' # r) = (Some i, CHR '':'' # r)"
proof -
  note p = print_02d_facts [OF assms]
  then obtain c cs where c: "print_02d i = c # cs" "is_digit c" by (cases "print_02d i") auto
  have nc: "\<not> is_digit (CHR '':'')" "\<not> is_space (CHR '':'')" by (simp_all add: is_digit_def is_space_def)
  have "takeWhile is_digit (print_02d i @ CHR '':'' # r) = print_02d i"
    "dropWhile is_digit (print_02d i @ CHR '':'' # r) = CHR '':'' # r"
    using p(2) nc by (auto simp: list_all_iff takeWhile_append2 dropWhile_append2)
  then show ?thesis
    using c p(3) digit_not_space [OF c(2)] digit_not_sign [OF c(2)] nc by (simp add: scan_d_def skip_ws_Cons Let_def)
qed

lemma scan_d_colon: "scan_d (CHR '':'' # r) = (None, CHR '':'' # r)"
  by (simp add: scan_d_def skip_ws_Cons is_space_def is_digit_def Let_def)

lemma scan_s_date:
  assumes "tm_ok t"
  shows "scan_s (set_date t @ '' '' @ set_clock t @ r) = (Some (set_date t), set_clock t @ r)"
proof -
  have y: "list_all is_digit (print_4d (1900 + tm_year t))" "print_4d (1900 + tm_year t) \<noteq> []"
    using print_4d_facts [of "1900 + tm_year t"] assms by (auto simp: tm_ok_def)
  have "list_all is_digit (print_02d (tm_mon t + 1))" "list_all is_digit (print_02d (tm_mday t))"
    using assms print_02d_facts(2) by (auto simp: tm_ok_def)
  then have d: "list_all (\<lambda>c. \<not> is_space c) (set_date t)" "set_date t \<noteq> []"
    using y digit_not_space by (auto simp: set_date_def list_all_iff) (auto simp: is_space_def)
  have h: "list_all is_digit (print_02d (tm_hour t))" "length (print_02d (tm_hour t)) = 2"
    using assms print_02d_facts by (auto simp: tm_ok_def)
  then obtain c cs where c: "set_clock t = c # cs" "\<not> is_space c"
    using digit_not_space by (cases "print_02d (tm_hour t)") (auto simp: set_clock_def)
  have sp: "is_space (CHR '' '')" by (simp add: is_space_def)
  have "takeWhile (\<lambda>c. \<not> is_space c) (set_date t @ CHR '' '' # set_clock t @ r) = set_date t"
    "dropWhile (\<lambda>c. \<not> is_space c) (set_date t @ CHR '' '' # set_clock t @ r) = CHR '' '' # set_clock t @ r"
    using d(1) sp by (auto simp: list_all_iff takeWhile_append2 dropWhile_append2)
  moreover have "skip_ws (set_date t @ CHR '' '' # set_clock t @ r) = set_date t @ CHR '' '' # set_clock t @ r"
    using d by (cases "set_date t") (auto simp: skip_ws_Cons)
  ultimately show ?thesis using c sp d(2) by (simp add: scan_s_def skip_ws_Cons)
qed

text \<open>
  A time stamp set by \<open>SetTime\<close> does not survive the file: it contains a blank, so reading back a
  task that was saved with it keeps only the date, takes the hour for the validity flag, loses the
  issue time and every check item, and leaves the reader in the middle of the time stamp.
\<close>

theorem SetTime_breaks_load:
  assumes "tm_ok t" "saved_task h" "checkTid (tid h)" "length (tid h) < 30" "task h = Some e"
  shows "\<exists>h1 out n r'. SetTime t h = Some h1 \<and> SaveTask h1 = Some out
    \<and> LoadTask c (out @ r) TASKHEAD_ctor = Some (0, n, CHR '':'' # r') \<and> lasttime n = set_date t
    \<and> invalid n = (if tm_hour t = 3 then 0 else tm_hour t) \<and> ftime n = 0
    \<and> map_option m_CheckItemList (task n) = Some []"
proof -
  have h: "invalid h = 0" "task_type h = 0" using assms(2) by (auto simp: saved_task_def TYPE_EXAM_HEALTH_def)
  have len: "length (set_date t) = 10" "length (set_clock t) = 8"
    using assms(1) print_02d_facts(1) print_4d_facts [of "1900 + tm_year t"]
    by (auto simp: set_date_def set_clock_def tm_ok_def)
  define h1 where "h1 = h\<lparr>lasttime := set_date t @ '' '' @ set_clock t\<rparr>"
  have s: "SetTime t h = Some h1" using len by (simp add: SetTime_def h1_def)
  define rest where "rest = newline # print_d (invalid h) @ print_d (ftime h)
    @ print_d (int (length (m_CheckItemList e))) @ concat (map SaveItem (m_CheckItemList e))"
  have sv: "SaveTask h1 = Some (print_s (tid h) @ print_d (cycle h) @ print_d (task_type h)
      @ set_date t @ '' '' @ set_clock t @ rest)"
    using h assms(5) by (simp add: SaveTask_def SaveExamTask_def h1_def TYPE_EXAM_HEALTH_def print_s_def rest_def)
  define r1 where "r1 = print_02d (tm_min t) @ '':'' @ print_02d (tm_sec t) @ rest @ r"
  have clk: "scan_d (set_clock t @ rest @ r) = (Some (tm_hour t), CHR '':'' # r1)"
    using scan_d_clock [of "tm_hour t" r1] assms(1) by (simp add: set_clock_def r1_def tm_ok_def)
  note scans = scan_d_print scan_d_colon scan_s_date [OF assms(1)] clk
  have lf: "load_fields (skip_ws (print_d (cycle h) @ print_d (task_type h) @ set_date t @ '' '' @ set_clock t @ rest @ r)) (TASKHEAD_ctor\<lparr>tid := tid h\<rparr>)
    = Some (TASKHEAD_ctor\<lparr>tid := tid h, cycle := cycle h, task_type := 0, lasttime := set_date t,
        invalid := (if tm_hour t = 3 then 0 else tm_hour t), ftime := 0\<rparr>, CHR '':'' # r1)"
    using len(1) scan_s_date [OF assms(1), of "rest @ r"] by (simp add: load_fields_def scan_d_print scan_d_colon clk set_int_def h TASKHEAD_ctor_def)
  have "LoadTask c ((print_s (tid h) @ print_d (cycle h) @ print_d (task_type h)
      @ set_date t @ '' '' @ set_clock t @ rest) @ r) TASKHEAD_ctor
    = Some (0, TASKHEAD_ctor\<lparr>tid := tid h, cycle := cycle h, task_type := 0, lasttime := set_date t,
        invalid := (if tm_hour t = 3 then 0 else tm_hour t), ftime := 0, task := Some CTaskExam_ctor\<rparr>, CHR '':'' # r1)"
    using assms(3,4) lf scan_s_print [OF conjunct1 [OF checkTid_no_space [OF assms(3)]] conjunct2 [OF checkTid_no_space [OF assms(3)]]]
    by (simp add: LoadTask_def TYPE_EXAM_HEALTH_def LoadExamTask_def scan_d_colon FinishInit_def rank_offsets_def CTaskExam_ctor_def)
  with s sv show ?thesis by (fastforce simp: CTaskExam_ctor_def)
qed

end
