(* ===== verification/TaskRef.thy ===== *)
theory TaskRef
  imports TaskList
begin

text \<open>
  The shared payload of task heads: the reference count \<open>_atpr\<close> of \<open>struct taskhead\<close> in
  \<open>src/public/astTask/astTask.h\<close>, kept by the constructors, the assignment and the destructor.

  \<open>TaskList\<close> has the payload inside the head; here it is behind the pointer.  The heap is a partial map
  from addresses to counted cells, the live \<open>taskhead\<close> objects are a partial map from their identities
  to the address in \<open>atpr\<close>.  \<^term>\<open>None\<close> is the use of a cell that was freed.  \<open>new\<close> gives an address that
  is not in use.
\<close>

section \<open>The operations\<close>

record atpr =
  ref :: int
  atpr_task :: "nat option"

record ref_state =
  cells :: "nat \<rightharpoonup> atpr"
  handles :: "nat \<rightharpoonup> nat"

definition no_objects :: ref_state where
  "no_objects = \<lparr>cells = Map.empty, handles = Map.empty\<rparr>"

text \<open>\<open>taskhead()\<close>: the object \<open>x\<close> gets a new cell at \<open>a\<close>.\<close>

definition head_new :: "ref_state \<Rightarrow> nat \<Rightarrow> nat \<Rightarrow> ref_state" where
  "head_new st x a = st\<lparr>cells := (cells st)(a \<mapsto> \<lparr>ref = 1, atpr_task = None\<rparr>), handles := (handles st)(x \<mapsto> a)\<rparr>"

text \<open>\<open>atpr = old.atpr; atpr->ref++;\<close>\<close>

definition share :: "ref_state \<Rightarrow> nat \<Rightarrow> nat \<Rightarrow> ref_state option" where
  "share st x a =
     map_option (\<lambda>c. st\<lparr>cells := (cells st)(a \<mapsto> c\<lparr>ref := ref c + 1\<rparr>), handles := (handles st)(x \<mapsto> a)\<rparr>) (cells st a)"

text \<open>The release of a link: one reference less, and the cell is deleted at zero.\<close>

definition release :: "ref_state \<Rightarrow> nat \<Rightarrow> ref_state option" where
  "release st a =
     map_option (\<lambda>c. if ref c - 1 \<le> 0 then st\<lparr>cells := (cells st)(a := None)\<rparr>
                     else st\<lparr>cells := (cells st)(a \<mapsto> c\<lparr>ref := ref c - 1\<rparr>)\<rparr>) (cells st a)"

definition head_copy :: "ref_state \<Rightarrow> nat \<Rightarrow> nat \<Rightarrow> ref_state option" where
  "head_copy st x old = (case handles st old of None \<Rightarrow> None | Some a \<Rightarrow> share st x a)"

definition head_destroy :: "ref_state \<Rightarrow> nat \<Rightarrow> ref_state option" where
  "head_destroy st x =
     (case handles st x of
        None \<Rightarrow> None
      | Some a \<Rightarrow> map_option (\<lambda>st'. st'\<lparr>handles := (handles st')(x := None)\<rparr>) (release st a))"

definition head_assign :: "ref_state \<Rightarrow> nat \<Rightarrow> nat \<Rightarrow> ref_state option" where
  "head_assign st x old =
     (case handles st x of
        None \<Rightarrow> None
      | Some a \<Rightarrow>
          (case release st a of
             None \<Rightarrow> None
           | Some st1 \<Rightarrow> (case handles st old of None \<Rightarrow> None | Some b \<Rightarrow> share st1 x b)))"

definition head_set_task :: "ref_state \<Rightarrow> nat \<Rightarrow> nat \<Rightarrow> ref_state option" where
  "head_set_task st x t =
     (case handles st x of
        None \<Rightarrow> None
      | Some a \<Rightarrow> map_option (\<lambda>c. st\<lparr>cells := (cells st)(a \<mapsto> c\<lparr>atpr_task := Some t\<rparr>)\<rparr>) (cells st a))"

text \<open>What a program does with heads; an object is assigned only from another object.\<close>

inductive ref_step :: "ref_state \<Rightarrow> ref_state \<Rightarrow> bool" where
  new: "handles st x = None \<Longrightarrow> cells st a = None \<Longrightarrow> ref_step st (head_new st x a)"
| copy: "handles st x = None \<Longrightarrow> head_copy st x old = Some st' \<Longrightarrow> ref_step st st'"
| destroy: "head_destroy st x = Some st' \<Longrightarrow> ref_step st st'"
| assign: "x \<noteq> old \<Longrightarrow> head_assign st x old = Some st' \<Longrightarrow> ref_step st st'"
| set_task: "head_set_task st x t = Some st' \<Longrightarrow> ref_step st st'"

section \<open>The count is the number of owners\<close>

definition owners :: "ref_state \<Rightarrow> nat \<Rightarrow> nat set" where
  "owners st a = {x. handles st x = Some a}"

definition counted :: "ref_state \<Rightarrow> bool" where
  "counted st \<longleftrightarrow> finite (dom (handles st))
     \<and> (\<forall>a. cells st a = None \<longrightarrow> owners st a = {})
     \<and> (\<forall>a c. cells st a = Some c \<longrightarrow> ref c = int (card (owners st a)) \<and> owners st a \<noteq> {})"

lemma countedD:
  assumes "counted st"
  shows "finite (owners st a)" "cells st a = Some c \<Longrightarrow> ref c = int (card (owners st a))"
    "cells st a = Some c \<Longrightarrow> owners st a \<noteq> {}" "handles st x = Some a \<Longrightarrow> \<exists>c. cells st a = Some c"
  using assms by (auto simp: counted_def owners_def dom_def intro: finite_subset [of "{x. handles st x = Some a}" "dom (handles st)"])

text \<open>
  Between a release and the next link the released object is no owner any more: \<open>counted\<close> for the state in
  which it has no handle.
\<close>

definition unlink :: "ref_state \<Rightarrow> nat \<Rightarrow> ref_state" where
  "unlink st x = st\<lparr>handles := (handles st)(x := None)\<rparr>"

lemma owners_unlink: "owners (unlink st x) a = owners st a - {x}"
  by (auto simp: owners_def unlink_def)

lemma counted_new:
  assumes "counted st" "handles st x = None" "cells st a = None"
  shows "counted (head_new st x a)"
proof -
  have "owners st a = {}" using assms(1,3) by (simp add: counted_def)
  then have "owners (head_new st x a) b = (if b = a then {x} else owners st b)" for b
    using assms(2) by (auto simp: owners_def head_new_def)
  then show ?thesis using assms(1) by (auto simp: counted_def head_new_def)
qed

lemma counted_share:
  assumes "counted st" "handles st x = None" "share st x a = Some st'"
  shows "counted st'"
proof -
  obtain c where c: "cells st a = Some c" "st' = st\<lparr>cells := (cells st)(a \<mapsto> c\<lparr>ref := ref c + 1\<rparr>), handles := (handles st)(x \<mapsto> a)\<rparr>"
    using assms(3) by (auto simp: share_def)
  have o: "owners st' b = (if b = a then insert x (owners st b) else owners st b)" for b
    using assms(2) by (auto simp: owners_def c(2))
  have "x \<notin> owners st a" using assms(2) by (simp add: owners_def)
  then have "card (owners st' a) = card (owners st a) + 1" using o countedD(1) [OF assms(1)] by simp
  then show ?thesis using assms(1) c o by (auto simp: counted_def)
qed

lemma counted_release:
  assumes "counted st" "handles st x = Some a"
  shows "\<exists>st'. release st a = Some st' \<and> handles st' = handles st \<and> counted (unlink st' x)"
proof -
  obtain c where c: "cells st a = Some c" using countedD(4) [OF assms] by blast
  define st' where "st' = (if ref c - 1 \<le> 0 then st\<lparr>cells := (cells st)(a := None)\<rparr>
    else st\<lparr>cells := (cells st)(a \<mapsto> c\<lparr>ref := ref c - 1\<rparr>)\<rparr>)"
  have r: "release st a = Some st'" using c by (simp add: release_def st'_def)
  have h: "handles st' = handles st" by (simp add: st'_def)
  have x: "x \<in> owners st a" using assms(2) by (simp add: owners_def)
  have o: "owners (unlink st' x) b = owners st b - {x}" for b
    unfolding owners_unlink using h by (simp add: owners_def)
  have ob: "owners st b - {x} = owners st b" if "b \<noteq> a" for b using assms(2) that by (auto simp: owners_def)
  have card: "int (card (owners st a - {x})) = ref c - 1" "finite (owners st a - {x})"
    using x countedD(1,2) [OF assms(1)] c by (auto simp: card_Diff_singleton card_gt_0_iff int_ops)
  have e: "ref c - 1 \<le> 0 \<longleftrightarrow> owners st a - {x} = {}" using card by (metis card_eq_0_iff of_nat_le_0_iff)
  have cl: "cells (unlink st' x) b = (if b = a then (if ref c - 1 \<le> 0 then None else Some (c\<lparr>ref := ref c - 1\<rparr>)) else cells st b)" for b
    by (simp add: unlink_def st'_def)
  have "counted (unlink st' x)"
    unfolding counted_def
  proof (intro conjI allI impI)
    show "finite (dom (handles (unlink st' x)))" using assms(1) h by (simp add: unlink_def counted_def)
  next
    fix b assume "cells (unlink st' x) b = None"
    then show "owners (unlink st' x) b = {}"
      using cl [of b] o [of b] ob [of b] e assms(1) by (auto simp: counted_def split: if_splits)
  next
    fix b d assume d: "cells (unlink st' x) b = Some d"
    have "ref d = int (card (owners (unlink st' x) b)) \<and> owners (unlink st' x) b \<noteq> {}"
    proof (cases "b = a")
      case True
      then show ?thesis using d cl [of b] o [of b] card e by (auto split: if_splits)
    next
      case False
      then show ?thesis using d cl [of b] o [of b] ob [OF False] countedD(2,3) [OF assms(1), of b d] by simp
    qed
    then show "ref d = int (card (owners (unlink st' x) b))" "owners (unlink st' x) b \<noteq> {}" by auto
  qed
  then show ?thesis using r h by blast
qed

lemma share_unlink: "share (unlink st x) x b = share st x b"
  by (cases "cells st b") (simp_all add: share_def unlink_def)

lemma counted_share_unlinked:
  assumes "counted (unlink st x)" "share st x b = Some st'"
  shows "counted st'"
  using counted_share [OF assms(1), of x b st'] assms(2) share_unlink [of st x b] by (simp add: unlink_def)

lemma counted_step: "ref_step st st' \<Longrightarrow> counted st \<Longrightarrow> counted st'"
proof (induction rule: ref_step.induct)
  case (new st x a)
  then show ?case by (intro counted_new)
next
  case (copy st x old st')
  then show ?case using counted_share by (auto simp: head_copy_def split: option.splits)
next
  case (destroy st x st')
  then obtain a where "handles st x = Some a" by (auto simp: head_destroy_def split: option.splits)
  then show ?case using destroy counted_release [of st x a] by (auto simp: head_destroy_def unlink_def)
next
  case (assign x old st st')
  then obtain a b where h: "handles st x = Some a" "handles st old = Some b"
    by (auto simp: head_assign_def split: option.splits)
  obtain st1 where "release st a = Some st1" "counted (unlink st1 x)" using counted_release [OF assign(3) h(1)] by blast
  then show ?case using assign h counted_share_unlinked by (auto simp: head_assign_def)
next
  case (set_task st x t st')
  then obtain a c where "handles st x = Some a" "cells st a = Some c"
      "st' = st\<lparr>cells := (cells st)(a \<mapsto> c\<lparr>atpr_task := Some t\<rparr>)\<rparr>"
    by (auto simp: head_set_task_def split: option.splits)
  then show ?case using set_task by (auto simp: counted_def owners_def)
qed

lemma counted_reachable: "ref_step\<^sup>*\<^sup>* no_objects st \<Longrightarrow> counted st"
proof (induction rule: rtranclp_induct)
  case base
  then show ?case by (simp add: counted_def no_objects_def owners_def)
next
  case (step st st')
  then show ?case using counted_step by blast
qed

section \<open>Properties\<close>

text \<open>
  \<^bold>\<open>C22\<close> Reference counting is exact in every reachable state: a cell exists exactly while an object uses it,
  and its count is the number of these objects; so when the last object is destroyed no cell is left.
\<close>

theorem ref_counts_owners:
  assumes "ref_step\<^sup>*\<^sup>* no_objects st"
  shows "(case cells st a of None \<Rightarrow> {x. handles st x = Some a} = {}
          | Some c \<Rightarrow> finite {x. handles st x = Some a} \<and> ref c = int (card {x. handles st x = Some a}) \<and> 0 < ref c)
    \<and> (dom (handles st) = {} \<longrightarrow> dom (cells st) = {})"
proof -
  have c: "counted st" by (rule counted_reachable [OF assms])
  have "dom (handles st) = {} \<Longrightarrow> cells st b = None" for b
    using countedD(3) [OF c, of b] by (cases "cells st b") (auto simp: owners_def)
  moreover have "0 < ref d" if "cells st a = Some d" for d
    using countedD(1-3) [OF c] that by (metis card_gt_0_iff of_nat_0_less_iff)
  ultimately show ?thesis
    using c countedD(1,2) [OF c, of a] unfolding counted_def owners_def by (auto split: option.splits)
qed

theorem ref_counts_owners_witness:
  "case cells (head_new no_objects 0 7) 7 of None \<Rightarrow> False
    | Some c \<Rightarrow> finite {x. handles (head_new no_objects 0 7) x = Some 7}
        \<and> ref c = int (card {x. handles (head_new no_objects 0 7) x = Some 7}) \<and> 0 < ref c"
proof -
  have "ref_step no_objects (head_new no_objects 0 7)" by (rule ref_step.new) (simp_all add: no_objects_def)
  then have "ref_step\<^sup>*\<^sup>* no_objects (head_new no_objects 0 7)" by simp
  from ref_counts_owners [OF this, of 7] show ?thesis by (simp add: head_new_def)
qed

text \<open>
  \<^bold>\<open>C23\<close> No use after free in reachable states: copying from, destroying and assigning a live object from
  another live object never touches a freed cell, while assigning an object that is the only owner of
  its payload to itself always does.
\<close>

theorem ref_no_use_after_free:
  assumes "ref_step\<^sup>*\<^sup>* no_objects st" "handles st x = Some a" "handles st y = Some b"
  shows "head_copy st z y \<noteq> None \<and> head_destroy st x \<noteq> None \<and> (x \<noteq> y \<longrightarrow> head_assign st x y \<noteq> None)
    \<and> ({w. handles st w = Some a} = {x} \<longrightarrow> head_assign st x x = None)"
proof -
  have c: "counted st" by (rule counted_reachable [OF assms(1)])
  obtain st1 where r: "release st a = Some st1" "handles st1 = handles st" "counted (unlink st1 x)"
    using counted_release [OF c assms(2)] by blast
  have "head_assign st x y \<noteq> None" if "x \<noteq> y"
    using countedD(4) [OF r(3), of y b] assms(2,3) r(1,2) that by (auto simp: head_assign_def share_def unlink_def)
  moreover have "head_assign st x x = None" if "{w. handles st w = Some a} = {x}"
  proof -
    obtain d where d: "cells st a = Some d" using countedD(4) [OF c assms(2)] by blast
    then have "ref d = 1" using countedD(2) [OF c d] that by (simp add: owners_def)
    then have "cells st1 a = None" using r(1) d by (auto simp: release_def)
    then show ?thesis using assms(2) r(1) by (simp add: head_assign_def share_def)
  qed
  ultimately show ?thesis
    using countedD(4) [OF c assms(3)] r(1) assms(2,3) by (auto simp: head_copy_def share_def head_destroy_def)
qed

theorem ref_no_use_after_free_witness:
  "head_destroy (head_new no_objects 0 7) 0 \<noteq> None \<and> head_assign (head_new no_objects 0 7) 0 0 = None"
proof -
  have "ref_step no_objects (head_new no_objects 0 7)" by (rule ref_step.new) (simp_all add: no_objects_def)
  then have "ref_step\<^sup>*\<^sup>* no_objects (head_new no_objects 0 7)" by simp
  then show ?thesis
    using ref_no_use_after_free [of "head_new no_objects 0 7" 0 7 0 7] by (simp add: head_new_def no_objects_def)
qed

end
