(* ===== verification/LogOut.thy ===== *)
theory LogOut
  imports TaskFile "HOL-Library.Sublist"
begin

text \<open>
  The log file of the agent: class \<open>CAstLogOut\<close> of \<open>src/public/log/logOut.cpp\<close> and \<open>logOut.h\<close>.
  \<open>WriteLog\<close> hides the values of user names and passwords in a line, appends the line, and renames the
  file when it has become too long.

  Names are character arrays; the string in one ends at its first zero.  Files are texts under their
  names; which names can be opened and whether renaming works are part of the state of the file system.
  The time is an argument.  \<^term>\<open>None\<close> is undefined behaviour: a pointer that runs behind the copy of the
  line, a null pointer, an array without terminator, a name that does not fit.  The two writing
  routines end without a return statement; \<open>noret\<close> is the value their callers see.
\<close>

section \<open>State\<close>

record CAstLogOut =
  m_cFileName :: string
  m_cFileBase :: string
  m_nLevel :: int
  m_nMaxLevel :: int
  m_fp :: bool
  m_nSize :: nat
  log_bLock :: bool

record log_fs =
  files :: "string \<rightharpoonup> string"
  can_open :: "string \<Rightarrow> bool"
  can_rename :: bool

definition ASS_LOG_LEVEL :: "string list" where
  "ASS_LOG_LEVEL = [''DEBUG'', ''INFO'', ''NOTICE'', ''WARNING'', ''ERR'', ''CRIT'', ''ALERT'', ''EMERG'']"

text \<open>The constructor; the arrays keep their content.\<close>

definition CAstLogOut_ctor :: "CAstLogOut \<Rightarrow> CAstLogOut" where
  "CAstLogOut_ctor l = l\<lparr>m_nSize := 10 * 1024 * 1024, log_bLock := False, m_fp := False, m_nMaxLevel := 7, m_nLevel := 0\<rparr>"

abbreviation nul :: char where "nul \<equiv> CHR 0x00"

definition array_text :: "string \<Rightarrow> string option" where
  "array_text a = (if nul \<in> set a then Some (takeWhile (\<lambda>c. c \<noteq> nul) a) else None)"

text \<open>\<open>sprintf\<close> of a text into an array.\<close>

definition sprintf_to :: "string \<Rightarrow> string \<Rightarrow> string option" where
  "sprintf_to s a = (if length s \<ge> length a then None else Some (s @ [nul] @ drop (Suc (length s)) a))"

text \<open>\<open>fopen(name, "at")\<close>, and output to the opened file.\<close>

definition fopen_at :: "log_fs \<Rightarrow> string \<Rightarrow> log_fs option" where
  "fopen_at w f =
     (if can_open w f then Some (w\<lparr>files := (files w)(f \<mapsto> (case files w f of None \<Rightarrow> [] | Some t \<Rightarrow> t))\<rparr>) else None)"

definition append_file :: "log_fs \<Rightarrow> string \<Rightarrow> string \<Rightarrow> log_fs" where
  "append_file w f t = w\<lparr>files := (files w)(f \<mapsto> (case files w f of None \<Rightarrow> [] | Some u \<Rightarrow> u) @ t)\<rparr>"

definition rename_file :: "log_fs \<Rightarrow> string \<Rightarrow> string \<Rightarrow> log_fs" where
  "rename_file w old new =
     (if can_rename w \<and> old \<noteq> new then w\<lparr>files := (files w)(new := files w old, old := None)\<rparr> else w)"

section \<open>Opening and levels\<close>

text \<open>\<open>CreateFile\<close>; \<open>cwd\<close> is the working directory.  \<open>strncpy\<close> copies no terminator.\<close>

definition CreateFile :: "string \<Rightarrow> log_fs \<Rightarrow> CAstLogOut \<Rightarrow> string \<Rightarrow> (int \<times> CAstLogOut \<times> log_fs) option" where
  "CreateFile cwd w l cFileName =
     (let f = cwd @ ''/'' @ cFileName
      in map_option (\<lambda>a.
           let l1 = l\<lparr>m_cFileName := a, m_cFileBase := cwd @ drop (length cwd) (m_cFileBase l)\<rparr>
           in case fopen_at w f of
                None \<Rightarrow> (1, l1\<lparr>m_fp := False\<rparr>, w)
              | Some w' \<Rightarrow> (0, l1\<lparr>m_fp := True\<rparr>, w'))
           (sprintf_to f (m_cFileName l)))"

definition SetLogLevel :: "CAstLogOut \<Rightarrow> int \<Rightarrow> CAstLogOut" where
  "SetLogLevel l nLevel = l\<lparr>m_nLevel := (if nLevel \<ge> 0 \<and> nLevel \<le> m_nMaxLevel l then nLevel else 0)\<rparr>"

text \<open>\<open>Lock\<close>, with no other thread to free the flag while it waits.\<close>

definition log_Lock :: "CAstLogOut \<Rightarrow> int \<times> CAstLogOut" where
  "log_Lock l = (if log_bLock l then (1, l) else (0, l\<lparr>log_bLock := True\<rparr>))"

definition log_UnLock :: "CAstLogOut \<Rightarrow> CAstLogOut" where
  "log_UnLock l = l\<lparr>log_bLock := False\<rparr>"

section \<open>Hiding credentials\<close>

definition strstr :: "string \<Rightarrow> string \<Rightarrow> nat option" where
  "strstr s k = find (\<lambda>i. prefix k (drop i s)) [0..<Suc (length s)]"

text \<open>
  \<open>while (*(p+1) != ':') { *p = 'U'; p++; }\<close> on the copy \<open>s\<close> of the line, which has a terminator: position
  \<open>length s\<close> can be read, positions behind it cannot.
\<close>

function hide_name :: "nat \<Rightarrow> string \<Rightarrow> (nat \<times> string) option" where
  "hide_name p s =
     (if p \<ge> length s then None
      else if p + 1 < length s \<and> s ! (p + 1) = CHR '':'' then Some (p, s)
      else hide_name (p + 1) (s[p := CHR ''U'']))"
  by pat_completeness auto
termination
  by (relation "measure (\<lambda>(p, s). length s - p)") auto

text \<open>\<open>while (*p != '"') { *p = 'X'; p++; }\<close>\<close>

function hide_value :: "nat \<Rightarrow> string \<Rightarrow> string option" where
  "hide_value p s =
     (if p \<ge> length s then None
      else if s ! p = CHR 0x22 then Some s
      else hide_value (p + 1) (s[p := CHR ''X'']))"
  by pat_completeness auto
termination
  by (relation "measure (\<lambda>(p, s). length s - p)") auto

declare hide_name.simps [simp del] hide_value.simps [simp del]

text \<open>One credential; a key that is not found is a null pointer.\<close>

definition hide :: "string \<Rightarrow> string \<Rightarrow> string option" where
  "hide k s =
     (case strstr s k of
        None \<Rightarrow> None
      | Some p \<Rightarrow> (case hide_name p s of None \<Rightarrow> None | Some (p', s') \<Rightarrow> hide_value (p' + 3) s'))"

definition hide_both :: "string \<Rightarrow> string option" where
  "hide_both s = (case hide ''username'' s of None \<Rightarrow> None | Some s1 \<Rightarrow> hide ''password'' s1)"

section \<open>Hiding makes progress\<close>

text \<open>What the loops write.\<close>

definition masked :: "string \<Rightarrow> string \<Rightarrow> bool" where
  "masked s s' \<longleftrightarrow> list_all2 (\<lambda>c d. d = c \<or> d = CHR ''U'' \<or> d = CHR ''X'') s s'"

lemma masked_refl [simp]: "masked s s"
  by (simp add: masked_def list_all2_conv_all_nth)

lemma masked_trans: "masked a b \<Longrightarrow> masked b c \<Longrightarrow> masked a c"
  by (auto simp: masked_def list_all2_conv_all_nth) metis

lemma masked_update: "d = CHR ''U'' \<or> d = CHR ''X'' \<Longrightarrow> masked s (s[p := d])"
  unfolding masked_def list_all2_conv_all_nth by (metis length_list_update nth_list_update_eq nth_list_update_neq)

lemma masked_count: "masked s s' \<Longrightarrow> count_list s' CHR ''u'' \<le> count_list s CHR ''u''"
  unfolding masked_def by (induction rule: list_all2_induct) auto

lemma hide_name_masked: "hide_name p s = Some (q, s') \<Longrightarrow> masked s s'"
proof (induction p s rule: hide_name.induct)
  case (1 p s)
  show ?case
    using 1(2) 1(1) masked_update [of "CHR ''U''" s p] masked_trans
    by (subst (asm) hide_name.simps) (auto split: if_splits)
qed

lemma hide_value_masked: "hide_value p s = Some s' \<Longrightarrow> masked s s'"
proof (induction p s rule: hide_value.induct)
  case (1 p s)
  show ?case
    using 1(2) 1(1) masked_update [of "CHR ''X''" s p] masked_trans
    by (subst (asm) hide_value.simps) (auto split: if_splits)
qed

lemma hide_masked: "hide k s = Some s' \<Longrightarrow> masked s s'"
  by (auto simp: hide_def split: option.splits prod.splits intro: masked_trans [OF hide_name_masked hide_value_masked])

lemma count_list_update: "p < length s \<Longrightarrow> s ! p = c \<Longrightarrow> d \<noteq> c \<Longrightarrow> Suc (count_list (s[p := d]) c) = count_list s c"
  by (induction s arbitrary: p) (auto split: nat.splits)

lemma strstr_Some: "strstr s k = Some i \<Longrightarrow> prefix k (drop i s) \<and> i \<le> length s"
  by (auto simp: strstr_def find_Some_iff simp del: upt_Suc)

lemma prefix_drop_nth:
  assumes "prefix k (drop i s)" "j < length k"
  shows "i + j < length s \<and> s ! (i + j) = k ! j"
proof -
  obtain r where r: "drop i s = k @ r" using assms(1) by (auto simp: prefix_def)
  then have "length k \<le> length s - i" by (metis length_append length_drop le_add1)
  then have "i + j < length s" using assms(2) by simp
  moreover have "drop i s ! j = k ! j" using r assms(2) by (simp add: nth_append)
  ultimately show ?thesis by simp
qed

lemma hide_username_count:
  assumes "hide ''username'' s = Some s'"
  shows "count_list s' CHR ''u'' < count_list s CHR ''u''"
proof -
  obtain p q s1 where p: "strstr s ''username'' = Some p" "hide_name p s = Some (q, s1)" "hide_value (q + 3) s1 = Some s'"
    using assms by (auto simp: hide_def split: option.splits)
  have pre: "p + j < length s \<and> s ! (p + j) = ''username'' ! j" if "j < 8" for j
    using prefix_drop_nth [of "''username''" p s j] strstr_Some [OF p(1)] that by simp
  have "p < length s" "s ! p = CHR ''u''" "p + 1 < length s" "s ! (p + 1) = CHR ''s''" using pre [of 0] pre [of 1] by simp_all
  then have "hide_name (p + 1) (s[p := CHR ''U'']) = Some (q, s1)"
    using p(2) by (subst (asm) hide_name.simps) simp
  then have "count_list s1 CHR ''u'' \<le> count_list (s[p := CHR ''U'']) CHR ''u''"
    using masked_count hide_name_masked by blast
  moreover have "count_list s' CHR ''u'' \<le> count_list s1 CHR ''u''"
    using masked_count hide_value_masked [OF p(3)] by blast
  ultimately show ?thesis
    using count_list_update [of p s "CHR ''u''" "CHR ''U''"] \<open>p < length s\<close> \<open>s ! p = CHR ''u''\<close> by simp
qed

lemma hide_both_count: "hide_both s = Some s' \<Longrightarrow> count_list s' CHR ''u'' < count_list s CHR ''u''"
  using hide_username_count masked_count hide_masked
  by (auto simp: hide_both_def split: option.splits) (meson le_less_trans)

section \<open>Writing\<close>

function mask_loop :: "string \<Rightarrow> string option" where
  "mask_loop s =
     (if strstr s ''username'' \<noteq> None \<and> strstr s ''password'' \<noteq> None
      then (case hide_both s of None \<Rightarrow> None | Some s' \<Rightarrow> mask_loop s')
      else Some s)"
  by pat_completeness auto
termination
  by (relation "measure (\<lambda>s. count_list s CHR ''u'')") (simp_all add: hide_both_count)

declare mask_loop.simps [simp del]

definition print_03d :: "int \<Rightarrow> string" where
  "print_03d i = replicate (3 - length (print_int i)) (CHR ''0'') @ print_int i"

abbreviation tab :: char where "tab \<equiv> CHR 0x09"

definition log_stamp :: "tm \<Rightarrow> int \<Rightarrow> int \<Rightarrow> string" where
  "log_stamp t usec nLevel =
     set_date t @ '' '' @ set_clock t @ ''.'' @ print_03d usec @ [tab] @ ''['' @ ASS_LOG_LEVEL ! nat nLevel @ '']'' @ [tab]"

text \<open>The name of a full file.  The hexadecimal log passes the month without its 1, and the hour plus 1.\<close>

definition log_newname :: "tm \<Rightarrow> int \<Rightarrow> int \<Rightarrow> int \<Rightarrow> string \<Rightarrow> string" where
  "log_newname t usec mon hour base =
     base @ ''_'' @ print_4d (1900 + tm_year t) @ print_02d mon @ print_02d (tm_mday t) @ print_02d hour
       @ print_02d (tm_min t) @ print_02d (tm_sec t) @ print_03d usec @ ''.log''"

definition log_open :: "log_fs \<Rightarrow> CAstLogOut \<Rightarrow> string \<Rightarrow> bool \<times> CAstLogOut \<times> log_fs" where
  "log_open w l f =
     (if m_fp l then (True, l, w)
      else case fopen_at w f of None \<Rightarrow> (False, l, w) | Some w' \<Rightarrow> (True, l\<lparr>m_fp := True\<rparr>, w'))"

definition log_rotate :: "(string \<Rightarrow> string) \<Rightarrow> log_fs \<Rightarrow> CAstLogOut \<Rightarrow> string \<Rightarrow> (CAstLogOut \<times> log_fs) option" where
  "log_rotate newname w l f =
     (if length (case files w f of None \<Rightarrow> [] | Some t \<Rightarrow> t) < m_nSize l then Some (l, w)
      else case array_text (m_cFileBase l) of
             None \<Rightarrow> None
           | Some base \<Rightarrow>
               if length (newname base) \<ge> 280 then None
               else let w1 = rename_file w f (newname base)
                    in case fopen_at w1 f of
                         None \<Rightarrow> Some (l\<lparr>m_fp := False\<rparr>, w1)
                       | Some w2 \<Rightarrow> Some (l, w2))"

definition WriteLog ::
    "tm \<Rightarrow> int \<Rightarrow> int \<Rightarrow> log_fs \<Rightarrow> CAstLogOut \<Rightarrow> string \<Rightarrow> int \<Rightarrow> (int \<times> CAstLogOut \<times> log_fs) option" where
  "WriteLog t usec noret w l cLog nLevel =
     (if nLevel < m_nLevel l then Some (0, l, w)
      else case array_text (m_cFileName l) of
             None \<Rightarrow> None
           | Some f \<Rightarrow>
               (case log_open w l f of (ok, l1, w1) \<Rightarrow>
                  let n = (if nLevel < 0 \<or> nLevel \<ge> 8 then 7 else nLevel);
                      (e, l2) = log_Lock l1
                  in if \<not> ok then Some (1, l1, w1)
                     else if e = 1 then Some (1, l2, w1)
                     else (case mask_loop cLog of
                             None \<Rightarrow> None
                           | Some s \<Rightarrow>
                               map_option (\<lambda>(l3, w3). (noret, log_UnLock l3, w3))
                                 (log_rotate (log_newname t usec (tm_mon t + 1) (tm_hour t))
                                   (append_file w1 f (log_stamp t usec n @ s @ [newline])) l2 f))))"

text \<open>\<open>%02X\<close>.\<close>

definition hex_nibble :: "nat \<Rightarrow> char" where
  "hex_nibble d = ''0123456789ABCDEF'' ! d"

definition print_02X :: "byte \<Rightarrow> string" where
  "print_02X b = [hex_nibble (unat b div 16), hex_nibble (unat b mod 16)]"

definition WriteHexLog ::
    "tm \<Rightarrow> int \<Rightarrow> int \<Rightarrow> log_fs \<Rightarrow> CAstLogOut \<Rightarrow> byte list \<Rightarrow> int \<Rightarrow> int \<Rightarrow> (int \<times> CAstLogOut \<times> log_fs) option" where
  "WriteHexLog t usec noret w l cLog nLen nLevel =
     (if nLevel < m_nLevel l then Some (0, l, w)
      else case array_text (m_cFileName l) of
             None \<Rightarrow> None
           | Some f \<Rightarrow>
               (case log_open w l f of (ok, l1, w1) \<Rightarrow>
                  let n = (if nLevel < 0 \<or> nLevel \<ge> 8 then 7 else nLevel);
                      (e, l2) = log_Lock l1
                  in if \<not> ok then Some (1, l1, w1)
                     else if e = 1 then Some (2, l2, w1)
                     else if nat nLen > length cLog then None
                     else map_option (\<lambda>(l3, w3). (noret, log_UnLock l3, w3))
                            (log_rotate (log_newname t usec (tm_mon t) (tm_hour t + 1))
                              (append_file w1 f (log_stamp t usec n @ concat (map print_02X (take (nat nLen) cLog)) @ [newline])) l2 f)))"

text \<open>The destructor; \<open>cTemp\<close> has 256 characters, and closing a file that is not open is undefined.\<close>

definition CAstLogOut_dtor :: "tm \<Rightarrow> int \<Rightarrow> log_fs \<Rightarrow> CAstLogOut \<Rightarrow> (CAstLogOut \<times> log_fs) option" where
  "CAstLogOut_dtor t usec w l =
     (if \<not> m_fp l then Some (l, w)
      else case array_text (m_cFileName l) of
             None \<Rightarrow> None
           | Some f \<Rightarrow>
               if length (f @ '' log exit.'') \<ge> 256 then None
               else (case WriteLog t usec 0 w l (f @ '' log exit.'') 0 of
                       None \<Rightarrow> None
                     | Some (_, l1, w1) \<Rightarrow> if m_fp l1 then Some (l1\<lparr>m_fp := False\<rparr>, w1) else None))"

section \<open>Searching\<close>

lemma strstr_iff: "strstr s k \<noteq> None \<longleftrightarrow> sublist k s"
proof
  assume "strstr s k \<noteq> None"
  then obtain i r where "drop i s = k @ r" using strstr_Some by (fastforce simp: prefix_def)
  then show "sublist k s" by (metis append_take_drop_id sublist_appendI)
next
  assume "sublist k s"
  then obtain a b where "s = a @ k @ b" by (auto simp: sublist_def)
  then have "prefix k (drop (length a) s)" "length a \<in> set [0..<Suc (length s)]" by auto
  then show "strstr s k \<noteq> None" unfolding strstr_def find_None_iff by blast
qed

text \<open>A key without repetition of its first letter is found where it stands first.\<close>

lemma strstr_here:
  assumes "\<not> sublist (x # ks) a" "x \<notin> set ks"
  shows "strstr (a @ (x # ks) @ r) (x # ks) = Some (length a)"
proof -
  let ?k = "x # ks" and ?s = "a @ (x # ks) @ r"
  have "\<not> prefix ?k (drop i ?s)" if "i < length a" for i
  proof
    assume p: "prefix ?k (drop i ?s)"
    show False
    proof (cases "length ?k \<le> length a - i")
      case True
      have "drop i a @ ?k @ r = drop i ?s" using that by simp
      then have "take (length ?k) (drop i a) = ?k"
        using p True by (metis append_eq_conv_conj length_drop prefix_def take_append diff_is_0_eq append_Nil2 take0)
      then have "a = take i a @ ?k @ drop (length ?k) (drop i a)" by (metis append_take_drop_id)
      then show False using assms(1) by (metis sublist_appendI)
    next
      case False
      define m where "m = length a - i"
      have m: "0 < m" "m < length ?k" using False that by (auto simp: m_def)
      then have "?s ! (i + m) = ?k ! m" using prefix_drop_nth [OF p m(2)] by simp
      moreover have "?s ! (i + m) = x" using that by (simp add: m_def nth_append)
      ultimately have "x = ks ! (m - 1)" "m - 1 < length ks" using m by (auto simp: nth_Cons')
      then show False using assms(2) by auto
    qed
  qed
  then show ?thesis
    unfolding strstr_def find_Some_iff by (intro exI [of _ "length a"]) (auto simp del: upt_Suc simp: nth_upt)
qed

lemma sublist_gap:
  assumes "\<not> sublist k a" "\<not> sublist k b" "set g \<inter> set k = {}" "g \<noteq> []" "k \<noteq> []"
  shows "\<not> sublist k (a @ g @ b)"
proof
  assume "sublist k (a @ g @ b)"
  then obtain u v where eq: "a @ g @ b = u @ k @ v" by (auto simp: sublist_def)
  consider "length u + length k \<le> length a" | "length a + length g \<le> length u"
    | (inside) "length a < length u + length k" "length u < length a + length g" by linarith
  then show False
  proof cases
    case 1
    then have "a = u @ k @ take (length a - length u - length k) v"
      using arg_cong [OF eq, of "take (length a)"] by simp
    then show False using assms(1) by (metis sublist_appendI)
  next
    case 2
    then have "b = drop (length a + length g) u @ k @ v"
      using arg_cong [OF eq, of "drop (length a + length g)"] by simp
    then show False using assms(2) by (metis sublist_appendI)
  next
    case inside
    define j where "j = max (length u) (length a)"
    have j: "length a \<le> j" "j < length a + length g" "length u \<le> j" "j < length u + length k"
      using inside assms(4,5) by (auto simp: j_def)
    then have "(a @ g @ b) ! j \<in> set g" "(u @ k @ v) ! j \<in> set k" by (auto simp: nth_append)
    then show False using eq assms(3) by auto
  qed
qed

section \<open>A hidden credential\<close>

abbreviation quote :: char where "quote \<equiv> CHR 0x22"

definition credential :: "string \<Rightarrow> string \<Rightarrow> string" where
  "credential k v = k @ [quote, CHR '':'', quote] @ v @ [quote]"

definition hidden :: "string \<Rightarrow> string \<Rightarrow> string" where
  "hidden k v = replicate (length k) CHR ''U'' @ [quote, CHR '':'', quote] @ replicate (length v) CHR ''X'' @ [quote]"

lemma hide_name_run:
  assumes "CHR '':'' \<notin> set k"
  shows "hide_name (length a) (a @ k @ quote # CHR '':'' # r)
    = Some (length a + length k, a @ replicate (length k) CHR ''U'' @ quote # CHR '':'' # r)"
  using assms
proof (induction k arbitrary: a)
  case Nil
  then show ?case by (subst hide_name.simps) (simp add: nth_append)
next
  case (Cons c k)
  have "(a @ (c # k) @ quote # CHR '':'' # r) ! (length a + 1) \<noteq> CHR '':''"
    using Cons(2) by (cases k) (auto simp: nth_append)
  then have "hide_name (length a) (a @ (c # k) @ quote # CHR '':'' # r)
      = hide_name (length (a @ [CHR ''U''])) ((a @ [CHR ''U'']) @ k @ quote # CHR '':'' # r)"
    by (subst hide_name.simps) simp
  then show ?case using Cons(1) [of "a @ [CHR ''U'']"] Cons(2) by (simp add: replicate_app_Cons_same)
qed

lemma hide_value_run:
  assumes "quote \<notin> set v"
  shows "hide_value (length a) (a @ v @ quote # r) = Some (a @ replicate (length v) CHR ''X'' @ quote # r)"
  using assms
proof (induction v arbitrary: a)
  case Nil
  then show ?case by (subst hide_value.simps) (simp add: nth_append)
next
  case (Cons c v)
  then have "hide_value (length a) (a @ (c # v) @ quote # r)
      = hide_value (length (a @ [CHR ''X''])) ((a @ [CHR ''X'']) @ v @ quote # r)"
    by (subst hide_value.simps) auto
  then show ?case using Cons(1) [of "a @ [CHR ''X'']"] Cons(2) by (simp add: replicate_app_Cons_same)
qed

lemma hide_credential:
  assumes "k = x # ks" "x \<notin> set ks" "CHR '':'' \<notin> set k" "quote \<notin> set v" "\<not> sublist k a"
  shows "hide k (a @ credential k v @ r) = Some (a @ hidden k v @ r)"
proof -
  have "strstr (a @ credential k v @ r) k = Some (length a)"
    using strstr_here [of x ks a] assms(1,2,5) by (simp add: credential_def)
  moreover have "hide_name (length a) (a @ credential k v @ r)
      = Some (length a + length k, a @ replicate (length k) CHR ''U'' @ [quote, CHR '':'', quote] @ v @ quote # r)"
    using hide_name_run [OF assms(3), of a "quote # v @ quote # r"] by (simp add: credential_def)
  moreover have "hide_value (length a + length k + 3) (a @ replicate (length k) CHR ''U'' @ [quote, CHR '':'', quote] @ v @ quote # r)
      = Some (a @ hidden k v @ r)"
    using hide_value_run [OF assms(4), of "a @ replicate (length k) CHR ''U'' @ [quote, CHR '':'', quote]" r]
    by (simp add: hidden_def eval_nat_numeral(2,3))
  ultimately show ?thesis by (simp add: hide_def)
qed

lemma hidden_gap: "set (hidden k v) \<subseteq> {CHR ''U'', CHR ''X'', CHR '':'', quote}" "hidden k v \<noteq> []"
  by (auto simp: hidden_def)

lemma not_sublist_hidden:
  assumes "\<not> sublist k a" "\<not> sublist k b" "set k \<inter> {CHR ''U'', CHR ''X'', CHR '':'', quote} = {}" "k \<noteq> []"
  shows "\<not> sublist k (a @ hidden n v @ b)"
  using assms hidden_gap [of n v] by (intro sublist_gap) auto

lemma mask_loop_sublist:
  "mask_loop s = (if sublist ''username'' s \<and> sublist ''password'' s
     then (case hide_both s of None \<Rightarrow> None | Some s' \<Rightarrow> mask_loop s') else Some s)"
  by (subst mask_loop.simps) (simp only: strstr_iff)

lemma mask_pair:
  assumes "quote \<notin> set u" "quote \<notin> set p" "\<not> sublist ''username'' a" "\<not> sublist ''username'' b" "\<not> sublist ''username'' c"
    "\<not> sublist ''password'' a" "\<not> sublist ''password'' b"
  shows "mask_loop (a @ credential ''username'' u @ b @ credential ''password'' p @ c)
    = Some (a @ hidden ''username'' u @ b @ hidden ''password'' p @ c)"
proof -
  let ?s = "a @ credential ''username'' u @ b @ credential ''password'' p @ c"
  let ?m = "a @ hidden ''username'' u @ b @ hidden ''password'' p @ c"
  have "?s = a @ ''username'' @ (drop 8 (credential ''username'' u) @ b @ credential ''password'' p @ c)"
    "?s = (a @ credential ''username'' u @ b) @ ''password'' @ (drop 8 (credential ''password'' p) @ c)"
    by (simp_all add: credential_def)
  then have k: "sublist ''username'' ?s" "sublist ''password'' ?s" by (metis sublist_appendI)+
  have "hide ''username'' ?s = Some (a @ hidden ''username'' u @ b @ credential ''password'' p @ c)"
    using assms(1,3) by (intro hide_credential [OF refl]) auto
  moreover have "\<not> sublist ''password'' (a @ hidden ''username'' u @ b)"
    using assms(6,7) by (intro not_sublist_hidden) auto
  then have "hide ''password'' ((a @ hidden ''username'' u @ b) @ credential ''password'' p @ c)
      = Some ((a @ hidden ''username'' u @ b) @ hidden ''password'' p @ c)"
    using assms(2) by (intro hide_credential [OF refl]) auto
  ultimately have "hide_both ?s = Some ?m" by (simp add: hide_both_def)
  moreover have "\<not> sublist ''username'' (b @ hidden ''password'' p @ c)"
    using assms(4,5) by (intro not_sublist_hidden) auto
  then have "\<not> sublist ''username'' ?m"
    using not_sublist_hidden [OF assms(3)] by simp
  ultimately show ?thesis
    using k by (subst mask_loop_sublist) (simp add: mask_loop_sublist [of ?m])
qed

lemma mask_lost_key:
  assumes "quote \<notin> set u" "\<not> sublist ''username'' a" "sublist ''password'' u" "\<not> sublist ''password'' a" "\<not> sublist ''password'' c"
  shows "mask_loop (a @ credential ''username'' u @ c) = None"
proof -
  let ?s = "a @ credential ''username'' u @ c"
  have "?s = a @ ''username'' @ (drop 8 (credential ''username'' u) @ c)" by (simp add: credential_def)
  then have "sublist ''username'' ?s" by (metis sublist_appendI)
  moreover have "?s = (a @ ''username'' @ [quote, CHR '':'', quote]) @ u @ (quote # c)" by (simp add: credential_def)
  then have "sublist u ?s" using sublist_appendI by metis
  then have "sublist ''password'' ?s" by (rule sublist_order.order_trans [OF assms(3)])
  moreover have "hide ''username'' ?s = Some (a @ hidden ''username'' u @ c)"
    using assms(1,2) by (intro hide_credential [OF refl]) auto
  moreover have "\<not> sublist ''password'' (a @ hidden ''username'' u @ c)"
    using assms(4,5) by (intro not_sublist_hidden) auto
  then have "hide ''password'' (a @ hidden ''username'' u @ c) = None"
    using strstr_iff by (fastforce simp: hide_def split: option.splits)
  ultimately show ?thesis
    by (subst mask_loop_sublist) (simp add: hide_both_def)
qed

lemma hide_both_masked: "hide_both s = Some s' \<Longrightarrow> masked s s'"
  by (auto simp: hide_both_def split: option.splits intro: masked_trans [OF hide_masked hide_masked])

lemma mask_loop_result:
  "mask_loop s = Some s' \<Longrightarrow> masked s s' \<and> \<not> (sublist ''username'' s' \<and> sublist ''password'' s')"
proof (induction s rule: mask_loop.induct)
  case (1 s)
  show ?case
    using 1(2) 1(1) [unfolded strstr_iff] masked_trans [OF hide_both_masked]
    by (subst (asm) mask_loop_sublist) (auto split: if_splits option.splits)
qed

section \<open>The file\<close>

definition file_text :: "log_fs \<Rightarrow> string \<Rightarrow> string" where
  "file_text w f = (case files w f of None \<Rightarrow> [] | Some t \<Rightarrow> t)"

lemma WriteLog_written:
  assumes "m_nLevel l \<le> nLevel" "array_text (m_cFileName l) = Some f" "m_fp l" "\<not> log_bLock l" "mask_loop s = Some s'"
  shows "WriteLog t usec noret w l s nLevel
    = map_option (\<lambda>(l', w'). (noret, log_UnLock l', w'))
        (log_rotate (log_newname t usec (tm_mon t + 1) (tm_hour t))
          (append_file w f (log_stamp t usec (if nLevel < 0 \<or> nLevel \<ge> 8 then 7 else nLevel) @ s' @ [newline]))
          (l\<lparr>log_bLock := True\<rparr>) f)"
  using assms by (simp add: WriteLog_def log_open_def log_Lock_def Let_def)

lemma file_text_append [simp]: "file_text (append_file w f t) f = file_text w f @ t"
  by (simp add: file_text_def append_file_def)

lemma rotate_small:
  assumes "log_rotate nn w l f = Some (l', w')" "can_open w f" "can_rename w" "m_fp l" "0 < m_nSize l"
    "\<forall>base. array_text (m_cFileBase l) = Some base \<longrightarrow> nn base \<noteq> f"
  shows "length (file_text w' f) < m_nSize l \<and> l' = l
    \<and> (file_text w' f = file_text w f
       \<or> file_text w' f = [] \<and> (\<exists>base. array_text (m_cFileBase l) = Some base \<and> file_text w' (nn base) = file_text w f))"
  using assms by (auto simp: log_rotate_def file_text_def Let_def fopen_at_def rename_file_def split: option.splits if_splits)

section \<open>A sample log\<close>

definition sample_tm :: tm where
  "sample_tm = \<lparr>tm_year = 124, tm_mon = 4, tm_mday = 9, tm_hour = 12, tm_min = 30, tm_sec = 0\<rparr>"

definition sample_log :: CAstLogOut where
  "sample_log = \<lparr>m_cFileName = ''/a'' @ [nul], m_cFileBase = ''/'' @ [nul], m_nLevel = 0, m_nMaxLevel = 7, m_fp = True,
     m_nSize = 1000, log_bLock = False\<rparr>"

definition sample_fs :: log_fs where
  "sample_fs = \<lparr>files = Map.empty, can_open = \<lambda>_. True, can_rename = True\<rparr>"

lemma sample_log_facts:
  "array_text (m_cFileName sample_log) = Some ''/a''" "array_text (m_cFileBase sample_log) = Some ''/''" "m_fp sample_log"
  "\<not> log_bLock sample_log" "m_nSize sample_log = 1000" "m_nLevel sample_log = 0" "file_text sample_fs f = []"
  by (simp_all add: array_text_def sample_log_def file_text_def sample_fs_def)

lemma length_sample_stamp: "length (log_stamp sample_tm 5 1) = 31"
  by (simp add: log_stamp_def sample_tm_def set_date_def set_clock_def print_4d_def print_02d_def print_03d_def print_int_def
      digits_of.simps ASS_LOG_LEVEL_def)

section \<open>Properties\<close>

text \<open>
  \<^bold>\<open>C24\<close> Credentials do not reach the log file: when a line has one user name and one password in the form
  of JSON members, \<open>WriteLog\<close> appends the line with both values, and both keys, overwritten, and the text
  around them unchanged.
\<close>

theorem WriteLog_hides:
  assumes "m_nLevel l \<le> nLevel" "array_text (m_cFileName l) = Some f" "m_fp l" "\<not> log_bLock l"
    "quote \<notin> set u" "quote \<notin> set p" "\<not> sublist ''username'' a" "\<not> sublist ''username'' b" "\<not> sublist ''username'' c"
    "\<not> sublist ''password'' a" "\<not> sublist ''password'' b"
    "x = log_stamp t usec (if nLevel < 0 \<or> nLevel \<ge> 8 then 7 else nLevel)
        @ (a @ hidden ''username'' u @ b @ hidden ''password'' p @ c) @ [newline]"
    "length (file_text w f @ x) < m_nSize l"
  shows "WriteLog t usec noret w l (a @ credential ''username'' u @ b @ credential ''password'' p @ c) nLevel
    = Some (noret, l, append_file w f x)"
proof -
  have "log_rotate nn (append_file w f x) (l\<lparr>log_bLock := True\<rparr>) f = Some (l\<lparr>log_bLock := True\<rparr>, append_file w f x)" for nn
    using assms(13) file_text_append [of w f x] by (simp add: log_rotate_def file_text_def)
  then show ?thesis
    using WriteLog_written [OF assms(1-4) mask_pair [OF assms(5-11)]] assms(4,12)
    by (simp add: log_UnLock_def)
qed


text \<open>
  A user name that contains the word password crashes the logger: its value is overwritten first, so
  the search for the password returns the null pointer, which is then dereferenced.
\<close>

theorem WriteLog_null_key:
  assumes "m_nLevel l \<le> nLevel" "array_text (m_cFileName l) = Some f" "m_fp l" "\<not> log_bLock l"
    "quote \<notin> set u" "\<not> sublist ''username'' a" "sublist ''password'' u" "\<not> sublist ''password'' a" "\<not> sublist ''password'' c"
  shows "WriteLog t usec noret w l (a @ credential ''username'' u @ c) nLevel = None"
  using assms(1-4) mask_lost_key [OF assms(5-9)] by (simp add: WriteLog_def log_open_def log_Lock_def Let_def)

theorem WriteLog_hides_witness:
  "WriteLog sample_tm 5 0 sample_fs sample_log (''{'' @ credential ''username'' ''bob'' @ '','' @ credential ''password'' ''x'' @ ''}'') 1
    = Some (0, sample_log, append_file sample_fs ''/a'' (log_stamp sample_tm 5 1
        @ (''{'' @ hidden ''username'' ''bob'' @ '','' @ hidden ''password'' ''x'' @ ''}'') @ [newline]))"
  by (rule WriteLog_hides [where f = "''/a''"])
    (simp_all add: sample_log_facts length_sample_stamp sublist_code hidden_def)


end
