(* ===== verification/FtpText.thy ===== *)
theory FtpText
  imports CText
begin

text \<open>
  The texts of the FTP client in \<open>src/public/ftp/ftpclient.cpp\<close>: command lines, reply codes, the address
  in the reply to \<open>PASV\<close> (\<open>SplitString\<close>, \<open>ParseString\<close> and the cut in \<open>createDataLink\<close>), the address given to
  \<open>login2Server\<close>, and the difference of two readings of the clock (\<open>CostDiff\<close>).

  Texts are \<^typ>\<open>string\<close>; \<open>npos\<close> and the arithmetic of \<open>size_t\<close> are written out.  \<open>atol\<close> and \<open>strtoll\<close> give
  the nearest value of the type when a number does not fit.
\<close>

unbundle bit_operations_syntax

section \<open>Commands\<close>

abbreviation FTP_COMMAND_BASE :: int where "FTP_COMMAND_BASE \<equiv> 1000"
abbreviation FTP_COMMAND_END :: int where "FTP_COMMAND_END \<equiv> 1030"
abbreviation FTP_COMMAND_USERNAME :: int where "FTP_COMMAND_USERNAME \<equiv> 1001"
abbreviation FTP_COMMAND_PASSWORD :: int where "FTP_COMMAND_PASSWORD \<equiv> 1002"
abbreviation FTP_COMMAND_QUIT :: int where "FTP_COMMAND_QUIT \<equiv> 1003"
abbreviation FTP_COMMAND_CURRENT_PATH :: int where "FTP_COMMAND_CURRENT_PATH \<equiv> 1004"
abbreviation FTP_COMMAND_TYPE_MODE :: int where "FTP_COMMAND_TYPE_MODE \<equiv> 1005"
abbreviation FTP_COMMAND_PSAV_MODE :: int where "FTP_COMMAND_PSAV_MODE \<equiv> 1006"
abbreviation FTP_COMMAND_DIR :: int where "FTP_COMMAND_DIR \<equiv> 1007"
abbreviation FTP_COMMAND_CHANGE_DIRECTORY :: int where "FTP_COMMAND_CHANGE_DIRECTORY \<equiv> 1008"
abbreviation FTP_COMMAND_DELETE_FILE :: int where "FTP_COMMAND_DELETE_FILE \<equiv> 1009"
abbreviation FTP_COMMAND_DELETE_DIRECTORY :: int where "FTP_COMMAND_DELETE_DIRECTORY \<equiv> 1010"
abbreviation FTP_COMMAND_CREATE_DIRECTORY :: int where "FTP_COMMAND_CREATE_DIRECTORY \<equiv> 1011"
abbreviation FTP_COMMAND_RENAME_BEGIN :: int where "FTP_COMMAND_RENAME_BEGIN \<equiv> 1012"
abbreviation FTP_COMMAND_RENAME_END :: int where "FTP_COMMAND_RENAME_END \<equiv> 1013"
abbreviation FTP_COMMAND_FILE_SIZE :: int where "FTP_COMMAND_FILE_SIZE \<equiv> 1014"
abbreviation FTP_COMMAND_DOWNLOAD_POS :: int where "FTP_COMMAND_DOWNLOAD_POS \<equiv> 1015"
abbreviation FTP_COMMAND_DOWNLOAD_FILE :: int where "FTP_COMMAND_DOWNLOAD_FILE \<equiv> 1016"
abbreviation FTP_COMMAND_UPLOAD_FILE :: int where "FTP_COMMAND_UPLOAD_FILE \<equiv> 1017"
abbreviation FTP_COMMAND_APPEND_FILE :: int where "FTP_COMMAND_APPEND_FILE \<equiv> 1018"

text \<open>The switch of \<open>parseCommand\<close>.\<close>

definition command_word :: "int \<Rightarrow> string" where
  "command_word c =
     (if c = FTP_COMMAND_USERNAME then ''USER ''
      else if c = FTP_COMMAND_PASSWORD then ''PASS ''
      else if c = FTP_COMMAND_QUIT then ''QUIT ''
      else if c = FTP_COMMAND_CURRENT_PATH then ''PWD ''
      else if c = FTP_COMMAND_TYPE_MODE then ''TYPE ''
      else if c = FTP_COMMAND_PSAV_MODE then ''PASV ''
      else if c = FTP_COMMAND_DIR then ''LIST ''
      else if c = FTP_COMMAND_CHANGE_DIRECTORY then ''CWD ''
      else if c = FTP_COMMAND_DELETE_FILE then ''DELE ''
      else if c = FTP_COMMAND_DELETE_DIRECTORY then ''RMD ''
      else if c = FTP_COMMAND_CREATE_DIRECTORY then ''MKD ''
      else if c = FTP_COMMAND_RENAME_BEGIN then ''RNFR ''
      else if c = FTP_COMMAND_RENAME_END then ''RNTO ''
      else if c = FTP_COMMAND_FILE_SIZE then ''SIZE ''
      else if c = FTP_COMMAND_DOWNLOAD_FILE then ''RETR ''
      else if c = FTP_COMMAND_DOWNLOAD_POS then ''REST ''
      else if c = FTP_COMMAND_UPLOAD_FILE then ''STOR ''
      else if c = FTP_COMMAND_APPEND_FILE then ''APPE ''
      else [])"

definition crlf :: string where "crlf = [CHR 0x0D, CHR 0x0A]"

definition command_line :: "int \<Rightarrow> string \<Rightarrow> string" where
  "command_line c strParam =
     (if length (command_word c) < 3 then [] else command_word c @ strParam @ crlf)"

section \<open>Numbers and replies\<close>

definition atol :: "string \<Rightarrow> int" where
  "atol s = max (- (2 ^ 63)) (min (2 ^ 63 - 1) (atoi s))"

definition parseResponse :: "string \<Rightarrow> int" where
  "parseResponse str = (if str = [] then - 100 else atoi (take 3 str))"

section \<open>The address of the data connection\<close>

definition npos :: int where "npos = 2 ^ 64 - 1"

definition find_first_of :: "string \<Rightarrow> string \<Rightarrow> int" where
  "find_first_of s cs =
     (let n = length (takeWhile (\<lambda>c. c \<notin> set cs) s) in if n < length s then int n else npos)"

text \<open>\<open>SplitString\<close>; a separator at the start ends the loop.\<close>

function SplitString :: "string \<Rightarrow> string \<Rightarrow> string list" where
  "SplitString strSrc strFlag =
     (let pos = length (takeWhile (\<lambda>c. c \<notin> set strFlag) strSrc)
      in if 0 < pos \<and> pos < length strSrc
         then take pos strSrc # SplitString (drop (pos + 1) strSrc) strFlag
         else [strSrc])"
  by pat_completeness auto
termination
  by (relation "measure (\<lambda>(s, f). length s)") auto

declare SplitString.simps [simp del]

text \<open>The part of the reply between the parentheses; \<open>substr\<close> with a start inside the text.\<close>

definition pasv_data :: "string \<Rightarrow> string" where
  "pasv_data parseStr =
     (let nBegin = find_first_of parseStr ''(''; nEnd = find_first_of parseStr '')''
      in take (nat ((nEnd - nBegin - 1) mod 2 ^ 64)) (drop (nat ((nBegin + 1) mod 2 ^ 64)) parseStr))"

definition ParseString :: "string list \<Rightarrow> (string \<times> int) option" where
  "ParseString strArray =
     (if length strArray < 6 then None
      else Some (strArray ! 0 @ ''.'' @ strArray ! 1 @ ''.'' @ strArray ! 2 @ ''.'' @ strArray ! 3,
        (atol (strArray ! (length strArray - 1)) + atol (strArray ! (length strArray - 2)) * 256) mod 2 ^ 64))"

section \<open>The address of the server\<close>

definition server_address :: "string \<Rightarrow> string \<times> int" where
  "server_address serverIP =
     (let n = length (takeWhile (\<lambda>c. c \<noteq> CHR '':'') serverIP)
      in if 0 < n \<and> n < length serverIP
         then (take n serverIP, atol (drop (n + 1) serverIP) mod 2 ^ 32)
         else (serverIP, atol ''21'' mod 2 ^ 32))"

section \<open>The clock\<close>

definition CostDiff :: "u32 \<Rightarrow> u32 \<Rightarrow> u32" where
  "CostDiff a b = (if a \<ge> b then a - b else a + (0xFFFFFFFF - b))"

text \<open>After the clock has wrapped around, the difference is one millisecond short.\<close>

lemma CostDiff_wrap: "CostDiff a b = (if b \<le> a then a - b else a - b - 1)"
proof -
  have "(0xFFFFFFFF :: u32) = - 1" by simp
  then show ?thesis by (simp add: CostDiff_def)
qed

section \<open>Reading a passive address\<close>

lemma SplitString_Cons:
  assumes "f \<noteq> []" "CHR '','' \<notin> set f"
  shows "SplitString (f @ CHR '','' # r) '','' = f # SplitString r '',''"
proof -
  have "takeWhile (\<lambda>c. c \<notin> set '','') (f @ CHR '','' # r) = f"
    using assms(2) by (auto simp: takeWhile_append)
  then show ?thesis using assms(1) by (subst SplitString.simps) (simp add: Let_def)
qed

lemma SplitString_last: "CHR '','' \<notin> set f \<Longrightarrow> SplitString f '','' = [f]"
proof -
  assume "CHR '','' \<notin> set f"
  then have "takeWhile (\<lambda>c. c \<noteq> CHR '','') f = f" by auto
  then have "length (takeWhile (\<lambda>c. c \<noteq> CHR '','') f) = length f" by (rule arg_cong)
  then show ?thesis by (subst SplitString.simps) (simp add: Let_def)
qed

fun join_commas :: "string list \<Rightarrow> string" where
  "join_commas [] = []"
| "join_commas [f] = f"
| "join_commas (f # g # fs) = f @ CHR '','' # join_commas (g # fs)"

lemma SplitString_join:
  "fs \<noteq> [] \<Longrightarrow> \<forall>f \<in> set fs. f \<noteq> [] \<and> CHR '','' \<notin> set f \<Longrightarrow> SplitString (join_commas fs) '','' = fs"
  by (induction fs rule: join_commas.induct) (simp_all add: SplitString_Cons SplitString_last)

lemma find_first_of_at:
  assumes "set a \<inter> set cs = {}" "c \<in> set cs"
  shows "find_first_of (a @ c # r) cs = int (length a)"
proof -
  have "takeWhile (\<lambda>c. c \<notin> set cs) (a @ c # r) = a" using assms by (auto simp: takeWhile_append)
  then show ?thesis by (simp add: find_first_of_def Let_def)
qed

lemma pasv_data_between:
  assumes "CHR ''('' \<notin> set pre" "CHR '')'' \<notin> set pre" "CHR ''('' \<notin> set d" "CHR '')'' \<notin> set d"
    "length pre + length d + 2 < 2 ^ 63"
  shows "pasv_data (pre @ CHR ''('' # d @ CHR '')'' # post) = d"
proof -
  have b: "find_first_of (pre @ CHR ''('' # d @ CHR '')'' # post) ''('' = int (length pre)"
    using assms(1) by (intro find_first_of_at) auto
  have e: "find_first_of ((pre @ CHR ''('' # d) @ CHR '')'' # post) '')'' = int (length (pre @ CHR ''('' # d))"
    using assms(2,4) by (intro find_first_of_at) auto
  have "(int (length d)) mod 2 ^ 64 = int (length d)" "(int (length pre) + 1) mod 2 ^ 64 = int (length pre) + 1"
    using assms(5) by simp_all
  then show ?thesis using b e by (simp add: pasv_data_def Let_def nat_add_distrib)
qed

lemma atol_digits: "n < 2 ^ 63 \<Longrightarrow> atol (digits_of n) = int n"
  using atoi_print [of "int n"] by (simp add: atol_def print_int_def)

lemma digits_no_comma: "digits_of n \<noteq> []" "c \<in> {CHR '','', CHR ''('', CHR '')''} \<Longrightarrow> c \<notin> set (digits_of n)"
  using digits_of_facts [of n] by (auto simp: list_all_iff is_digit_def)

lemma join_commas_set: "c \<in> set (join_commas fs) \<Longrightarrow> c = CHR '','' \<or> (\<exists>f \<in> set fs. c \<in> set f)"
  by (induction fs rule: join_commas.induct) auto

definition pasv_fields :: "nat list \<Rightarrow> string" where
  "pasv_fields ns = join_commas (map digits_of ns)"

lemma SplitString_fields: "ns \<noteq> [] \<Longrightarrow> SplitString (pasv_fields ns) '','' = map digits_of ns"
  by (simp add: pasv_fields_def SplitString_join digits_no_comma)

lemma pasv_fields_no_paren: "CHR ''('' \<notin> set (pasv_fields ns)" "CHR '')'' \<notin> set (pasv_fields ns)"
  by (auto simp: pasv_fields_def digits_no_comma dest!: join_commas_set)

definition dotted :: "nat list \<Rightarrow> string" where
  "dotted ns = digits_of (ns ! 0) @ ''.'' @ digits_of (ns ! 1) @ ''.'' @ digits_of (ns ! 2) @ ''.'' @ digits_of (ns ! 3)"

lemma pasv_address:
  assumes "CHR ''('' \<notin> set pre" "CHR '')'' \<notin> set pre" "length pre + length (pasv_fields [h1, h2, h3, h4, p1, p2]) + 2 < 2 ^ 63"
    "p1 < 256" "p2 < 256"
  shows "ParseString (SplitString (pasv_data (pre @ ''('' @ pasv_fields [h1, h2, h3, h4, p1, p2] @ '')'' @ post)) '','')
     = Some (dotted [h1, h2, h3, h4], 256 * int p1 + int p2)"
proof -
  have d: "pasv_data (pre @ ''('' @ pasv_fields [h1, h2, h3, h4, p1, p2] @ '')'' @ post) = pasv_fields [h1, h2, h3, h4, p1, p2]"
    using pasv_data_between [OF assms(1,2) pasv_fields_no_paren assms(3)] by simp
  have p: "atol (digits_of p1) = int p1" "atol (digits_of p2) = int p2" using assms(4,5) by (simp_all add: atol_digits)
  have "(int p2 + int p1 * 256) mod 2 ^ 64 = 256 * int p1 + int p2" using assms(4,5) by simp
  then show ?thesis unfolding d by (simp add: SplitString_fields ParseString_def dotted_def p eval_nat_numeral(2,3))
qed

text \<open>
  An address printed in the reply to \<open>PASV\<close> is read back: whatever text without parentheses is in front
  of it and whatever follows, \<open>createDataLink\<close> connects to the host \<open>h1.h2.h3.h4\<close> and the port
  \<open>256 * p1 + p2\<close>, which fits 16 bits.  An empty first field ends the splitting at once, and the reply is
  refused.
\<close>

theorem pasv_roundtrip:
  assumes "CHR ''('' \<notin> set pre" "CHR '')'' \<notin> set pre" "length pre + length (pasv_fields [h1, h2, h3, h4, p1, p2]) + 2 < 2 ^ 63"
    "p1 < 256" "p2 < 256"
  shows "ParseString (SplitString (pasv_data (pre @ ''('' @ pasv_fields [h1, h2, h3, h4, p1, p2] @ '')'' @ post)) '','')
       = Some (dotted [h1, h2, h3, h4], 256 * int p1 + int p2)
    \<and> 256 * int p1 + int p2 < 2 ^ 16
    \<and> ParseString (SplitString (CHR '','' # r) '','') = None"
proof -
  have "256 * int p1 + int p2 < 2 ^ 16" using assms(4,5) by simp
  moreover have "SplitString (CHR '','' # r) '','' = [CHR '','' # r]" by (subst SplitString.simps) simp
  ultimately show ?thesis using pasv_address [OF assms] by (simp add: ParseString_def)
qed

end
