(* ===== verification/ZSocket.thy ===== *)
theory ZSocket
  imports AstPrelude "HOL-Library.Signed_Division" "HOL-Library.Sublist"
begin

text \<open>
  The socket wrapper \<open>CSocket\<close> of \<open>src/public/zsocket.h\<close> (the branches for Linux).

  The kernel is the list of its replies: every system call takes the next one.  A loop that repeats a
  call is a recursion over this list, so a call that has not returned when the replies end, or a reply
  that does not fit the call, is \<^term>\<open>None\<close>; so is a write behind the end of a buffer.  The record of a
  socket has the descriptor \<open>m_fd\<close>, the flag \<open>O_NONBLOCK\<close> of the descriptor and the descriptors the
  process has open.  Addresses are not modelled: what \<open>bind\<close> and \<open>connect\<close> are told only affects their
  replies.
\<close>

section \<open>The kernel\<close>

datatype errno = E0 | EINTR | EWOULDBLOCK | EINPROGRESS | ECONNABORTED | ETIME | EOTHER

text \<open>A count or descriptor, received bytes, a failure, the value of \<open>SO_ERROR\<close>, the local address.\<close>

datatype reply = Count int | Data "byte list" | Fail errno | SoError errno | Name string

record CSocket =
  m_fd :: int
  fd_nonblock :: bool
  open_fds :: "int list"

definition CSocket_ctor :: "CSocket \<Rightarrow> int \<Rightarrow> CSocket" where
  "CSocket_ctor s fd = s\<lparr>m_fd := fd\<rparr>"

section \<open>Descriptors\<close>

definition close :: "CSocket \<Rightarrow> reply list \<Rightarrow> (int \<times> CSocket \<times> reply list) option" where
  "close s rs =
     (if m_fd s = - 1 then Some (0, s, rs)
      else let s' = s\<lparr>m_fd := - 1, open_fds := remove1 (m_fd s) (open_fds s)\<rparr>
           in case rs of
                Count n # r \<Rightarrow> Some (n, s', r)
              | Fail e # r \<Rightarrow> Some (- 1, s', r)
              | _ \<Rightarrow> None)"

text \<open>\<open>build_stream\<close> and \<open>build_dgram\<close>; the descriptor held before is overwritten.\<close>

definition build_socket :: "CSocket \<Rightarrow> reply list \<Rightarrow> (int \<times> CSocket \<times> reply list) option" where
  "build_socket s rs =
     (case rs of
        Count fd # r \<Rightarrow> Some (fd, s\<lparr>m_fd := fd, fd_nonblock := False, open_fds := fd # open_fds s\<rparr>, r)
      | Fail e # r \<Rightarrow> Some (- 1, s\<lparr>m_fd := - 1\<rparr>, r)
      | _ \<Rightarrow> None)"

text \<open>\<open>attach\<close>; \<open>nb\<close> is the flag of the new descriptor.\<close>

definition attach :: "CSocket \<Rightarrow> int \<Rightarrow> bool \<Rightarrow> int \<times> CSocket" where
  "attach s fd nb = (m_fd s, s\<lparr>m_fd := fd, fd_nonblock := nb\<rparr>)"

definition detach :: "CSocket \<Rightarrow> int \<times> CSocket" where
  "detach s = (m_fd s, s\<lparr>m_fd := - 1\<rparr>)"

text \<open>A call that only returns its code: \<open>listen\<close>, \<open>bind\<close>, \<open>setsockopt\<close>.\<close>

definition plain_call :: "reply list \<Rightarrow> (int \<times> errno \<times> reply list) option" where
  "plain_call rs =
     (case rs of Count n # r \<Rightarrow> Some (n, E0, r) | Fail e # r \<Rightarrow> Some (- 1, e, r) | _ \<Rightarrow> None)"

text \<open>
  \<open>setblocking(b)\<close>: \<open>opts\<close> is read with \<open>fcntl\<close>; the argument is compared, as an integer, with the truth
  value of being blocking, and a non-zero argument flips the flag.
\<close>

definition setblocking :: "int \<Rightarrow> CSocket \<Rightarrow> reply list \<Rightarrow> (int \<times> CSocket \<times> reply list) option" where
  "setblocking b s rs =
     (case rs of
        Fail e # r \<Rightarrow> Some (- 1, s, r)
      | Count n # r \<Rightarrow>
          if b = (if fd_nonblock s then 0 else 1) then Some (0, s, r)
          else (case r of
                  Fail e # r' \<Rightarrow> Some (- 1, s, r')
                | Count m # r' \<Rightarrow> Some (0, s\<lparr>fd_nonblock := (if b \<noteq> 0 then \<not> fd_nonblock s else True)\<rparr>, r')
                | _ \<Rightarrow> None)
      | _ \<Rightarrow> None)"

section \<open>Time\<close>

text \<open>\<open>mk_final_time\<close>; the clock is not read, \<open>ts\<close> is what the caller passed.\<close>

definition mk_final_time :: "int \<Rightarrow> int \<times> int \<Rightarrow> int \<times> int" where
  "mk_final_time timeout_ms ts =
     (let tv_sec = timeout_ms sdiv 1000;
          tv_usec = timeout_ms smod 1000 * 1000;
          s = fst ts + tv_sec;
          us = snd ts + tv_usec * 1000
      in if us sdiv 1000000000 \<noteq> 0 then (s + us sdiv 1000000000, us smod 1000000000) else (s, us))"

text \<open>\<open>while(ret->tv_usec<0) { --ret->tv_sec; ret->tv_usec+=1000000; }\<close>\<close>

function borrow :: "int \<Rightarrow> int \<Rightarrow> int \<times> int" where
  "borrow s us = (if us < 0 then borrow (s - 1) (us + 1000000) else (s, us))"
  by pat_completeness auto
termination
  by (relation "measure (\<lambda>(s, us). nat (- us))") auto

declare borrow.simps [simp del]

text \<open>\<open>time_left\<close>; \<open>now\<close> is zero, and the microseconds are computed from the seconds.\<close>

definition time_left :: "int \<times> int \<Rightarrow> int \<times> int" where
  "time_left final_time =
     (let (s, us) = borrow (fst final_time - 0) ((fst final_time - 0) sdiv 1000)
      in if s < 0 then (0, 0) else (s, us))"

text \<open>\<open>select_wait_to\<close>: the code and \<open>errno\<close>.\<close>

fun select_wait_to :: "reply list \<Rightarrow> (int \<times> errno \<times> reply list) option" where
  "select_wait_to (Fail e # rs) = (if e = EINTR then select_wait_to rs else Some (- 1, e, rs))"
| "select_wait_to (Count n # rs) =
     (if n > 0
      then (case rs of
              SoError e # r \<Rightarrow> Some (if e = E0 then 0 else - 1, e, r)
            | Fail e # r \<Rightarrow> Some (0, E0, r)
            | _ \<Rightarrow> None)
      else if n = 0 then Some (- 1, ETIME, rs) else Some (- 1, E0, rs))"
| "select_wait_to _ = None"

definition select_wait :: "reply list \<Rightarrow> (int \<times> errno \<times> reply list) option" where
  "select_wait rs = select_wait_to rs"

text \<open>\<open>connect(ip, port, timeout_ms)\<close>.\<close>

definition connect_timeout :: "reply list \<Rightarrow> (int \<times> reply list) option" where
  "connect_timeout rs =
     (case plain_call rs of
        None \<Rightarrow> None
      | Some (ret, e, r) \<Rightarrow>
          if ret = - 1 \<and> e = EINPROGRESS then map_option (\<lambda>(x, _, r'). (x, r')) (select_wait r)
          else Some (ret, r))"

lemma select_wait_shorter: "select_wait_to rs = Some (x, e, r) \<Longrightarrow> length r < length rs"
proof (induction rs rule: select_wait_to.induct)
  case (1 e' rs)
  then show ?case by (cases "e' = EINTR") auto
next
  case (2 n rs)
  then show ?case by (auto split: if_splits list.splits reply.splits)
qed simp_all

section \<open>Sending and receiving\<close>

text \<open>
  \<open>sendv_impl\<close>: \<open>tmo\<close> says that \<open>final_time\<close> is not null, \<open>b\<close> are the bytes left, \<open>sent\<close> those already
  given to the kernel.  \<open>ERR_RET\<close> calls \<open>setblocking\<close> once more.
\<close>

definition err_ret :: "bool \<Rightarrow> 'a \<Rightarrow> CSocket \<Rightarrow> reply list \<Rightarrow> (int \<times> 'a \<times> CSocket \<times> reply list) option" where
  "err_ret tmo x s rs =
     map_option (\<lambda>(_, s', r). (- 1, x, s', r)) (setblocking (if tmo then 0 else - 1) s rs)"

function sendv_loop ::
    "bool \<Rightarrow> byte list \<Rightarrow> byte list \<Rightarrow> CSocket \<Rightarrow> reply list \<Rightarrow> (int \<times> byte list \<times> CSocket \<times> reply list) option" where
  "sendv_loop tmo b sent s rs =
     (if b = [] then Some (int (length sent), sent, s, rs)
      else case rs of
        Count n # r \<Rightarrow>
          if n < 0 \<or> nat n > length b then None
          else sendv_loop tmo (drop (nat n) b) (sent @ take (nat n) b) s r
      | Fail e # r \<Rightarrow>
          if e = EINTR then sendv_loop tmo b sent s r
          else if \<not> tmo then err_ret tmo sent s r
          else if e = EWOULDBLOCK
          then (case select_wait_to r of
                  None \<Rightarrow> None
                | Some (x, _, r') \<Rightarrow> if x \<noteq> 0 then err_ret tmo sent s r' else sendv_loop tmo b sent s r')
          else Some (- 1, sent, s, r)
      | _ \<Rightarrow> None)"
  by pat_completeness auto
termination
  by (relation "measure (\<lambda>(tmo, b, sent, s, rs). length rs)") (auto dest: select_wait_shorter)

declare sendv_loop.simps [simp del]

definition sendv_impl ::
    "bool \<Rightarrow> byte list \<Rightarrow> CSocket \<Rightarrow> reply list \<Rightarrow> (int \<times> byte list \<times> CSocket \<times> reply list) option" where
  "sendv_impl tmo b s rs =
     (case setblocking (if tmo then 1 else - 1) s rs of
        None \<Rightarrow> None
      | Some (_, s1, r) \<Rightarrow> sendv_loop tmo b [] s1 r)"

definition sendv ::
    "byte list \<Rightarrow> int \<Rightarrow> CSocket \<Rightarrow> reply list \<Rightarrow> (int \<times> byte list \<times> CSocket \<times> reply list) option" where
  "sendv b timeout_ms s rs = sendv_impl (timeout_ms \<noteq> 0) b s rs"

text \<open>\<open>recvv_impl\<close>: \<open>len\<close> bytes are still wanted, \<open>got\<close> are in the buffer of \<open>cap\<close> bytes.\<close>

function recvv_loop ::
    "bool \<Rightarrow> nat \<Rightarrow> nat \<Rightarrow> byte list \<Rightarrow> CSocket \<Rightarrow> reply list \<Rightarrow> (int \<times> byte list \<times> CSocket \<times> reply list) option" where
  "recvv_loop tmo len cap got s rs =
     (if len = 0 then Some (int (length got), got, s, rs)
      else case rs of
        Data bs # r \<Rightarrow>
          if bs = [] then Some (0, got, s, r)
          else if length bs > len \<or> length got + length bs > cap then None
          else recvv_loop tmo (len - length bs) cap (got @ bs) s r
      | Fail e # r \<Rightarrow>
          if e = EINTR then recvv_loop tmo len cap got s r
          else if \<not> tmo then err_ret tmo got s r
          else if e = EWOULDBLOCK
          then (case select_wait_to r of
                  None \<Rightarrow> None
                | Some (x, _, r') \<Rightarrow> if x \<noteq> 0 then err_ret tmo got s r' else recvv_loop tmo len cap got s r')
          else Some (- 1, got, s, r)
      | _ \<Rightarrow> None)"
  by pat_completeness auto
termination
  by (relation "measure (\<lambda>(tmo, len, cap, got, s, rs). length rs)") (auto dest: select_wait_shorter)

declare recvv_loop.simps [simp del]

definition recvv_impl ::
    "bool \<Rightarrow> nat \<Rightarrow> nat \<Rightarrow> CSocket \<Rightarrow> reply list \<Rightarrow> (int \<times> byte list \<times> CSocket \<times> reply list) option" where
  "recvv_impl tmo len cap s rs =
     (case setblocking (if tmo then 1 else - 1) s rs of
        None \<Rightarrow> None
      | Some (_, s1, r) \<Rightarrow> recvv_loop tmo len cap [] s1 r)"

definition recvv ::
    "nat \<Rightarrow> nat \<Rightarrow> int \<Rightarrow> CSocket \<Rightarrow> reply list \<Rightarrow> (int \<times> byte list \<times> CSocket \<times> reply list) option" where
  "recvv len cap timeout_ms s rs = recvv_impl (timeout_ms \<noteq> 0) len cap s rs"

text \<open>\<open>recv_some\<close>: one piece, between \<open>setblocking(false)\<close> and \<open>setblocking(true)\<close>.\<close>

fun recv_one :: "nat \<Rightarrow> nat \<Rightarrow> reply list \<Rightarrow> (int \<times> byte list \<times> reply list) option" where
  "recv_one len cap (Data bs # rs) =
     (if bs = [] then Some (- 1, [], rs)
      else if length bs > len \<or> length bs > cap then None else Some (int (length bs), bs, rs))"
| "recv_one len cap (Fail e # rs) = (if e = EINTR then recv_one len cap rs else Some (- 1, [], rs))"
| "recv_one len cap _ = None"

definition recv_some ::
    "nat \<Rightarrow> nat \<Rightarrow> CSocket \<Rightarrow> reply list \<Rightarrow> (int \<times> byte list \<times> CSocket \<times> reply list) option" where
  "recv_some len cap s rs =
     (case setblocking 0 s rs of
        None \<Rightarrow> None
      | Some (_, s1, r1) \<Rightarrow>
          (case select_wait r1 of
             None \<Rightarrow> None
           | Some (w, e, r2) \<Rightarrow>
               (case (if w < 0 then Some (if e = ETIME then 0 else - 1, [], r2) else recv_one len cap r2) of
                  None \<Rightarrow> None
                | Some (ret, bs, r3) \<Rightarrow> map_option (\<lambda>(_, s2, r4). (ret, bs, s2, r4)) (setblocking 1 s1 r3))))"

section \<open>Accepting\<close>

fun accept_sock :: "reply list \<Rightarrow> (int \<times> reply list) option" where
  "accept_sock (Count n # rs) = Some (n, rs)"
| "accept_sock (Fail e # rs) = (if e \<in> {EINTR, EWOULDBLOCK, ECONNABORTED} then accept_sock rs else Some (- 1, rs))"
| "accept_sock _ = None"

function accept_loop :: "bool \<Rightarrow> reply list \<Rightarrow> (int \<times> reply list) option" where
  "accept_loop tmo rs =
     (case rs of
        Count n # r \<Rightarrow> Some (n, r)
      | Fail e # r \<Rightarrow>
          if e = EINTR \<or> e = ECONNABORTED \<or> e = EWOULDBLOCK \<and> \<not> tmo then accept_loop tmo r
          else if e = EWOULDBLOCK
          then (case select_wait_to r of
                  None \<Rightarrow> None
                | Some (x, _, r') \<Rightarrow> if x \<noteq> 0 then Some (- 1, r') else accept_loop tmo r')
          else Some (- 1, r)
      | _ \<Rightarrow> None)"
  by pat_completeness auto
termination
  by (relation "measure (\<lambda>(tmo, rs). length rs)") (auto dest: select_wait_shorter)

declare accept_loop.simps [simp del]

text \<open>\<open>accept_impl\<close> with the guard \<open>blocking_auto\<close>, which does nothing without a timeout; \<open>acceptv\<close>.\<close>

definition accept_impl :: "bool \<Rightarrow> CSocket \<Rightarrow> reply list \<Rightarrow> (int \<times> CSocket \<times> reply list) option" where
  "accept_impl tmo s rs =
     (if \<not> tmo then map_option (\<lambda>(fd, r). (fd, s, r)) (accept_loop tmo rs)
      else case setblocking 0 s rs of
             None \<Rightarrow> None
           | Some (_, s1, r1) \<Rightarrow>
               (case accept_loop tmo r1 of
                  None \<Rightarrow> None
                | Some (fd, r2) \<Rightarrow> map_option (\<lambda>(_, s2, r3). (fd, s2, r3)) (setblocking 1 s1 r2)))"

definition acceptv :: "int \<Rightarrow> CSocket \<Rightarrow> reply list \<Rightarrow> (int \<times> CSocket \<times> reply list) option" where
  "acceptv timeout_ms s rs = accept_impl (timeout_ms \<noteq> 0) s rs"

section \<open>What a transfer leaves\<close>

text \<open>The bytes in a list of replies.\<close>

fun payload :: "reply list \<Rightarrow> byte list" where
  "payload [] = []"
| "payload (Data bs # rs) = bs @ payload rs"
| "payload (_ # rs) = payload rs"

lemma payload_append [simp]: "payload (xs @ ys) = payload xs @ payload ys"
  by (induction xs rule: payload.induct) simp_all

lemma setblocking_consumes:
  assumes "setblocking b s rs = Some (x, s', r)"
  shows "\<exists>used. rs = used @ r \<and> payload used = [] \<and> m_fd s' = m_fd s \<and> open_fds s' = open_fds s"
proof -
  consider (one) y where "rs = y # r" "payload [y] = []" "m_fd s' = m_fd s \<and> open_fds s' = open_fds s"
    | (two) y z where "rs = y # z # r" "payload [y, z] = []" "m_fd s' = m_fd s \<and> open_fds s' = open_fds s"
    using assms by (auto simp: setblocking_def split: list.splits reply.splits if_splits)
  then show ?thesis
  proof cases
    case (one y)
    then show ?thesis by (intro exI [of _ "[y]"]) simp
  next
    case (two y z)
    then show ?thesis by (intro exI [of _ "[y, z]"]) simp
  qed
qed

lemma select_wait_consumes:
  "select_wait_to rs = Some (x, e, r) \<Longrightarrow> \<exists>used. rs = used @ r \<and> payload used = []"
proof (induction rs rule: select_wait_to.induct)
  case (1 e' rs)
  show ?case
  proof (cases "e' = EINTR")
    case True
    then obtain used where "rs = used @ r" "payload used = []" using 1 by auto
    then show ?thesis by (intro exI [of _ "Fail e' # used"]) simp
  next
    case False
    then show ?thesis using 1 by (intro exI [of _ "[Fail e']"]) simp
  qed
next
  case (2 n rs)
  show ?case
  proof (cases "n > 0")
    case True
    then obtain y where "rs = y # r" "payload [y] = []" using 2 by (auto split: list.splits reply.splits)
    then show ?thesis by (intro exI [of _ "[Count n, y]"]) simp
  next
    case False
    then show ?thesis using 2 by (intro exI [of _ "[Count n]"]) (auto split: if_splits)
  qed
qed simp_all

lemma err_ret_consumes:
  "err_ret tmo x s rs = Some (n, y, s', r) \<Longrightarrow> n = - 1 \<and> y = x \<and> (\<exists>used. rs = used @ r \<and> payload used = [])"
  by (auto simp: err_ret_def dest: setblocking_consumes)

definition recv_ok :: "nat \<Rightarrow> nat \<Rightarrow> byte list \<Rightarrow> reply list \<Rightarrow> int \<times> byte list \<times> CSocket \<times> reply list \<Rightarrow> bool" where
  "recv_ok len cap got rs res \<longleftrightarrow>
     (case res of (n, out, s', r) \<Rightarrow>
        (\<exists>used. rs = used @ r \<and> out = got @ payload used) \<and> length out \<le> max (length got) cap
          \<and> length out \<le> length got + len \<and> (n = int (length got + len) \<and> length out = length got + len \<or> n = 0 \<or> n = - 1))"

lemma recv_ok_step:
  assumes "recv_ok len' cap (got @ payload used) r res" "length (payload used) + len' = len"
    "length (got @ payload used) \<le> max (length got) cap"
  shows "recv_ok len cap got (used @ r) res"
proof -
  obtain n out s' r' where res: "res = (n, out, s', r')" by (cases res)
  from assms(1) obtain u where "r = u @ r'" "out = (got @ payload used) @ payload u" by (auto simp: recv_ok_def res)
  then have "used @ r = (used @ u) @ r' \<and> out = got @ payload (used @ u)" by simp
  then show ?thesis using assms by (auto simp: recv_ok_def res)
qed

text \<open>After a failure the loop ends with \<open>-1\<close> or, the socket being ready again, goes on.\<close>

lemma recvv_fail:
  assumes "recvv_loop tmo len cap got s (Fail e # r) = Some res" "len \<noteq> 0"
  obtains (again) u r' where "r = u @ r'" "payload u = []" "recvv_loop tmo len cap got s r' = Some res"
  | (stop) s' r' u where "res = (- 1, got, s', r')" "r = u @ r'" "payload u = []"
proof -
  note eq = assms(1) [unfolded recvv_loop.simps [of tmo len cap got s "Fail e # r"]]
  consider "e = EINTR" | "e \<noteq> EINTR" "\<not> tmo" | "e = EWOULDBLOCK" "tmo" | "e \<noteq> EINTR" "e \<noteq> EWOULDBLOCK" "tmo" by blast
  then show thesis
  proof cases
    case 1
    then show thesis using again [of "[]" r] eq assms(2) by simp
  next
    case 2
    then show thesis using stop eq assms(2) by (cases res) (auto dest!: err_ret_consumes)
  next
    case 3
    then obtain y f r1 where w: "select_wait_to r = Some (y, f, r1)" using eq assms(2) by (auto split: option.splits)
    then obtain u where u: "r = u @ r1" "payload u = []" using select_wait_consumes by blast
    show thesis
    proof (cases "y = 0")
      case True
      then show thesis using again [OF u] eq assms(2) 3 w by simp
    next
      case False
      then have "err_ret tmo got s r1 = Some res" using eq assms(2) 3 w by simp
      then obtain s' r' v where "res = (- 1, got, s', r')" "r1 = v @ r'" "payload v = []"
        by (cases res) (auto dest!: err_ret_consumes)
      then show thesis using stop [of s' r' "u @ v"] u by simp
    qed
  next
    case 4
    then show thesis using stop [of s r "[]"] eq assms(2) by simp
  qed
qed

lemma recvv_loop_ok: "recvv_loop tmo len cap got s rs = Some res \<Longrightarrow> recv_ok len cap got rs res"
proof (induction "length rs" arbitrary: len got rs rule: less_induct)
  case less
  show ?case
  proof (cases "len = 0")
    case True
    then show ?thesis using less(2) by (subst (asm) recvv_loop.simps) (auto simp: recv_ok_def)
  next
    case len: False
    note eq = less(2) [unfolded recvv_loop.simps [of tmo len cap got s rs]]
    consider (data) bs r where "rs = Data bs # r" | (fail) e r where "rs = Fail e # r"
      using eq len by (auto split: list.splits reply.splits)
    then show ?thesis
    proof cases
      case (data bs r)
      show ?thesis
      proof (cases "bs = []")
        case True
        then show ?thesis using eq len data by (auto simp: recv_ok_def intro: exI [of _ "[Data []]"])
      next
        case False
        then have "\<not> (length bs > len \<or> length got + length bs > cap)" using eq len data by (auto split: if_splits)
        then show ?thesis
          using less(1) [of r "len - length bs" "got @ bs"] eq len data False
            recv_ok_step [of "len - length bs" cap got "[Data bs]" r res len] by auto
      qed
    next
      case (fail e r)
      from less(2) [unfolded fail] len show ?thesis
      proof (cases rule: recvv_fail)
        case (again u r')
        then show ?thesis
          using less(1) [of r' len got] recv_ok_step [of len cap got "Fail e # u" r' res len] fail by simp
      next
        case (stop s' r' u)
        then show ?thesis using fail by (auto simp: recv_ok_def intro!: exI [of _ "Fail e # u"])
      qed
    qed
  qed
qed

lemma sendv_fail:
  assumes "sendv_loop tmo b sent s (Fail e # r) = Some res" "b \<noteq> []"
  obtains (again) r' where "length r' \<le> length r" "sendv_loop tmo b sent s r' = Some res"
  | (stop) s' r' where "res = (- 1, sent, s', r')"
proof -
  note eq = assms(1) [unfolded sendv_loop.simps [of tmo b sent s "Fail e # r"]]
  have er: "err_ret tmo sent s r1 = Some res \<Longrightarrow> thesis" for r1
    using stop by (cases res) (auto dest!: err_ret_consumes)
  show thesis
  proof (cases "e \<noteq> EINTR \<and> tmo \<and> e = EWOULDBLOCK")
    case True
    then obtain y f r1 where w: "select_wait_to r = Some (y, f, r1)" using eq assms(2) by (auto split: option.splits)
    then show thesis
      using again [of r1] er [of r1] eq assms(2) True select_wait_shorter [OF w] by (auto split: if_splits)
  next
    case False
    then show thesis using again [of r] er [of r] stop eq assms(2) by (auto split: if_splits)
  qed
qed

definition send_ok :: "byte list \<Rightarrow> byte list \<Rightarrow> int \<times> byte list \<times> CSocket \<times> reply list \<Rightarrow> bool" where
  "send_ok b sent res \<longleftrightarrow>
     (case res of (n, out, s', r) \<Rightarrow> prefix out (sent @ b) \<and> (n = int (length (sent @ b)) \<and> out = sent @ b \<or> n = - 1))"

lemma sendv_loop_ok: "sendv_loop tmo b sent s rs = Some res \<Longrightarrow> send_ok b sent res"
proof (induction "length rs" arbitrary: b sent rs rule: less_induct)
  case less
  show ?case
  proof (cases "b = []")
    case True
    then show ?thesis using less(2) by (subst (asm) sendv_loop.simps) (auto simp: send_ok_def)
  next
    case b: False
    note eq = less(2) [unfolded sendv_loop.simps [of tmo b sent s rs]]
    consider (sent) n r where "rs = Count n # r" | (fail) e r where "rs = Fail e # r"
      using eq b by (auto split: list.splits reply.splits)
    then show ?thesis
    proof cases
      case (sent n r)
      then have "send_ok (drop (nat n) b) (sent @ take (nat n) b) res"
        using less(1) [of r "drop (nat n) b" "sent @ take (nat n) b"] eq b by (auto split: if_splits)
      then show ?thesis by (simp add: send_ok_def)
    next
      case (fail e r)
      from less(2) [unfolded fail] b show ?thesis
      proof (cases rule: sendv_fail)
        case (again r')
        then show ?thesis using less(1) [of r' b sent] fail by simp
      next
        case (stop s' r')
        then show ?thesis by (simp add: send_ok_def)
      qed
    qed
  qed
qed

section \<open>Delivery\<close>

text \<open>Replies that deliver or take exactly some bytes, in any pieces and with interrupted calls between them.\<close>

fun delivers :: "reply list \<Rightarrow> byte list \<Rightarrow> bool" where
  "delivers [] bs \<longleftrightarrow> bs = []"
| "delivers (Data c # rs) bs \<longleftrightarrow> c \<noteq> [] \<and> prefix c bs \<and> delivers rs (drop (length c) bs)"
| "delivers (Fail e # rs) bs \<longleftrightarrow> e = EINTR \<and> bs \<noteq> [] \<and> delivers rs bs"
| "delivers (_ # rs) bs \<longleftrightarrow> False"

fun takes :: "reply list \<Rightarrow> byte list \<Rightarrow> bool" where
  "takes [] b \<longleftrightarrow> b = []"
| "takes (Count n # rs) b \<longleftrightarrow> 0 \<le> n \<and> nat n \<le> length b \<and> b \<noteq> [] \<and> takes rs (drop (nat n) b)"
| "takes (Fail e # rs) b \<longleftrightarrow> e = EINTR \<and> b \<noteq> [] \<and> takes rs b"
| "takes (_ # rs) b \<longleftrightarrow> False"

lemma recvv_loop_delivers:
  "delivers ds bs \<Longrightarrow> length got + length bs \<le> cap \<Longrightarrow>
    recvv_loop tmo (length bs) cap got s (ds @ rs) = Some (int (length (got @ bs)), got @ bs, s, rs)"
proof (induction ds bs arbitrary: got rule: delivers.induct)
  case (1 bs)
  then show ?case by (subst recvv_loop.simps) simp
next
  case (2 c ds bs)
  then obtain r where r: "bs = c @ r" "c \<noteq> []" by (auto simp: prefix_def)
  then show ?case using 2 by (subst recvv_loop.simps) simp
next
  case (3 e ds bs)
  then show ?case by (subst recvv_loop.simps) simp
qed simp_all

lemma sendv_loop_takes:
  "takes ts b \<Longrightarrow> sendv_loop tmo b sent s (ts @ rs) = Some (int (length (sent @ b)), sent @ b, s, rs)"
proof (induction ts b arbitrary: sent rule: takes.induct)
  case (2 n ts b)
  then show ?case by (subst sendv_loop.simps) (auto simp: min_def)
qed (subst sendv_loop.simps, simp)+

lemma setblocking_same: "\<not> fd_nonblock s \<Longrightarrow> setblocking 1 s (Count f # rs) = Some (0, s, rs)"
  by (simp add: setblocking_def)

lemma recvv_delivers:
  assumes "\<not> fd_nonblock s" "tmo \<noteq> 0" "delivers ds bs" "length bs \<le> cap"
  shows "recvv (length bs) cap tmo s (Count f # ds @ rs) = Some (int (length bs), bs, s, rs)"
  using assms recvv_loop_delivers [OF assms(3), of "[]" cap True s rs]
  by (simp add: recvv_def recvv_impl_def setblocking_same)

lemma sendv_takes:
  assumes "\<not> fd_nonblock s" "tmo \<noteq> 0" "takes ts b"
  shows "sendv b tmo s (Count f # ts @ rs) = Some (int (length b), b, s, rs)"
  using assms sendv_loop_takes [OF assms(3), of True "[]" s rs]
  by (simp add: sendv_def sendv_impl_def setblocking_same)

section \<open>The interface of the client\<close>

text \<open>
  What the client relies on: with a peer that takes, \<open>send\<close> transfers the whole buffer, and with a peer that
  delivers, \<open>recv\<close> returns exactly the bytes; both leave the rest of the replies and the socket as they
  were.  \<open>go\<close> is the reply to the call that sets the mode of the socket.
\<close>

locale transport =
  fixes send :: "byte list \<Rightarrow> int \<Rightarrow> 's \<Rightarrow> 'r list \<Rightarrow> (int \<times> byte list \<times> 's \<times> 'r list) option"
    and recv :: "nat \<Rightarrow> nat \<Rightarrow> int \<Rightarrow> 's \<Rightarrow> 'r list \<Rightarrow> (int \<times> byte list \<times> 's \<times> 'r list) option"
    and ready :: "'s \<Rightarrow> bool"
    and go :: "int \<Rightarrow> 'r"
    and taking :: "'r list \<Rightarrow> byte list \<Rightarrow> bool"
    and delivering :: "'r list \<Rightarrow> byte list \<Rightarrow> bool"
  assumes send_all: "ready s \<Longrightarrow> tmo \<noteq> 0 \<Longrightarrow> taking ts b \<Longrightarrow> send b tmo s (go f # ts @ rs) = Some (int (length b), b, s, rs)"
    and recv_all: "ready s \<Longrightarrow> tmo \<noteq> 0 \<Longrightarrow> delivering ds bs \<Longrightarrow> length bs \<le> cap
      \<Longrightarrow> recv (length bs) cap tmo s (go f # ds @ rs) = Some (int (length bs), bs, s, rs)"
begin

text \<open>A message is received in two parts, its first \<open>n\<close> bytes and the rest.\<close>

lemma recv_two_parts:
  assumes "ready s" "tmo \<noteq> 0" "n \<le> length msg" "length msg \<le> cap"
    "delivering hs (take n msg)" "delivering bs (drop n msg)"
  shows "recv n cap tmo s (go f # hs @ go g # bs @ rs) = Some (int n, take n msg, s, go g # bs @ rs)"
    and "recv (length msg - n) (cap - n) tmo s (go g # bs @ rs) = Some (int (length msg) - int n, drop n msg, s, rs)"
  using recv_all [OF assms(1,2,5), of cap f "go g # bs @ rs"] recv_all [OF assms(1,2,6), of "cap - n" g rs] assms(3,4)
  by (simp_all add: of_nat_diff)

end

interpretation sock: transport sendv recvv "\<lambda>s. \<not> fd_nonblock s" Count takes delivers
  by unfold_locales (simp_all add: sendv_takes recvv_delivers)

lemma recvv_length: "recvv len cap tmo s rs = Some (n, out, s', r) \<Longrightarrow> length out \<le> cap"
  using recvv_loop_ok [of "tmo \<noteq> 0" len cap "[]"]
  by (fastforce simp: recvv_def recvv_impl_def recv_ok_def split: option.splits)

section \<open>Properties\<close>



text \<open>
  \<open>sendv\<close> sends everything or fails: when the call returns, what the kernel took is a prefix of the
  data, all of it when the code is the length, and the code is -1 otherwise.
\<close>

theorem sendv_all_or_error:
  assumes "sendv b tmo s rs = Some (n, out, s', r)"
  shows "prefix out b \<and> (n = int (length b) \<and> out = b \<or> n = - 1)"
  using assms sendv_loop_ok [of "tmo \<noteq> 0" b "[]"]
  by (fastforce simp: sendv_def sendv_impl_def send_ok_def split: option.splits)

text \<open>
  The timeout loses its milliseconds: the time \<open>select\<close> is given for a timeout of \<open>ms\<close> milliseconds
  is the whole seconds and, as microseconds, their number divided by 1000; below one second it is
  zero, so \<open>select\<close> does not wait at all.
\<close>

theorem timeout_drops_milliseconds:
  assumes "0 \<le> ms"
  shows "time_left (mk_final_time ms (0, 0)) = (ms div 1000, ms div 1000 div 1000)
    \<and> (ms < 1000 \<longrightarrow> time_left (mk_final_time ms (0, 0)) = (0, 0))"
proof -
  have d: "ms sdiv 1000 = ms div 1000" "ms smod 1000 = ms mod 1000"
    using assms by (simp_all add: signed_divide_int_def signed_modulo_int_def sgn_if)
  have us: "0 \<le> ms mod 1000 * 1000 * 1000" "ms mod 1000 * 1000 * 1000 < 1000000000" by simp_all
  have z: "x sdiv 1000000000 = 0" if "0 \<le> x" "x < 1000000000" for x :: int
    using that by (simp add: signed_divide_int_def sgn_if)
  have "mk_final_time ms (0, 0) = (ms div 1000, ms mod 1000 * 1000 * 1000)"
    using z [OF us] by (simp add: mk_final_time_def Let_def d)
  moreover have "ms div 1000 sdiv 1000 = ms div 1000 div 1000" "0 \<le> ms div 1000"
    using assms by (simp_all add: signed_divide_int_def sgn_if)
  ultimately show ?thesis by (simp add: time_left_def borrow.simps)
qed

end
