(* ===== verification/FtpLink.thy ===== *)
theory FtpLink
  imports FtpText ZSocket "HOL-Library.Monad_Syntax"
begin

text \<open>
  The lower half of the FTP client (\<open>src/public/ftp/ftpclient.cpp\<close>): the state of \<open>ftpClient\<close>, the composition of
  command lines, sending, receiving, connecting, and the data connection.

  The record \<open>ftpClient\<close> has the members of the class.  The record \<open>ftp\<close> adds the world the client acts on:
  the replies of the kernel still to come (\<open>net\<close>, as in the theory of the socket wrapper: every system call takes
  the next one), the open descriptors, the bytes every call of \<open>Send\<close> handed to the kernel (\<open>wire\<close>), the
  addresses connected to (\<open>dialled\<close>), the files, the clock, the arguments of \<open>sleep\<close>, and the values another
  thread lets \<open>*m_pnDownState\<close> show at its successive readings.

  \<^term>\<open>None\<close> means that the routine does not return normally: the replies or readings ended while it
  was running, a reply does not fit the call, an exception, or a write behind the end of a block.
  \<open>close\<close> and \<open>sleep\<close> take no reply, since their results are never used.
\<close>

section \<open>State\<close>

record ftpClient =
  m_nDLMaxSize :: int
  m_nDownLoaded :: int
  m_strLocalDir :: string
  m_nDownLoadSpeed :: nat
  m_cmdSocket :: int
  m_strUserName :: string
  m_strPassWord :: string
  m_strServerIP :: string
  m_nServerPort :: int
  m_strResponse :: string
  m_commandStr :: string
  m_nCurrentCommand :: int
  m_bLogin :: bool
  m_pnDownState :: bool

record ftp = ftpClient +
  net :: "reply list"
  fds :: "int list"
  wire :: "(int \<times> byte list) list"
  dialled :: "(int \<times> string \<times> int) list"
  disk :: "string \<rightharpoonup> byte list"
  readable :: "string \<Rightarrow> bool"
  writable :: "string \<Rightarrow> bool"
  tick :: "nat \<Rightarrow> u32"
  tick_reads :: nat
  slept :: "u32 list"
  state_reads :: "int list"

text \<open>
  The constructor.  \<open>m_nServerPort\<close> and \<open>m_nCurrentCommand\<close> are not initialised and keep the values of the argument;
  the string members are empty.
\<close>

definition ftpClient_ctor :: "ftp \<Rightarrow> ftp" where
  "ftpClient_ctor s =
     s\<lparr>m_bLogin := False, m_strLocalDir := ''d:'' @ [CHR 0x5C] @ ''tmp'' @ [CHR 0x5C], m_nDownLoadSpeed := 0,
       m_nDLMaxSize := 0, m_nDownLoaded := 0, m_cmdSocket := - 1, m_pnDownState := False,
       m_strUserName := [], m_strPassWord := [], m_strServerIP := [], m_strResponse := [], m_commandStr := []\<rparr>"

section \<open>System calls\<close>

text \<open>A call whose result is a number; a failure is \<open>-1\<close>.\<close>

definition sys_call :: "ftp \<Rightarrow> (int \<times> ftp) option" where
  "sys_call s =
     (case net s of
        Count n # r \<Rightarrow> Some (n, s\<lparr>net := r\<rparr>)
      | Fail e # r \<Rightarrow> Some (- 1, s\<lparr>net := r\<rparr>)
      | _ \<Rightarrow> None)"

definition sys_socket :: "ftp \<Rightarrow> (int \<times> ftp) option" where
  "sys_socket s =
     do {
       (fd, s) \<leftarrow> sys_call s;
       Some (fd, if fd < 0 then s else s\<lparr>fds := fd # fds s\<rparr>)
     }"

definition sys_close :: "int \<Rightarrow> ftp \<Rightarrow> ftp" where
  "sys_close fd s = s\<lparr>fds := remove1 fd (fds s)\<rparr>"

text \<open>\<open>getsockopt(SO_ERROR)\<close>; the variable keeps \<open>-1\<close> when the call fails.  Only its being zero is used.\<close>

definition so_error :: "ftp \<Rightarrow> (bool \<times> ftp) option" where
  "so_error s =
     (case net s of
        SoError e # r \<Rightarrow> Some (e = E0, s\<lparr>net := r\<rparr>)
      | Fail e # r \<Rightarrow> Some (False, s\<lparr>net := r\<rparr>)
      | _ \<Rightarrow> None)"

definition GetTickCount :: "ftp \<Rightarrow> u32 \<times> ftp" where
  "GetTickCount s = (tick s (tick_reads s), s\<lparr>tick_reads := Suc (tick_reads s)\<rparr>)"

section \<open>Receiving\<close>

text \<open>\<open>getData\<close>: the code and the bytes at the start of the buffer, the rest of which is zero.\<close>

definition getData :: "int \<Rightarrow> nat \<Rightarrow> ftp \<Rightarrow> (int \<times> byte list \<times> ftp) option" where
  "getData fd len s =
     (if fd = - 1 then Some (- 1, [], s)
      else do {
        (ready, s) \<leftarrow> sys_call s;
        if ready > 0
        then (case net s of
                Data bs # r \<Rightarrow>
                  if length bs > len then None
                  else Some (if bs = [] then - 2 else int (length bs), bs, s\<lparr>net := r\<rparr>)
              | Fail e # r \<Rightarrow> Some (- 2, [], s\<lparr>net := r\<rparr>)
              | _ \<Rightarrow> None)
        else Some (0, [], s)
      })"

lemma sys_call_shorter: "sys_call s = Some (n, s') \<Longrightarrow> length (net s') < length (net s)"
  by (auto simp: sys_call_def split: list.splits reply.splits)

lemma getData_shorter:
  assumes "getData fd len s = Some (n, bs, s')" "n > 0"
  shows "length (net s') < length (net s)"
  using assms
  by (auto simp: getData_def bind_eq_Some_conv dest!: sys_call_shorter split: if_splits list.splits reply.splits)

text \<open>
  The loop of \<open>serverResponse\<close>: the last of the 260 characters of the buffer is overwritten by a terminator,
  and the string in the buffer is appended.
\<close>

function resp_loop :: "int \<Rightarrow> ftp \<Rightarrow> ftp option" where
  "resp_loop fd s =
     (case getData fd 260 s of
        None \<Rightarrow> None
      | Some (nRet, buf, s') \<Rightarrow>
          if nRet > 0
          then resp_loop fd (s'\<lparr>m_strResponse := m_strResponse s' @ c_text (chars_of (take 259 buf))\<rparr>)
          else Some s')"
  by pat_completeness auto
termination
  by (relation "measure (\<lambda>(fd, s). length (net s))") (auto dest: getData_shorter)

declare resp_loop.simps [simp del]

definition serverResponse :: "int \<Rightarrow> ftp \<Rightarrow> (string \<times> ftp) option" where
  "serverResponse sockfd s =
     (if sockfd = - 1 then Some ([], s)
      else do {
        s \<leftarrow> resp_loop sockfd (s\<lparr>m_strResponse := []\<rparr>);
        Some (m_strResponse s, s)
      })"

section \<open>Sending\<close>

text \<open>The loop of \<open>Send\<close>: the bytes left, those already sent.\<close>

fun send_loop :: "reply list \<Rightarrow> byte list \<Rightarrow> byte list \<Rightarrow> (int \<times> byte list \<times> reply list) option" where
  "send_loop rs [] sent = Some (0, sent, rs)"
| "send_loop (Count n # rs) (b # bs) sent =
     (if 0 \<le> n \<and> nat n \<le> Suc (length bs)
      then send_loop rs (drop (nat n) (b # bs)) (sent @ take (nat n) (b # bs)) else None)"
| "send_loop (Fail e # rs) (b # bs) sent = Some (- 2, sent, rs)"
| "send_loop _ (b # bs) sent = None"

definition Send :: "int \<Rightarrow> byte list \<Rightarrow> ftp \<Rightarrow> (int \<times> ftp) option" where
  "Send fd cmd s =
     (if FTP_COMMAND_USERNAME \<noteq> m_nCurrentCommand s \<and> FTP_COMMAND_PASSWORD \<noteq> m_nCurrentCommand s \<and> \<not> m_bLogin s
      then Some (- 1, s)
      else do {
        (ready, s) \<leftarrow> sys_call s;
        if ready > 0
        then do {
          (ret, sent, r) \<leftarrow> send_loop (net s) cmd [];
          Some (ret, s\<lparr>net := r, wire := wire s @ [(fd, sent)]\<rparr>)
        }
        else Some (- 1, s)
      })"

definition Send_str :: "int \<Rightarrow> string \<Rightarrow> ftp \<Rightarrow> (int \<times> ftp) option" where
  "Send_str fd cmd s = (if fd = - 1 then Some (- 1, s) else Send fd (bytes_of cmd) s)"

section \<open>Commands\<close>

definition parseCommand :: "int \<Rightarrow> string \<Rightarrow> ftp \<Rightarrow> string \<times> ftp" where
  "parseCommand command strParam s =
     (if command < FTP_COMMAND_BASE \<or> command > FTP_COMMAND_END then ([], s)
      else let line = command_line command strParam
           in (line, s\<lparr>m_nCurrentCommand := command, m_commandStr := line\<rparr>))"

text \<open>The pair of \<open>parseCommand\<close> and \<open>Send\<close> on the control connection.\<close>

definition send_command :: "int \<Rightarrow> string \<Rightarrow> ftp \<Rightarrow> (int \<times> ftp) option" where
  "send_command command strParam s =
     (case parseCommand command strParam s of (line, s) \<Rightarrow> Send_str (m_cmdSocket s) line s)"

text \<open>\<open>m_strResponse = serverResponse(m_cmdSocket)\<close>\<close>

definition take_response :: "int \<Rightarrow> ftp \<Rightarrow> (string \<times> ftp) option" where
  "take_response fd s =
     do {
       (t, s) \<leftarrow> serverResponse fd s;
       Some (t, s\<lparr>m_strResponse := t\<rparr>)
     }"

text \<open>
  The pattern of most operations: send the command, leave with \<open>-1\<close> when this fails, store the response and
  return its code.
\<close>

definition command_reply :: "int \<Rightarrow> string \<Rightarrow> ftp \<Rightarrow> (int \<times> ftp) option" where
  "command_reply command strParam s =
     do {
       (ret, s) \<leftarrow> send_command command strParam s;
       if ret < 0 then Some (- 1, s)
       else do {
         (t, s) \<leftarrow> take_response (m_cmdSocket s) s;
         Some (parseResponse t, s)
       }
     }"

section \<open>Connecting\<close>

definition ftp_setblocking :: "int \<Rightarrow> int \<Rightarrow> ftp \<Rightarrow> (int \<times> ftp) option" where
  "ftp_setblocking fd b s =
     (if b < 0 then Some (0, s)
      else do {
        (ret, s) \<leftarrow> sys_call s;
        Some (if ret = - 1 then - 1 else 0, s)
      })"

text \<open>\<open>Connect\<close>; \<open>htons\<close> keeps 16 bits of the port.\<close>

definition Connect :: "int \<Rightarrow> string \<Rightarrow> int \<Rightarrow> ftp \<Rightarrow> (int \<times> ftp) option" where
  "Connect socketfd serverIP nPort s =
     (if socketfd = - 1 then Some (- 1, s)
      else do {
        (_, s) \<leftarrow> ftp_setblocking socketfd 1 s;
        (c, s) \<leftarrow> sys_call (s\<lparr>dialled := dialled s @ [(socketfd, c_text serverIP, nPort mod 2 ^ 16)]\<rparr>);
        (ret, s) \<leftarrow>
          (if c = - 1
           then do {
             (n, s) \<leftarrow> sys_call s;
             if n > 0 then so_error s else Some (False, s)
           }
           else Some (True, s));
        (_, s) \<leftarrow> ftp_setblocking socketfd 0 s;
        Some (if ret then (0, s) else (- 1, sys_close socketfd s))
      })"

section \<open>The data connection\<close>

definition Pasv :: "ftp \<Rightarrow> (string \<times> ftp) option" where
  "Pasv s =
     do {
       (ret, s) \<leftarrow> send_command FTP_COMMAND_PSAV_MODE [] s;
       if ret < 0 then Some ([], s) else take_response (m_cmdSocket s) s
     }"

text \<open>\<open>createDataLink\<close>; the port is narrowed to 32 bits for \<open>Connect\<close>.\<close>

definition createDataLink :: "int \<Rightarrow> ftp \<Rightarrow> (int \<times> ftp) option" where
  "createDataLink data_fd s =
     (if data_fd = - 1 then Some (- 2, s)
      else do {
        (parseStr, s) \<leftarrow> Pasv s;
        if parseStr = [] then Some (- 1, s)
        else case ParseString (SplitString (pasv_data parseStr) '','') of
               None \<Rightarrow> Some (- 1, s)
             | Some (strServerIp, nPort) \<Rightarrow>
                 do {
                   (c, s) \<leftarrow> Connect data_fd strServerIp (nPort mod 2 ^ 32) s;
                   Some (if c < 0 then - 1 else 0, s)
                 }
      })"

section \<open>Conversations\<close>

text \<open>
  What the kernel replies when a command is accepted in portions of \<open>ns\<close> bytes and answered in the pieces
  \<open>ts\<close>, after which nothing arrives for a second.
\<close>

definition piece_replies :: "byte list list \<Rightarrow> reply list" where
  "piece_replies ps = concat (map (\<lambda>b. [Count 1, Data b]) ps)"

definition talk :: "int list \<Rightarrow> string list \<Rightarrow> reply list" where
  "talk ns ts = Count 1 # map Count ns @ piece_replies (map bytes_of ts) @ [Count 0]"

definition portions :: "int list \<Rightarrow> nat \<Rightarrow> bool" where
  "portions ns k \<longleftrightarrow> list_all (\<lambda>n. 0 < n) ns \<and> sum_list ns = int k"

definition text_pieces :: "string list \<Rightarrow> bool" where
  "text_pieces ts \<longleftrightarrow> list_all (\<lambda>t. t \<noteq> [] \<and> length t < 260 \<and> CHR 0x00 \<notin> set t) ts"

lemma piece_replies_simps [simp]:
  "piece_replies [] = []" "piece_replies (b # ps) = Count 1 # Data b # piece_replies ps"
  by (simp_all add: piece_replies_def)

lemma send_loop_portions: "portions ns (length b) \<Longrightarrow> send_loop (map Count ns @ r) b sent = Some (0, sent @ b, r)"
proof (induction ns arbitrary: b sent)
  case Nil
  then show ?case by (simp add: portions_def)
next
  case (Cons n ns)
  have "0 \<le> sum_list ns" using Cons.prems by (intro sum_list_nonneg) (auto simp: portions_def list_all_iff)
  then have n: "0 < n" "nat n \<le> length b" "portions ns (length (drop (nat n) b))"
    using Cons.prems by (auto simp: portions_def)
  then obtain c cs where b: "b = c # cs" by (cases b) auto
  show ?case using n Cons.IH [OF n(3), of "sent @ take (nat n) b"] by (simp add: b)
qed

lemma getData_piece:
  "fd \<noteq> - 1 \<Longrightarrow> net s = Count 1 # Data b # r \<Longrightarrow> b \<noteq> [] \<Longrightarrow> length b \<le> n
    \<Longrightarrow> getData fd n s = Some (int (length b), b, s\<lparr>net := r\<rparr>)"
  by (simp add: getData_def sys_call_def)

lemma getData_timeout: "fd \<noteq> - 1 \<Longrightarrow> net s = Count 0 # r \<Longrightarrow> getData fd n s = Some (0, [], s\<lparr>net := r\<rparr>)"
  by (simp add: getData_def sys_call_def)

text \<open>Every piece of the response loses what is behind its first zero and behind its 259th character.\<close>

lemma resp_loop_pieces:
  assumes "fd \<noteq> - 1" "list_all (\<lambda>b. b \<noteq> [] \<and> length b \<le> 260) ps"
  shows "net s = piece_replies ps @ Count 0 # r \<Longrightarrow>
    resp_loop fd s =
      Some (s\<lparr>net := r, m_strResponse := m_strResponse s @ concat (map (\<lambda>b. c_text (chars_of (take 259 b))) ps)\<rparr>)"
  using assms(2)
proof (induction ps arbitrary: s)
  case Nil
  then show ?case using assms(1) by (subst resp_loop.simps) (simp add: getData_timeout)
next
  case (Cons b ps)
  then show ?case using assms(1) by (subst resp_loop.simps) (simp add: getData_piece)
qed

lemma text_pieces_heard:
  "text_pieces ts \<Longrightarrow> concat (map (\<lambda>b. c_text (chars_of (take 259 b))) (map bytes_of ts)) = concat ts"
proof (induction ts)
  case (Cons t ts)
  have "takeWhile (\<lambda>c. c \<noteq> CHR 0x00) t = t" using Cons.prems by (auto simp: text_pieces_def)
  then have "c_text (chars_of (take 259 (bytes_of t))) = t" using Cons.prems by (simp add: c_text_def text_pieces_def)
  then show ?case using Cons by (simp add: text_pieces_def)
qed simp

lemma serverResponse_texts:
  assumes "fd \<noteq> - 1" "net s = piece_replies (map bytes_of ts) @ Count 0 # r" "text_pieces ts"
  shows "serverResponse fd s = Some (concat ts, s\<lparr>net := r, m_strResponse := concat ts\<rparr>)"
proof -
  have "list_all (\<lambda>b. b \<noteq> [] \<and> length b \<le> 260) (map bytes_of ts)"
    using assms(3) by (auto simp: text_pieces_def list_all_iff)
  from resp_loop_pieces [OF assms(1) this, of "s\<lparr>m_strResponse := []\<rparr>" r] show ?thesis
    using assms by (simp add: serverResponse_def text_pieces_heard del: map_map)
qed

text \<open>A command of a client that may send it.\<close>

abbreviation can_send :: "int \<Rightarrow> ftp \<Rightarrow> bool" where
  "can_send c s \<equiv> m_cmdSocket s \<noteq> - 1 \<and> FTP_COMMAND_BASE \<le> c \<and> c \<le> FTP_COMMAND_END
     \<and> (m_bLogin s \<or> c = FTP_COMMAND_USERNAME \<or> c = FTP_COMMAND_PASSWORD)"

definition sent_command :: "int \<Rightarrow> string \<Rightarrow> ftp \<Rightarrow> ftp" where
  "sent_command c x s =
     s\<lparr>m_nCurrentCommand := c, m_commandStr := command_line c x, wire := wire s @ [(m_cmdSocket s, bytes_of (command_line c x))]\<rparr>"

lemma send_command_portions:
  assumes "can_send c s" "portions ns (length (command_line c x))" "net s = Count 1 # map Count ns @ r"
  shows "send_command c x s = Some (0, (sent_command c x s)\<lparr>net := r\<rparr>)"
  using assms send_loop_portions [of ns "bytes_of (command_line c x)" r "[]"]
  by (auto simp: send_command_def parseCommand_def Let_def Send_str_def Send_def sys_call_def sent_command_def)

text \<open>The state after a conversation.\<close>

definition told :: "int \<Rightarrow> string \<Rightarrow> string \<Rightarrow> reply list \<Rightarrow> ftp \<Rightarrow> ftp" where
  "told c x t r s = (sent_command c x s)\<lparr>net := r, m_strResponse := t\<rparr>"

lemma talk_send:
  assumes "can_send c s" "portions ns (length (command_line c x))" "net s = talk ns ts @ r"
  shows "send_command c x s = Some (0, (sent_command c x s)\<lparr>net := piece_replies (map bytes_of ts) @ Count 0 # r\<rparr>)"
  using send_command_portions [OF assms(1,2)] assms(3) by (simp add: talk_def)

lemma talk_response:
  assumes "m_cmdSocket s \<noteq> - 1" "text_pieces ts"
  shows "serverResponse (m_cmdSocket s) ((sent_command c x s)\<lparr>net := piece_replies (map bytes_of ts) @ Count 0 # r\<rparr>)
     = Some (concat ts, told c x (concat ts) r s)"
  using serverResponse_texts [OF assms(1) _ assms(2)] by (simp add: told_def)

lemma command_reply_talk:
  assumes "can_send c s" "portions ns (length (command_line c x))" "net s = talk ns ts @ r" "text_pieces ts"
  shows "command_reply c x s = Some (parseResponse (concat ts), told c x (concat ts) r s)"
  using talk_send [OF assms(1-3)] talk_response [OF _ assms(4), where s = s and c = c and x = x and r = r] assms(1)
  by (simp add: command_reply_def take_response_def sent_command_def told_def)

end
