(* ===== verification/FtpClient.thy ===== *)
theory FtpClient
  imports FtpLink
begin

text \<open>
  The operations of the FTP client (\<open>src/public/ftp/ftpclient.cpp\<close>) over the control connection: login and
  logout, directories and files of the server, the listing of a directory, and the length of a file.
  A text printed with \<open>trace\<close> is left out, but the reading of the response it prints is not.
\<close>

section \<open>Login\<close>

definition login2Server :: "string \<Rightarrow> ftp \<Rightarrow> (int \<times> ftp) option" where
  "login2Server serverIP s =
     do {
       s \<leftarrow> (if m_cmdSocket s = - 1
            then do {
              (fd, s) \<leftarrow> sys_socket s;
              Some (s\<lparr>m_cmdSocket := fd\<rparr>)
            }
            else Some s);
       let s = s\<lparr>m_strServerIP := fst (server_address serverIP), m_nServerPort := snd (server_address serverIP)\<rparr>;
       (c, s) \<leftarrow> Connect (m_cmdSocket s) (m_strServerIP s) (m_nServerPort s) s;
       if c < 0 then Some (- 1, s)
       else do {
         (t, s) \<leftarrow> take_response (m_cmdSocket s) s;
         Some (parseResponse t, s)
       }
     }"

definition inputUserName :: "string \<Rightarrow> ftp \<Rightarrow> (int \<times> ftp) option" where
  "inputUserName userName s = command_reply FTP_COMMAND_USERNAME userName (s\<lparr>m_strUserName := userName\<rparr>)"

text \<open>\<open>inputPassWord\<close>: the client counts as logged in as soon as the command is sent.\<close>

definition inputPassWord :: "string \<Rightarrow> ftp \<Rightarrow> (int \<times> ftp) option" where
  "inputPassWord password s =
     do {
       (ret, s) \<leftarrow> send_command FTP_COMMAND_PASSWORD password (s\<lparr>m_strPassWord := password\<rparr>);
       if ret < 0 then Some (- 1, s)
       else do {
         (t, s) \<leftarrow> take_response (m_cmdSocket s) (s\<lparr>m_bLogin := True\<rparr>);
         Some (parseResponse t, s)
       }
     }"

definition IsLogin :: "ftp \<Rightarrow> bool" where
  "IsLogin s = m_bLogin s"

definition quitServer :: "ftp \<Rightarrow> (int \<times> ftp) option" where
  "quitServer s = command_reply FTP_COMMAND_QUIT [] s"

definition CloseFtp :: "ftp \<Rightarrow> ftp" where
  "CloseFtp s = (sys_close (m_cmdSocket s) s)\<lparr>m_cmdSocket := - 1\<rparr>"

text \<open>\<open>Close\<close>; the assignment to its argument is lost.\<close>

definition ftp_Close :: "int \<Rightarrow> ftp \<Rightarrow> ftp" where
  "ftp_Close sock s = sys_close sock s"

text \<open>The destructor; closing the invalid descriptor does nothing.\<close>

definition ftpClient_dtor :: "ftp \<Rightarrow> ftp option" where
  "ftpClient_dtor s =
     do {
       (_, s) \<leftarrow> send_command FTP_COMMAND_QUIT [] s;
       Some ((sys_close (m_cmdSocket s) s)\<lparr>m_bLogin := False\<rparr>)
     }"

section \<open>Directories and files\<close>

definition PWD :: "ftp \<Rightarrow> (string \<times> ftp) option" where
  "PWD s =
     do {
       (ret, s) \<leftarrow> send_command FTP_COMMAND_CURRENT_PATH [] s;
       if ret < 0 then Some ([], s) else serverResponse (m_cmdSocket s) s
     }"

text \<open>\<open>setTransferMode\<close>; for another mode an empty command is sent.\<close>

definition setTransferMode :: "int \<Rightarrow> ftp \<Rightarrow> (int \<times> ftp) option" where
  "setTransferMode mode s =
     (if mode = 0x31 then command_reply FTP_COMMAND_TYPE_MODE ''I'' s
      else if mode = 0x32 then command_reply FTP_COMMAND_TYPE_MODE ''A'' s
      else do {
        (ret, s) \<leftarrow> Send_str (m_cmdSocket s) [] s;
        if ret < 0 then Some (- 1, s)
        else do {
          (t, s) \<leftarrow> take_response (m_cmdSocket s) s;
          Some (parseResponse t, s)
        }
      })"

definition GetResponMsg :: "ftp \<Rightarrow> string" where
  "GetResponMsg s = m_strResponse s"

definition Dir :: "string \<Rightarrow> ftp \<Rightarrow> (string \<times> ftp) option" where
  "Dir path s =
     do {
       (dataSocket, s) \<leftarrow> sys_socket s;
       (c, s) \<leftarrow> createDataLink dataSocket s;
       if c < 0 then Some ([], s)
       else do {
         (ret, s) \<leftarrow> send_command FTP_COMMAND_DIR path s;
         (_, s) \<leftarrow> serverResponse (m_cmdSocket s) s;
         if ret < 0 then Some ([], sys_close dataSocket s)
         else do {
           (t, s) \<leftarrow> take_response dataSocket s;
           Some (t, sys_close dataSocket s)
         }
       }
     }"

text \<open>The guard in front of the next operations.\<close>

definition with_socket :: "(ftp \<Rightarrow> (int \<times> ftp) option) \<Rightarrow> ftp \<Rightarrow> (int \<times> ftp) option" where
  "with_socket f s = (if m_cmdSocket s = - 1 then Some (- 2, s) else f s)"

definition CD :: "string \<Rightarrow> ftp \<Rightarrow> (int \<times> ftp) option" where
  "CD path = with_socket (command_reply FTP_COMMAND_CHANGE_DIRECTORY path)"

definition DeleteFile :: "string \<Rightarrow> ftp \<Rightarrow> (int \<times> ftp) option" where
  "DeleteFile strRemoteFile = with_socket (command_reply FTP_COMMAND_DELETE_FILE strRemoteFile)"

definition DeleteDirectory :: "string \<Rightarrow> ftp \<Rightarrow> (int \<times> ftp) option" where
  "DeleteDirectory strRemoteDir = with_socket (command_reply FTP_COMMAND_DELETE_DIRECTORY strRemoteDir)"

definition CreateDirectory :: "string \<Rightarrow> ftp \<Rightarrow> (int \<times> ftp) option" where
  "CreateDirectory strRemoteDir = with_socket (command_reply FTP_COMMAND_CREATE_DIRECTORY strRemoteDir)"

definition Rename :: "string \<Rightarrow> string \<Rightarrow> ftp \<Rightarrow> (int \<times> ftp) option" where
  "Rename strRemoteFile strNewFile =
     with_socket (\<lambda>s. do {
       (_, s) \<leftarrow> send_command FTP_COMMAND_RENAME_BEGIN strRemoteFile s;
       (_, s) \<leftarrow> serverResponse (m_cmdSocket s) s;
       (_, s) \<leftarrow> send_command FTP_COMMAND_RENAME_END strNewFile s;
       (t, s) \<leftarrow> take_response (m_cmdSocket s) s;
       Some (parseResponse t, s)
     })"

text \<open>
  \<open>getFileLength\<close>.  The code is read from the first three characters; \<open>substr(4)\<close> of a shorter text is an
  exception; \<open>strtoll\<close> gives the nearest value in range, as \<open>atol\<close> does.
\<close>

definition getFileLength :: "string \<Rightarrow> ftp \<Rightarrow> (int \<times> ftp) option" where
  "getFileLength strRemoteFile =
     with_socket (\<lambda>s. do {
       (ret, s) \<leftarrow> send_command FTP_COMMAND_FILE_SIZE strRemoteFile s;
       if ret < 0 then Some (- 1, s)
       else do {
         (t, s) \<leftarrow> take_response (m_cmdSocket s) s;
         if atol (take 3 t) = 213
         then if length t < 4 then None else Some (atol (drop 4 t), s)
         else Some (- 1, s)
       }
     })"

text \<open>\<open>copyVariable\<close>: from now on the state of the caller is observed.\<close>

definition copyVariable :: "ftp \<Rightarrow> ftp" where
  "copyVariable s = s\<lparr>m_pnDownState := True\<rparr>"

end
