(* ===== verification/FtpTransfer.thy ===== *)
theory FtpTransfer
  imports FtpClient
begin

text \<open>
  Download and upload of files by the FTP client (\<open>src/public/ftp/ftpclient.cpp\<close>): \<open>Get\<close>, \<open>downLoad\<close>,
  \<open>downLoad64\<close> and both versions of \<open>Put\<close>.

  Files are lists of bytes under their names.  Reading needs an existing readable file, writing and creating a
  writable name; \<open>fwrite\<close> stores all its bytes.  A file opened with mode \<open>a+b\<close> is written at its end.
\<close>

section \<open>Files\<close>

definition fopen_rb :: "string \<Rightarrow> ftp \<Rightarrow> byte list option" where
  "fopen_rb f s = (if readable s f then disk s f else None)"

definition fopen_ab :: "string \<Rightarrow> ftp \<Rightarrow> ftp option" where
  "fopen_ab f s =
     (if writable s f then Some (s\<lparr>disk := (disk s)(f \<mapsto> (case disk s f of None \<Rightarrow> [] | Some c \<Rightarrow> c))\<rparr>) else None)"

definition createLocalFile :: "string \<Rightarrow> ftp \<Rightarrow> ftp option" where
  "createLocalFile f s = (if writable s f then Some (s\<lparr>disk := (disk s)(f \<mapsto> [])\<rparr>) else None)"

definition fwrite :: "string \<Rightarrow> byte list \<Rightarrow> ftp \<Rightarrow> ftp" where
  "fwrite f bs s = s\<lparr>disk := (disk s)(f \<mapsto> (case disk s f of None \<Rightarrow> [] | Some c \<Rightarrow> c) @ bs)\<rparr>"

definition GetLocalFileSize :: "string \<Rightarrow> ftp \<Rightarrow> int" where
  "GetLocalFileSize f s = (case fopen_rb f s of None \<Rightarrow> - 1 | Some c \<Rightarrow> int (length c))"

text \<open>The version that returns the length as an \<open>int\<close>.\<close>

definition GetLocalFileSize32 :: "string \<Rightarrow> ftp \<Rightarrow> int" where
  "GetLocalFileSize32 f s = (case fopen_rb f s of None \<Rightarrow> - 1 | Some c \<Rightarrow> int_of_u32 (of_nat (length c)))"

section \<open>The loop of a download\<close>

text \<open>The limit of the speed: \<open>nReceiveLen / m_nDownLoadSpeed\<close> milliseconds are compared with the clock.\<close>

definition throttle :: "u32 \<Rightarrow> nat \<Rightarrow> ftp \<Rightarrow> ftp" where
  "throttle uBegin nReceiveLen s =
     (if m_nDownLoadSpeed s > 0
      then let (uNow, s) = GetTickCount s;
               uCost = CostDiff uNow uBegin;
               uPreCost = of_nat (nReceiveLen div m_nDownLoadSpeed s)
           in if uPreCost > uCost then s\<lparr>slept := slept s @ [uPreCost - uCost]\<rparr> else s
      else s)"

text \<open>
  \<open>while (m_pnDownState && *m_pnDownState)\<close>: one reading for the condition, one for the comparison with \<open>1\<close>.
\<close>

fun pause_loop :: "int list \<Rightarrow> u32 list \<Rightarrow> (int list \<times> u32 list) option" where
  "pause_loop [] sl = None"
| "pause_loop [v] sl = (if v = 0 then Some ([], sl) else None)"
| "pause_loop (v # w # vs) sl =
     (if v = 0 then Some (w # vs, sl) else if w = 1 then pause_loop vs (sl @ [1000]) else Some (vs, sl))"

text \<open>The pause and the test for the end: whether the download is to stop.\<close>

definition pause :: "ftp \<Rightarrow> (bool \<times> ftp) option" where
  "pause s =
     (if \<not> m_pnDownState s then Some (False, s)
      else do {
        (vs, sl) \<leftarrow> pause_loop (state_reads s) (slept s);
        case vs of [] \<Rightarrow> None | v # r \<Rightarrow> Some (v = 2, s\<lparr>state_reads := r, slept := sl\<rparr>)
      })"

lemma throttle_net [simp]: "net (throttle u n s) = net s"
  by (simp add: throttle_def GetTickCount_def Let_def)

lemma pause_net: "pause s = Some (b, s') \<Longrightarrow> net s' = net s"
  by (auto simp: pause_def bind_eq_Some_conv neq_Nil_conv split: if_splits list.splits)

text \<open>
  The body of the loop for one piece: whether the loop is left.  \<open>nReceiveLen\<close> counts the piece already.
  \<open>memset(dataBuf, 0, sizeof(dataBuf))\<close> clears as many bytes as a pointer has, eight, whatever the size
  \<open>nDataLen\<close> of the block.  \<open>pausing\<close> holds for \<open>downLoad64\<close>.
\<close>

definition down_piece :: "bool \<Rightarrow> string \<Rightarrow> nat \<Rightarrow> u32 \<Rightarrow> nat \<Rightarrow> nat \<Rightarrow> byte list \<Rightarrow> ftp \<Rightarrow> (bool \<times> ftp) option" where
  "down_piece pausing file lim uBegin nDataLen nReceiveLen dataBuf s =
     (let s = fwrite file dataBuf (s\<lparr>m_nDownLoaded := m_nDownLoaded s + int (length dataBuf)\<rparr>)
      in if nDataLen < 8 then None
         else if nReceiveLen = lim \<and> lim \<noteq> 0 then Some (True, s)
         else let s = throttle uBegin nReceiveLen s
              in if pausing then pause s else Some (False, s))"

text \<open>The size of the next block.\<close>

definition next_len :: "nat \<Rightarrow> nat \<Rightarrow> nat \<Rightarrow> nat" where
  "next_len lim nDataLen nReceiveLen =
     (if nReceiveLen + nDataLen > lim \<and> lim \<noteq> 0 then lim - nReceiveLen else nDataLen)"

lemma down_piece_net: "down_piece pz f lim u n k bs s = Some (b, s') \<Longrightarrow> net s' = net s"
  by (auto simp: down_piece_def Let_def fwrite_def dest!: pause_net split: if_splits)

function down_loop :: "bool \<Rightarrow> int \<Rightarrow> string \<Rightarrow> nat \<Rightarrow> u32 \<Rightarrow> nat \<Rightarrow> nat \<Rightarrow> ftp \<Rightarrow> (nat \<times> ftp) option" where
  "down_loop pausing data_fd file lim uBegin nDataLen nReceiveLen s =
     (case getData data_fd nDataLen s of
        None \<Rightarrow> None
      | Some (len, dataBuf, s1) \<Rightarrow>
          if len \<le> 0 then Some (nReceiveLen, s1)
          else case down_piece pausing file lim uBegin nDataLen (nReceiveLen + length dataBuf) dataBuf s1 of
                 None \<Rightarrow> None
               | Some (stop, s2) \<Rightarrow>
                   if stop then Some (nReceiveLen + length dataBuf, s2)
                   else down_loop pausing data_fd file lim uBegin
                     (next_len lim nDataLen (nReceiveLen + length dataBuf)) (nReceiveLen + length dataBuf) s2)"
  by pat_completeness auto
termination
  by (relation "measure (\<lambda>(pausing, data_fd, file, lim, uBegin, nDataLen, nReceiveLen, s). length (net s))")
     (auto dest!: getData_shorter down_piece_net)

declare down_loop.simps [simp del]

section \<open>Download\<close>

text \<open>
  The part of \<open>downLoad\<close> and \<open>downLoad64\<close> in front of the loop.  They differ in the codes of the errors:
  no data connection, the two commands not sent, no such file, and the two ways of opening the local file.
  The descriptor of the data connection is not closed on these ways.
\<close>

definition down_open ::
    "int \<times> int \<times> int \<times> int \<times> int \<times> int \<Rightarrow> string \<Rightarrow> string \<Rightarrow> int \<Rightarrow> ftp \<Rightarrow> ((int + int \<times> string \<times> int) \<times> ftp) option" where
  "down_open codes strRemoteFile strLocalFile pos s =
     (case codes of (eLink, eRest, eRetr, eNoFile, eAppend, eCreate) \<Rightarrow>
     do {
       (data_fd, s) \<leftarrow> sys_socket s;
       if data_fd < 0 then Some (Inl (- 2), s)
       else do {
         let strLocal = c_text (m_strLocalDir s @ strLocalFile);
         (size, s) \<leftarrow> getFileLength strRemoteFile s;
         let s = s\<lparr>m_nDLMaxSize := size\<rparr>;
         let nLocalNow = GetLocalFileSize strLocal s;
         let strPos = (if nLocalNow \<ge> pos then print_int nLocalNow else print_int pos);
         (c, s) \<leftarrow> createDataLink data_fd s;
         if c < 0 then Some (Inl eLink, s)
         else do {
           (ret, s) \<leftarrow> send_command FTP_COMMAND_DOWNLOAD_POS strPos s;
           if ret < 0 then Some (Inl eRest, s)
           else do {
             (_, s) \<leftarrow> serverResponse (m_cmdSocket s) s;
             (ret, s) \<leftarrow> send_command FTP_COMMAND_DOWNLOAD_FILE strRemoteFile s;
             if ret < 0 then Some (Inl eRetr, s)
             else do {
               (respon, s) \<leftarrow> serverResponse (m_cmdSocket s) s;
               if atoi respon = 550 then Some (Inl eNoFile, s)
               else if nLocalNow \<ge> pos
               then (case fopen_ab strLocal s of
                       None \<Rightarrow> Some (Inl eAppend, s)
                     | Some s \<Rightarrow> Some (Inr (data_fd, strLocal, nLocalNow), s))
               else (case createLocalFile strLocal s of
                       None \<Rightarrow> Some (Inl eCreate, s)
                     | Some s \<Rightarrow> Some (Inr (data_fd, strLocal, 0), s))
             }
           }
         }
       }
     })"

text \<open>The loop with the settings in front of it, and the end; the clock is read once before and once after.\<close>

definition down_run :: "bool \<Rightarrow> int \<Rightarrow> string \<Rightarrow> int \<Rightarrow> nat \<Rightarrow> ftp \<Rightarrow> (nat \<times> ftp) option" where
  "down_run pausing data_fd file nLocalNow lim s =
     (let (uBegin, s) = GetTickCount s;
          nDataLen = (if lim \<noteq> 0 \<and> lim < 4096 then lim else 4096)
      in do {
           (nReceiveLen, s) \<leftarrow> down_loop pausing data_fd file lim uBegin nDataLen 0 (s\<lparr>m_nDownLoaded := nLocalNow\<rparr>);
           Some (nReceiveLen, ftp_Close data_fd (snd (GetTickCount s)))
         })"

definition positive_code :: "nat \<Rightarrow> int" where
  "positive_code n = (if n \<ge> 0x80000000 then 0x7fffffff else int n)"

definition downLoad :: "string \<Rightarrow> string \<Rightarrow> int \<Rightarrow> nat \<Rightarrow> ftp \<Rightarrow> (int \<times> ftp) option" where
  "downLoad strRemoteFile strLocalFile pos lim s =
     do {
       (r, s) \<leftarrow> down_open (- 1, - 1, - 1, - 3, - 4, - 4) strRemoteFile strLocalFile pos s;
       case r of
         Inl e \<Rightarrow> Some (e, s)
       | Inr (data_fd, file, nLocalNow) \<Rightarrow>
           do {
             (n, s) \<leftarrow> down_run False data_fd file nLocalNow lim s;
             Some (positive_code n, s)
           }
     }"

text \<open>\<open>downLoad64\<close>: the argument \<open>downlen\<close> is set at the end only.\<close>

definition downLoad64 :: "string \<Rightarrow> string \<Rightarrow> int \<Rightarrow> int \<Rightarrow> nat \<Rightarrow> ftp \<Rightarrow> (int \<times> int \<times> ftp) option" where
  "downLoad64 strRemoteFile strLocalFile downlen pos lim s =
     do {
       (r, s) \<leftarrow> down_open (- 3, - 4, - 5, - 6, - 7, - 8) strRemoteFile strLocalFile pos s;
       case r of
         Inl e \<Rightarrow> Some (e, downlen, s)
       | Inr (data_fd, file, nLocalNow) \<Rightarrow>
           do {
             (n, s) \<leftarrow> down_run True data_fd file nLocalNow lim s;
             Some (positive_code n, int n, s)
           }
     }"

definition Get :: "string \<Rightarrow> string \<Rightarrow> ftp \<Rightarrow> (int \<times> ftp) option" where
  "Get strRemoteFile strLocalFile s = downLoad strRemoteFile strLocalFile 0 0 s"

definition Get64 :: "string \<Rightarrow> string \<Rightarrow> int \<Rightarrow> ftp \<Rightarrow> (int \<times> int \<times> ftp) option" where
  "Get64 strRemoteFile strLocalFile downlen s = downLoad64 strRemoteFile strLocalFile downlen 0 0 s"

section \<open>Upload\<close>

text \<open>
  The command of the upload and its response, and what is left of the file behind the length it has on the
  server.  \<open>fseek\<close> to a negative position fails and leaves the position at the start.
\<close>

definition put_start :: "int \<Rightarrow> int \<Rightarrow> string \<Rightarrow> byte list \<Rightarrow> ftp \<Rightarrow> ((int + int \<times> byte list) \<times> ftp) option" where
  "put_start data_fd nSize strRemoteFile content s =
     do {
       (ret, s) \<leftarrow>
         send_command (if nSize = - 1 then FTP_COMMAND_UPLOAD_FILE else FTP_COMMAND_APPEND_FILE) strRemoteFile s;
       if ret < 0 then Some (Inl (- 1), ftp_Close data_fd s)
       else do {
         (_, s) \<leftarrow> serverResponse (m_cmdSocket s) s;
         Some (Inr (data_fd, if nSize < 0 then content else drop (nat nSize) content), s)
       }
     }"

text \<open>The part in front of the loop.\<close>

definition put_open :: "string \<Rightarrow> string \<Rightarrow> ftp \<Rightarrow> ((int + int \<times> byte list) \<times> ftp) option" where
  "put_open strRemoteFile strLocalFile s =
     do {
       (nSize, s) \<leftarrow> getFileLength strRemoteFile s;
       case fopen_rb (c_text (m_strLocalDir s @ strLocalFile)) s of
         None \<Rightarrow> Some (Inl (- 2), s)
       | Some content \<Rightarrow>
           do {
             (data_fd, s) \<leftarrow> sys_socket s;
             if data_fd < 0 then Some (Inl data_fd, s)
             else do {
               (c, s) \<leftarrow> createDataLink data_fd s;
               if c < 0 then Some (Inl (- 1), s) else put_start data_fd nSize strRemoteFile content s
             }
           }
     }"

text \<open>
  The loop: \<open>b\<close> is the file behind the position.  The end is noticed by a reading of fewer than 4096
  bytes, so a last empty piece is sent when the rest is a multiple of 4096.
\<close>

function put_loop :: "int \<Rightarrow> byte list \<Rightarrow> nat \<Rightarrow> ftp \<Rightarrow> (bool \<times> nat \<times> ftp) option" where
  "put_loop data_fd b uplen s =
     (case Send data_fd (take 4096 b) s of
        None \<Rightarrow> None
      | Some (ret, s') \<Rightarrow>
          if ret < 0 then Some (False, uplen, s')
          else if length b < 4096 then Some (True, uplen + length b, s')
          else put_loop data_fd (drop 4096 b) (uplen + 4096) s')"
  by pat_completeness auto
termination
  by (relation "measure (\<lambda>(data_fd, b, uplen, s). length b)") auto

declare put_loop.simps [simp del]

text \<open>The end: the responses of both connections are read, the data connection is closed in between.\<close>

definition put_close :: "int \<Rightarrow> ftp \<Rightarrow> ftp option" where
  "put_close data_fd s =
     do {
       (_, s) \<leftarrow> serverResponse data_fd s;
       (_, s) \<leftarrow> serverResponse (m_cmdSocket s) (ftp_Close data_fd s);
       Some s
     }"

definition Put :: "string \<Rightarrow> string \<Rightarrow> ftp \<Rightarrow> (int \<times> ftp) option" where
  "Put strRemoteFile strLocalFile s =
     do {
       (r, s) \<leftarrow> put_open strRemoteFile strLocalFile s;
       case r of
         Inl e \<Rightarrow> Some (e, s)
       | Inr (data_fd, b) \<Rightarrow>
           do {
             (ok, _, s) \<leftarrow> put_loop data_fd b 0 s;
             if \<not> ok then Some (- 1, ftp_Close data_fd s)
             else do {
               s \<leftarrow> put_close data_fd s;
               Some (0, s)
             }
           }
     }"

definition Put64 :: "string \<Rightarrow> string \<Rightarrow> int \<Rightarrow> ftp \<Rightarrow> (int \<times> int \<times> ftp) option" where
  "Put64 strRemoteFile strLocalFile uplen s =
     do {
       (r, s) \<leftarrow> put_open strRemoteFile strLocalFile s;
       case r of
         Inl e \<Rightarrow> Some (e, uplen, s)
       | Inr (data_fd, b) \<Rightarrow>
           do {
             (ok, n, s) \<leftarrow> put_loop data_fd b 0 s;
             if \<not> ok then Some (- 1, int n, ftp_Close data_fd s)
             else do {
               s \<leftarrow> put_close data_fd s;
               Some (0, int n, s)
             }
           }
     }"

end
