(* ===== verification/FtpRun.thy ===== *)
theory FtpRun
  imports FtpTransfer "HOL-Library.Sublist"
begin

text \<open>
  Runs of the FTP client: the public operations of \<open>ftpClient\<close> in any order, with any replies of the kernel.

  The locale \<open>ftp_inv\<close> is the contract of a property of the client that depends on the commands, the login and the
  transmissions only: it is kept by every operation when it is kept by the few places that change
  these.  Two properties are instances: what is sent before a login, and that a login is never taken
  back.
\<close>

section \<open>What a computation leaves\<close>

definition post :: "(ftp \<Rightarrow> bool) \<Rightarrow> ('a \<times> ftp) option \<Rightarrow> bool" where
  "post P r \<longleftrightarrow> (\<forall>x s. r = Some (x, s) \<longrightarrow> P s)"

definition post0 :: "(ftp \<Rightarrow> bool) \<Rightarrow> ftp option \<Rightarrow> bool" where
  "post0 P r \<longleftrightarrow> (\<forall>s. r = Some s \<longrightarrow> P s)"

definition post2 :: "(ftp \<Rightarrow> bool) \<Rightarrow> ('a \<times> 'b \<times> ftp) option \<Rightarrow> bool" where
  "post2 P r \<longleftrightarrow> (\<forall>x y s. r = Some (x, y, s) \<longrightarrow> P s)"

lemmas post_defs = post_def post0_def post2_def

lemma post_simps [simp]:
  "post P None" "post0 P None" "post2 P None"
  "post P (Some (x, s)) = P s" "post0 P (Some s) = P s" "post2 P (Some (x, y, s)) = P s"
  by (simp_all add: post_defs)

lemma post_bind:
  "post P m \<Longrightarrow> (\<And>x s. P s \<Longrightarrow> post Q (g (x, s))) \<Longrightarrow> post Q (m \<bind> g)"
  "post P m \<Longrightarrow> (\<And>x s. P s \<Longrightarrow> post0 Q (g0 (x, s))) \<Longrightarrow> post0 Q (m \<bind> g0)"
  "post P m \<Longrightarrow> (\<And>x s. P s \<Longrightarrow> post2 Q (g2 (x, s))) \<Longrightarrow> post2 Q (m \<bind> g2)"
  by (auto simp: post_defs bind_eq_Some_conv)

lemma post0_bind:
  "post0 P n \<Longrightarrow> (\<And>s. P s \<Longrightarrow> post Q (h s)) \<Longrightarrow> post Q (n \<bind> h)"
  "post0 P n \<Longrightarrow> (\<And>s. P s \<Longrightarrow> post2 Q (h2 s)) \<Longrightarrow> post2 Q (n \<bind> h2)"
  by (auto simp: post_defs bind_eq_Some_conv)

lemma post2_bind:
  "post2 P k \<Longrightarrow> (\<And>x y s. P s \<Longrightarrow> post Q (l (x, y, s))) \<Longrightarrow> post Q (k \<bind> l)"
  "post2 P k \<Longrightarrow> (\<And>x y s. P s \<Longrightarrow> post2 Q (l2 (x, y, s))) \<Longrightarrow> post2 Q (k \<bind> l2)"
  by (auto simp: post_defs bind_eq_Some_conv)

lemma post_mono: "post P m \<Longrightarrow> (\<And>s. P s \<Longrightarrow> Q s) \<Longrightarrow> post Q m"
  by (auto simp: post_def)

section \<open>What most routines do not touch\<close>

definition core :: "ftp \<Rightarrow> (int \<times> byte list) list \<times> int \<times> string \<times> bool" where
  "core s = (wire s, m_nCurrentCommand s, m_commandStr s, m_bLogin s)"

locale framed =
  fixes P :: "ftp \<Rightarrow> bool"
  assumes frame: "core s' = core s \<Longrightarrow> P s \<Longrightarrow> P s'"
begin

lemmas keep_bind = post_bind [where P = P and Q = P] post0_bind [where P = P and Q = P] post2_bind [where P = P and Q = P]

lemma frame_eq: "core s' = core s \<Longrightarrow> P s' = P s"
  using frame [of s' s] frame [of s s'] by auto

lemma frame_updates [simp]:
  "P (s\<lparr>net := r\<rparr>) = P s" "P (s\<lparr>fds := f\<rparr>) = P s" "P (s\<lparr>dialled := d\<rparr>) = P s" "P (s\<lparr>disk := k\<rparr>) = P s"
  "P (s\<lparr>tick_reads := n\<rparr>) = P s" "P (s\<lparr>slept := sl\<rparr>) = P s" "P (s\<lparr>state_reads := v\<rparr>) = P s"
  "P (s\<lparr>m_strResponse := t\<rparr>) = P s" "P (s\<lparr>m_cmdSocket := c\<rparr>) = P s" "P (s\<lparr>m_strServerIP := t\<rparr>) = P s"
  "P (s\<lparr>m_nServerPort := c\<rparr>) = P s" "P (s\<lparr>m_strUserName := t\<rparr>) = P s" "P (s\<lparr>m_strPassWord := t\<rparr>) = P s"
  "P (s\<lparr>m_nDLMaxSize := c\<rparr>) = P s" "P (s\<lparr>m_nDownLoaded := c\<rparr>) = P s" "P (s\<lparr>m_pnDownState := b\<rparr>) = P s"
  by (rule frame_eq, simp add: core_def)+

lemma frame_sys_call: "P s \<Longrightarrow> post P (sys_call s)"
  by (simp add: sys_call_def split: list.split reply.split)

lemma frame_so_error: "P s \<Longrightarrow> post P (so_error s)"
  by (simp add: so_error_def split: list.split reply.split)

lemma frame_sys_socket: "P s \<Longrightarrow> post P (sys_socket s)"
  by (auto simp: sys_socket_def intro!: keep_bind frame_sys_call)

lemma frame_close [simp]: "P (sys_close fd s) = P s" "P (ftp_Close fd s) = P s"
  by (simp_all add: sys_close_def ftp_Close_def)

lemma frame_getData: "P s \<Longrightarrow> post2 P (getData fd n s)"
  by (auto simp: getData_def intro!: keep_bind frame_sys_call split: list.split reply.split)

lemma frame_resp_loop: "P s \<Longrightarrow> post0 P (resp_loop fd s)"
proof (induction fd s rule: resp_loop.induct)
  case (1 fd s)
  then have "post2 P (getData fd 260 s)" by (simp add: frame_getData)
  then show ?case using 1 by (subst resp_loop.simps) (auto simp: post2_def split: option.split)
qed

lemma frame_serverResponse: "P s \<Longrightarrow> post P (serverResponse fd s)"
  by (auto simp: serverResponse_def intro!: keep_bind frame_resp_loop)

lemma frame_take_response: "P s \<Longrightarrow> post P (take_response fd s)"
  by (auto simp: take_response_def intro!: keep_bind frame_serverResponse)

lemma frame_setblocking: "P s \<Longrightarrow> post P (ftp_setblocking fd b s)"
  by (auto simp: ftp_setblocking_def intro!: keep_bind frame_sys_call)

lemma frame_Connect: "P s \<Longrightarrow> post P (Connect fd ip p s)"
  by (auto simp: Connect_def intro!: keep_bind frame_setblocking frame_sys_call frame_so_error)

lemma frame_throttle [simp]: "P (throttle u n s) = P s"
  by (simp add: throttle_def GetTickCount_def Let_def)

lemma frame_fwrite [simp]: "P (fwrite f bs s) = P s"
  by (simp add: fwrite_def)

lemma frame_pause: "P s \<Longrightarrow> post P (pause s)"
  by (auto simp: pause_def post_def bind_eq_Some_conv neq_Nil_conv split: if_splits list.splits)

lemma frame_down_piece: "P s \<Longrightarrow> post P (down_piece pz f lim u n k bs s)"
  by (auto simp: down_piece_def Let_def intro!: frame_pause)

lemma frame_down_loop: "P s \<Longrightarrow> post P (down_loop pz fd f lim u n k s)"
proof (induction "length (net s)" arbitrary: n k s rule: less_induct)
  case less
  have s1: "P s1" if "getData fd n s = Some (len, bs, s1)" for len bs s1
    using frame_getData [OF less.prems, of fd n] that by (simp add: post2_def)
  have s2: "P s2" if "getData fd n s = Some (len, bs, s1)" "down_piece pz f lim u n m bs s1 = Some (b, s2)" for len bs s1 b s2 m
    using frame_down_piece [OF s1 [OF that(1)], of pz f lim u n m bs] that(2) by (simp add: post_def)
  have IH: "post P (down_loop pz fd f lim u (next_len lim n m) m s2)"
    if "getData fd n s = Some (len, bs, s1)" "0 < len" "down_piece pz f lim u n m bs s1 = Some (b, s2)" for len bs s1 b s2 m
    using getData_shorter [OF that(1,2)] down_piece_net [OF that(3)] s2 [OF that(1,3)] by (intro less.hyps) simp_all
  show ?case using IH s1 s2 by (subst down_loop.simps) (simp split: option.split)
qed

lemma frame_down_run: "P s \<Longrightarrow> post P (down_run pz fd f n lim s)"
  by (auto simp: down_run_def GetTickCount_def intro!: keep_bind frame_down_loop)

lemma frame_put_close: "P s \<Longrightarrow> post0 P (put_close fd s)"
  by (auto simp: put_close_def intro!: keep_bind frame_serverResponse)

end

section \<open>Properties of the commands\<close>

lemma send_loop_prefix: "send_loop rs b sent = Some (x, out, r) \<Longrightarrow> prefix out (sent @ b)"
proof (induction rs b sent rule: send_loop.induct)
  case (2 n rs b bs sent)
  then show ?case by (auto split: if_splits)
qed auto

abbreviation login_command :: "int \<Rightarrow> bool" where
  "login_command c \<equiv> c = FTP_COMMAND_USERNAME \<or> c = FTP_COMMAND_PASSWORD"

locale ftp_inv = framed I for I :: "ftp \<Rightarrow> bool" +
  assumes login: "I s \<Longrightarrow> I (s\<lparr>m_bLogin := True\<rparr>)"
    and command: "I s \<Longrightarrow> I (s\<lparr>m_nCurrentCommand := c, m_commandStr := command_line c x\<rparr>)"
    and send: "I s \<Longrightarrow> m_bLogin s \<or> login_command (m_nCurrentCommand s) \<and> prefix bs (bytes_of (m_commandStr s))
      \<Longrightarrow> I (s\<lparr>wire := wire s @ [(fd, bs)]\<rparr>)"
begin

lemma keeps_Send:
  assumes "I s" "m_bLogin s \<or> \<not> login_command (m_nCurrentCommand s) \<or> prefix bs (bytes_of (m_commandStr s))"
  shows "post I (Send fd bs s)"
proof -
  have "I (s1\<lparr>net := r, wire := wire s1 @ [(fd, sent)]\<rparr>)"
    if "sys_call s = Some (n, s1)" "send_loop (net s1) bs [] = Some (x, sent, r)"
      "m_bLogin s \<or> login_command (m_nCurrentCommand s)" for n s1 x sent r
  proof -
    have c: "core s1 = core s" using that(1) by (auto simp: sys_call_def core_def split: list.splits reply.splits)
    have "prefix sent bs" using send_loop_prefix [OF that(2)] by simp
    then have "I (s1\<lparr>wire := wire s1 @ [(fd, sent)]\<rparr>)"
      using assms that(3) c frame [OF c] by (intro send) (auto simp: core_def dest: prefix_order.trans)
    then show ?thesis by (rule frame [rotated]) (simp add: core_def)
  qed
  then have *: "post I (send_loop (net s1) bs [] \<bind> (\<lambda>(ret, sent, r). Some (ret, s1\<lparr>net := r, wire := wire s1 @ [(fd, sent)]\<rparr>)))"
    if "sys_call s = Some (n, s1)" "m_bLogin s \<or> login_command (m_nCurrentCommand s)" for n s1
    using that by (cases "send_loop (net s1) bs []") auto
  have "I s1" if "sys_call s = Some (n, s1)" for n s1
    using frame_sys_call [OF assms(1)] that by (simp add: post_def)
  then show ?thesis using assms(1) * by (cases "sys_call s") (auto simp: Send_def)
qed

lemma keeps_send_command: "I s \<Longrightarrow> post I (send_command c x s)"
  by (auto simp: send_command_def parseCommand_def Send_str_def Let_def bytes_of_def intro!: keeps_Send command)

lemma keeps_command_reply: "I s \<Longrightarrow> post I (command_reply c x s)"
  by (auto simp: command_reply_def intro!: keep_bind keeps_send_command frame_take_response)

lemma keeps_Pasv: "I s \<Longrightarrow> post I (Pasv s)"
  by (auto simp: Pasv_def intro!: keep_bind keeps_send_command frame_take_response)

lemma keeps_createDataLink: "I s \<Longrightarrow> post I (createDataLink fd s)"
  by (auto simp: createDataLink_def intro!: keep_bind keeps_Pasv frame_Connect split: option.split)

lemma keeps_login2Server: "I s \<Longrightarrow> post I (login2Server a s)"
  by (auto simp: login2Server_def Let_def intro!: keep_bind frame_sys_socket frame_Connect frame_take_response)

lemma keeps_inputUserName: "I s \<Longrightarrow> post I (inputUserName u s)"
  by (auto simp: inputUserName_def intro!: keeps_command_reply)

lemma keeps_inputPassWord: "I s \<Longrightarrow> post I (inputPassWord u s)"
  by (auto simp: inputPassWord_def intro!: keep_bind keeps_send_command frame_take_response login)

lemma keeps_quitServer: "I s \<Longrightarrow> post I (quitServer s)"
  by (auto simp: quitServer_def intro!: keeps_command_reply)

lemma keeps_CloseFtp: "I s \<Longrightarrow> I (CloseFtp s)"
  by (simp add: CloseFtp_def)

lemma keeps_PWD: "I s \<Longrightarrow> post I (PWD s)"
  by (auto simp: PWD_def intro!: keep_bind keeps_send_command frame_serverResponse)

lemma keeps_setTransferMode: "I s \<Longrightarrow> post I (setTransferMode m s)"
  by (auto simp: setTransferMode_def Send_str_def bytes_of_def
      intro!: keep_bind keeps_command_reply keeps_Send frame_take_response)

lemma keeps_Dir: "I s \<Longrightarrow> post I (Dir p s)"
  by (auto simp: Dir_def intro!: keep_bind frame_sys_socket keeps_createDataLink keeps_send_command
      frame_serverResponse frame_take_response)

lemma keeps_with_socket: "(\<And>s. I s \<Longrightarrow> post I (f s)) \<Longrightarrow> I s \<Longrightarrow> post I (with_socket f s)"
  by (simp add: with_socket_def)

lemma keeps_Rename: "I s \<Longrightarrow> post I (Rename a b s)"
  by (auto simp: Rename_def intro!: keeps_with_socket keep_bind keeps_send_command frame_serverResponse frame_take_response)

lemma keeps_getFileLength: "I s \<Longrightarrow> post I (getFileLength f s)"
  by (auto simp: getFileLength_def intro!: keeps_with_socket keep_bind keeps_send_command frame_take_response)

lemma keeps_simple:
  "I s \<Longrightarrow> post I (CD p s)" "I s \<Longrightarrow> post I (DeleteFile p s)" "I s \<Longrightarrow> post I (DeleteDirectory p s)"
  "I s \<Longrightarrow> post I (CreateDirectory p s)"
  by (auto simp: CD_def DeleteFile_def DeleteDirectory_def CreateDirectory_def
      intro!: keeps_with_socket keeps_command_reply)

lemma keeps_down_open: "I s \<Longrightarrow> post I (down_open cs a b p s)"
  by (auto simp: down_open_def Let_def fopen_ab_def createLocalFile_def
      intro!: keep_bind frame_sys_socket keeps_getFileLength keeps_createDataLink keeps_send_command frame_serverResponse
      split: prod.split option.split)

lemma keeps_downLoad: "I s \<Longrightarrow> post I (downLoad a b p l s)"
  by (auto simp: downLoad_def intro!: keep_bind keeps_down_open frame_down_run split: sum.split)

lemma keeps_downLoad64: "I s \<Longrightarrow> post2 I (downLoad64 a b d p l s)"
  by (auto simp: downLoad64_def intro!: keep_bind keeps_down_open frame_down_run split: sum.split)

end

text \<open>While a command other than a login is current, sending is refused or the client is logged in.\<close>

definition busy :: "(ftp \<Rightarrow> bool) \<Rightarrow> ftp \<Rightarrow> bool" where
  "busy P s \<longleftrightarrow> P s \<and> \<not> login_command (m_nCurrentCommand s)"

sublocale ftp_inv \<subseteq> busy: framed "busy I"
proof
  fix s s' :: ftp
  assume "core s' = core s" "busy I s"
  then show "busy I s'" using frame [of s' s] by (simp add: core_def busy_def)
qed

lemma sys_call_core: "sys_call s = Some (n, s') \<Longrightarrow> core s' = core s"
  by (auto simp: sys_call_def core_def split: list.splits reply.splits)

lemma Send_command: "Send fd bs s = Some (r, s') \<Longrightarrow> m_nCurrentCommand s' = m_nCurrentCommand s"
  using sys_call_core [of s]
  by (cases "sys_call s") (auto simp: Send_def bind_eq_Some_conv core_def split: if_splits)

lemma send_command_current:
  "send_command c x s = Some (r, s') \<Longrightarrow> FTP_COMMAND_BASE \<le> c \<Longrightarrow> c \<le> FTP_COMMAND_END \<Longrightarrow> m_nCurrentCommand s' = c"
  by (auto simp: send_command_def parseCommand_def Send_str_def Let_def dest!: Send_command split: if_splits)

context ftp_inv
begin

lemma busyD: "busy I s \<Longrightarrow> I s"
  by (simp add: busy_def)

lemma keeps_send_busy:
  assumes "I s" "FTP_COMMAND_BASE \<le> c" "c \<le> FTP_COMMAND_END" "\<not> login_command c"
  shows "post (busy I) (send_command c x s)"
  using keeps_send_command [OF assms(1), of c x] send_command_current [of c x s] assms by (auto simp: post_def busy_def)

lemma keeps_put_loop: "busy I s \<Longrightarrow> post2 (busy I) (put_loop fd b n s)"
proof (induction fd b n s rule: put_loop.induct)
  case (1 fd b n s)
  have "post (busy I) (Send fd (take 4096 b) s)"
    using keeps_Send [of s "take 4096 b" fd] Send_command [of fd "take 4096 b" s] 1(2) by (auto simp: post_def busy_def)
  then show ?case using 1 by (subst put_loop.simps) (auto simp: post_def split: option.split)
qed

text \<open>When the upload begins, the command of the upload is current.\<close>

definition put_ready :: "(int + int \<times> byte list) \<times> ftp \<Rightarrow> bool" where
  "put_ready r \<longleftrightarrow> I (snd r) \<and> (isl (fst r) \<or> busy I (snd r))"

lemma put_ready_bind:
  "post P m \<Longrightarrow> (\<And>x s. P s \<Longrightarrow> pred_option put_ready (g (x, s))) \<Longrightarrow> pred_option put_ready (m \<bind> g)"
  by (cases m) (auto simp: post_def)

lemma keeps_put_start: "I s \<Longrightarrow> pred_option put_ready (put_start fd n a c s)"
  by (auto simp: put_start_def put_ready_def
      intro!: put_ready_bind [where P = "busy I"] keeps_send_busy busy.frame_serverResponse) (simp_all add: busyD)

lemma keeps_put_open: "I s \<Longrightarrow> pred_option put_ready (put_open a b s)"
  by (auto simp: put_open_def put_ready_def [of "(Inl _, _)"]
      intro!: put_ready_bind [where P = I] keeps_getFileLength frame_sys_socket keeps_createDataLink keeps_put_start
      split: option.split)

lemma keeps_put_all:
  assumes "I s"
  shows "post I (Put a b s)" "post2 I (Put64 a b u s)"
proof -
  have I: "I s1" "post2 (busy I) (put_loop fd c n s1)" if "put_open a b s = Some (Inr (fd, c), s1)" for fd c n s1
    using keeps_put_open [OF assms, of a b] that keeps_put_loop [of s1 fd c n] by (auto simp: put_ready_def)
  have E: "I s1" if "put_open a b s = Some (Inl e, s1)" for e s1
    using keeps_put_open [OF assms, of a b] that by (auto simp: put_ready_def)
  have L: "post2 I (put_loop fd c n s1)" if "put_open a b s = Some (Inr (fd, c), s1)" for fd c n s1
    using I(2) [OF that, of n] by (auto simp: post2_def intro: busyD)
  show "post I (Put a b s)"
    using E L by (cases "put_open a b s") (auto simp: Put_def intro!: keep_bind frame_put_close split: sum.split)
  show "post2 I (Put64 a b u s)"
    using E L by (cases "put_open a b s") (auto simp: Put64_def intro!: keep_bind frame_put_close split: sum.split)
qed

end

section \<open>Runs\<close>

text \<open>The public operations of the class.\<close>

datatype ftp_op =
    Login2Server string | InputUserName string | InputPassWord string | QuitServer | OpCloseFtp | OpPWD
  | SetTransferMode int | OpPasv | OpDir string | OpCD string | OpDeleteFile string | OpDeleteDirectory string
  | OpCreateDirectory string | OpRename string string | GetLength string | CopyVariable
  | OpDownLoad string string int nat | OpDownLoad64 string string int int nat | OpPut string string | OpPut64 string string int

abbreviation state_of :: "('a \<times> ftp) option \<Rightarrow> ftp option" where "state_of \<equiv> map_option snd"
abbreviation state_of2 :: "('a \<times> 'b \<times> ftp) option \<Rightarrow> ftp option" where "state_of2 \<equiv> map_option (\<lambda>(_, _, s). s)"

fun ftp_exec :: "ftp_op \<Rightarrow> ftp \<Rightarrow> ftp option" where
  "ftp_exec (Login2Server a) s = state_of (login2Server a s)"
| "ftp_exec (InputUserName u) s = state_of (inputUserName u s)"
| "ftp_exec (InputPassWord p) s = state_of (inputPassWord p s)"
| "ftp_exec QuitServer s = state_of (quitServer s)"
| "ftp_exec OpCloseFtp s = Some (CloseFtp s)"
| "ftp_exec OpPWD s = state_of (PWD s)"
| "ftp_exec (SetTransferMode m) s = state_of (setTransferMode m s)"
| "ftp_exec OpPasv s = state_of (Pasv s)"
| "ftp_exec (OpDir p) s = state_of (Dir p s)"
| "ftp_exec (OpCD p) s = state_of (CD p s)"
| "ftp_exec (OpDeleteFile f) s = state_of (DeleteFile f s)"
| "ftp_exec (OpDeleteDirectory d) s = state_of (DeleteDirectory d s)"
| "ftp_exec (OpCreateDirectory d) s = state_of (CreateDirectory d s)"
| "ftp_exec (OpRename a b) s = state_of (Rename a b s)"
| "ftp_exec (GetLength f) s = state_of (getFileLength f s)"
| "ftp_exec CopyVariable s = Some (copyVariable s)"
| "ftp_exec (OpDownLoad a b p l) s = state_of (downLoad a b p l s)"
| "ftp_exec (OpDownLoad64 a b d p l) s = state_of2 (downLoad64 a b d p l s)"
| "ftp_exec (OpPut a b) s = state_of (Put a b s)"
| "ftp_exec (OpPut64 a b u) s = state_of2 (Put64 a b u s)"

text \<open>A run from \<open>s0\<close>; between two operations the kernel, the disk and the clock may change in any way.\<close>

inductive ftp_run :: "ftp \<Rightarrow> ftp \<Rightarrow> bool" for s0 where
  ftp_start: "ftp_run s0 s0"
| ftp_step: "ftp_run s0 s \<Longrightarrow> ftp_exec p s = Some s' \<Longrightarrow> ftp_run s0 s'"
| ftp_world: "ftp_run s0 s \<Longrightarrow> ftp_run s0 (s\<lparr>net := r, disk := d, state_reads := v, tick_reads := n\<rparr>)"

inductive_cases ftp_runE: "ftp_run s0 s"

context ftp_inv
begin

lemmas keeps_post =
  keeps_login2Server keeps_inputUserName keeps_inputPassWord keeps_quitServer keeps_PWD keeps_setTransferMode keeps_Pasv
  keeps_Dir keeps_simple keeps_Rename keeps_getFileLength keeps_downLoad keeps_downLoad64 keeps_put_all

lemma keeps_exec: "ftp_exec p s = Some s' \<Longrightarrow> I s \<Longrightarrow> I s'"
  by (cases p) (auto simp: copyVariable_def keeps_CloseFtp dest: keeps_post [unfolded post_def post2_def, rule_format])

lemma keeps_run: "ftp_run s0 s \<Longrightarrow> I s0 \<Longrightarrow> I s"
  by (induction rule: ftp_run.induct) (auto intro: keeps_exec)

end

text \<open>A client of which only the constructor has run, up to the call itself.\<close>

definition blank_ftp :: "reply list \<Rightarrow> ftp" where
  "blank_ftp rs =
     \<lparr>m_nDLMaxSize = 0, m_nDownLoaded = 0, m_strLocalDir = [], m_nDownLoadSpeed = 0, m_cmdSocket = 0, m_strUserName = [],
      m_strPassWord = [], m_strServerIP = [], m_nServerPort = 0, m_strResponse = [], m_commandStr = [], m_nCurrentCommand = 0,
      m_bLogin = False, m_pnDownState = False, net = rs, fds = [], wire = [], dialled = [], disk = Map.empty,
      readable = (\<lambda>_. True), writable = (\<lambda>_. True), tick = (\<lambda>_. 0), tick_reads = 0, slept = [], state_reads = []\<rparr>"

section \<open>What is sent before a login\<close>

definition login_piece :: "byte list \<Rightarrow> bool" where
  "login_piece p \<longleftrightarrow>
     (\<exists>x. prefix p (bytes_of (command_line FTP_COMMAND_USERNAME x)) \<or> prefix p (bytes_of (command_line FTP_COMMAND_PASSWORD x)))"

definition login_inv :: "ftp \<Rightarrow> bool" where
  "login_inv s \<longleftrightarrow> m_bLogin s \<or>
     list_all (\<lambda>(fd, p). login_piece p) (wire s)
     \<and> (login_command (m_nCurrentCommand s) \<longrightarrow>
          m_commandStr s = [] \<or> (\<exists>x. m_commandStr s = command_line (m_nCurrentCommand s) x))"

interpretation guarded: ftp_inv login_inv
proof
  fix s s' :: ftp
  assume "core s' = core s" "login_inv s"
  then show "login_inv s'" by (simp add: core_def login_inv_def)
next
  fix s fd bs
  assume "login_inv s" "m_bLogin s \<or> login_command (m_nCurrentCommand s) \<and> prefix bs (bytes_of (m_commandStr s))"
  then show "login_inv (s\<lparr>wire := wire s @ [(fd, bs)]\<rparr>)"
    by (auto simp: login_inv_def login_piece_def)
qed (auto simp: login_inv_def)

interpretation sticky: ftp_inv m_bLogin
  by unfold_locales (simp_all add: core_def)

text \<open>
  \<^bold>\<open>C13\<close>  Login guard: in every run of a new client, whatever operations are called in whatever order and whatever
  the kernel replies, as long as the client is not marked as logged in everything it has sent is (the
  beginning of) a \<open>USER\<close> or a \<open>PASS\<close> command.
\<close>

theorem login_guard:
  assumes "ftp_run (ftpClient_ctor s0) s" "wire s0 = []" "\<not> m_bLogin s" "(fd, p) \<in> set (wire s)"
  shows "\<exists>x. prefix p (bytes_of (command_line FTP_COMMAND_USERNAME x)) \<or> prefix p (bytes_of (command_line FTP_COMMAND_PASSWORD x))"
proof -
  have "login_inv (ftpClient_ctor s0)" using assms(2) by (simp add: login_inv_def ftpClient_ctor_def)
  then have "login_inv s" using guarded.keeps_run assms(1) by blast
  then show ?thesis using assms(3,4) by (auto simp: login_inv_def list_all_iff login_piece_def)
qed

theorem login_guard_witness:
  "\<exists>s. ftp_run (ftpClient_ctor (blank_ftp [Count 3, Count 0, Count 0, Count 0, Count 0, Count 1, Count 2, Fail EOTHER])) s
     \<and> wire s = [(3, bytes_of ''US'')] \<and> \<not> m_bLogin s
     \<and> (\<exists>x. prefix (bytes_of ''US'') (bytes_of (command_line FTP_COMMAND_USERNAME x))
          \<or> prefix (bytes_of ''US'') (bytes_of (command_line FTP_COMMAND_PASSWORD x)))"
proof -
  let ?b = "blank_ftp [Count 3, Count 0, Count 0, Count 0, Count 0, Count 1, Count 2, Fail EOTHER]"
  obtain s1 where s1: "ftp_exec (Login2Server ''h'') (ftpClient_ctor ?b) = Some s1" "m_cmdSocket s1 = 3" "wire s1 = []" "\<not> m_bLogin s1"
      "net s1 = [Count 1, Count 2, Fail EOTHER]"
    by (simp add: blank_ftp_def ftpClient_ctor_def login2Server_def sys_socket_def sys_call_def server_address_def Connect_def
        ftp_setblocking_def take_response_def serverResponse_def resp_loop.simps getData_def)
  obtain s2 where s2: "ftp_exec (InputUserName ''u'') s1 = Some s2" "wire s2 = [(3, bytes_of ''US'')]" "\<not> m_bLogin s2"
    using s1(2-5) by (simp add: inputUserName_def command_reply_def send_command_def parseCommand_def Send_str_def Send_def sys_call_def
        command_line_def command_word_def bytes_of_def crlf_def Let_def)
  have r: "ftp_run (ftpClient_ctor ?b) s2" using s1(1) s2(1) by (blast intro: ftp_run.intros)
  from login_guard [OF r _ s2(3), of 3 "bytes_of ''US''"] r s2 show ?thesis by (auto simp: blank_ftp_def)
qed

text \<open>
  A refused login counts as a login: when the password is sent, \<open>inputPassWord\<close> returns the code of the answer,
  whatever the answer is, and \<open>IsLogin\<close> is true from then on, in every later run, also after
  \<open>quitServer\<close> and \<open>CloseFtp\<close>.
\<close>

theorem refused_login_counts:
  assumes "m_cmdSocket s \<noteq> - 1" "portions ns (length (command_line FTP_COMMAND_PASSWORD w))" "net s = talk ns ts @ r" "text_pieces ts"
  shows "\<exists>s'. inputPassWord w s = Some (parseResponse (concat ts), s') \<and> (\<forall>s''. ftp_run s' s'' \<longrightarrow> IsLogin s'')"
proof -
  let ?s = "s\<lparr>m_strPassWord := w\<rparr>"
  have "send_command FTP_COMMAND_PASSWORD w ?s
      = Some (0, (sent_command FTP_COMMAND_PASSWORD w ?s)\<lparr>net := piece_replies (map bytes_of ts) @ Count 0 # r\<rparr>)"
    using assms by (intro talk_send) auto
  moreover have "serverResponse (m_cmdSocket s) ((sent_command FTP_COMMAND_PASSWORD w ?s)\<lparr>net := piece_replies (map bytes_of ts) @ Count 0 # r, m_bLogin := True\<rparr>)
      = Some (concat ts, (sent_command FTP_COMMAND_PASSWORD w ?s)\<lparr>net := r, m_bLogin := True, m_strResponse := concat ts\<rparr>)"
    using serverResponse_texts [OF assms(1) _ assms(4)] by simp
  ultimately obtain s' where "inputPassWord w s = Some (parseResponse (concat ts), s')" "m_bLogin s'"
    by (simp add: inputPassWord_def take_response_def sent_command_def)
  then show ?thesis using sticky.keeps_run by (auto simp: IsLogin_def)
qed

end
