(* ===== verification/FtpFlow.thy ===== *)
theory FtpFlow
  imports FtpRun
begin

text \<open>
  What the FTP client achieves: downloads that are resumed, limited, paused and stopped, and uploads, each with
  the whole conversation it needs.
\<close>

section \<open>Conversations of a transfer\<close>

text \<open>A conversation is the portions in which the command is accepted and the pieces of the answer.\<close>

type_synonym conversation = "int list \<times> string list"

abbreviation talks :: "conversation \<Rightarrow> reply list" where "talks k \<equiv> talk (fst k) (snd k)"
abbreviation said :: "conversation \<Rightarrow> string" where "said k \<equiv> concat (snd k)"

definition proper :: "int \<Rightarrow> string \<Rightarrow> conversation \<Rightarrow> bool" where
  "proper c x k \<longleftrightarrow> portions (fst k) (length (command_line c x)) \<and> text_pieces (snd k)"

definition connects :: "reply list \<Rightarrow> bool" where
  "connects cs \<longleftrightarrow> cs = [Count 0, Count 0, Count 0] \<or> cs = [Count 0, Fail EINPROGRESS, Count 1, SoError E0, Count 0]"

definition ends_data :: "reply list \<Rightarrow> bool" where
  "ends_data st \<longleftrightarrow> st = [Count 0] \<or> st = [Count 1, Data []] \<or> (\<exists>e. st = [Fail e] \<or> st = [Count 1, Fail e])"

abbreviation logged_in :: "ftp \<Rightarrow> bool" where
  "logged_in s \<equiv> m_cmdSocket s \<noteq> - 1 \<and> m_bLogin s"

lemma told_simps [simp]:
  "m_cmdSocket (told c x t r s) = m_cmdSocket s" "m_bLogin (told c x t r s) = m_bLogin s" "net (told c x t r s) = r"
  "disk (told c x t r s) = disk s" "fds (told c x t r s) = fds s" "readable (told c x t r s) = readable s"
  "writable (told c x t r s) = writable s" "m_strLocalDir (told c x t r s) = m_strLocalDir s"
  "m_nDownLoadSpeed (told c x t r s) = m_nDownLoadSpeed s" "m_pnDownState (told c x t r s) = m_pnDownState s"
  "dialled (told c x t r s) = dialled s" "slept (told c x t r s) = slept s" "state_reads (told c x t r s) = state_reads s"
  "wire (told c x t r s) = wire s @ [(m_cmdSocket s, bytes_of (command_line c x))]"
  by (simp_all add: told_def sent_command_def)

lemma told_net [simp]: "(told c x t r s)\<lparr>net := r'\<rparr> = told c x t r' s"
  by (simp add: told_def sent_command_def)

lemma proper_send:
  assumes "logged_in s" "FTP_COMMAND_BASE \<le> c" "c \<le> FTP_COMMAND_END" "proper c x k" "net s = talks k @ r"
  shows "send_command c x s = Some (0, (sent_command c x s)\<lparr>net := piece_replies (map bytes_of (snd k)) @ Count 0 # r\<rparr>)"
  using talk_send [where c = c and s = s and ns = "fst k" and x = x and ts = "snd k" and r = r] assms by (simp add: proper_def)

lemma proper_response:
  assumes "logged_in s" "proper c x k"
  shows "serverResponse (m_cmdSocket s) ((sent_command c x s)\<lparr>net := piece_replies (map bytes_of (snd k)) @ Count 0 # r\<rparr>)
     = Some (said k, told c x (said k) r s)"
  using talk_response [where s = s and ts = "snd k" and c = c and x = x and r = r] assms by (simp add: proper_def)

lemma proper_take_response:
  assumes "logged_in s" "proper c x k"
  shows "take_response (m_cmdSocket s) ((sent_command c x s)\<lparr>net := piece_replies (map bytes_of (snd k)) @ Count 0 # r\<rparr>)
     = Some (said k, told c x (said k) r s)"
  using proper_response [OF assms, of r] by (simp add: take_response_def told_def)

lemma sent_command_socket [simp]: "m_cmdSocket (sent_command c x s) = m_cmdSocket s"
  by (simp add: sent_command_def)

lemma Connect_ok:
  "connects cs \<Longrightarrow> fd \<noteq> - 1 \<Longrightarrow> net s = cs @ r
    \<Longrightarrow> Connect fd ip p s = Some (0, s\<lparr>net := r, dialled := dialled s @ [(fd, c_text ip, p mod 2 ^ 16)]\<rparr>)"
  by (auto simp: connects_def Connect_def ftp_setblocking_def sys_call_def so_error_def)

lemma atol_digits_rest: "n < 2 ^ 63 \<Longrightarrow> \<not> is_digit c \<Longrightarrow> atol (digits_of n @ c # r) = int n"
proof -
  assume n: "n < 2 ^ 63" and c: "\<not> is_digit c"
  obtain d ds where d: "digits_of n = d # ds" "is_digit d" using digits_of_Cons by blast
  have "digits_val (digits_of n @ c # r) = int n"
    using takeWhile_digits [OF c, of n r] by (simp add: digits_val_def foldl_digits)
  then have "atoi (digits_of n @ c # r) = int n"
    using d digit_not_space [OF d(2)] digit_not_sign [OF d(2)] by (simp add: atoi_def Let_def)
  then show ?thesis using n by (simp add: atol_def)
qed

text \<open>The answer to \<open>SIZE\<close>.\<close>

lemma getFileLength_answer:
  assumes "logged_in s" "proper FTP_COMMAND_FILE_SIZE f k" "said k = ''213 '' @ digits_of n @ crlf" "n < 2 ^ 63" "net s = talks k @ r"
  shows "getFileLength f s = Some (int n, told FTP_COMMAND_FILE_SIZE f (said k) r s)"
proof -
  have "atol (digits_of n @ crlf) = int n"
    using atol_digits_rest [OF assms(4), of "CHR 0x0D" "[CHR 0x0A]"] by (simp add: crlf_def is_digit_def)
  moreover have "atol ''213'' = 213" by (simp add: atol_def atoi_def is_space_def digits_val_def is_digit_def)
  ultimately show ?thesis
    using proper_send [OF assms(1) _ _ assms(2,5)] proper_take_response [OF assms(1,2), of r] assms(1,3)
    by (simp add: getFileLength_def with_socket_def)
qed

text \<open>The answer to \<open>PASV\<close>.\<close>

definition names_address :: "string \<Rightarrow> string \<Rightarrow> int \<Rightarrow> bool" where
  "names_address t ip port \<longleftrightarrow> (\<exists>pre h1 h2 h3 h4 p1 p2 post.
     t = pre @ ''('' @ pasv_fields [h1, h2, h3, h4, p1, p2] @ '')'' @ post
     \<and> CHR ''('' \<notin> set pre \<and> CHR '')'' \<notin> set pre \<and> length t < 2 ^ 63 \<and> p1 < 256 \<and> p2 < 256
     \<and> ip = dotted [h1, h2, h3, h4] \<and> port = 256 * int p1 + int p2)"

lemma digits_no_nul: "CHR 0x00 \<notin> set (digits_of n)"
  using digits_of_facts [of n] by (auto simp: list_all_iff is_digit_def)

lemma names_address_parse:
  assumes "names_address t ip port"
  shows "ParseString (SplitString (pasv_data t) '','') = Some (ip, port)" "c_text ip = ip" "0 \<le> port" "port < 2 ^ 16" "t \<noteq> []"
proof -
  from assms obtain pre h1 h2 h3 h4 p1 p2 post where
    t: "t = pre @ ''('' @ pasv_fields [h1, h2, h3, h4, p1, p2] @ '')'' @ post"
    and p: "CHR ''('' \<notin> set pre" "CHR '')'' \<notin> set pre" "length t < 2 ^ 63" "p1 < 256" "p2 < 256"
    and ip: "ip = dotted [h1, h2, h3, h4]" "port = 256 * int p1 + int p2"
    by (auto simp: names_address_def)
  have "length pre + length (pasv_fields [h1, h2, h3, h4, p1, p2]) + 2 < 2 ^ 63" using p(3) t by simp
  then show "ParseString (SplitString (pasv_data t) '','') = Some (ip, port)"
    using pasv_address [OF p(1,2) _ p(4,5)] t ip by simp
  show "c_text ip = ip" by (rule c_text_id) (simp add: ip(1) dotted_def digits_no_nul)
  show "0 \<le> port" "port < 2 ^ 16" using ip(2) p(4,5) by simp_all
  show "t \<noteq> []" using t by simp
qed

lemma createDataLink_answer:
  assumes "logged_in s" "proper FTP_COMMAND_PSAV_MODE [] k" "names_address (said k) ip port" "connects cs" "fd \<noteq> - 1"
    "net s = talks k @ cs @ r"
  shows "createDataLink fd s =
    Some (0, (told FTP_COMMAND_PSAV_MODE [] (said k) r s)\<lparr>dialled := dialled s @ [(fd, ip, port)]\<rparr>)"
proof -
  note a = names_address_parse [OF assms(3)]
  let ?s = "told FTP_COMMAND_PSAV_MODE [] (said k) (cs @ r) s"
  have "Pasv s = Some (said k, ?s)"
    using proper_send [OF assms(1) _ _ assms(2,6)] proper_take_response [OF assms(1,2), of "cs @ r"] by (simp add: Pasv_def)
  moreover have "port mod 2 ^ 32 = port" "port mod 2 ^ 16 = port" using a(3,4) by simp_all
  ultimately show ?thesis
    using a Connect_ok [OF assms(4,5), of ?s r ip port] assms(5) by (simp add: createDataLink_def)
qed

section \<open>Download\<close>

abbreviation local_path :: "string \<Rightarrow> ftp \<Rightarrow> string" where
  "local_path f s \<equiv> c_text (m_strLocalDir s @ f)"

abbreviation content :: "string \<Rightarrow> ftp \<Rightarrow> byte list" where
  "content p s \<equiv> case disk s p of None \<Rightarrow> [] | Some c \<Rightarrow> c"

text \<open>
  The conversations in front of a download: the length, the address of the data connection, the position and
  the file.
\<close>

record retrieval =
  size_talk :: conversation
  pasv_talk :: conversation
  connecting :: "reply list"
  rest_talk :: conversation
  retr_talk :: conversation
  address_of :: "string \<times> int"
  remote_size :: nat

definition opens :: "retrieval \<Rightarrow> string \<Rightarrow> nat \<Rightarrow> bool" where
  "opens d f pos \<longleftrightarrow>
     proper FTP_COMMAND_FILE_SIZE f (size_talk d) \<and> said (size_talk d) = ''213 '' @ digits_of (remote_size d) @ crlf
     \<and> remote_size d < 2 ^ 63
     \<and> proper FTP_COMMAND_PSAV_MODE [] (pasv_talk d) \<and> names_address (said (pasv_talk d)) (fst (address_of d)) (snd (address_of d))
     \<and> connects (connecting d)
     \<and> proper FTP_COMMAND_DOWNLOAD_POS (digits_of pos) (rest_talk d)
     \<and> proper FTP_COMMAND_DOWNLOAD_FILE f (retr_talk d)"

definition opening_replies :: "int \<Rightarrow> retrieval \<Rightarrow> reply list" where
  "opening_replies fd d =
     Count fd # talks (size_talk d) @ talks (pasv_talk d) @ connecting d @ talks (rest_talk d) @ talks (retr_talk d)"

text \<open>The state when all commands are answered.\<close>

definition opened :: "int \<Rightarrow> retrieval \<Rightarrow> string \<Rightarrow> nat \<Rightarrow> reply list \<Rightarrow> ftp \<Rightarrow> ftp" where
  "opened fd d f pos r s =
     s\<lparr>net := r, fds := fd # fds s, m_nDLMaxSize := int (remote_size d), dialled := dialled s @ [(fd, address_of d)],
       m_nCurrentCommand := FTP_COMMAND_DOWNLOAD_FILE, m_commandStr := command_line FTP_COMMAND_DOWNLOAD_FILE f,
       m_strResponse := said (retr_talk d),
       wire := wire s @ map (\<lambda>c. (m_cmdSocket s, bytes_of c))
         [command_line FTP_COMMAND_FILE_SIZE f, command_line FTP_COMMAND_PSAV_MODE [],
          command_line FTP_COMMAND_DOWNLOAD_POS (digits_of pos), command_line FTP_COMMAND_DOWNLOAD_FILE f]\<rparr>"

lemma down_open_opened:
  assumes "logged_in s" "0 \<le> fd" "net s = opening_replies fd d @ r" "opens d f (length (content p s))"
    "p = local_path g s" "readable s p"
  defines "s1 \<equiv> opened fd d f (length (content p s)) r s"
  shows "down_open (e1, e2, e3, e4, e5, e6) f g 0 s =
    (if atoi (said (retr_talk d)) = 550 then Some (Inl e4, s1)
     else if writable s p then Some (Inr (fd, p, int (length (content p s))), s1\<lparr>disk := (disk s)(p \<mapsto> content p s)\<rparr>)
     else Some (Inl (if disk s p = None then e6 else e5), s1))"
proof -
  note o = assms(4) [unfolded opens_def]
  let ?pos = "digits_of (length (content p s))"
  define r4 where "r4 = talks (retr_talk d) @ r"
  define r3 where "r3 = talks (rest_talk d) @ r4"
  define r2 where "r2 = talks (pasv_talk d) @ connecting d @ r3"
  define t0 where "t0 = s\<lparr>net := talks (size_talk d) @ r2, fds := fd # fds s\<rparr>"
  define t1 where "t1 = (told FTP_COMMAND_FILE_SIZE f (said (size_talk d)) r2 t0)\<lparr>m_nDLMaxSize := int (remote_size d)\<rparr>"
  define t2 where "t2 = (told FTP_COMMAND_PSAV_MODE [] (said (pasv_talk d)) r3 t1)\<lparr>dialled := dialled t1 @ [(fd, address_of d)]\<rparr>"
  define t3 where "t3 = told FTP_COMMAND_DOWNLOAD_POS ?pos (said (rest_talk d)) r4 t2"
  define t4 where "t4 = told FTP_COMMAND_DOWNLOAD_FILE f (said (retr_talk d)) r t3"
  have s0: "sys_socket s = Some (fd, t0)"
    using assms(2,3) by (simp add: sys_socket_def sys_call_def opening_replies_def t0_def r2_def r3_def r4_def)
  have s1: "getFileLength f t0 = Some (int (remote_size d), told FTP_COMMAND_FILE_SIZE f (said (size_talk d)) r2 t0)"
    using o assms(1) by (intro getFileLength_answer) (auto simp: t0_def)
  have s2: "createDataLink fd t1 = Some (0, t2)"
    using createDataLink_answer [of t1 "pasv_talk d" "fst (address_of d)" "snd (address_of d)" "connecting d" fd r3] o assms(1,2)
    by (auto simp: t1_def t2_def t0_def r2_def)
  have l: "logged_in t2" "net t2 = talks (rest_talk d) @ r4" "logged_in t3" "net t3 = talks (retr_talk d) @ r"
    using assms(1) by (simp_all add: t3_def t2_def t1_def t0_def r3_def r4_def)
  note s3 = proper_send [OF l(1) _ _ _ l(2)] proper_response [OF l(1)]
  note s4 = proper_send [OF l(3) _ _ _ l(4)] proper_response [OF l(3)]
  have size: "GetLocalFileSize p t1 = (case disk s p of None \<Rightarrow> - 1 | Some c \<Rightarrow> int (length c))"
    using assms(6) by (simp add: GetLocalFileSize_def fopen_rb_def t1_def t0_def)
  have t4: "t4 = s1" by (simp add: t4_def t3_def t2_def t1_def t0_def s1_def opened_def told_def sent_command_def)
  have p: "c_text (m_strLocalDir t0 @ g) = p" by (simp add: t0_def assms(5))
  have w: "writable t4 = writable s" "disk t4 = disk s" by (simp_all add: t4 s1_def opened_def)
  have strPos: "(if GetLocalFileSize p t1 \<ge> 0 then print_int (GetLocalFileSize p t1) else print_int 0) = ?pos"
    by (simp add: size print_int_def split: option.split)
  have c1: "send_command FTP_COMMAND_DOWNLOAD_POS ?pos t2 \<bind> (\<lambda>(ret, s). if ret < 0 then Some (x, s) else
      serverResponse (m_cmdSocket s) s \<bind> (\<lambda>(_, s). k s)) = k t3" for x k
    using s3(1) [of FTP_COMMAND_DOWNLOAD_POS ?pos] s3(2) [of FTP_COMMAND_DOWNLOAD_POS ?pos "rest_talk d" r4] o by (simp add: t3_def)
  have c2: "send_command FTP_COMMAND_DOWNLOAD_FILE f t3 \<bind> (\<lambda>(ret, s). if ret < 0 then Some (x, s) else
      serverResponse (m_cmdSocket s) s \<bind> (\<lambda>(t, s). k t s)) = k (said (retr_talk d)) t4" for x k
    using s4(1) [of FTP_COMMAND_DOWNLOAD_FILE f] s4(2) [of FTP_COMMAND_DOWNLOAD_FILE f "retr_talk d" r] o by (simp add: t4_def)
  have "down_open (e1, e2, e3, e4, e5, e6) f g 0 s =
    (if atoi (said (retr_talk d)) = 550 then Some (Inl e4, t4)
     else if GetLocalFileSize p t1 \<ge> 0
     then (case fopen_ab p t4 of None \<Rightarrow> Some (Inl e5, t4) | Some s \<Rightarrow> Some (Inr (fd, p, GetLocalFileSize p t1), s))
     else (case createLocalFile p t4 of None \<Rightarrow> Some (Inl e6, t4) | Some s \<Rightarrow> Some (Inr (fd, p, 0), s)))"
    using assms(2) by (simp add: down_open_def s0 s1 p t1_def [symmetric] s2 Let_def strPos c1 c2 cong: if_cong option.case_cong split del: if_split)
  then show ?thesis unfolding t4 [symmetric]
    by (cases "disk s p"; cases "writable s p") (simp_all add: size fopen_ab_def createLocalFile_def w)
qed

section \<open>The loop of a download\<close>

definition kept :: "ftp \<Rightarrow> int list \<times> (int \<times> byte list) list \<times> (int \<times> string \<times> int) list \<times> int \<times> bool \<times> bool" where
  "kept s = (fds s, wire s, dialled s, m_cmdSocket s, m_bLogin s, m_pnDownState s)"

lemma kept_updates [simp]:
  "kept (s\<lparr>m_nDownLoaded := c\<rparr>) = kept s" "kept (s\<lparr>disk := d\<rparr>) = kept s" "kept (s\<lparr>net := r\<rparr>) = kept s"
  "kept (s\<lparr>tick_reads := n\<rparr>) = kept s" "kept (s\<lparr>slept := sl\<rparr>) = kept s" "kept (s\<lparr>state_reads := v\<rparr>) = kept s"
  by (simp_all add: kept_def)

lemma throttle_keeps [simp]:
  "disk (throttle u n s) = disk s" "m_nDownLoaded (throttle u n s) = m_nDownLoaded s" "kept (throttle u n s) = kept s"
  "m_pnDownState (throttle u n s) = m_pnDownState s" "state_reads (throttle u n s) = state_reads s"
  by (simp_all add: throttle_def GetTickCount_def Let_def)

lemma getData_keeps:
  "getData fd n s = Some (len, bs, s') \<Longrightarrow>
     disk s' = disk s \<and> m_nDownLoaded s' = m_nDownLoaded s \<and> kept s' = kept s \<and> length bs \<le> n"
  by (auto simp: getData_def sys_call_def bind_eq_Some_conv split: if_splits list.splits reply.splits)

lemma pause_keeps:
  "pause s = Some (b, s') \<Longrightarrow> disk s' = disk s \<and> m_nDownLoaded s' = m_nDownLoaded s \<and> kept s' = kept s"
  by (auto simp: pause_def bind_eq_Some_conv neq_Nil_conv split: if_splits list.splits)

text \<open>What one piece leaves, whatever the clock and the other thread do.\<close>

lemma down_piece_keeps:
  assumes "down_piece pz p lim u n k bs s = Some (b, s')"
  shows "disk s' = (disk s)(p \<mapsto> content p s @ bs)" "m_nDownLoaded s' = m_nDownLoaded s + int (length bs)" "kept s' = kept s"
    "8 \<le> n" "k = lim \<and> lim \<noteq> 0 \<Longrightarrow> b"
  using assms
  by (auto simp: down_piece_def Let_def fwrite_def dest!: pause_keeps split: if_splits)

text \<open>Whatever the kernel replies, a download that returns has appended what it counts.\<close>

definition appended :: "string \<Rightarrow> nat \<Rightarrow> ftp \<Rightarrow> ftp \<Rightarrow> bool" where
  "appended p k s s' \<longleftrightarrow>
     (\<exists>bs. length bs = k \<and> disk s' = (disk s)(p \<mapsto> content p s @ bs)) \<and> m_nDownLoaded s' = m_nDownLoaded s + int k \<and> kept s' = kept s"

lemma appended_trans:
  assumes "appended p k s s1" "appended p l s1 s2"
  shows "appended p (k + l) s s2"
proof -
  from assms obtain a b where "length a = k" "disk s1 = (disk s)(p \<mapsto> content p s @ a)" "length b = l"
    "disk s2 = (disk s1)(p \<mapsto> content p s1 @ b)" by (auto simp: appended_def)
  then have "length (a @ b) = k + l \<and> disk s2 = (disk s)(p \<mapsto> content p s @ a @ b)" by simp
  moreover have "m_nDownLoaded s2 = m_nDownLoaded s + int (k + l)" "kept s2 = kept s" using assms by (simp_all add: appended_def)
  ultimately show ?thesis unfolding appended_def by blast
qed

lemma down_loop_appends:
  assumes "down_loop pz fd p lim u n k s = Some (m, s')" "lim \<noteq> 0 \<longrightarrow> k + n \<le> lim" "disk s p \<noteq> None"
  shows "k \<le> m \<and> appended p (m - k) s s' \<and> (lim \<noteq> 0 \<longrightarrow> m \<le> lim)"
  using assms
proof (induction "length (net s)" arbitrary: n k s rule: less_induct)
  case less
  obtain old where old: "disk s p = Some old" using less.prems(3) by blast
  obtain len bs s1 where g: "getData fd n s = Some (len, bs, s1)"
    using less.prems(1) by (subst (asm) down_loop.simps) (auto split: option.splits)
  note gk = getData_keeps [OF g]
  show ?case
  proof (cases "len \<le> 0")
    case True
    then have "m = k" "s' = s1" using less.prems(1) g by (subst (asm) down_loop.simps, simp)+
    then show ?thesis using gk old less.prems(2) by (auto simp: appended_def fun_upd_idem_iff)
  next
    case len: False
    define k1 where "k1 = k + length bs"
    obtain stop s2 where d: "down_piece pz p lim u n k1 bs s1 = Some (stop, s2)"
      using less.prems(1) g len by (subst (asm) down_loop.simps) (auto simp: k1_def split: option.splits)
    note dk = down_piece_keeps [OF d]
    have a: "appended p (length bs) s s2" using gk dk old by (auto simp: appended_def)
    have k1: "lim \<noteq> 0 \<longrightarrow> k1 \<le> lim" using gk less.prems(2) by (auto simp: k1_def)
    show ?thesis
    proof (cases stop)
      case True
      then have "m = k1" "s' = s2" using less.prems(1) g len d by (subst (asm) down_loop.simps, simp add: k1_def)+
      then show ?thesis using a k1 by (simp add: k1_def)
    next
      case False
      then have e: "down_loop pz fd p lim u (next_len lim n k1) k1 s2 = Some (m, s')"
        using less.prems(1) g len d by (subst (asm) down_loop.simps) (simp add: k1_def)
      have "length (net s2) < length (net s)" using getData_shorter [OF g] len down_piece_net [OF d] by simp
      from less.hyps [OF this e] have "k1 \<le> m \<and> appended p (m - k1) s2 s' \<and> (lim \<noteq> 0 \<longrightarrow> m \<le> lim)"
        using k1 dk(1) by (simp add: next_len_def)
      then show ?thesis using appended_trans [OF a, of "m - k1" s'] by (simp add: k1_def)
    qed
  qed
qed

text \<open>A block of fewer than eight bytes is overrun by the first piece.\<close>

lemma down_loop_small:
  assumes "down_loop pz fd p lim u n k s = Some (m, s')" "n < 8"
  shows "m = k"
proof -
  have "down_piece pz p lim u n j bs s1 = None" for j bs s1 using assms(2) by (simp add: down_piece_def Let_def)
  then show ?thesis using assms(1) by (subst (asm) down_loop.simps) (auto split: option.splits if_splits)
qed


text \<open>One piece of a download without a limit that is not controlled.\<close>

lemma down_piece_next:
  assumes "\<not> pz \<or> \<not> m_pnDownState s" "8 \<le> n"
  shows "\<exists>s'. down_piece pz p 0 u n k bs s = Some (False, s')"
  using assms by (auto simp: down_piece_def pause_def Let_def fwrite_def)

lemma getData_end:
  "fd \<noteq> - 1 \<Longrightarrow> ends_data st \<Longrightarrow> net s = st @ r \<Longrightarrow> \<exists>n \<le> 0. getData fd k s = Some (n, [], s\<lparr>net := r\<rparr>)"
  by (auto simp: ends_data_def getData_def sys_call_def)

lemma down_loop_pieces:
  assumes "fd \<noteq> - 1" "ends_data st"
  shows "\<not> pz \<or> \<not> m_pnDownState s \<Longrightarrow> list_all (\<lambda>b. b \<noteq> [] \<and> length b \<le> 4096) ps \<Longrightarrow> net s = piece_replies ps @ st @ r
    \<Longrightarrow> disk s p = Some old
    \<Longrightarrow> \<exists>s'. down_loop pz fd p 0 u 4096 k s = Some (k + length (concat ps), s') \<and> disk s' = (disk s)(p \<mapsto> old @ concat ps)
      \<and> m_nDownLoaded s' = m_nDownLoaded s + int (length (concat ps)) \<and> kept s' = kept s \<and> net s' = r"
proof (induction ps arbitrary: k s old)
  case Nil
  obtain n where "n \<le> 0" "getData fd 4096 s = Some (n, [], s\<lparr>net := r\<rparr>)" using getData_end [OF assms, of s r 4096] Nil(3) by auto
  then show ?case using Nil(4) by (subst down_loop.simps) auto
next
  case (Cons b ps)
  let ?s = "s\<lparr>net := piece_replies ps @ st @ r\<rparr>"
  have g: "getData fd 4096 s = Some (int (length b), b, ?s)" "b \<noteq> []"
    using getData_piece [OF assms(1), of s b] Cons.prems(2,3) by simp_all
  obtain s1 where d: "down_piece pz p 0 u 4096 (k + length b) b ?s = Some (False, s1)"
    using down_piece_next [of pz ?s] Cons.prems(1) by fastforce
  note dk = down_piece_keeps [OF d]
  have e: "down_loop pz fd p 0 u 4096 k s = down_loop pz fd p 0 u 4096 (k + length b) s1"
    using g d by (subst down_loop.simps) (simp add: next_len_def)
  have "\<not> pz \<or> \<not> m_pnDownState s1" "disk s1 p = Some (old @ b)" using dk Cons.prems(1,4) by (auto simp: kept_def)
  moreover have "list_all (\<lambda>b. b \<noteq> [] \<and> length b \<le> 4096) ps" "net s1 = piece_replies ps @ st @ r"
    using Cons.prems(2) down_piece_net [OF d] by simp_all
  ultimately obtain s' where s': "down_loop pz fd p 0 u 4096 (k + length b) s1 = Some (k + length b + length (concat ps), s')"
    "disk s' = (disk s1)(p \<mapsto> (old @ b) @ concat ps)" "m_nDownLoaded s' = m_nDownLoaded s1 + int (length (concat ps))"
    "kept s' = kept s1" "net s' = r" using Cons.IH [of s1 "old @ b" "k + length b"] by blast
  have "disk s' = (disk s)(p \<mapsto> old @ concat (b # ps))" by (simp add: s'(2) dk(1) Cons.prems(4))
  then show ?case using s' dk(2,3) by (simp add: e fun_upd_def)
qed

lemma down_run_pieces:
  assumes "0 \<le> fd" "ends_data st" "\<not> pz \<or> \<not> m_pnDownState s" "list_all (\<lambda>b. b \<noteq> [] \<and> length b \<le> 4096) ps"
    "net s = piece_replies ps @ st @ r" "disk s p = Some old"
  shows "\<exists>s'. down_run pz fd p start 0 s = Some (length (concat ps), s') \<and> disk s' = (disk s)(p \<mapsto> old @ concat ps)
    \<and> m_nDownLoaded s' = start + int (length (concat ps)) \<and> fds s' = remove1 fd (fds s) \<and> wire s' = wire s
    \<and> dialled s' = dialled s \<and> net s' = r"
proof -
  let ?s = "s\<lparr>tick_reads := Suc (tick_reads s), m_nDownLoaded := start\<rparr>"
  obtain s1 where "down_loop pz fd p 0 (tick s (tick_reads s)) 4096 0 ?s = Some (length (concat ps), s1)"
    "disk s1 = (disk s)(p \<mapsto> old @ concat ps)" "m_nDownLoaded s1 = start + int (length (concat ps))" "kept s1 = kept s" "net s1 = r"
    using down_loop_pieces [of fd st pz ?s ps r p old "tick s (tick_reads s)" 0] assms by (auto simp: kept_def)
  then show ?thesis by (auto simp: down_run_def GetTickCount_def Let_def ftp_Close_def sys_close_def kept_def)
qed

text \<open>
  \<^bold>\<open>C11\<close>  A download is resumed where the local file ends.  For every server that answers the four commands,
  in whatever pieces, and then sends the data in pieces of at most 4096 bytes: \<open>Get\<close> asks for the
  position behind the local file (zero when there is none), connects to the address of the reply to \<open>PASV\<close>,
  returns the number of bytes received, and leaves a file that is the old content followed by the data.  No other
  file changes, and the data connection is closed.  The second version of \<open>Get\<close> does the same and also
  reports the length.  When the server has no such file, the first version returns \<open>-3\<close> and the descriptor of
  the data connection stays open.
\<close>

theorem Get_resumes:
  assumes "logged_in s" "0 \<le> fd" "net s = opening_replies fd d @ piece_replies ps @ st @ r"
    "p = local_path g s" "opens d f (length (content p s))" "readable s p" "writable s p"
    "ends_data st" "list_all (\<lambda>b. b \<noteq> [] \<and> length b \<le> 4096) ps"
  shows "if atoi (said (retr_talk d)) = 550
    then \<exists>s'. Get f g s = Some (- 3, s') \<and> fds s' = fd # fds s \<and> disk s' = disk s
    else \<exists>s'. Get f g s = Some (positive_code (length (concat ps)), s') \<and> disk s' = (disk s)(p \<mapsto> content p s @ concat ps)
      \<and> fds s' = fds s \<and> dialled s' = dialled s @ [(fd, address_of d)]
      \<and> (m_cmdSocket s, bytes_of (command_line FTP_COMMAND_DOWNLOAD_POS (digits_of (length (content p s))))) \<in> set (wire s')
      \<and> (\<not> m_pnDownState s \<longrightarrow>
           map_option (\<lambda>(c, n, t). (c, n, disk t)) (Get64 f g x s) = Some (positive_code (length (concat ps)), int (length (concat ps)), disk s'))"
proof -
  note o = down_open_opened [OF assms(1,2,3,5,4,6)]
  let ?r = "piece_replies ps @ st @ r"
  define s1 where "s1 = (opened fd d f (length (content p s)) ?r s)\<lparr>disk := (disk s)(p \<mapsto> content p s)\<rparr>"
  have s1: "net s1 = piece_replies ps @ st @ r" "disk s1 p = Some (content p s)" "fds s1 = fd # fds s" "m_pnDownState s1 = m_pnDownState s"
    "disk s1 = (disk s)(p \<mapsto> content p s)" "dialled s1 = dialled s @ [(fd, address_of d)]"
    "(m_cmdSocket s, bytes_of (command_line FTP_COMMAND_DOWNLOAD_POS (digits_of (length (content p s))))) \<in> set (wire s1)"
    by (simp_all add: s1_def opened_def)
  have run: "\<exists>s'. down_run pz fd p (int (length (content p s))) 0 s1 = Some (length (concat ps), s')
      \<and> disk s' = (disk s1)(p \<mapsto> content p s @ concat ps) \<and> fds s' = fds s \<and> wire s' = wire s1 \<and> dialled s' = dialled s1"
    if "\<not> pz \<or> \<not> m_pnDownState s" for pz
    using down_run_pieces [OF assms(2,8) _ assms(9) s1(1,2), of pz "int (length (content p s))"] that s1(3,4) by auto
  show ?thesis
  proof (cases "atoi (said (retr_talk d)) = 550")
    case True
    then show ?thesis using o by (simp add: Get_def downLoad_def opened_def)
  next
    case False
    have op: "down_open (a, b, c, e, h, i) f g 0 s = Some (Inr (fd, p, int (length (content p s))), s1)" for a b c e h i
      using o [of a b c e h i] False assms(7) by (simp add: s1_def)
    obtain s2 where s2: "down_run False fd p (int (length (content p s))) 0 s1 = Some (length (concat ps), s2)"
      "disk s2 = (disk s1)(p \<mapsto> content p s @ concat ps)" "fds s2 = fds s" "wire s2 = wire s1" "dialled s2 = dialled s1"
      using run [of False] by auto
    have "map_option (\<lambda>(c, n, t). (c, n, disk t)) (Get64 f g x s) = Some (positive_code (length (concat ps)), int (length (concat ps)), disk s2)"
      if "\<not> m_pnDownState s"
      using run [of True] that s2(2) by (auto simp: Get64_def downLoad64_def op)
    then show ?thesis using False s2 s1(5-7) by (simp add: Get_def downLoad_def op)
  qed
qed

section \<open>Pausing and stopping\<close>

text \<open>The readings while the controlling thread holds the state \<open>1\<close> for \<open>j\<close> rounds.\<close>

definition paused_reads :: "nat \<Rightarrow> int list" where
  "paused_reads j = concat (replicate j [1, 1])"

lemma pause_loop_paused: "pause_loop (paused_reads j @ vs) sl = pause_loop vs (sl @ replicate j 1000)"
  by (induction j arbitrary: sl) (simp_all add: paused_reads_def)

lemma pause_loop_forever: "pause_loop (paused_reads j) sl = None"
  using pause_loop_paused [of j "[]" sl] by simp

text \<open>
  Control of a download: when the observed state is \<open>1\<close> for \<open>j\<close> rounds after a piece, the loop of \<open>downLoad64\<close>
  sleeps that often; when the state then is \<open>2\<close>, it ends at once with what has been received, whatever else
  the server sends; when it is \<open>0\<close>, the download goes on.  While the state stays \<open>1\<close> the routine does not
  return.
\<close>

theorem pause_and_stop:
  assumes "fd \<noteq> - 1" "net s = Count 1 # Data b # r" "b \<noteq> []" "length b \<le> n" "8 \<le> n" "m_pnDownState s" "m_nDownLoadSpeed s = 0"
    "t = s\<lparr>net := r, m_nDownLoaded := m_nDownLoaded s + int (length b), disk := (disk s)(p \<mapsto> content p s @ b),
      state_reads := vs, slept := slept s @ replicate j 1000\<rparr>"
  shows "(state_reads s = paused_reads j @ [2, 2, 2] @ vs \<longrightarrow> down_loop True fd p 0 u n k s = Some (k + length b, t))
    \<and> (state_reads s = paused_reads j @ [0, 0] @ vs \<longrightarrow>
         down_loop True fd p 0 u n k s = down_loop True fd p 0 u n (k + length b) t)
    \<and> (state_reads s = paused_reads j \<longrightarrow> down_loop True fd p 0 u n k s = None)"
proof -
  let ?s = "s\<lparr>net := r\<rparr>"
  have g: "getData fd n s = Some (int (length b), b, ?s)" using getData_piece [OF assms(1-4)] .
  have d: "down_piece True p 0 u n (k + length b) b ?s =
      pause (s\<lparr>net := r, m_nDownLoaded := m_nDownLoaded s + int (length b), disk := (disk s)(p \<mapsto> content p s @ b)\<rparr>)"
    using assms(5,7) by (simp add: down_piece_def fwrite_def throttle_def Let_def)
  have l: "down_loop True fd p 0 u n k s =
      (case down_piece True p 0 u n (k + length b) b ?s of
         None \<Rightarrow> None
       | Some (stop, s2) \<Rightarrow> if stop then Some (k + length b, s2) else down_loop True fd p 0 u n (k + length b) s2)"
    using g assms(3) by (subst down_loop.simps) (simp add: next_len_def split: option.split)
  have 2: "pause_loop (paused_reads j @ [2, 2, 2] @ vs) (slept s) = Some (2 # vs, slept s @ replicate j 1000)"
    and 0: "pause_loop (paused_reads j @ [0, 0] @ vs) (slept s) = Some (0 # vs, slept s @ replicate j 1000)"
    by (simp_all add: pause_loop_paused)
  have "state_reads s = paused_reads j @ [2, 2, 2] @ vs \<longrightarrow> down_loop True fd p 0 u n k s = Some (k + length b, t)"
    using assms(6,8) 2 by (auto simp: l d pause_def)
  moreover have "state_reads s = paused_reads j @ [0, 0] @ vs \<longrightarrow>
      down_loop True fd p 0 u n k s = down_loop True fd p 0 u n (k + length b) t"
    using assms(6,8) 0 by (auto simp: l d pause_def)
  moreover have "state_reads s = paused_reads j \<longrightarrow> down_loop True fd p 0 u n k s = None"
    using assms(6) by (auto simp: l d pause_def pause_loop_forever)
  ultimately show ?thesis by blast
qed

section \<open>Upload\<close>

text \<open>The pieces in which a file is sent: blocks of 4096 bytes and a shorter, possibly empty, last one.\<close>

function put_chunks :: "byte list \<Rightarrow> byte list list" where
  "put_chunks b = (if length b < 4096 then [b] else take 4096 b # put_chunks (drop 4096 b))"
  by pat_completeness auto
termination
  by (relation "measure length") auto

declare put_chunks.simps [simp del]

lemma concat_put_chunks [simp]: "concat (put_chunks b) = b"
  by (induction b rule: put_chunks.induct) (subst put_chunks.simps, simp)

text \<open>The replies when every piece is accepted in portions.\<close>

definition accepted :: "int list list \<Rightarrow> reply list" where
  "accepted nss = concat (map (\<lambda>ns. Count 1 # map Count ns) nss)"

lemma Send_portions:
  assumes "m_bLogin s" "portions ns (length b)" "net s = Count 1 # map Count ns @ r"
  shows "Send fd b s = Some (0, s\<lparr>net := r, wire := wire s @ [(fd, b)]\<rparr>)"
  using assms send_loop_portions [of ns b r "[]"] by (simp add: Send_def sys_call_def)

lemma put_loop_sends:
  "m_bLogin s \<Longrightarrow> list_all2 (\<lambda>ns c. portions ns (length c)) nss (put_chunks b) \<Longrightarrow> net s = accepted nss @ r
    \<Longrightarrow> put_loop fd b n s = Some (True, n + length b, s\<lparr>net := r, wire := wire s @ map (Pair fd) (put_chunks b)\<rparr>)"
proof (induction b arbitrary: nss n s rule: put_chunks.induct)
  case (1 b)
  show ?case
  proof (cases "length b < 4096")
    case True
    then have c: "put_chunks b = [b]" by (subst put_chunks.simps) simp
    then obtain ns where "nss = [ns]" "portions ns (length b)" using 1(3) by (auto simp: list_all2_Cons2)
    then show ?thesis
      using Send_portions [OF 1(2), of ns b r fd] 1(4) True c by (subst put_loop.simps) (simp add: accepted_def)
  next
    case False
    then have c: "put_chunks b = take 4096 b # put_chunks (drop 4096 b)" by (subst put_chunks.simps) simp
    then obtain ns nss' where n: "nss = ns # nss'" "portions ns (length (take 4096 b))"
      "list_all2 (\<lambda>ns c. portions ns (length c)) nss' (put_chunks (drop 4096 b))"
      using 1(3) by (auto simp: list_all2_Cons2)
    let ?s = "s\<lparr>net := accepted nss' @ r, wire := wire s @ [(fd, take 4096 b)]\<rparr>"
    have "Send fd (take 4096 b) s = Some (0, ?s)"
      using n 1(4) by (intro Send_portions [OF 1(2) n(2)]) (simp add: accepted_def)
    moreover have "put_loop fd (drop 4096 b) (n + 4096) ?s
        = Some (True, n + 4096 + length (drop 4096 b), ?s\<lparr>net := r, wire := wire ?s @ map (Pair fd) (put_chunks (drop 4096 b))\<rparr>)"
      using 1(2) False n(3) by (intro 1(1)) simp_all
    ultimately show ?thesis using False c by (subst put_loop.simps) simp
  qed
qed

text \<open>A server that has \<open>n\<close> bytes of the file, or does not know it.\<close>

definition answers_size :: "string \<Rightarrow> nat option \<Rightarrow> bool" where
  "answers_size t have_bytes \<longleftrightarrow>
     (case have_bytes of
        None \<Rightarrow> atol (take 3 t) \<noteq> 213
      | Some n \<Rightarrow> t = ''213 '' @ digits_of n @ crlf \<and> n < 2 ^ 63)"

lemma getFileLength_answers:
  assumes "logged_in s" "proper FTP_COMMAND_FILE_SIZE f k" "answers_size (said k) h" "net s = talks k @ r"
  shows "getFileLength f s = Some (case h of None \<Rightarrow> - 1 | Some n \<Rightarrow> int n, told FTP_COMMAND_FILE_SIZE f (said k) r s)"
proof (cases h)
  case None
  then show ?thesis
    using proper_send [OF assms(1) _ _ assms(2,4)] proper_take_response [OF assms(1,2), of r] assms(1,3)
    by (simp add: getFileLength_def with_socket_def answers_size_def)
next
  case (Some n)
  then show ?thesis using getFileLength_answer [OF assms(1,2) _ _ assms(4), of n] assms(3) by (simp add: answers_size_def)
qed

record storage =
  put_size_talk :: conversation
  put_pasv_talk :: conversation
  put_connecting :: "reply list"
  put_stor_talk :: conversation
  put_address :: "string \<times> int"
  put_remote :: "nat option"
  put_portions :: "int list list"
  put_done :: "string list"

abbreviation put_word :: "storage \<Rightarrow> int" where
  "put_word d \<equiv> if put_remote d = None then FTP_COMMAND_UPLOAD_FILE else FTP_COMMAND_APPEND_FILE"

definition stores :: "storage \<Rightarrow> string \<Rightarrow> byte list \<Rightarrow> bool" where
  "stores d f rest \<longleftrightarrow>
     proper FTP_COMMAND_FILE_SIZE f (put_size_talk d) \<and> answers_size (said (put_size_talk d)) (put_remote d)
     \<and> proper FTP_COMMAND_PSAV_MODE [] (put_pasv_talk d) \<and> names_address (said (put_pasv_talk d)) (fst (put_address d)) (snd (put_address d))
     \<and> connects (put_connecting d) \<and> proper (put_word d) f (put_stor_talk d)
     \<and> list_all2 (\<lambda>ns c. portions ns (length c)) (put_portions d) (put_chunks rest) \<and> text_pieces (put_done d)"

definition storage_replies :: "int \<Rightarrow> storage \<Rightarrow> reply list" where
  "storage_replies fd d =
     talks (put_size_talk d) @ Count fd # talks (put_pasv_talk d) @ put_connecting d @ talks (put_stor_talk d) @ accepted (put_portions d)
       @ Count 0 # piece_replies (map bytes_of (put_done d)) @ [Count 0]"

abbreviation put_rest :: "storage \<Rightarrow> byte list \<Rightarrow> byte list" where
  "put_rest d file \<equiv> case put_remote d of None \<Rightarrow> file | Some n \<Rightarrow> drop n file"

text \<open>The state when the server is ready for the data.\<close>

lemma put_open_ready:
  assumes "logged_in s" "0 \<le> fd" "net s = storage_replies fd d @ r" "readable s (local_path g s)" "disk s (local_path g s) = Some file"
    "stores d f (put_rest d file)"
  shows "\<exists>t. put_open f g s = Some (Inr (fd, put_rest d file), t)
    \<and> net t = accepted (put_portions d) @ Count 0 # piece_replies (map bytes_of (put_done d)) @ Count 0 # r
    \<and> wire t = wire s @ map (\<lambda>c. (m_cmdSocket s, bytes_of c))
        [command_line FTP_COMMAND_FILE_SIZE f, command_line FTP_COMMAND_PSAV_MODE [], command_line (put_word d) f]
    \<and> disk t = disk s \<and> fds t = fd # fds s \<and> logged_in t \<and> m_cmdSocket t = m_cmdSocket s"
proof -
  note o = assms(6) [unfolded stores_def]
  define r4 where "r4 = accepted (put_portions d) @ Count 0 # piece_replies (map bytes_of (put_done d)) @ Count 0 # r"
  define r3 where "r3 = talks (put_stor_talk d) @ r4"
  define r2 where "r2 = talks (put_pasv_talk d) @ put_connecting d @ r3"
  define t1 where "t1 = told FTP_COMMAND_FILE_SIZE f (said (put_size_talk d)) (Count fd # r2) s"
  define t2 where "t2 = t1\<lparr>net := r2, fds := fd # fds s\<rparr>"
  define t3 where "t3 = (told FTP_COMMAND_PSAV_MODE [] (said (put_pasv_talk d)) r3 t2)\<lparr>dialled := dialled t2 @ [(fd, put_address d)]\<rparr>"
  define t4 where "t4 = told (put_word d) f (said (put_stor_talk d)) r4 t3"
  let ?size = "case put_remote d of None \<Rightarrow> - 1 | Some n \<Rightarrow> int n"
  have s1: "getFileLength f s = Some (?size, t1)"
    unfolding t1_def using o assms(1,3) by (intro getFileLength_answers) (simp_all add: storage_replies_def r2_def r3_def r4_def)
  have fp: "fopen_rb (c_text (m_strLocalDir t1 @ g)) t1 = Some file" using assms(4,5) by (simp add: fopen_rb_def t1_def)
  have s2: "sys_socket t1 = Some (fd, t2)" using assms(2) by (simp add: sys_socket_def sys_call_def t1_def t2_def)
  have s3: "createDataLink fd t2 = Some (0, t3)"
    using createDataLink_answer [of t2 "put_pasv_talk d" "fst (put_address d)" "snd (put_address d)" "put_connecting d" fd r3] o assms(1,2)
    by (auto simp: t3_def t2_def t1_def r2_def)
  have l: "logged_in t3" "net t3 = talks (put_stor_talk d) @ r4" using assms(1) by (simp_all add: t3_def t2_def t1_def r3_def)
  have word: "(if ?size = - 1 then FTP_COMMAND_UPLOAD_FILE else FTP_COMMAND_APPEND_FILE) = put_word d"
    "(if ?size < 0 then file else drop (nat ?size) file) = put_rest d file" by (simp_all split: option.split)
  have "put_start fd ?size f file t3 = Some (Inr (fd, put_rest d file), t4)"
    unfolding put_start_def word t4_def
    using proper_send [OF l(1) _ _ _ l(2), of "put_word d" f] proper_response [OF l(1), of "put_word d" f "put_stor_talk d" r4] o l(1)
    by simp
  then have "put_open f g s = Some (Inr (fd, put_rest d file), t4)"
    using assms(2) by (simp add: put_open_def s1 fp s2 s3)
  then show ?thesis using assms(1) by (simp add: t4_def t3_def t2_def t1_def r4_def)
qed

lemma put_close_ok:
  assumes "fd \<noteq> - 1" "m_cmdSocket s \<noteq> - 1" "net s = Count 0 # piece_replies (map bytes_of ts) @ Count 0 # r" "text_pieces ts"
  shows "\<exists>s'. put_close fd s = Some s' \<and> disk s' = disk s \<and> wire s' = wire s \<and> fds s' = remove1 fd (fds s)"
proof -
  let ?r = "piece_replies (map bytes_of ts) @ Count 0 # r"
  have "serverResponse fd s = Some ([], s\<lparr>net := ?r, m_strResponse := []\<rparr>)"
    using serverResponse_texts [OF assms(1), of s "[]" ?r] assms(3) by (simp add: text_pieces_def)
  moreover have "serverResponse (m_cmdSocket s) (ftp_Close fd (s\<lparr>net := ?r, m_strResponse := []\<rparr>))
      = Some (concat ts, (ftp_Close fd (s\<lparr>net := ?r, m_strResponse := []\<rparr>))\<lparr>net := r, m_strResponse := concat ts\<rparr>)"
    using serverResponse_texts [OF assms(2) _ assms(4)] by (simp add: ftp_Close_def sys_close_def)
  ultimately show ?thesis by (simp add: put_close_def ftp_Close_def sys_close_def)
qed

text \<open>
  \<^bold>\<open>C12\<close>  An upload continues what the server has.  When the server answers \<open>SIZE\<close> with a length the file is appended to
  (\<open>APPE\<close>) from this position on, otherwise it is stored as a whole (\<open>STOR\<close>); the bytes handed to the data
  connection, in pieces that do not matter, are exactly the missing part of the local file.  Both versions return \<open>0\<close>,
  the second reports the length, no local file changes, and the data connection is closed.
\<close>

theorem Put_sends:
  assumes "logged_in s" "0 \<le> fd" "net s = storage_replies fd d @ r" "readable s (local_path g s)" "disk s (local_path g s) = Some file"
    "stores d f (put_rest d file)"
  shows "\<exists>s' parts. Put f g s = Some (0, s') \<and> Put64 f g x s = Some (0, int (length (put_rest d file)), s')
    \<and> wire s' = wire s @ map (\<lambda>c. (m_cmdSocket s, bytes_of c))
        [command_line FTP_COMMAND_FILE_SIZE f, command_line FTP_COMMAND_PSAV_MODE [], command_line (put_word d) f] @ map (Pair fd) parts
    \<and> concat parts = put_rest d file \<and> disk s' = disk s \<and> fds s' = fds s"
proof -
  obtain t where o: "put_open f g s = Some (Inr (fd, put_rest d file), t)"
    and t: "net t = accepted (put_portions d) @ Count 0 # piece_replies (map bytes_of (put_done d)) @ Count 0 # r"
      "wire t = wire s @ map (\<lambda>c. (m_cmdSocket s, bytes_of c))
        [command_line FTP_COMMAND_FILE_SIZE f, command_line FTP_COMMAND_PSAV_MODE [], command_line (put_word d) f]"
      "disk t = disk s" "fds t = fd # fds s" "logged_in t"
    using put_open_ready [OF assms] by blast
  let ?t = "t\<lparr>net := Count 0 # piece_replies (map bytes_of (put_done d)) @ Count 0 # r,
      wire := wire t @ map (Pair fd) (put_chunks (put_rest d file))\<rparr>"
  have l: "put_loop fd (put_rest d file) 0 t = Some (True, length (put_rest d file), ?t)"
    using put_loop_sends [OF _ _ t(1), of "put_rest d file" fd 0] t(5) assms(6) by (simp add: stores_def)
  obtain s' where "put_close fd ?t = Some s'" "disk s' = disk t" "wire s' = wire ?t" "fds s' = remove1 fd (fds t)"
    using put_close_ok [of fd ?t "put_done d" r] assms(2,6) t(5) by (auto simp: stores_def)
  then show ?thesis using t
    by (intro exI [of _ s'] exI [of _ "put_chunks (put_rest d file)"]) (simp add: Put_def Put64_def o l)
qed

section \<open>A sample server\<close>

text \<open>A client that is logged in and has the first two bytes of a file of five.\<close>

definition sample_client :: "reply list \<Rightarrow> ftp" where
  "sample_client rs =
     \<lparr>m_nDLMaxSize = 0, m_nDownLoaded = 0, m_strLocalDir = ''/tmp/'', m_nDownLoadSpeed = 0, m_cmdSocket = 3, m_strUserName = ''u'',
      m_strPassWord = ''p'', m_strServerIP = ''10.0.0.5'', m_nServerPort = 21, m_strResponse = [], m_commandStr = [],
      m_nCurrentCommand = FTP_COMMAND_PASSWORD, m_bLogin = True, m_pnDownState = False,
      net = rs, fds = [3], wire = [], dialled = [], disk = [''/tmp/a'' \<mapsto> [1, 2]], readable = (\<lambda>_. True), writable = (\<lambda>_. True),
      tick = (\<lambda>_. 0), tick_reads = 0, slept = [], state_reads = []\<rparr>"

definition sample_talk :: "int \<Rightarrow> string \<Rightarrow> string \<Rightarrow> conversation" where
  "sample_talk c x t = ([int (length (command_line c x))], [t])"

definition sample_pasv :: string where
  "sample_pasv = ''227 Entering Passive Mode '' @ ''('' @ pasv_fields [10, 0, 0, 5, 195, 80] @ '')'' @ crlf"

definition sample_retrieval :: retrieval where
  "sample_retrieval =
     \<lparr>size_talk = sample_talk FTP_COMMAND_FILE_SIZE ''a'' (''213 '' @ digits_of 5 @ crlf),
      pasv_talk = sample_talk FTP_COMMAND_PSAV_MODE [] sample_pasv,
      connecting = [Count 0, Fail EINPROGRESS, Count 1, SoError E0, Count 0],
      rest_talk = sample_talk FTP_COMMAND_DOWNLOAD_POS (digits_of 2) (''350 Restarting'' @ crlf),
      retr_talk = sample_talk FTP_COMMAND_DOWNLOAD_FILE ''a'' (''150 Opening'' @ crlf),
      address_of = (dotted [10, 0, 0, 5], 50000), remote_size = 5\<rparr>"

lemma proper_sample:
  "0 < length (command_line c x) \<Longrightarrow> t \<noteq> [] \<Longrightarrow> length t < 260 \<Longrightarrow> CHR 0x00 \<notin> set t \<Longrightarrow> proper c x (sample_talk c x t)"
  by (simp add: proper_def sample_talk_def portions_def text_pieces_def)

lemma command_line_Cons: "length (command_word c) \<ge> 3 \<Longrightarrow> 0 < length (command_line c x)"
  by (simp add: command_line_def crlf_def)

lemma sample_address: "names_address sample_pasv (dotted [10, 0, 0, 5]) 50000"
proof -
  have "length sample_pasv < 2 ^ 63" by (simp add: sample_pasv_def pasv_fields_def digits_of.simps crlf_def)
  moreover have "(50000 :: int) = 256 * int 195 + int 80" by simp
  moreover have "CHR ''('' \<notin> set ''227 Entering Passive Mode ''" "CHR '')'' \<notin> set ''227 Entering Passive Mode ''" by simp_all
  moreover have "(195 :: nat) < 256" "(80 :: nat) < 256" by simp_all
  ultimately show ?thesis unfolding names_address_def using sample_pasv_def by blast
qed

lemma pasv_fields_no_nul: "CHR 0x00 \<notin> set (pasv_fields ns)"
  by (auto simp: pasv_fields_def digits_no_nul dest!: join_commas_set)

lemma sample_opens: "opens sample_retrieval ''a'' 2"
proof -
  have "length (digits_of 5) = 1" "length (pasv_fields [10, 0, 0, 5, 195, 80]) < 40"
    by (simp_all add: digits_of.simps pasv_fields_def)
  then show ?thesis
    using sample_address
    by (simp add: opens_def sample_retrieval_def)
       (intro conjI proper_sample command_line_Cons;
        simp add: command_word_def crlf_def sample_pasv_def connects_def sample_talk_def digits_no_nul pasv_fields_no_nul)
qed

theorem Get_resumes_witness:
  "\<exists>s'. Get ''a'' ''a'' (sample_client (opening_replies 4 sample_retrieval @ piece_replies [[3], [4, 5]] @ [Count 0])) = Some (3, s')
     \<and> disk s' ''/tmp/a'' = Some [1, 2, 3, 4, 5]"
proof -
  let ?s = "sample_client (opening_replies 4 sample_retrieval @ piece_replies [[3], [4, 5]] @ [Count 0])"
  have c: "content ''/tmp/a'' ?s = [1, 2]" "length (content ''/tmp/a'' ?s) = 2" by (simp_all add: sample_client_def)
  have o: "opens sample_retrieval ''a'' (length (content ''/tmp/a'' ?s))" unfolding c(2) by (rule sample_opens)
  have a: "atoi (said (retr_talk sample_retrieval)) = 150"
    by (simp add: sample_retrieval_def sample_talk_def atoi_def is_space_def digits_val_def is_digit_def)
  have "net ?s = opening_replies 4 sample_retrieval @ piece_replies [[3], [4, 5]] @ [Count 0] @ []" by (simp add: sample_client_def)
  moreover have "logged_in ?s" "''/tmp/a'' = local_path ''a'' ?s" "readable ?s ''/tmp/a''" "writable ?s ''/tmp/a''"
    by (simp_all add: sample_client_def c_text_def)
  moreover have "ends_data [Count 0]" "list_all (\<lambda>b. b \<noteq> [] \<and> length b \<le> 4096) [[3], [4, 5 :: byte]]" by (simp_all add: ends_data_def)
  moreover have "positive_code (length (concat [[3], [4, 5 :: byte]])) = 3" by (simp add: positive_code_def)
  ultimately obtain s' where "Get ''a'' ''a'' ?s = Some (3, s')" "disk s' = (disk ?s)(''/tmp/a'' \<mapsto> [1, 2] @ [3, 4, 5])"
    using Get_resumes [of ?s 4 sample_retrieval "[[3], [4, 5]]" "[Count 0]" "[]" "''/tmp/a''" "''a''" "''a''"] o a c(1) by auto
  then show ?thesis by (intro exI [of _ s']) simp
qed


definition sample_storage :: storage where
  "sample_storage =
     \<lparr>put_size_talk = sample_talk FTP_COMMAND_FILE_SIZE ''a'' (''550 No'' @ crlf),
      put_pasv_talk = sample_talk FTP_COMMAND_PSAV_MODE [] sample_pasv, put_connecting = [Count 0, Count 0, Count 0],
      put_stor_talk = sample_talk FTP_COMMAND_UPLOAD_FILE ''a'' (''150 Ok'' @ crlf),
      put_address = (dotted [10, 0, 0, 5], 50000), put_remote = None, put_portions = [[1, 1]], put_done = [''226 Done'' @ crlf]\<rparr>"

lemma sample_stores: "stores sample_storage ''a'' [1, 2]"
proof -
  have "length (pasv_fields [10, 0, 0, 5, 195, 80]) < 40" by (simp add: digits_of.simps pasv_fields_def)
  moreover have "put_chunks [1, 2] = [[1, 2]]" by (subst put_chunks.simps) simp
  moreover have "atol ''550'' \<noteq> 213" by (simp add: atol_def atoi_def is_space_def digits_val_def is_digit_def)
  ultimately show ?thesis
    using sample_address
    by (simp add: stores_def sample_storage_def)
       (intro conjI proper_sample command_line_Cons;
        simp add: command_word_def crlf_def sample_pasv_def connects_def sample_talk_def pasv_fields_no_nul answers_size_def portions_def
          text_pieces_def)
qed

theorem Put_sends_witness:
  "\<exists>s' parts. Put ''a'' ''a'' (sample_client (storage_replies 4 sample_storage)) = Some (0, s')
     \<and> map snd (drop 3 (wire s')) = parts \<and> concat parts = [1, 2]"
proof -
  let ?s = "sample_client (storage_replies 4 sample_storage)"
  have "put_remote sample_storage = None" by (simp add: sample_storage_def)
  moreover have "logged_in ?s" "net ?s = storage_replies 4 sample_storage @ []" "readable ?s (local_path ''a'' ?s)"
    "disk ?s (local_path ''a'' ?s) = Some [1, 2]" "wire ?s = []"
    by (simp_all add: sample_client_def c_text_def)
  ultimately show ?thesis
    using Put_sends [of ?s 4 sample_storage "[]" "''a''" "[1, 2]" "''a''" 0] sample_stores by (auto simp: comp_def)
qed

end
