(* ===== verification/BtDownload.thy ===== *)
theory BtDownload
  imports CText "HOL-Library.Signed_Division" "HOL-Library.Monad_Syntax"
begin

text \<open>
  The BitTorrent download of \<open>src/public/bt/btDownlaod.cpp\<close> and \<open>btDownload.h\<close> (class \<open>btDownload\<close>), and the conversion
  of character sets it uses (\<open>src/public/characterEncode/charEncodeTransfer.cpp\<close>).

  The library libtorrent is not part of the sources.  What it reports during one round of the download loop (progress
  of the file, alerts, peers) is an argument, and so are the clock, the content of the torrent file and the conversion
  routine \<open>iconv\<close>; what the program tells the session is the list \<open>acts\<close>.  Torrents are known by numbers, their handles.
  \<open>bt_reads\<close> are the values another thread lets \<open>*m_pnDownState\<close> show at its successive readings.  \<^term>\<open>None\<close>
  means that the routine does not return: the rounds or the readings end, it waits for a lock nobody frees, or a
  text does not fit its array.
\<close>

section \<open>State\<close>

datatype sess_act =
    Pause | Resume | RemoveTorrent nat | AddTorrent string string | RateLimits int int
  | SetInt string int | SetStr string string | SetBool string bool

record btDownload =
  m_nTimedOut :: int
  m_nPeerTimeOut :: int
  save_path :: string
  m_session_path :: string
  realfilename :: string
  torrent_download_rate :: int
  torrent_upload_rate :: int
  m_nDownload_Rate :: int
  m_nUpload_Rate :: int
  m_nTotal_Done :: int
  m_nTotal_Upload :: int
  m_nTorrentProgress :: int
  m_nFileSize :: int
  bt_pnDownState :: bool
  m_bLock :: bool

record bt = btDownload +
  acts :: "sess_act list"
  bt_reads :: "int list"
  bt_slept :: nat
  bt_log :: "(string \<times> nat) list"

text \<open>The constructor; members it does not set keep the values of the argument.\<close>

definition btDownload_ctor :: "bt \<Rightarrow> bt" where
  "btDownload_ctor s =
     s\<lparr>m_nTimedOut := 24 * 60 * 60, m_nPeerTimeOut := 30 * 60, save_path := ''.'' @ [CHR 0x5C], realfilename := [],
       torrent_download_rate := - 1, torrent_upload_rate := - 1, m_session_path := [], m_bLock := False, bt_pnDownState := False\<rparr>"

text \<open>\<open>InitBtParam\<close>; \<open>alert_mask\<close> is the union of the categories listed in the source.\<close>

definition InitBtParam :: "int \<Rightarrow> string \<Rightarrow> bt \<Rightarrow> bt" where
  "InitBtParam alert_mask strLocalIp s =
     s\<lparr>acts := [SetInt ''alert_mask'' alert_mask, SetInt ''min_reconnect_time'' 5, SetInt ''tracker_backoff'' 5,
        SetInt ''min_announce_interval'' 60, SetStr ''announce_ip'' strLocalIp, SetBool ''broadcast_lsd'' False,
        SetBool ''enable_dht'' False, SetBool ''enable_upnp'' False, SetBool ''enable_natpmp'' False,
        SetInt ''local_service_announce_interval'' 5]\<rparr>"

definition ReloadTorrent :: "string \<Rightarrow> string \<Rightarrow> bt \<Rightarrow> bt" where
  "ReloadTorrent localDir torrentFile s = s\<lparr>acts := acts s @ [AddTorrent localDir torrentFile]\<rparr>"

definition InitBtDownload :: "int \<Rightarrow> int \<Rightarrow> int \<Rightarrow> int \<Rightarrow> bt \<Rightarrow> bt" where
  "InitBtDownload nDownTimeOut nPeerTimeOut download_rate upload_rate s =
     s\<lparr>m_nTimedOut := nDownTimeOut, m_nPeerTimeOut := nPeerTimeOut, torrent_download_rate := download_rate,
       torrent_upload_rate := upload_rate, acts := acts s @ [RateLimits download_rate upload_rate]\<rparr>"

definition CopyVariable :: "bt \<Rightarrow> bt" where
  "CopyVariable s = s\<lparr>bt_pnDownState := True\<rparr>"

definition GetDownloadRate :: "bt \<Rightarrow> int" where
  "GetDownloadRate s = m_nDownload_Rate s sdiv 1024"

definition GetDownloadTotalBybes :: "bt \<Rightarrow> int" where
  "GetDownloadTotalBybes s = m_nTotal_Done s sdiv 1024"

section \<open>The lock\<close>

text \<open>
  \<open>Lock\<close>, with no other thread to free the flag while it waits: without a limit it waits forever, with one it sleeps
  in every round and gives up.
\<close>

definition bt_Lock :: "int \<Rightarrow> bt \<Rightarrow> (int \<times> bt) option" where
  "bt_Lock timeouts s =
     (if timeouts = 0 then if m_bLock s then None else Some (0, s\<lparr>m_bLock := True\<rparr>)
      else if 0 < timeouts \<and> \<not> m_bLock s then Some (0, s\<lparr>m_bLock := True\<rparr>)
      else Some (1, s\<lparr>bt_slept := bt_slept s + 50 * nat timeouts\<rparr>))"

definition bt_unLock :: "bt \<Rightarrow> bt" where
  "bt_unLock s = s\<lparr>m_bLock := False\<rparr>"

section \<open>Alerts\<close>

text \<open>\<open>print_endpoint\<close>; an address of version 6 is an empty text.\<close>

definition print_endpoint :: "(string \<times> nat) option \<Rightarrow> string" where
  "print_endpoint ep = (case ep of None \<Rightarrow> [] | Some (addr, port) \<Rightarrow> take 199 (addr @ '':'' @ print_int (int port)))"

record torrent_status =
  st_handle :: nat
  download_rate :: int
  download_payload_rate :: int
  upload_rate :: int
  total_done :: int
  total_upload :: int
  progress_ppm :: int

datatype bt_alert =
    StateUpdate "torrent_status list" | TorrentFinished nat | FileCompleted nat
  | TrackerReply nat int | TrackerAnnounce nat string int | TrackerError nat string string int
  | PeerError nat string | PeerBlocked nat "(string \<times> nat) option" string int | OtherAlert

record bt_loc =
  nPrintTimer :: nat
  nResumeBtTimer :: nat
  nDownload_Rate :: int
  nUpload_Rate :: int
  nTotal_Done :: int
  nTotal_Upload :: int
  nTorrentProgress :: int

text \<open>\<open>sprintf\<close> into an array of 1024 characters, and \<open>WriteLog\<close>.\<close>

definition log_line :: "string \<Rightarrow> nat \<Rightarrow> bt \<Rightarrow> bt option" where
  "log_line t level s = (if length t \<ge> 1024 then None else Some (s\<lparr>bt_log := bt_log s @ [(t, level)]\<rparr>))"

text \<open>The loop over the states of an alert: the last one of the torrent counts.\<close>

fun take_status :: "nat \<Rightarrow> torrent_status list \<Rightarrow> bt_loc \<Rightarrow> bt_loc" where
  "take_status th [] l = l"
| "take_status th (st # sts) l =
     take_status th sts
       (if st_handle st = th
        then l\<lparr>nDownload_Rate := download_payload_rate st, nUpload_Rate := upload_rate st, nTotal_Done := total_done st,
               nTotal_Upload := total_upload st, nTorrentProgress := progress_ppm st sdiv 10000\<rparr>
        else l)"

text \<open>What an alert changes, whether it reports the end of the torrent, and the line it writes to the log.\<close>

fun alert_status :: "nat \<Rightarrow> bt_alert \<Rightarrow> bt_loc \<Rightarrow> bt_loc" where
  "alert_status th (StateUpdate sts) l = take_status th sts l"
| "alert_status th _ l = l"

fun alert_end :: "nat \<Rightarrow> bt_alert \<Rightarrow> bool" where
  "alert_end th (TorrentFinished h) = (h = th)"
| "alert_end th (FileCompleted h) = (h = th)"
| "alert_end th _ = False"

fun alert_text :: "nat \<Rightarrow> bt_alert \<Rightarrow> string option" where
  "alert_text th (TrackerReply h n) = (if h = th then Some (''tracker return peer num['' @ print_int n @ ''].'') else None)"
| "alert_text th (TrackerAnnounce h url ev) =
     (if h = th then Some (''tracker_announce ['' @ url @ ''], send event['' @ print_int ev @ ''].'') else None)"
| "alert_text th (TrackerError h url msg code) =
     (if h = th
      then Some (''tracker_error message['' @ url @ ''] errorcode ['' @ msg @ ''] status_code['' @ print_int code @ ''].'') else None)"
| "alert_text th (PeerError h msg) = (if h = th then Some (''peer_error_alert error message ['' @ msg @ ''].'') else None)"
| "alert_text th (PeerBlocked h ip msg code) =
     (if h = th
      then Some (''peer_blocked_alert ['' @ print_endpoint ip @ ''] error message ['' @ msg @ ''],reason code ['' @ print_int code @ ''].'')
      else None)"
| "alert_text th _ = None"

text \<open>\<open>GetBtStatus\<close>: whether the torrent is reported as finished.\<close>

fun GetBtStatus :: "nat \<Rightarrow> bt_alert list \<Rightarrow> bool \<Rightarrow> bt_loc \<Rightarrow> bt \<Rightarrow> (bool \<times> bt_loc \<times> bt) option" where
  "GetBtStatus th [] bRet l s = Some (bRet, l, s)"
| "GetBtStatus th (a # as) bRet l s =
     (case alert_text th a of
        None \<Rightarrow> GetBtStatus th as (bRet \<or> alert_end th a) (alert_status th a l) s
      | Some t \<Rightarrow> log_line t 0 s \<bind> GetBtStatus th as (bRet \<or> alert_end th a) (alert_status th a l))"

text \<open>\<open>handle_alter\<close> stores the state in the members instead.\<close>

fun take_status_members :: "nat \<Rightarrow> torrent_status list \<Rightarrow> bt \<Rightarrow> bt" where
  "take_status_members th [] s = s"
| "take_status_members th (st # sts) s =
     take_status_members th sts
       (if st_handle st = th
        then s\<lparr>m_nDownload_Rate := download_rate st, m_nUpload_Rate := upload_rate st, m_nTotal_Done := total_done st,
               m_nTotal_Upload := total_upload st, m_nTorrentProgress := progress_ppm st sdiv 10000\<rparr>
        else s)"

definition handle_alter :: "bt_alert \<Rightarrow> nat \<Rightarrow> bt \<Rightarrow> bool \<times> bt" where
  "handle_alter a th s = (True, case a of StateUpdate sts \<Rightarrow> take_status_members th sts s | _ \<Rightarrow> s)"

section \<open>Control by the caller\<close>

text \<open>
  \<open>while (m_pnDownState && *m_pnDownState)\<close>: one reading for the condition, one for the comparison; the result
  are the readings left and the number of pauses.
\<close>

fun bt_pause_loop :: "int list \<Rightarrow> nat \<Rightarrow> (int list \<times> nat) option" where
  "bt_pause_loop [] n = None"
| "bt_pause_loop [v] n = (if v = 0 then Some ([], n) else None)"
| "bt_pause_loop (v # w # vs) n =
     (if v = 0 then Some (w # vs, n) else if w = 1 then bt_pause_loop vs (Suc n) else Some (vs, n))"

text \<open>The decision behind the pause: whether the download is cancelled.  The state is read once or twice.\<close>

fun bt_decide :: "nat \<Rightarrow> int list \<Rightarrow> bt \<Rightarrow> (bool \<times> bt) option" where
  "bt_decide th [] s = None"
| "bt_decide th [v] s = (if v = 0 then Some (False, s\<lparr>bt_reads := [], acts := acts s @ [Resume]\<rparr>) else None)"
| "bt_decide th (v # w # vs) s =
     (if v = 0 then Some (False, s\<lparr>bt_reads := w # vs, acts := acts s @ [Resume]\<rparr>)
      else if w = 2 then Some (True, s\<lparr>bt_reads := vs, acts := acts s @ [Pause, RemoveTorrent th]\<rparr>)
      else Some (False, s\<lparr>bt_reads := vs\<rparr>))"

definition bt_control :: "nat \<Rightarrow> bt \<Rightarrow> (bool \<times> bt) option" where
  "bt_control th s =
     (if \<not> bt_pnDownState s then Some (False, s)
      else do {
        (vs, n) \<leftarrow> bt_pause_loop (bt_reads s) 0;
        bt_decide th vs (s\<lparr>acts := acts s @ replicate n Pause, bt_slept := bt_slept s + n\<rparr>)
      })"

section \<open>Reports\<close>

text \<open>The loop over the peers; \<open>nCount\<close> is compared before it is increased.\<close>

fun peer_list :: "nat \<Rightarrow> (string \<times> nat) option list \<Rightarrow> string" where
  "peer_list nCount [] = []"
| "peer_list nCount (p # ps) =
     (if print_endpoint p \<noteq> [] then print_endpoint p @ '', '' else [])
       @ (if nCount > 5 then [] else peer_list (Suc nCount) ps)"

definition rate_line :: "int \<Rightarrow> string \<Rightarrow> bt_loc \<Rightarrow> string" where
  "rate_line nTaskCtrl filename l =
     (if nTaskCtrl = 3 then ''SeedDownloadTask download '' else ''download '') @ c_text filename @ '', download rate [''
       @ print_int (nDownload_Rate l sdiv 1024) @ ''KB/S], total download ['' @ print_int (nTotal_Done l sdiv 1024) @ ''KB]''"

definition bt_report ::
    "int \<Rightarrow> string \<Rightarrow> (string \<times> nat) option list \<Rightarrow> bt_loc \<Rightarrow> bt \<Rightarrow> (bt_loc \<times> bt) option" where
  "bt_report nTaskCtrl filename peers l s =
     (if nPrintTimer l < 10 then Some (l, s)
      else let l = l\<lparr>nPrintTimer := 0,
                 nDownload_Rate := (if nDownload_Rate l > torrent_download_rate s \<and> torrent_download_rate s \<noteq> - 1
                   then torrent_download_rate s else nDownload_Rate l)\<rparr>
           in do {
                s \<leftarrow> log_line (rate_line nTaskCtrl filename l) 0 s;
                Some (l, if peer_list 0 peers = [] then s
                  else s\<lparr>bt_log := bt_log s @ [(''peer list:[ '' @ peer_list 0 peers @ '']'', 0)]\<rparr>)
              })"

text \<open>Every 600 rounds a download that stands still is paused and resumed.\<close>

definition bt_wake :: "bt_loc \<Rightarrow> bt \<Rightarrow> bt_loc \<times> bt" where
  "bt_wake l s =
     (if nResumeBtTimer l < 600 then (l, s)
      else (l\<lparr>nResumeBtTimer := 0\<rparr>,
            if nTotal_Done l = 0 \<or> nDownload_Rate l = 0 then s\<lparr>acts := acts s @ [Pause, Resume]\<rparr> else s))"

section \<open>The download\<close>

text \<open>What one round sees: the progress of the file, the microseconds since the start, the alerts, the peers.\<close>

record bt_round =
  rd_progress :: int
  rd_elapsed :: int
  rd_alerts :: "bt_alert list"
  rd_peers :: "(string \<times> nat) option list"

text \<open>The part of the body between \<open>Lock\<close> and \<open>unLock\<close>; the way out of a cancelled download passes no \<open>unLock\<close>.\<close>

definition bt_locked ::
    "int \<Rightarrow> string \<Rightarrow> nat \<Rightarrow> bt_round \<Rightarrow> bt_loc \<Rightarrow> bt \<Rightarrow> (int option \<times> bt_loc \<times> bt) option" where
  "bt_locked nTaskCtrl filename th rd l s =
     do {
       (fin, l, s) \<leftarrow> GetBtStatus th (rd_alerts rd) False l s;
       if fin then Some (Some 0, l, bt_unLock s)
       else do {
         (cancel, s) \<leftarrow> bt_control th s;
         if cancel then Some (Some 3, l, s)
         else do {
           (l, s) \<leftarrow> bt_report nTaskCtrl filename (rd_peers rd) l s;
           let (l, s) = bt_wake l s;
           Some (None, l, (bt_unLock s)\<lparr>bt_slept := bt_slept s + 1\<rparr>)
         }
       }
     }"

text \<open>The body of the loop: the code with which the loop is left, if it is.\<close>

definition bt_body ::
    "bool \<Rightarrow> int \<Rightarrow> string \<Rightarrow> nat \<Rightarrow> bt_round \<Rightarrow> bt_loc \<Rightarrow> bt \<Rightarrow> (int option \<times> bt_loc \<times> bt) option" where
  "bt_body bCheckTimeOut nTaskCtrl filename th rd l s =
     (let l = l\<lparr>nPrintTimer := nPrintTimer l + 1, nResumeBtTimer := nResumeBtTimer l + 1\<rparr>
      in if rd_progress rd = m_nFileSize s then Some (Some 0, l, s\<lparr>m_nTorrentProgress := 100\<rparr>)
         else let s = s\<lparr>m_nTotal_Done := rd_progress rd\<rparr>
              in if rd_elapsed rd > m_nPeerTimeOut s * 1000000 \<and> rd_progress rd = 0 then Some (Some 1, l, s)
                 else if rd_elapsed rd > m_nTimedOut s * 1000000 \<and> bCheckTimeOut then Some (Some 2, l, s)
                 else do {
                   (_, s) \<leftarrow> bt_Lock 0 s;
                   bt_locked nTaskCtrl filename th rd l s
                 })"

fun bt_loop :: "bool \<Rightarrow> int \<Rightarrow> string \<Rightarrow> nat \<Rightarrow> bt_round list \<Rightarrow> bt_loc \<Rightarrow> bt \<Rightarrow> (int \<times> bt) option" where
  "bt_loop bCheckTimeOut nTaskCtrl filename th [] l s = None"
| "bt_loop bCheckTimeOut nTaskCtrl filename th (rd # rds) l s =
     do {
       (e, l, s) \<leftarrow> bt_body bCheckTimeOut nTaskCtrl filename th rd l s;
       case e of
         None \<Rightarrow> bt_loop bCheckTimeOut nTaskCtrl filename th rds l s
       | Some nError \<Rightarrow> Some (nError, s)
     }"

text \<open>
  What the torrent file holds and how the session takes it: the name and size of its first file, the handle of the torrent
  if the session knows it already, the handle it gets, and the directory the session reports for it.
\<close>

record torrent_file =
  tf_name :: string
  tf_size :: int
  tf_found :: "nat option"
  tf_handle :: nat
  tf_valid :: bool
  tf_save_path :: string

definition CheckFileExist :: "(string \<Rightarrow> bool) \<Rightarrow> string \<Rightarrow> bool" where
  "CheckFileExist exists strFileObject = exists (c_text strFileObject)"

definition bt_loc_init :: bt_loc where
  "bt_loc_init = \<lparr>nPrintTimer = 0, nResumeBtTimer = 0, nDownload_Rate = 0, nUpload_Rate = 0, nTotal_Done = 0, nTotal_Upload = 0, nTorrentProgress = 0\<rparr>"

text \<open>The torrent is handed to the session, after an older one of the same content has been removed.\<close>

definition bt_begin :: "torrent_file \<Rightarrow> string \<Rightarrow> string \<Rightarrow> bt \<Rightarrow> bt option" where
  "bt_begin tf local_path torrentfile s =
     (let s = s\<lparr>acts := acts s @ (case tf_found tf of None \<Rightarrow> [] | Some h \<Rightarrow> [Pause, RemoveTorrent h, Resume])
                 @ [AddTorrent local_path torrentfile], m_nFileSize := tf_size tf\<rparr>
      in if tf_valid tf
         then log_line (''torrent ['' @ c_text torrentfile @ ''] save_path is ['' @ c_text (tf_save_path tf) @ ''] '') 0 s
         else Some s)"

text \<open>
  \<open>DownloadProcess\<close>: the code, the name of the file and the state; \<open>gbk\<close> is \<open>UTF8toGBK\<close>.  The torrent is removed again
  after every failure.
\<close>

definition DownloadProcess ::
    "(string \<Rightarrow> bool) \<Rightarrow> torrent_file \<Rightarrow> (string \<Rightarrow> string) \<Rightarrow> bt_round list \<Rightarrow> string \<Rightarrow> string \<Rightarrow> string \<Rightarrow> bool \<Rightarrow> int \<Rightarrow> bt
      \<Rightarrow> (int \<times> string \<times> bt) option" where
  "DownloadProcess exists tf gbk rds local_path torrentfile filename bCheckTimeOut nTaskCtrl s =
     (if \<not> CheckFileExist exists torrentfile
      then do {
        s \<leftarrow> log_line (''torrentfile '' @ c_text torrentfile @ '' is not exist.'') 4 s;
        Some (3, filename, s)
      }
      else do {
        s \<leftarrow> bt_begin tf local_path torrentfile s;
        let filename = gbk (c_text (tf_name tf));
        (nError, s) \<leftarrow> bt_loop bCheckTimeOut nTaskCtrl filename (tf_handle tf) rds bt_loc_init s;
        Some (nError, filename, if nError \<noteq> 0 then s\<lparr>acts := acts s @ [RemoveTorrent (tf_handle tf)]\<rparr> else s)
      })"

section \<open>Character sets\<close>

text \<open>
  \<open>code_convert\<close> into a buffer of \<open>outlen\<close> zeros.  \<open>conv from to\<close> is what \<open>iconv_open\<close> and \<open>iconv\<close> do with a text: \<^term>\<open>None\<close>
  stands for a failure of either.
\<close>

definition code_convert :: "(string \<Rightarrow> string \<Rightarrow> string \<Rightarrow> string option) \<Rightarrow> string \<Rightarrow> string \<Rightarrow> string \<Rightarrow> nat \<Rightarrow> string option" where
  "code_convert conv from_charset to_charset inbuf outlen =
     (case conv from_charset to_charset inbuf of
        None \<Rightarrow> None
      | Some out \<Rightarrow> if length out > outlen then None else Some (out @ replicate (outlen - length out) (CHR 0x00)))"

definition UTF8toGBK :: "(string \<Rightarrow> string \<Rightarrow> string \<Rightarrow> string option) \<Rightarrow> string \<Rightarrow> string" where
  "UTF8toGBK conv inbuf =
     (case code_convert conv ''uft-8'' ''gbk'' inbuf (length inbuf * 2 + 2) of None \<Rightarrow> inbuf | Some t \<Rightarrow> t)"

definition GBKtoUTF8 :: "(string \<Rightarrow> string \<Rightarrow> string \<Rightarrow> string option) \<Rightarrow> string \<Rightarrow> string" where
  "GBKtoUTF8 conv inbuf =
     (case code_convert conv ''gbk'' ''utf-8'' inbuf (length inbuf * 2 + 2) of None \<Rightarrow> inbuf | Some t \<Rightarrow> t)"

section \<open>The session file\<close>

text \<open>\<open>load_file\<close>: the result and the buffer; a file that cannot be opened has no position.\<close>

definition load_file :: "(string \<rightharpoonup> byte list) \<Rightarrow> string \<Rightarrow> byte list \<Rightarrow> nat \<Rightarrow> bool \<times> byte list" where
  "load_file fs filename v limit =
     (case fs filename of
        None \<Rightarrow> (False, v)
      | Some c \<Rightarrow> if length c > limit then (False, v) else (True, c))"

definition save_file :: "(string \<Rightarrow> bool) \<Rightarrow> string \<Rightarrow> byte list \<Rightarrow> (string \<rightharpoonup> byte list) \<Rightarrow> int \<times> (string \<rightharpoonup> byte list)" where
  "save_file can_write filename v fs = (if can_write filename then (1, fs(filename \<mapsto> v)) else (0, fs))"

text \<open>
  \<open>LoadSession\<close>: the parameters \<open>p\<close> of the session are replaced when the file can be decoded.  \<open>&in[0]\<close> of an empty
  buffer is undefined.
\<close>

definition LoadSession :: "(byte list \<Rightarrow> 'p option) \<Rightarrow> (string \<rightharpoonup> byte list) \<Rightarrow> string \<Rightarrow> 'p \<Rightarrow> bt \<Rightarrow> ('p \<times> bt) option" where
  "LoadSession decode fs session_path p s =
     (let s = s\<lparr>m_session_path := session_path\<rparr>
      in case load_file fs (session_path @ ''.ses_state'') [] 8000000 of
           (False, _) \<Rightarrow> Some (p, s)
         | (True, content) \<Rightarrow>
             if content = [] then None
             else Some (case decode content of None \<Rightarrow> p | Some q \<Rightarrow> q, s))"

definition SaveSession :: "byte list \<Rightarrow> (string \<Rightarrow> bool) \<Rightarrow> (string \<rightharpoonup> byte list) \<Rightarrow> bt \<Rightarrow> string \<rightharpoonup> byte list" where
  "SaveSession encoded can_write fs s = snd (save_file can_write (m_session_path s @ ''.ses_state'') encoded fs)"

datatype state_t =
    unused_state | checking_files | downloading_metadata | downloading | finished | seeding | allocating | checking_resume_data

definition bt_state :: "state_t \<Rightarrow> string" where
  "bt_state st =
     (case st of
        checking_files \<Rightarrow> ''checking'' | downloading_metadata \<Rightarrow> ''dl metadata'' | downloading \<Rightarrow> ''downloading''
      | finished \<Rightarrow> ''finished'' | seeding \<Rightarrow> ''seeding'' | allocating \<Rightarrow> ''allocating'' | checking_resume_data \<Rightarrow> ''checking resume''
      | unused_state \<Rightarrow> ''<>'')"

section \<open>What a round leaves\<close>

definition setting :: "bt \<Rightarrow> int \<times> int \<times> int \<times> bool \<times> int" where
  "setting s = (m_nTimedOut s, m_nPeerTimeOut s, m_nFileSize s, bt_pnDownState s, torrent_download_rate s)"

definition reports_end :: "nat \<Rightarrow> bt_alert list \<Rightarrow> bool" where
  "reports_end th as \<longleftrightarrow> TorrentFinished th \<in> set as \<or> FileCompleted th \<in> set as"

lemma alert_end_iff: "alert_end th a \<longleftrightarrow> a = TorrentFinished th \<or> a = FileCompleted th"
  by (cases a) auto

lemma reports_end_Cons: "reports_end th (a # as) \<longleftrightarrow> alert_end th a \<or> reports_end th as"
  by (auto simp: reports_end_def alert_end_iff)

lemma log_line_keeps:
  "log_line t n s = Some s' \<Longrightarrow> setting s' = setting s \<and> m_bLock s' = m_bLock s \<and> acts s' = acts s \<and> bt_reads s' = bt_reads s"
  by (auto simp: log_line_def setting_def split: if_splits)

lemma GetBtStatus_keeps:
  "GetBtStatus th as b l s = Some (r, l', s') \<Longrightarrow>
     setting s' = setting s \<and> m_bLock s' = m_bLock s \<and> acts s' = acts s \<and> (r \<longleftrightarrow> b \<or> reports_end th as)"
proof (induction as arbitrary: b l s)
  case Nil
  then show ?case by (simp add: reports_end_def)
next
  case (Cons a as)
  show ?case
  proof (cases "alert_text th a")
    case None
    then show ?thesis using Cons.IH [of "b \<or> alert_end th a" "alert_status th a l" s] Cons.prems by (auto simp: reports_end_Cons)
  next
    case (Some t)
    then obtain y where y: "log_line t 0 s = Some y" "GetBtStatus th as (b \<or> alert_end th a) (alert_status th a l) y = Some (r, l', s')"
      using Cons.prems by (auto simp: bind_eq_Some_conv)
    show ?thesis using Cons.IH [OF y(2)] log_line_keeps [OF y(1)] by (auto simp: reports_end_Cons)
  qed
qed

lemma bt_decide_keeps: "bt_decide th vs s = Some (c, s') \<Longrightarrow> setting s' = setting s \<and> m_bLock s' = m_bLock s"
  by (cases "(th, vs, s)" rule: bt_decide.cases) (auto simp: setting_def split: if_splits)

lemma bt_control_keeps:
  assumes "bt_control th s = Some (c, s')"
  shows "setting s' = setting s \<and> m_bLock s' = m_bLock s \<and> (c \<longrightarrow> bt_pnDownState s)"
proof (cases "bt_pnDownState s")
  case True
  then obtain vs n where "bt_decide th vs (s\<lparr>acts := acts s @ replicate n Pause, bt_slept := bt_slept s + n\<rparr>) = Some (c, s')"
    using assms by (auto simp: bt_control_def bind_eq_Some_conv)
  from bt_decide_keeps [OF this] show ?thesis using True by (simp add: setting_def)
next
  case False
  then show ?thesis using assms by (simp add: bt_control_def)
qed

lemma bt_report_keeps:
  "bt_report k f ps l s = Some (l', s') \<Longrightarrow> setting s' = setting s \<and> m_bLock s' = m_bLock s"
  by (auto simp: bt_report_def bind_eq_Some_conv setting_def Let_def log_line_def split: if_splits)

lemma bt_wake_keeps: "bt_wake l s = (l', s') \<Longrightarrow> setting s' = setting s \<and> m_bLock s' = m_bLock s"
  by (auto simp: bt_wake_def setting_def split: if_splits)

text \<open>Why a round ends the download.\<close>

definition round_ends :: "bool \<Rightarrow> nat \<Rightarrow> bt \<Rightarrow> bt_round \<Rightarrow> int \<Rightarrow> bool" where
  "round_ends chk th s rd e \<longleftrightarrow>
     e = 0 \<and> (rd_progress rd = m_nFileSize s \<or> reports_end th (rd_alerts rd))
     \<or> e = 1 \<and> rd_elapsed rd > m_nPeerTimeOut s * 1000000 \<and> rd_progress rd = 0 \<and> m_nFileSize s \<noteq> 0
     \<or> e = 2 \<and> chk \<and> rd_elapsed rd > m_nTimedOut s * 1000000 \<and> rd_progress rd \<noteq> m_nFileSize s
     \<or> e = 3 \<and> bt_pnDownState s"

lemma bt_locked_keeps:
  assumes "bt_locked k f th rd l s = Some (e, l', s')" "m_bLock s"
  shows "setting s' = setting s \<and> (case e of None \<Rightarrow> \<not> m_bLock s'
     | Some c \<Rightarrow> c = 0 \<and> reports_end th (rd_alerts rd) \<and> \<not> m_bLock s' \<or> c = 3 \<and> bt_pnDownState s \<and> m_bLock s')"
proof -
  obtain fin l1 s1 where g: "GetBtStatus th (rd_alerts rd) False l s = Some (fin, l1, s1)"
    using assms(1) by (auto simp: bt_locked_def bind_eq_Some_conv)
  note gk = GetBtStatus_keeps [OF g]
  show ?thesis
  proof (cases fin)
    case True
    then show ?thesis using assms(1) g gk by (auto simp: bt_locked_def bt_unLock_def setting_def)
  next
    case False
    then obtain c s2 where c: "bt_control th s1 = Some (c, s2)" using assms(1) g by (auto simp: bt_locked_def bind_eq_Some_conv)
    note ck = bt_control_keeps [OF c]
    show ?thesis
    proof (cases c)
      case True
      then show ?thesis using assms False g gk c ck by (auto simp: bt_locked_def setting_def)
    next
      case c': False
      then obtain l2 s3 where r: "bt_report k f (rd_peers rd) l1 s2 = Some (l2, s3)"
        using assms(1) False g c by (auto simp: bt_locked_def bind_eq_Some_conv)
      obtain l3 s4 where w: "bt_wake l2 s3 = (l3, s4)" by fastforce
      have "setting s4 = setting s" using gk ck bt_report_keeps [OF r] bt_wake_keeps [OF w] by simp
      then show ?thesis using assms(1) False g c c' r w by (auto simp: bt_locked_def bt_unLock_def setting_def)
    qed
  qed
qed

lemma bt_body_keeps:
  assumes "bt_body chk k f th rd l s = Some (e, l', s')" "\<not> m_bLock s"
  shows "setting s' = setting s \<and> (case e of None \<Rightarrow> \<not> m_bLock s' | Some c \<Rightarrow> round_ends chk th s rd c \<and> m_bLock s' = (c = 3))"
proof -
  let ?l = "l\<lparr>nPrintTimer := nPrintTimer l + 1, nResumeBtTimer := nResumeBtTimer l + 1\<rparr>"
  let ?s = "s\<lparr>m_nTotal_Done := rd_progress rd\<rparr>"
  consider "rd_progress rd = m_nFileSize s" | "rd_progress rd \<noteq> m_nFileSize s" "rd_elapsed rd > m_nPeerTimeOut s * 1000000 \<and> rd_progress rd = 0"
    | "rd_progress rd \<noteq> m_nFileSize s" "\<not> (rd_elapsed rd > m_nPeerTimeOut s * 1000000 \<and> rd_progress rd = 0)"
      "rd_elapsed rd > m_nTimedOut s * 1000000 \<and> chk"
    | "bt_locked k f th rd ?l (?s\<lparr>m_bLock := True\<rparr>) = Some (e, l', s')"
    using assms by (auto simp: bt_body_def Let_def bt_Lock_def split: if_splits)
  then show ?thesis
  proof cases
    case 4
    from bt_locked_keeps [OF this] show ?thesis
      by (auto simp: setting_def round_ends_def split: option.splits)
  qed (use assms in \<open>auto simp: bt_body_def Let_def setting_def round_ends_def\<close>)
qed

lemma round_ends_setting: "setting s' = setting s \<Longrightarrow> round_ends chk th s' rd e = round_ends chk th s rd e"
  by (simp add: round_ends_def setting_def)

lemma bt_loop_ends:
  "bt_loop chk k f th rds l s = Some (e, s') \<Longrightarrow> \<not> m_bLock s \<Longrightarrow>
     setting s' = setting s \<and> (\<exists>rd \<in> set rds. round_ends chk th s rd e) \<and> m_bLock s' = (e = 3)"
proof (induction rds arbitrary: l s)
  case (Cons rd rds)
  obtain c l1 s1 where b: "bt_body chk k f th rd l s = Some (c, l1, s1)" using Cons.prems(1) by (auto simp: bind_eq_Some_conv)
  note bk = bt_body_keeps [OF b Cons.prems(2)]
  show ?case
  proof (cases c)
    case None
    then have "setting s' = setting s1 \<and> (\<exists>rd \<in> set rds. round_ends chk th s1 rd e) \<and> m_bLock s' = (e = 3)"
      using Cons.prems(1) b bk by (intro Cons.IH [of l1 s1]) auto
    then show ?thesis using bk None round_ends_setting [of s1 s] by auto
  next
    case (Some d)
    then show ?thesis using Cons.prems(1) b bk by auto
  qed
qed simp

text \<open>The state in which the loop of \<open>DownloadProcess\<close> starts.\<close>

lemma bt_begin_keeps:
  "bt_begin tf lp t s = Some s1 \<Longrightarrow> setting s1 = setting (s\<lparr>m_nFileSize := tf_size tf\<rparr>) \<and> m_bLock s1 = m_bLock s"
  by (auto simp: bt_begin_def Let_def log_line_def setting_def split: if_splits)

lemma DownloadProcess_loop:
  assumes "DownloadProcess ex tf gbk rds lp t fn chk k s = Some (e, fn', s')" "CheckFileExist ex t"
  obtains s1 s2 where "setting s1 = setting (s\<lparr>m_nFileSize := tf_size tf\<rparr>)" "m_bLock s1 = m_bLock s"
    "bt_loop chk k (gbk (c_text (tf_name tf))) (tf_handle tf) rds bt_loc_init s1 = Some (e, s2)"
    "s' = (if e \<noteq> 0 then s2\<lparr>acts := acts s2 @ [RemoveTorrent (tf_handle tf)]\<rparr> else s2)"
proof -
  obtain s1 s2 where b: "bt_begin tf lp t s = Some s1"
    and l: "bt_loop chk k (gbk (c_text (tf_name tf))) (tf_handle tf) rds bt_loc_init s1 = Some (e, s2)"
    and s': "s' = (if e \<noteq> 0 then s2\<lparr>acts := acts s2 @ [RemoveTorrent (tf_handle tf)]\<rparr> else s2)"
    using assms by (auto simp: DownloadProcess_def Let_def bind_eq_Some_conv)
  show thesis by (rule that [OF _ _ l s']) (use bt_begin_keeps [OF b] in simp_all)
qed

text \<open>
  \<^bold>\<open>C26\<close>  The code of a BitTorrent download says how it ended: \<open>0\<close> only when the file is complete or the session has
  reported its end; \<open>1\<close> only when nothing has arrived within the time for the peers; \<open>2\<close> only when the time is
  over and was to be checked; \<open>3\<close>, with an existing torrent file, only when the caller controls the download.
  After every failure the torrent is removed.  The lock is free again unless the download was cancelled; after a
  cancelled download it is held forever, and the next download of a file that is neither complete nor late
  in its first round never returns.
\<close>

theorem download_outcome:
  assumes "DownloadProcess ex tf gbk rds lp t fn chk k s = Some (e, fn', s')" "CheckFileExist ex t" "\<not> m_bLock s"
  shows "(\<exists>rd \<in> set rds.
        e = 0 \<and> (rd_progress rd = tf_size tf \<or> reports_end (tf_handle tf) (rd_alerts rd))
      \<or> e = 1 \<and> rd_elapsed rd > m_nPeerTimeOut s * 1000000 \<and> rd_progress rd = 0 \<and> tf_size tf \<noteq> 0
      \<or> e = 2 \<and> chk \<and> rd_elapsed rd > m_nTimedOut s * 1000000 \<and> rd_progress rd \<noteq> tf_size tf
      \<or> e = 3 \<and> bt_pnDownState s)
    \<and> (e \<noteq> 0 \<longrightarrow> last (acts s') = RemoveTorrent (tf_handle tf))
    \<and> (m_bLock s' \<longleftrightarrow> e = 3)
    \<and> (e = 3 \<longrightarrow> (\<forall>tf2 rd rds2 lp2 t2 fn2 chk2 k2.
          CheckFileExist ex t2 \<and> rd_progress rd \<noteq> tf_size tf2 \<and> rd_elapsed rd \<le> m_nPeerTimeOut s * 1000000
          \<and> rd_elapsed rd \<le> m_nTimedOut s * 1000000
          \<longrightarrow> DownloadProcess ex tf2 gbk (rd # rds2) lp2 t2 fn2 chk2 k2 s' = None))"
proof -
  obtain s1 s2 where s1: "setting s1 = setting (s\<lparr>m_nFileSize := tf_size tf\<rparr>)" "m_bLock s1 = m_bLock s"
    and l: "bt_loop chk k (gbk (c_text (tf_name tf))) (tf_handle tf) rds bt_loc_init s1 = Some (e, s2)"
    and s': "s' = (if e \<noteq> 0 then s2\<lparr>acts := acts s2 @ [RemoveTorrent (tf_handle tf)]\<rparr> else s2)"
    using DownloadProcess_loop [OF assms(1,2)] by metis
  have e: "setting s2 = setting s1" "\<exists>rd \<in> set rds. round_ends chk (tf_handle tf) s1 rd e" "m_bLock s2 = (e = 3)"
    using bt_loop_ends [OF l] s1(2) assms(3) by simp_all
  have b: "DownloadProcess ex tf2 gbk (rd # rds2) lp2 t2 fn2 chk2 k2 s' = None"
    if u: "m_bLock s'" "CheckFileExist ex t2" "rd_progress rd \<noteq> tf_size tf2" "rd_elapsed rd \<le> m_nPeerTimeOut s * 1000000"
      "rd_elapsed rd \<le> m_nTimedOut s * 1000000" for tf2 rd rds2 lp2 t2 fn2 chk2 k2
  proof (rule ccontr)
    assume "DownloadProcess ex tf2 gbk (rd # rds2) lp2 t2 fn2 chk2 k2 s' \<noteq> None"
    then obtain e' g t' where "DownloadProcess ex tf2 gbk (rd # rds2) lp2 t2 fn2 chk2 k2 s' = Some (e', g, t')" by auto
    then obtain u1 u2 where "setting u1 = setting (s'\<lparr>m_nFileSize := tf_size tf2\<rparr>)" "m_bLock u1 = m_bLock s'"
      "bt_loop chk2 k2 (gbk (c_text (tf_name tf2))) (tf_handle tf2) (rd # rds2) bt_loc_init u1 = Some (e', u2)"
      using DownloadProcess_loop [OF _ u(2)] by metis
    then show False using u s' e(1) s1(1)
      by (auto simp: bind_eq_Some_conv bt_body_def bt_Lock_def setting_def Let_def split: if_splits)
  qed
  show ?thesis
  proof (intro conjI impI)
    show "\<exists>rd \<in> set rds.
        e = 0 \<and> (rd_progress rd = tf_size tf \<or> reports_end (tf_handle tf) (rd_alerts rd))
      \<or> e = 1 \<and> rd_elapsed rd > m_nPeerTimeOut s * 1000000 \<and> rd_progress rd = 0 \<and> tf_size tf \<noteq> 0
      \<or> e = 2 \<and> chk \<and> rd_elapsed rd > m_nTimedOut s * 1000000 \<and> rd_progress rd \<noteq> tf_size tf
      \<or> e = 3 \<and> bt_pnDownState s"
      using e(2) s1(1) by (auto simp: round_ends_def setting_def)
    show "last (acts s') = RemoveTorrent (tf_handle tf)" if "e \<noteq> 0" using that s' by simp
    show "m_bLock s' \<longleftrightarrow> e = 3" using e(3) s' by auto
    then show "\<forall>tf2 rd rds2 lp2 t2 fn2 chk2 k2.
          CheckFileExist ex t2 \<and> rd_progress rd \<noteq> tf_size tf2 \<and> rd_elapsed rd \<le> m_nPeerTimeOut s * 1000000
          \<and> rd_elapsed rd \<le> m_nTimedOut s * 1000000
          \<longrightarrow> DownloadProcess ex tf2 gbk (rd # rds2) lp2 t2 fn2 chk2 k2 s' = None" if "e = 3"
      using that b by blast
  qed
qed

section \<open>A download ends\<close>

text \<open>Reports of the session that fit the types and the array of the log line.\<close>

abbreviation fits :: "int \<Rightarrow> bool" where "fits i \<equiv> \<bar>i\<bar> < 2 ^ 63"

definition sane_alert :: "nat \<Rightarrow> bt_alert \<Rightarrow> bool" where
  "sane_alert th a \<longleftrightarrow>
     (case a of StateUpdate sts \<Rightarrow> list_all (\<lambda>st. fits (download_payload_rate st) \<and> fits (total_done st)) sts | _ \<Rightarrow> True)
     \<and> (case alert_text th a of None \<Rightarrow> True | Some t \<Rightarrow> length t < 1024)"

definition sane_loc :: "bt_loc \<Rightarrow> bool" where
  "sane_loc l \<longleftrightarrow> fits (nDownload_Rate l) \<and> fits (nTotal_Done l)"

lemma take_status_sane:
  "list_all (\<lambda>st. fits (download_payload_rate st) \<and> fits (total_done st)) sts \<Longrightarrow> sane_loc l \<Longrightarrow> sane_loc (take_status th sts l)"
  by (induction sts arbitrary: l) (simp_all add: sane_loc_def)

lemma alert_status_sane: "sane_alert th a \<Longrightarrow> sane_loc l \<Longrightarrow> sane_loc (alert_status th a l)"
  by (cases a) (simp_all add: sane_alert_def take_status_sane)

lemma GetBtStatus_returns:
  "list_all (sane_alert th) as \<Longrightarrow> sane_loc l \<Longrightarrow> \<exists>r l' s'. GetBtStatus th as b l s = Some (r, l', s') \<and> sane_loc l'"
proof (induction as arbitrary: b l s)
  case (Cons a as)
  then have "sane_loc (alert_status th a l)" by (simp add: alert_status_sane)
  moreover have "length t < 1024" if "alert_text th a = Some t" for t using Cons.prems(1) that by (simp add: sane_alert_def)
  ultimately show ?case using Cons by (auto simp: log_line_def split: option.split)
qed simp

lemma length_print_int: "fits i \<Longrightarrow> length (print_int i) \<le> 20"
proof -
  assume "fits i"
  then have "length (digits_of (nat i)) \<le> Suc 18" "length (digits_of (nat (- i))) \<le> Suc 18"
    by (intro length_digits_of; simp add: nat_less_iff)+
  then show ?thesis by (simp add: print_int_def)
qed

lemma fits_sdiv: "fits i \<Longrightarrow> fits (i sdiv 1024)"
proof -
  have "\<bar>i sdiv 1024\<bar> = \<bar>i\<bar> div 1024" by (simp add: signed_divide_int_def abs_mult sgn_if)
  moreover have "\<bar>i\<bar> div 1024 \<le> \<bar>i\<bar>" using int_div_le_self [of "\<bar>i\<bar>" 1024] by (cases "i = 0") simp_all
  ultimately show "fits i \<Longrightarrow> fits (i sdiv 1024)" by linarith
qed

lemma rate_line_short: "length f \<le> 900 \<Longrightarrow> sane_loc l \<Longrightarrow> length (rate_line k f l) < 1024"
proof -
  assume f: "length f \<le> 900" and l: "sane_loc l"
  have "length (c_text f) \<le> length f" by (simp add: c_text_def length_takeWhile_le)
  moreover have "length (print_int (nDownload_Rate l sdiv 1024)) \<le> 20" "length (print_int (nTotal_Done l sdiv 1024)) \<le> 20"
    using l by (auto simp: sane_loc_def intro!: length_print_int fits_sdiv)
  ultimately show ?thesis using f by (simp add: rate_line_def)
qed

lemma bt_report_returns:
  assumes "length f \<le> 900" "sane_loc l" "fits (torrent_download_rate s)"
  shows "\<exists>l' s'. bt_report k f ps l s = Some (l', s') \<and> sane_loc l'"
proof -
  let ?l = "l\<lparr>nPrintTimer := 0, nDownload_Rate := (if nDownload_Rate l > torrent_download_rate s \<and> torrent_download_rate s \<noteq> - 1
      then torrent_download_rate s else nDownload_Rate l)\<rparr>"
  have l: "sane_loc ?l" using assms(2,3) by (simp add: sane_loc_def)
  show ?thesis using l rate_line_short [OF assms(1) l, of k] assms(2) by (auto simp: bt_report_def Let_def log_line_def)
qed

lemma bt_wake_sane: "sane_loc l \<Longrightarrow> sane_loc (fst (bt_wake l s))"
  by (simp add: bt_wake_def sane_loc_def)

lemma bt_body_returns:
  assumes "\<not> m_bLock s" "\<not> bt_pnDownState s" "length f \<le> 900" "sane_loc l" "fits (torrent_download_rate s)" "list_all (sane_alert th) (rd_alerts rd)"
  shows "\<exists>e l' s'. bt_body chk k f th rd l s = Some (e, l', s') \<and> sane_loc l'"
proof -
  let ?l = "l\<lparr>nPrintTimer := nPrintTimer l + 1, nResumeBtTimer := nResumeBtTimer l + 1\<rparr>"
  let ?s = "s\<lparr>m_nTotal_Done := rd_progress rd, m_bLock := True\<rparr>"
  have l: "sane_loc ?l" using assms(4) by (simp add: sane_loc_def)
  obtain r l1 s1 where g: "GetBtStatus th (rd_alerts rd) False ?l ?s = Some (r, l1, s1)" "sane_loc l1"
    using GetBtStatus_returns [OF assms(6) l] by blast
  have s1: "\<not> bt_pnDownState s1" "fits (torrent_download_rate s1)" using GetBtStatus_keeps [OF g(1)] assms(2,5) by (auto simp: setting_def)
  obtain l2 s2 where p: "bt_report k f (rd_peers rd) l1 s1 = Some (l2, s2)" "sane_loc l2"
    using bt_report_returns [OF assms(3) g(2) s1(2)] by blast
  obtain l3 s3 where w: "bt_wake l2 s2 = (l3, s3)" "sane_loc l3" using bt_wake_sane [OF p(2)] by (metis fst_conv surj_pair)
  have "\<exists>e l' s'. bt_locked k f th rd ?l ?s = Some (e, l', s') \<and> sane_loc l'"
    using g p w s1(1) by (auto simp: bt_locked_def bt_control_def)
  then show ?thesis using assms(1) l by (auto simp: bt_body_def Let_def bt_Lock_def)
qed

text \<open>
  \<^bold>\<open>C27\<close>  A download that is not controlled by its caller ends: when the file becomes complete in some round, or its time
  runs out and is to be checked, \<open>DownloadProcess\<close> returns, whatever the session reports in between, as long as
  the log lines fit their array.
\<close>

theorem download_ends:
  assumes "\<not> m_bLock s" "\<not> bt_pnDownState s" "fits (torrent_download_rate s)" "length (gbk (c_text (tf_name tf))) \<le> 900"
    "length t + length (tf_save_path tf) \<le> 900" "list_all (\<lambda>rd. list_all (sane_alert (tf_handle tf)) (rd_alerts rd)) rds"
    "\<exists>rd \<in> set rds. rd_progress rd = tf_size tf \<or> chk \<and> rd_elapsed rd > m_nTimedOut s * 1000000"
  shows "\<exists>r. DownloadProcess ex tf gbk rds lp t fn chk k s = Some r"
proof -
  have c: "length (c_text x) \<le> length x" for x by (simp add: c_text_def length_takeWhile_le)
  define th where "th = tf_handle tf"
  have loop: "\<exists>r. bt_loop chk k f th rds l u = Some r"
    if "\<not> m_bLock u" "setting u = setting (s\<lparr>m_nFileSize := tf_size tf\<rparr>)" "length f \<le> 900" "sane_loc l" for f l u
    using that assms(6,7) unfolding th_def [symmetric]
  proof (induction rds arbitrary: l u)
    case (Cons rd rds)
    have u: "\<not> bt_pnDownState u" "fits (torrent_download_rate u)" using Cons.prems(2) assms(2,3) by (simp_all add: setting_def)
    obtain e l1 u1 where b: "bt_body chk k f th rd l u = Some (e, l1, u1)" "sane_loc l1"
      using bt_body_returns [OF Cons.prems(1) u(1) Cons.prems(3,4) u(2)] Cons.prems(5) by fastforce
    show ?case
    proof (cases e)
      case None
      have "setting u1 = setting u" "\<not> m_bLock u1" using bt_body_keeps [OF b(1) Cons.prems(1)] None by auto
      moreover have "\<not> (rd_progress rd = tf_size tf \<or> chk \<and> rd_elapsed rd > m_nTimedOut s * 1000000)"
        using b(1) None Cons.prems(2) by (auto simp: bt_body_def Let_def setting_def split: if_splits)
      ultimately have "\<exists>r. bt_loop chk k f th rds l1 u1 = Some r"
        using Cons.prems b(2) by (intro Cons.IH) auto
      then show ?thesis using b(1) None by simp
    next
      case (Some d)
      then show ?thesis using b(1) by simp
    qed
  qed simp
  obtain u where u: "bt_begin tf lp t s = Some u"
    using c [of t] c [of "tf_save_path tf"] assms(5) by (fastforce simp: bt_begin_def Let_def log_line_def)
  have "sane_loc bt_loc_init" by (simp add: sane_loc_def bt_loc_init_def)
  then obtain e v where "bt_loop chk k (gbk (c_text (tf_name tf))) (tf_handle tf) rds bt_loc_init u = Some (e, v)"
    using loop bt_begin_keeps [OF u] assms(1,4) by (fastforce simp: th_def)
  then show ?thesis using u c [of t] assms(5) by (auto simp: DownloadProcess_def Let_def log_line_def)
qed

section \<open>A sample download\<close>

definition sample_bt :: "bool \<Rightarrow> int list \<Rightarrow> bt" where
  "sample_bt ctl vs =
     \<lparr>m_nTimedOut = 60, m_nPeerTimeOut = 30, save_path = [], m_session_path = [], realfilename = [], torrent_download_rate = - 1,
      torrent_upload_rate = - 1, m_nDownload_Rate = 0, m_nUpload_Rate = 0, m_nTotal_Done = 0, m_nTotal_Upload = 0,
      m_nTorrentProgress = 0, m_nFileSize = 0, bt_pnDownState = ctl, m_bLock = False, acts = [], bt_reads = vs, bt_slept = 0, bt_log = []\<rparr>"

definition sample_torrent :: torrent_file where
  "sample_torrent = \<lparr>tf_name = ''f'', tf_size = 10, tf_found = None, tf_handle = 1, tf_valid = True, tf_save_path = ''d''\<rparr>"

definition sample_round :: "int \<Rightarrow> int \<Rightarrow> bt_round" where
  "sample_round p e = \<lparr>rd_progress = p, rd_elapsed = e, rd_alerts = [], rd_peers = []\<rparr>"

theorem download_outcome_witness:
  "\<exists>s'. DownloadProcess (\<lambda>_. True) sample_torrent (\<lambda>f. f) [sample_round 5 0] [] ''t'' [] True 0 (sample_bt True [2, 2, 2, 2]) = Some (3, ''f'', s')
     \<and> DownloadProcess (\<lambda>_. True) sample_torrent (\<lambda>f. f) [sample_round 5 0, sample_round 10 1] [] ''t'' [] True 0 s' = None"
proof -
  obtain s' where s': "DownloadProcess (\<lambda>_. True) sample_torrent (\<lambda>f. f) [sample_round 5 0] [] ''t'' [] True 0 (sample_bt True [2, 2, 2, 2])
      = Some (3, ''f'', s')"
    by (simp add: DownloadProcess_def bt_begin_def CheckFileExist_def sample_torrent_def sample_bt_def log_line_def bt_body_def bt_Lock_def
        bt_locked_def bt_control_def sample_round_def bt_loc_init_def c_text_def)
  from download_outcome [OF this] have
    "DownloadProcess (\<lambda>_. True) sample_torrent (\<lambda>f. f) [sample_round 5 0, sample_round 10 1] [] ''t'' [] True 0 s' = None"
    by (simp add: CheckFileExist_def sample_bt_def sample_torrent_def sample_round_def)
  then show ?thesis using s' by blast
qed

theorem download_ends_witness:
  "\<exists>r. DownloadProcess (\<lambda>_. True) sample_torrent (\<lambda>f. f) [sample_round 5 0, sample_round 6 61000000] [] ''t'' [] True 0 (sample_bt False []) = Some r"
  by (rule download_ends) (simp_all add: sample_bt_def sample_torrent_def sample_round_def c_text_def)

end
