(* ===== verification/AstClient.thy ===== *)
theory AstClient
  imports ZSocket AstPackage CText
begin

text \<open>
  The client \<open>CAstClient\<close> of \<open>src/public/astclient.cpp\<close> and \<open>astclient.h\<close> over the socket wrapper
  \<open>ZSocket\<close>: connecting, with or without a bound local address, and the exchange of one message.

  \<open>m_fd\<close> of the class is \<open>cl_fd\<close> here.  Buffers are lists of bytes: \<open>obuf\<close> is the memory behind the
  pointer, which may be longer than the capacity \<open>olen\<close> the caller announces.
\<close>

section \<open>The class\<close>

record CAstClient =
  m_Error :: string
  cl_fd :: CSocket
  m_bChangeIp :: bool
  m_ip :: string
  m_port :: int
  m_timeout :: int
  m_clientip :: string
  m_clientport :: int

text \<open>The constructor with arguments; the fields it does not set are those of \<open>c\<close>.\<close>

definition CAstClient_ctor :: "CAstClient \<Rightarrow> string \<Rightarrow> int \<Rightarrow> int \<Rightarrow> CAstClient" where
  "CAstClient_ctor c ip port tmo = c\<lparr>m_ip := ip, m_port := port, m_timeout := tmo\<rparr>"

definition InitServer :: "CAstClient \<Rightarrow> string \<Rightarrow> int \<Rightarrow> int \<Rightarrow> CAstClient" where
  "InitServer c ip port tmo = c\<lparr>m_ip := ip, m_port := port, m_timeout := tmo\<rparr>"

definition InitClient :: "CAstClient \<Rightarrow> string \<Rightarrow> int \<Rightarrow> CAstClient" where
  "InitClient c ip port = c\<lparr>m_clientip := ip, m_clientport := port\<rparr>"

definition client_close :: "CAstClient \<Rightarrow> reply list \<Rightarrow> (int \<times> CAstClient \<times> reply list) option" where
  "client_close c rs = map_option (\<lambda>(n, s, r). (n, c\<lparr>cl_fd := s\<rparr>, r)) (close (cl_fd c) rs)"

section \<open>Connecting\<close>

definition client_build :: "CAstClient \<Rightarrow> reply list \<Rightarrow> (int \<times> CAstClient \<times> reply list) option" where
  "client_build c rs = map_option (\<lambda>(n, s, r). (n, c\<lparr>cl_fd := s\<rparr>, r)) (build_socket (cl_fd c) rs)"

definition bindClientIP :: "CAstClient \<Rightarrow> reply list \<Rightarrow> (int \<times> CAstClient \<times> reply list) option" where
  "bindClientIP c rs =
     (case client_build c rs of
        None \<Rightarrow> None
      | Some (_, c1, r1) \<Rightarrow> map_option (\<lambda>(n, _, r2). (n, c1, r2)) (plain_call r1))"

text \<open>\<open>connect()\<close>.\<close>

definition connect_plain :: "CAstClient \<Rightarrow> reply list \<Rightarrow> (int \<times> CAstClient \<times> reply list) option" where
  "connect_plain c rs =
     (case (if m_fd (cl_fd c) = - 1 then client_build c rs else Some (0, c, rs)) of
        None \<Rightarrow> None
      | Some (b, c1, r1) \<Rightarrow>
          if b < 0 then Some (- 1, c1, r1)
          else map_option (\<lambda>(n, r2). (if n \<noteq> 0 then - 2 else 0, c1, r2)) (connect_timeout r1))"

text \<open>\<open>connect(bBindIp)\<close> up to the label \<open>EXIT_CONNECT\<close>.\<close>

definition connect_first :: "bool \<Rightarrow> CAstClient \<Rightarrow> reply list \<Rightarrow> (int \<times> CAstClient \<times> reply list) option" where
  "connect_first bBindIp c rs =
     (if \<not> bBindIp then connect_plain c rs
      else case client_build c rs of
             None \<Rightarrow> None
           | Some (b, c1, r1) \<Rightarrow>
               if b < 0 then Some (- 1, c1, r1)
               else (case bindClientIP c1 r1 of
                       None \<Rightarrow> None
                     | Some (n, c2, r2) \<Rightarrow>
                         if n \<noteq> 0 then Some (- 2, c2, r2)
                         else map_option (\<lambda>(x, r3). (if x \<noteq> 0 then - 3 else 0, c2, r3)) (connect_timeout r2)))"

text \<open>The code at the label: with a bound address, one more attempt without it.\<close>

definition connect_again :: "CAstClient \<Rightarrow> reply list \<Rightarrow> (int \<times> CAstClient \<times> reply list) option" where
  "connect_again c rs =
     (case client_close c rs of
        None \<Rightarrow> None
      | Some (_, c1, r1) \<Rightarrow>
          (case client_build c1 r1 of
             None \<Rightarrow> None
           | Some (b, c2, r2) \<Rightarrow>
               if b < 0 then Some (- 3, c2, r2)
               else (case connect_timeout r2 of
                       None \<Rightarrow> None
                     | Some (x, r3) \<Rightarrow>
                         if x \<noteq> 0 then Some (- 4, c2, r3)
                         else (case r3 of
                                 Name ip # r4 \<Rightarrow> Some (0, c2\<lparr>m_clientip := ip, m_bChangeIp := True\<rparr>, r4)
                               | Fail e # r4 \<Rightarrow> Some (- 5, c2, r4)
                               | _ \<Rightarrow> None))))"

definition client_connect :: "bool \<Rightarrow> CAstClient \<Rightarrow> reply list \<Rightarrow> (int \<times> CAstClient \<times> reply list) option" where
  "client_connect bBindIp c rs =
     (case connect_first bBindIp (c\<lparr>m_bChangeIp := False\<rparr>) rs of
        None \<Rightarrow> None
      | Some (ret, c1, r1) \<Rightarrow> if ret \<noteq> 0 \<and> bBindIp then connect_again c1 r1 else Some (ret, c1, r1))"

section \<open>Exchanging a message\<close>

record RUN =
  run_ret :: int
  run_obuf :: "byte list option"
  run_olen :: int
  run_sRealLen :: int
  run_sent :: "byte list"

text \<open>The second part of \<open>run\<close>, for a buffer that is not null: head, length, rest.\<close>

definition run_receive ::
    "CAstClient \<Rightarrow> byte list \<Rightarrow> int \<Rightarrow> RUN \<Rightarrow> reply list \<Rightarrow> (RUN \<times> CAstClient \<times> reply list) option" where
  "run_receive c obuf olen res rs =
     (case recvv 8 (length obuf) (m_timeout c) (cl_fd c) rs of
        None \<Rightarrow> None
      | Some (nHead, head, s2, r2) \<Rightarrow>
          let ob1 = put_at 0 head obuf; c2 = c\<lparr>cl_fd := s2\<rparr>
          in if nHead = 8
             then let nLen = int_of_u32 (zs_GetBE32 (drop 4 ob1))
                  in if olen < nLen then Some (res\<lparr>run_ret := nLen, run_obuf := Some ob1, run_olen := olen\<rparr>, c2, r2)
                     else (case recvv (nat (size_t_of_int (nLen - 8))) (length obuf - 8) (m_timeout c) s2 r2 of
                             None \<Rightarrow> None
                           | Some (n, body, s3, r3) \<Rightarrow>
                               let ob2 = put_at 8 body ob1; c3 = c2\<lparr>cl_fd := s3\<rparr>
                               in if n \<le> 0
                                  then Some (res\<lparr>run_ret := - 4, run_obuf := Some ob2, run_olen := n\<rparr>,
                                         c3\<lparr>m_Error := ''CAstClient::run: recvv data='' @ print_int n\<rparr>, r3)
                                  else Some (res\<lparr>run_ret := 0, run_obuf := Some ob2, run_olen := n + 8\<rparr>, c3, r3))
             else Some (res\<lparr>run_ret := - 6, run_obuf := Some ob1, run_olen := nHead\<rparr>,
                    c2\<lparr>m_Error := ''CAstClient::run: recvv head='' @ print_int nHead\<rparr>, r2))"

definition run ::
    "CAstClient \<Rightarrow> byte list \<Rightarrow> byte list option \<Rightarrow> int \<Rightarrow> reply list \<Rightarrow> (RUN \<times> CAstClient \<times> reply list) option" where
  "run c sbuf obuf olen rs =
     (case sendv sbuf (m_timeout c) (cl_fd c) rs of
        None \<Rightarrow> None
      | Some (n, out, s1, r1) \<Rightarrow>
          let c1 = c\<lparr>cl_fd := s1\<rparr>;
              res = \<lparr>run_ret = 0, run_obuf = obuf, run_olen = 0, run_sRealLen = n, run_sent = out\<rparr>
          in if n \<noteq> int (length sbuf) then Some (res\<lparr>run_ret := - 3\<rparr>, c1, r1)
             else if obuf = None \<or> olen < 8 then Some (res\<lparr>run_ret := - 1\<rparr>, c1, r1)
             else run_receive c1 (the obuf) olen res r1)"

definition runcontinue ::
    "CAstClient \<Rightarrow> int \<Rightarrow> byte list \<Rightarrow> reply list \<Rightarrow> (int \<times> byte list \<times> CAstClient \<times> reply list) option" where
  "runcontinue c len obuf rs =
     map_option (\<lambda>(n, bs, s, r). (if n \<le> 0 then - 1 else 0, put_at 0 bs obuf, c\<lparr>cl_fd := s\<rparr>, r))
       (recvv (nat (size_t_of_int len)) (length obuf) (m_timeout c) (cl_fd c) rs)"

section \<open>An answer\<close>

lemma run_receive_answer:
  assumes "\<not> fd_nonblock (cl_fd c)" "m_timeout c \<noteq> 0"
    "9 \<le> length msg" "zs_GetBE32 (take 4 (drop 4 msg)) = of_nat (length msg)" "length msg < 2 ^ 31"
    "int (length msg) \<le> olen" "length msg \<le> length ob"
    "delivers hs (take 8 msg)" "delivers bs (drop 8 msg)"
  shows "run_receive c ob olen res (Count f2 # hs @ Count f3 # bs @ rest)
    = Some (res\<lparr>run_ret := 0, run_obuf := Some (put_at 0 msg ob), run_olen := int (length msg)\<rparr>, c, rest)"
proof -
  have h: "recvv 8 (length ob) (m_timeout c) (cl_fd c) (Count f2 # hs @ Count f3 # bs @ rest)
      = Some (8, take 8 msg, cl_fd c, Count f3 # bs @ rest)"
    and b: "recvv (length msg - 8) (length ob - 8) (m_timeout c) (cl_fd c) (Count f3 # bs @ rest)
      = Some (int (length msg) - 8, drop 8 msg, cl_fd c, rest)"
    using sock.recv_two_parts(1) [OF assms(1,2) _ assms(7-9), of f2 f3 rest]
      sock.recv_two_parts(2) [OF assms(1,2) _ assms(7-9), of f3 rest] assms(3) by simp_all
  have "drop 4 (put_at 0 (take 8 msg) ob) = take 4 (drop 4 msg) @ drop 8 ob"
    using assms(3) by (simp add: put_at_def drop_take min_def)
  moreover have "zs_GetBE32 (x @ y) = zs_GetBE32 x" if "length x = 4" for x y
    using that by (simp add: zs_GetBE32_def GetBE32_def nth_append)
  ultimately have "zs_GetBE32 (drop 4 (put_at 0 (take 8 msg) ob)) = of_nat (length msg)"
    using assms(3,4) by simp
  then have n: "int_of_u32 (zs_GetBE32 (drop 4 (put_at 0 (take 8 msg) ob))) = int (length msg)"
    using int_of_u32_of_nat [OF assms(5)] by simp
  have sz: "nat (size_t_of_int (int (length msg) - 8)) = length msg - 8"
    using assms(3,5) by (simp add: nat_diff_distrib)
  have "put_at 8 (drop 8 msg) (put_at 0 (take 8 msg) ob) = put_at 0 msg ob"
    using put_at_adjacent0 [of "take 8 msg" "drop 8 msg" ob] assms(3) by (simp add: min_def)
  then show ?thesis
    using h b n sz assms(3,6) by (simp add: run_receive_def Let_def)
qed

lemma put_head_length:
  assumes "length head = 8"
  shows "zs_GetBE32 (drop 4 (put_at 0 head ob)) = zs_GetBE32 (drop 4 head)"
proof -
  have "zs_GetBE32 (x @ y) = zs_GetBE32 x" if "length x = 4" for x y
    using that by (simp add: zs_GetBE32_def GetBE32_def nth_append)
  then show ?thesis using assms by (simp add: put_at_def)
qed

section \<open>Properties\<close>

text \<open>
  \<^bold>\<open>C19\<close> An exchange succeeds: when the server takes the request and answers with a message whose length
  field is its length and that fits the buffer, \<open>run\<close> returns 0 with exactly this message in the
  buffer and its length in \<open>olen\<close>, however the transfer is split into pieces and interrupted.
\<close>

theorem run_answer:
  assumes "\<not> fd_nonblock (cl_fd c)" "m_timeout c \<noteq> 0" "takes ts sbuf"
    "9 \<le> length msg" "zs_GetBE32 (take 4 (drop 4 msg)) = of_nat (length msg)" "length msg < 2 ^ 31"
    "int (length msg) \<le> olen" "length msg \<le> length ob"
    "delivers hs (take 8 msg)" "delivers bs (drop 8 msg)"
  shows "run c sbuf (Some ob) olen (Count f1 # ts @ Count f2 # hs @ Count f3 # bs @ rest)
    = Some (\<lparr>run_ret = 0, run_obuf = Some (put_at 0 msg ob), run_olen = int (length msg),
             run_sRealLen = int (length sbuf), run_sent = sbuf\<rparr>, c, rest)"
  using sendv_takes [OF assms(1-3), of f1 "Count f2 # hs @ Count f3 # bs @ rest"] assms(4,7)
    run_receive_answer [OF assms(1,2,4-10)]
  by (simp add: run_def Let_def)

theorem run_answer_witness:
  "run \<lparr>m_Error = [], cl_fd = \<lparr>m_fd = 3, fd_nonblock = False, open_fds = [3]\<rparr>, m_bChangeIp = False, m_ip = [],
        m_port = 1, m_timeout = 5, m_clientip = [], m_clientport = 0\<rparr> [7] (Some (replicate 16 0)) 16
      (Count 0 # [Count 1] @ Count 0 # [Data [1, 1, 0, 0, 0, 0], Fail EINTR, Data [0, 9]] @ Count 0 # [Data [5]] @ [])
    = Some (\<lparr>run_ret = 0, run_obuf = Some (put_at 0 [1, 1, 0, 0, 0, 0, 0, 9, 5] (replicate 16 0)),
             run_olen = int (length [1, 1, 0, 0, 0, 0, 0, 9, 5 :: byte]), run_sRealLen = int (length [7 :: byte]), run_sent = [7]\<rparr>,
        \<lparr>m_Error = [], cl_fd = \<lparr>m_fd = 3, fd_nonblock = False, open_fds = [3]\<rparr>, m_bChangeIp = False, m_ip = [],
        m_port = 1, m_timeout = 5, m_clientip = [], m_clientport = 0\<rparr>, [])"
  by (rule run_answer) (simp_all add: zs_GetBE32_def GetBE32_def)

text \<open>
  A length field below 8 makes \<open>run\<close> write behind the buffer: the length of the rest becomes a huge
  \<open>size_t\<close>, so everything the peer sends until it closes the connection is stored behind the head, no
  matter what capacity \<open>olen\<close> the caller announced.
\<close>

theorem run_overruns:
  assumes "\<not> fd_nonblock (cl_fd c)" "m_timeout c \<noteq> 0" "takes ts sbuf" "length head = 8" "delivers hs head"
    "int_of_u32 (zs_GetBE32 (drop 4 head)) < 8" "8 \<le> olen" "8 + length body \<le> length ob" "body \<noteq> []" "length body < 2 ^ 31"
  shows "\<exists>c'. run c sbuf (Some ob) olen (Count f1 # ts @ Count f2 # hs @ Count f3 # [Data body, Data []] @ rest)
    = Some (\<lparr>run_ret = - 4, run_obuf = Some (put_at 0 (head @ body) ob), run_olen = 0,
             run_sRealLen = int (length sbuf), run_sent = sbuf\<rparr>, c', rest)"
proof -
  define L where "L = int_of_u32 (zs_GetBE32 (drop 4 head))"
  have L: "- (2 ^ 31) \<le> L" "L < 8"
    using assms(6) sint_greater_eq [of "zs_GetBE32 (drop 4 head)"] by (simp_all add: L_def int_of_u32_def)
  have "(L - 8 + 2 ^ 64) mod 2 ^ 64 = L - 8 + 2 ^ 64"
    using L by (intro mod_pos_pos_trivial) simp_all
  then have "size_t_of_int (L - 8) = L - 8 + 2 ^ 64"
    by (simp only: size_t_of_int_def mod_add_self2)
  then have big: "length body < nat (size_t_of_int (L - 8))" using L assms(10) by simp
  have h: "recvv 8 (length ob) (m_timeout c) (cl_fd c) (Count f2 # hs @ r) = Some (8, head, cl_fd c, r)" for r
    using recvv_delivers [OF assms(1,2,5), of "length ob" f2 r] assms(4,8) by simp
  have "recvv (nat (size_t_of_int (L - 8))) (length ob - 8) (m_timeout c) (cl_fd c) (Count f3 # Data body # Data [] # rest)
      = Some (0, body, cl_fd c, rest)"
    using big assms(1,2,8,9)
    by (simp add: recvv_def recvv_impl_def setblocking_same recvv_loop.simps) linarith
  moreover have "put_at 8 body (put_at 0 head ob) = put_at 0 (head @ body) ob"
    using put_at_adjacent0 [of head body ob] assms(4) by simp
  ultimately show ?thesis
    using sendv_takes [OF assms(1-3)] h put_head_length [OF assms(4), of ob] assms(6,7)
    by (simp add: run_def run_receive_def Let_def L_def [symmetric])
qed

text \<open>
  \<open>connect(true)\<close> leaks a descriptor: it creates a socket, \<open>bindClientIP\<close> creates a second one over
  it, and after a successful connection and \<open>close\<close> the first one is still open.
\<close>

theorem connect_leaks:
  assumes "0 \<le> a" "0 \<le> b" "a \<noteq> b"
  shows "\<exists>c1 c2. client_connect True c [Count a, Count b, Count 0, Count 0] = Some (0, c1, [])
    \<and> m_fd (cl_fd c1) = b \<and> \<not> m_bChangeIp c1 \<and> client_close c1 [Count 0] = Some (0, c2, [])
    \<and> m_fd (cl_fd c2) = - 1 \<and> open_fds (cl_fd c2) = a # open_fds (cl_fd c)"
  using assms
  by (simp add: client_connect_def connect_first_def client_build_def build_socket_def bindClientIP_def plain_call_def
      connect_timeout_def client_close_def close_def)

end
