(* ===== verification/JsonValue.thy ===== *)
theory JsonValue
  imports CText "HOL-Library.Monad_Syntax" "HOL-Library.List_Lexorder"
begin

text \<open>
  The values of the JSON library (\<open>src/public/json/json_value.cpp\<close>, \<open>include/value.h\<close>), configured with \<open>std::map\<close>
  (\<open>JSON_VALUE_USE_INTERNAL_MAP\<close> is not defined).

  A map is the list of its entries in the order of the keys.  The keys of objects are C strings, compared as
  \<open>strcmp\<close> does, which is the lexicographic order of bytes; the keys of arrays are indices.  A \<open>double\<close> is its 64 bits.
  References that the library returns are the pair of reading and assigning.  Comments, which the program does not
  collect, are left out.  \<^term>\<open>None\<close> is a failed assertion or an exception.
\<close>

section \<open>Ordered maps\<close>

abbreviation keys_sorted :: "('k :: linorder \<times> 'v) list \<Rightarrow> bool" where
  "keys_sorted m \<equiv> sorted_wrt (<) (map fst m)"

text \<open>Assignment through \<open>lower_bound\<close> and \<open>insert\<close>.\<close>

definition map_put :: "'k :: linorder \<Rightarrow> 'v \<Rightarrow> ('k \<times> 'v) list \<Rightarrow> ('k \<times> 'v) list" where
  "map_put k v m = takeWhile (\<lambda>e. fst e < k) m @ (k, v) # dropWhile (\<lambda>e. fst e \<le> k) m"

definition map_erase :: "'k \<Rightarrow> ('k \<times> 'v) list \<Rightarrow> ('k \<times> 'v) list" where
  "map_erase k m = filter (\<lambda>e. fst e \<noteq> k) m"

lemma map_put_Nil [simp]: "map_put k v [] = [(k, v)]"
  by (simp add: map_put_def)

lemma map_put_Cons:
  "map_put k v (e # m) = (if fst e < k then e # map_put k v m else if fst e = k then (k, v) # dropWhile (\<lambda>e. fst e \<le> k) m else (k, v) # e # m)"
  by (auto simp: map_put_def)

lemma set_map_put: "set (map_put k v m) \<subseteq> insert (k, v) (set m)"
  by (auto simp: map_put_def dest: set_takeWhileD set_dropWhileD)

lemma keys_sorted_put [intro, simp]: "keys_sorted m \<Longrightarrow> keys_sorted (map_put k v m)"
proof (induction m)
  case (Cons e m)
  have "fst x \<in> insert k (fst ` set m)" if "x \<in> set (map_put k v m)" for x using set_map_put that by fastforce
  moreover have "keys_sorted (dropWhile (\<lambda>e. fst e \<le> k) m)" "\<forall>x\<in>set (dropWhile (\<lambda>e. fst e \<le> k) m). k < fst x"
    using Cons.prems by (induction m) auto
  ultimately show ?case using Cons by (fastforce simp: map_put_Cons)
qed simp

lemma keys_sorted_erase [intro, simp]: "keys_sorted m \<Longrightarrow> keys_sorted (map_erase k m)"
  by (induction m) (auto simp: map_erase_def)

lemma map_of_greater: "\<forall>x\<in>set m. (k :: 'k :: linorder) < fst x \<Longrightarrow> map_of m k = None"
  by (induction m) auto

lemma map_of_put: "keys_sorted m \<Longrightarrow> map_of (map_put k v m) k' = (if k' = k then Some v else map_of m k')"
proof (induction m)
  case (Cons e m)
  have "dropWhile (\<lambda>e. fst e \<le> fst e0) m = m" if "keys_sorted (e0 # m)" for e0 :: "'a \<times> 'b"
    using that by (cases m) auto
  then show ?case using Cons by (cases e) (auto simp: map_put_Cons)
qed simp

lemma map_of_erase: "map_of (map_erase k m) k' = (if k' = k then None else map_of m k')"
  by (induction m) (auto simp: map_erase_def)

lemma map_put_last: "(\<And>e. e \<in> set m \<Longrightarrow> fst e < k) \<Longrightarrow> map_put k v m = m @ [(k, v)]"
  by (induction m) (auto simp: map_put_Cons)

lemma map_put_replace: "(\<And>e. e \<in> set m \<Longrightarrow> fst e < k) \<Longrightarrow> map_put k v (m @ [(k, w)]) = m @ [(k, v)]"
  by (induction m) (auto simp: map_put_Cons)

section \<open>Values\<close>

datatype Value =
    nullValue
  | intValue int
  | uintValue nat
  | realValue "64 word"
  | stringValue "byte list option"
  | booleanValue bool
  | arrayValue "(nat \<times> Value) list"
  | objectValue "(byte list \<times> Value) list"

datatype ValueType = T_null | T_int | T_uint | T_real | T_string | T_boolean | T_array | T_object

fun Value_type :: "Value \<Rightarrow> ValueType" where
  "Value_type nullValue = T_null"
| "Value_type (intValue _) = T_int"
| "Value_type (uintValue _) = T_uint"
| "Value_type (realValue _) = T_real"
| "Value_type (stringValue _) = T_string"
| "Value_type (booleanValue _) = T_boolean"
| "Value_type (arrayValue _) = T_array"
| "Value_type (objectValue _) = T_object"

definition minInt :: int where "minInt = - (2 ^ 31)"
definition maxInt :: int where "maxInt = 2 ^ 31 - 1"
definition maxUInt :: nat where "maxUInt = 2 ^ 32 - 1"

text \<open>The constructor from a type; a text is then the null pointer.\<close>

fun Value_of_type :: "ValueType \<Rightarrow> Value" where
  "Value_of_type T_null = nullValue"
| "Value_of_type T_int = intValue 0"
| "Value_of_type T_uint = uintValue 0"
| "Value_of_type T_real = realValue 0"
| "Value_of_type T_string = stringValue None"
| "Value_of_type T_boolean = booleanValue False"
| "Value_of_type T_array = arrayValue []"
| "Value_of_type T_object = objectValue []"

text \<open>The constructors from texts: the text is read as a C string wherever it is used.\<close>

definition Value_text :: "byte list \<Rightarrow> Value" where
  "Value_text value = stringValue (Some (buf_str value))"

section \<open>Conversions\<close>

fun asCString :: "Value \<Rightarrow> byte list option option" where
  "asCString (stringValue s) = Some s"
| "asCString _ = None"

fun asString :: "Value \<Rightarrow> byte list option" where
  "asString nullValue = Some []"
| "asString (stringValue s) = Some (case s of Some t \<Rightarrow> t | None \<Rightarrow> [])"
| "asString (booleanValue b) = Some (bytes_of (if b then ''true'' else ''false''))"
| "asString _ = None"

text \<open>What the conversions of \<open>double\<close> need: comparison with an integer, and truncation.\<close>

record fp =
  fp_le_int :: "64 word \<Rightarrow> int \<Rightarrow> bool"
  fp_ge_int :: "64 word \<Rightarrow> int \<Rightarrow> bool"
  fp_trunc :: "64 word \<Rightarrow> int"
  fp_of_int :: "int \<Rightarrow> 64 word"
  fp_scan :: "byte list \<Rightarrow> 64 word option"
  fp_print :: "64 word \<Rightarrow> byte list"

fun asInt :: "fp \<Rightarrow> Value \<Rightarrow> int option" where
  "asInt f nullValue = Some 0"
| "asInt f (intValue i) = Some i"
| "asInt f (uintValue u) = (if int u < maxInt then Some (int u) else None)"
| "asInt f (realValue r) = (if fp_ge_int f r minInt \<and> fp_le_int f r maxInt then Some (fp_trunc f r) else None)"
| "asInt f (booleanValue b) = Some (if b then 1 else 0)"
| "asInt f _ = None"

fun asUInt :: "fp \<Rightarrow> Value \<Rightarrow> nat option" where
  "asUInt f nullValue = Some 0"
| "asUInt f (intValue i) = (if i \<ge> 0 then Some (nat i) else None)"
| "asUInt f (uintValue u) = Some u"
| "asUInt f (realValue r) = (if fp_ge_int f r 0 \<and> fp_le_int f r (int maxUInt) then Some (nat (fp_trunc f r)) else None)"
| "asUInt f (booleanValue b) = Some (if b then 1 else 0)"
| "asUInt f _ = None"

fun asDouble :: "fp \<Rightarrow> Value \<Rightarrow> 64 word option" where
  "asDouble f nullValue = Some (fp_of_int f 0)"
| "asDouble f (intValue i) = Some (fp_of_int f i)"
| "asDouble f (uintValue u) = Some (fp_of_int f (int u))"
| "asDouble f (realValue r) = Some r"
| "asDouble f (booleanValue b) = Some (fp_of_int f (if b then 1 else 0))"
| "asDouble f _ = None"

definition fp_zero :: "fp \<Rightarrow> 64 word \<Rightarrow> bool" where
  "fp_zero f r \<longleftrightarrow> fp_le_int f r 0 \<and> fp_ge_int f r 0"

fun asBool :: "fp \<Rightarrow> Value \<Rightarrow> bool" where
  "asBool f nullValue = False"
| "asBool f (intValue i) = (i \<noteq> 0)"
| "asBool f (uintValue u) = (u \<noteq> 0)"
| "asBool f (realValue r) = (\<not> fp_zero f r)"
| "asBool f (booleanValue b) = b"
| "asBool f (stringValue s) = (case s of Some t \<Rightarrow> t \<noteq> [] | None \<Rightarrow> False)"
| "asBool f (arrayValue m) = (m \<noteq> [])"
| "asBool f (objectValue m) = (m \<noteq> [])"

fun isConvertibleTo :: "fp \<Rightarrow> Value \<Rightarrow> ValueType \<Rightarrow> bool" where
  "isConvertibleTo f nullValue t = True"
| "isConvertibleTo f (intValue i) t =
     (t = T_null \<and> i = 0 \<or> t = T_int \<or> t = T_uint \<and> i \<ge> 0 \<or> t = T_real \<or> t = T_string \<or> t = T_boolean)"
| "isConvertibleTo f (uintValue u) t =
     (t = T_null \<and> u = 0 \<or> t = T_int \<and> int u \<le> maxInt \<or> t = T_uint \<or> t = T_real \<or> t = T_string \<or> t = T_boolean)"
| "isConvertibleTo f (realValue r) t =
     (t = T_null \<and> fp_zero f r \<or> t = T_int \<and> fp_ge_int f r minInt \<and> fp_le_int f r maxInt
      \<or> t = T_uint \<and> fp_ge_int f r 0 \<and> fp_le_int f r (int maxUInt) \<or> t = T_real \<or> t = T_string \<or> t = T_boolean)"
| "isConvertibleTo f (booleanValue b) t =
     (t = T_null \<and> \<not> b \<or> t = T_int \<or> t = T_uint \<or> t = T_real \<or> t = T_string \<or> t = T_boolean)"
| "isConvertibleTo f (stringValue s) t = (t = T_string \<or> t = T_null \<and> (s = None \<or> s = Some []))"
| "isConvertibleTo f (arrayValue m) t = (t = T_array \<or> t = T_null \<and> m = [])"
| "isConvertibleTo f (objectValue m) t = (t = T_object \<or> t = T_null \<and> m = [])"

definition isArray :: "Value \<Rightarrow> bool" where
  "isArray v \<longleftrightarrow> Value_type v = T_null \<or> Value_type v = T_array"

definition isObject :: "Value \<Rightarrow> bool" where
  "isObject v \<longleftrightarrow> Value_type v = T_null \<or> Value_type v = T_object"

definition isIntegral :: "Value \<Rightarrow> bool" where
  "isIntegral v \<longleftrightarrow> Value_type v = T_int \<or> Value_type v = T_uint \<or> Value_type v = T_boolean"

definition isNumeric :: "Value \<Rightarrow> bool" where
  "isNumeric v \<longleftrightarrow> isIntegral v \<or> Value_type v = T_real"

section \<open>Arrays and objects\<close>

text \<open>The size of an array is its highest index and one.\<close>

fun Value_size :: "Value \<Rightarrow> nat" where
  "Value_size (arrayValue m) = (if m = [] then 0 else fst (last m) + 1)"
| "Value_size (objectValue m) = length m"
| "Value_size _ = 0"

definition Value_empty :: "Value \<Rightarrow> bool" where
  "Value_empty v \<longleftrightarrow> (if Value_type v = T_null \<or> isArray v \<or> isObject v then Value_size v = 0 else False)"

fun Value_clear :: "Value \<Rightarrow> Value option" where
  "Value_clear nullValue = Some nullValue"
| "Value_clear (arrayValue m) = Some (arrayValue [])"
| "Value_clear (objectValue m) = Some (objectValue [])"
| "Value_clear _ = None"

text \<open>The map of an array or object; \<open>operator[]\<close> turns null into an empty one.\<close>

fun array_entries :: "Value \<Rightarrow> (nat \<times> Value) list option" where
  "array_entries nullValue = Some []"
| "array_entries (arrayValue m) = Some m"
| "array_entries _ = None"

fun object_entries :: "Value \<Rightarrow> (byte list \<times> Value) list option" where
  "object_entries nullValue = Some []"
| "object_entries (objectValue m) = Some m"
| "object_entries _ = None"

text \<open>\<open>operator[]\<close>: the element, which is created as null when it is missing, and the assignment to it.\<close>

definition entry_or_null :: "('k \<times> Value) list \<Rightarrow> 'k \<Rightarrow> Value" where
  "entry_or_null m k = (case map_of m k of Some v \<Rightarrow> v | None \<Rightarrow> nullValue)"

definition Value_index :: "Value \<Rightarrow> nat \<Rightarrow> (Value \<times> Value) option" where
  "Value_index v index =
     map_option (\<lambda>m. (entry_or_null m index, arrayValue (if map_of m index = None then map_put index nullValue m else m)))
       (array_entries v)"

definition set_index :: "Value \<Rightarrow> nat \<Rightarrow> Value \<Rightarrow> Value option" where
  "set_index v index x = map_option (\<lambda>m. arrayValue (map_put index x m)) (array_entries v)"

definition resolveReference :: "Value \<Rightarrow> byte list \<Rightarrow> (Value \<times> Value) option" where
  "resolveReference v key =
     map_option (\<lambda>m. (entry_or_null m (buf_str key),
         objectValue (if map_of m (buf_str key) = None then map_put (buf_str key) nullValue m else m)))
       (object_entries v)"

definition set_member :: "Value \<Rightarrow> byte list \<Rightarrow> Value \<Rightarrow> Value option" where
  "set_member v key x = map_option (\<lambda>m. objectValue (map_put (buf_str key) x m)) (object_entries v)"

text \<open>The versions for constant values; \<open>isMember\<close> and \<open>get\<close> tell a missing element from null.\<close>

definition const_index :: "Value \<Rightarrow> nat \<Rightarrow> Value option" where
  "const_index v index = map_option (\<lambda>m. entry_or_null m index) (array_entries v)"

definition const_member :: "Value \<Rightarrow> byte list \<Rightarrow> Value option" where
  "const_member v key = map_option (\<lambda>m. entry_or_null m (buf_str key)) (object_entries v)"

definition get_index :: "Value \<Rightarrow> nat \<Rightarrow> Value \<Rightarrow> Value option" where
  "get_index v index defaultValue =
     map_option (\<lambda>m. case map_of m index of Some x \<Rightarrow> x | None \<Rightarrow> defaultValue) (array_entries v)"

definition get_member :: "Value \<Rightarrow> byte list \<Rightarrow> Value \<Rightarrow> Value option" where
  "get_member v key defaultValue =
     map_option (\<lambda>m. case map_of m (buf_str key) of Some x \<Rightarrow> x | None \<Rightarrow> defaultValue) (object_entries v)"

definition isMember :: "Value \<Rightarrow> byte list \<Rightarrow> bool option" where
  "isMember v key = map_option (\<lambda>m. map_of m (buf_str key) \<noteq> None) (object_entries v)"

definition isValidIndex :: "Value \<Rightarrow> nat \<Rightarrow> bool" where
  "isValidIndex v index \<longleftrightarrow> index < Value_size v"

definition Value_append :: "Value \<Rightarrow> Value \<Rightarrow> Value option" where
  "Value_append v x = set_index v (Value_size v) x"

definition removeMember :: "Value \<Rightarrow> byte list \<Rightarrow> (Value \<times> Value) option" where
  "removeMember v key =
     (case v of
        nullValue \<Rightarrow> Some (nullValue, nullValue)
      | objectValue m \<Rightarrow> Some (entry_or_null m (buf_str key), objectValue (map_erase (buf_str key) m))
      | _ \<Rightarrow> None)"

definition getMemberNames :: "Value \<Rightarrow> byte list list option" where
  "getMemberNames v = map_option (map fst) (object_entries v)"

definition Value_resize :: "Value \<Rightarrow> nat \<Rightarrow> Value option" where
  "Value_resize v newSize =
     do {
       m \<leftarrow> array_entries v;
       let oldSize = Value_size (arrayValue m);
       if newSize = 0 then Value_clear (arrayValue m)
       else if newSize > oldSize then map_option snd (Value_index (arrayValue m) (newSize - 1))
       else let m' = fold map_erase [newSize..<oldSize] m
            in if Value_size (arrayValue m') = newSize then Some (arrayValue m') else None
     }"

text \<open>\<open>operator ==\<close>, with the comparison of \<open>double\<close> as an argument.\<close>

fun Value_eq :: "(64 word \<Rightarrow> 64 word \<Rightarrow> bool) \<Rightarrow> Value \<Rightarrow> Value \<Rightarrow> bool" where
  "Value_eq e nullValue w = (w = nullValue)"
| "Value_eq e (intValue i) w = (w = intValue i)"
| "Value_eq e (uintValue u) w = (w = uintValue u)"
| "Value_eq e (realValue r) w = (case w of realValue s \<Rightarrow> e r s | _ \<Rightarrow> False)"
| "Value_eq e (booleanValue b) w = (w = booleanValue b)"
| "Value_eq e (stringValue s) w = (w = stringValue s)"
| "Value_eq e (arrayValue m) w =
     (case w of arrayValue n \<Rightarrow> list_all2 (\<lambda>x y. fst x = fst y \<and> Value_eq e (snd x) (snd y)) m n | _ \<Rightarrow> False)"
| "Value_eq e (objectValue m) w =
     (case w of objectValue n \<Rightarrow> list_all2 (\<lambda>x y. fst x = fst y \<and> Value_eq e (snd x) (snd y)) m n | _ \<Rightarrow> False)"

section \<open>The type invariant\<close>

text \<open>
  What holds of every value: integers lie in their ranges, texts and names are C strings, and maps are ordered by
  their keys.
\<close>

definition no_nul :: "byte list \<Rightarrow> bool" where
  "no_nul s \<longleftrightarrow> 0 \<notin> set s"

fun value_ok :: "Value \<Rightarrow> bool" where
  "value_ok nullValue = True"
| "value_ok (intValue i) = (minInt \<le> i \<and> i \<le> maxInt)"
| "value_ok (uintValue u) = (u \<le> maxUInt)"
| "value_ok (realValue r) = True"
| "value_ok (stringValue s) = (case s of Some t \<Rightarrow> no_nul t | None \<Rightarrow> True)"
| "value_ok (booleanValue b) = True"
| "value_ok (arrayValue m) = (keys_sorted m \<and> (\<forall>e\<in>set m. value_ok (snd e)))"
| "value_ok (objectValue m) = (keys_sorted m \<and> (\<forall>e\<in>set m. no_nul (fst e) \<and> value_ok (snd e)))"

lemma no_nul_buf_str [simp]: "no_nul (buf_str s)"
  by (auto simp: no_nul_def buf_str_def dest: set_takeWhileD)

lemma buf_str_id [simp]: "no_nul s \<Longrightarrow> buf_str s = s"
  by (induction s) (auto simp: no_nul_def buf_str_def)

lemma array_entries_ok: "\<lbrakk>value_ok v; array_entries v = Some m\<rbrakk> \<Longrightarrow> value_ok (arrayValue m)"
  by (cases v) auto

lemma object_entries_ok: "\<lbrakk>value_ok v; object_entries v = Some m\<rbrakk> \<Longrightarrow> value_ok (objectValue m)"
  by (cases v) auto

lemma array_put_ok: "\<lbrakk>value_ok (arrayValue m); value_ok x\<rbrakk> \<Longrightarrow> value_ok (arrayValue (map_put k x m))"
  using set_map_put by fastforce

lemma object_put_ok: "\<lbrakk>value_ok (objectValue m); value_ok x; no_nul k\<rbrakk> \<Longrightarrow> value_ok (objectValue (map_put k x m))"
  using set_map_put by fastforce

lemma entry_ok: "(\<And>e. e \<in> set m \<Longrightarrow> value_ok (snd e)) \<Longrightarrow> value_ok (entry_or_null m k)"
  by (auto simp: entry_or_null_def dest!: map_of_SomeD split: option.split)

lemma entry_default_ok:
  "\<lbrakk>\<And>e. e \<in> set m \<Longrightarrow> value_ok (snd e); value_ok d\<rbrakk> \<Longrightarrow> value_ok (case map_of m k of Some x \<Rightarrow> x | None \<Rightarrow> d)"
  by (auto dest!: map_of_SomeD split: option.split)

lemma fold_erase_ok: "value_ok (arrayValue m) \<Longrightarrow> value_ok (arrayValue (fold map_erase ks m))"
proof (induction ks arbitrary: m)
  case (Cons k ks)
  have "set (map_erase k m) \<subseteq> set m" by (auto simp: map_erase_def)
  then show ?case using Cons by auto
qed simp

lemmas entries_ok = array_entries_ok object_entries_ok array_put_ok object_put_ok

section \<open>Assigning elements\<close>

text \<open>
  The contract of a container: an element that was assigned is read back, the others stay, and a container stays one.
  A chain of assignments gives what the last assignment to a key stored.
\<close>

fun puts :: "('c \<Rightarrow> 'k \<Rightarrow> 'v \<Rightarrow> 'c option) \<Rightarrow> 'c \<Rightarrow> ('k \<times> 'v) list \<Rightarrow> 'c option" where
  "puts put c [] = Some c"
| "puts put c ((k, x) # kvs) = put c k x \<bind> (\<lambda>c. puts put c kvs)"

locale container =
  fixes ok :: "'c \<Rightarrow> bool" and key :: "'k \<Rightarrow> bool" and val :: "'v \<Rightarrow> bool"
    and rd :: "'c \<Rightarrow> 'k \<Rightarrow> 'v option" and put :: "'c \<Rightarrow> 'k \<Rightarrow> 'v \<Rightarrow> 'c option"
  assumes put_ok: "\<lbrakk>ok c; key k; val x\<rbrakk> \<Longrightarrow> \<exists>c'. put c k x = Some c' \<and> ok c'"
    and rd_put: "\<lbrakk>ok c; key k; key k'; put c k x = Some c'\<rbrakk> \<Longrightarrow> rd c' k' = (if k' = k then Some x else rd c k')"
begin

lemma puts_rd:
  "\<lbrakk>ok c; \<forall>(k, x)\<in>set kvs. key k \<and> val x\<rbrakk>
     \<Longrightarrow> \<exists>c'. puts put c kvs = Some c' \<and> ok c' \<and> (\<forall>k'. key k' \<longrightarrow> rd c' k' = (case map_of (rev kvs) k' of Some x \<Rightarrow> Some x | None \<Rightarrow> rd c k'))"
proof (induction kvs arbitrary: c)
  case (Cons e kvs)
  obtain k x where e: "e = (k, x)" by (cases e)
  with Cons.prems obtain c1 where c1: "put c k x = Some c1" "ok c1" using put_ok by fastforce
  then obtain c' where c': "puts put c1 kvs = Some c'" "ok c'"
      "\<forall>k'. key k' \<longrightarrow> rd c' k' = (case map_of (rev kvs) k' of Some x \<Rightarrow> Some x | None \<Rightarrow> rd c1 k')"
    using Cons.IH [of c1] Cons.prems by auto
  moreover have "rd c1 k' = (if k' = k then Some x else rd c k')" if "key k'" for k'
    using rd_put [OF _ _ that c1(1)] Cons.prems e by auto
  ultimately show ?case using e c1 by (auto simp: map_add_def split: option.split)
qed simp

end

definition object_ok :: "Value \<Rightarrow> bool" where
  "object_ok v \<longleftrightarrow> isObject v \<and> value_ok v"

definition array_ok :: "Value \<Rightarrow> bool" where
  "array_ok v \<longleftrightarrow> isArray v \<and> value_ok v"

definition member_at :: "Value \<Rightarrow> byte list \<Rightarrow> Value option" where
  "member_at v k = object_entries v \<bind> (\<lambda>m. map_of m k)"

definition element_at :: "Value \<Rightarrow> nat \<Rightarrow> Value option" where
  "element_at v i = array_entries v \<bind> (\<lambda>m. map_of m i)"

lemma object_cases: "object_ok v \<Longrightarrow> \<exists>m. object_entries v = Some m \<and> value_ok (objectValue m)"
  by (cases v) (auto simp: object_ok_def isObject_def)

lemma array_cases: "array_ok v \<Longrightarrow> \<exists>m. array_entries v = Some m \<and> value_ok (arrayValue m)"
  by (cases v) (auto simp: array_ok_def isArray_def)

interpretation obj: container object_ok no_nul value_ok member_at set_member
proof unfold_locales
  show "\<exists>v'. set_member v k x = Some v' \<and> object_ok v'" if "object_ok v" "no_nul k" "value_ok x" for v k x
    using object_cases [OF that(1)] object_put_ok that(2,3) by (auto simp: set_member_def object_ok_def isObject_def simp del: value_ok.simps)
  show "member_at v' k' = (if k' = k then Some x else member_at v k')"
    if "object_ok v" "no_nul k" "no_nul k'" "set_member v k x = Some v'" for v k k' x v'
    using object_cases [OF that(1)] that(2,4) by (auto simp: set_member_def member_at_def map_of_put)
qed

interpretation arr: container array_ok "\<lambda>_. True" value_ok element_at set_index
proof unfold_locales
  show "\<exists>v'. set_index v k x = Some v' \<and> array_ok v'" if "array_ok v" "value_ok x" for v k x
    using array_cases [OF that(1)] array_put_ok that(2) by (auto simp: set_index_def array_ok_def isArray_def simp del: value_ok.simps)
  show "element_at v' k' = (if k' = k then Some x else element_at v k')"
    if "array_ok v" "set_index v k x = Some v'" for v k k' x v'
    using array_cases [OF that(1)] that(2) by (auto simp: set_index_def element_at_def map_of_put)
qed

section \<open>Values that programs build\<close>

text \<open>Values come from the constructors and from the operations on values.\<close>

inductive built :: "Value \<Rightarrow> bool" where
  built_type: "built (Value_of_type t)"
| built_int: "minInt \<le> i \<Longrightarrow> i \<le> maxInt \<Longrightarrow> built (intValue i)"
| built_uint: "u \<le> maxUInt \<Longrightarrow> built (uintValue u)"
| built_real: "built (realValue r)"
| built_bool: "built (booleanValue b)"
| built_text: "built (Value_text s)"
| built_set_member: "\<lbrakk>built v; built x; set_member v k x = Some v'\<rbrakk> \<Longrightarrow> built v'"
| built_set_index: "\<lbrakk>built v; built x; set_index v i x = Some v'\<rbrakk> \<Longrightarrow> built v'"
| built_append: "\<lbrakk>built v; built x; Value_append v x = Some v'\<rbrakk> \<Longrightarrow> built v'"
| built_reference: "\<lbrakk>built v; resolveReference v k = Some (r, v')\<rbrakk> \<Longrightarrow> built v'"
| built_member: "\<lbrakk>built v; const_member v k = Some r\<rbrakk> \<Longrightarrow> built r"
| built_index: "\<lbrakk>built v; Value_index v i = Some (r, v')\<rbrakk> \<Longrightarrow> built v'"
| built_element: "\<lbrakk>built v; const_index v i = Some r\<rbrakk> \<Longrightarrow> built r"
| built_get_member: "\<lbrakk>built v; built d; get_member v k d = Some r\<rbrakk> \<Longrightarrow> built r"
| built_get_index: "\<lbrakk>built v; built d; get_index v i d = Some r\<rbrakk> \<Longrightarrow> built r"
| built_remove: "\<lbrakk>built v; removeMember v k = Some (r, v')\<rbrakk> \<Longrightarrow> built v'"
| built_clear: "\<lbrakk>built v; Value_clear v = Some v'\<rbrakk> \<Longrightarrow> built v'"
| built_resize: "\<lbrakk>built v; Value_resize v n = Some v'\<rbrakk> \<Longrightarrow> built v'"

lemma set_member_ok: "\<lbrakk>value_ok v; value_ok x; set_member v k x = Some v'\<rbrakk> \<Longrightarrow> value_ok v'"
  using entries_ok by (auto simp: set_member_def simp del: value_ok.simps)

lemma set_index_ok: "\<lbrakk>value_ok v; value_ok x; set_index v i x = Some v'\<rbrakk> \<Longrightarrow> value_ok v'"
  using entries_ok by (auto simp: set_index_def simp del: value_ok.simps)

lemma resolveReference_ok: "\<lbrakk>value_ok v; resolveReference v k = Some (r, v')\<rbrakk> \<Longrightarrow> value_ok v'"
  using entries_ok value_ok.simps(1) by (auto simp: resolveReference_def simp del: value_ok.simps)

lemma Value_index_ok: "\<lbrakk>value_ok v; Value_index v i = Some (r, v')\<rbrakk> \<Longrightarrow> value_ok v'"
  using entries_ok value_ok.simps(1) by (auto simp: Value_index_def simp del: value_ok.simps)

lemma const_member_ok: "\<lbrakk>value_ok v; const_member v k = Some r\<rbrakk> \<Longrightarrow> value_ok r"
  using object_entries_ok by (auto simp: const_member_def intro!: entry_ok)

lemma const_index_ok: "\<lbrakk>value_ok v; const_index v i = Some r\<rbrakk> \<Longrightarrow> value_ok r"
  using array_entries_ok by (auto simp: const_index_def intro!: entry_ok)

lemma get_member_ok: "\<lbrakk>value_ok v; value_ok d; get_member v k d = Some r\<rbrakk> \<Longrightarrow> value_ok r"
  using object_entries_ok by (auto simp: get_member_def intro!: entry_default_ok)

lemma get_index_ok: "\<lbrakk>value_ok v; value_ok d; get_index v i d = Some r\<rbrakk> \<Longrightarrow> value_ok r"
  using array_entries_ok by (auto simp: get_index_def intro!: entry_default_ok)

lemma removeMember_ok: "\<lbrakk>value_ok v; removeMember v k = Some (r, v')\<rbrakk> \<Longrightarrow> value_ok v'"
  by (cases v) (auto simp: removeMember_def, auto simp: map_erase_def)

lemma Value_clear_ok: "Value_clear v = Some v' \<Longrightarrow> value_ok v'"
  by (cases v) auto

lemma Value_resize_ok: "\<lbrakk>value_ok v; Value_resize v n = Some v'\<rbrakk> \<Longrightarrow> value_ok v'"
proof -
  assume a: "value_ok v" "Value_resize v n = Some v'"
  then obtain m where m: "array_entries v = Some m" by (auto simp: Value_resize_def bind_eq_Some_conv)
  then have ok: "value_ok (arrayValue m)" using array_entries_ok a(1) by blast
  consider "Value_clear (arrayValue m) = Some v'" | "\<exists>r i. Value_index (arrayValue m) i = Some (r, v')" | "\<exists>ks. v' = arrayValue (fold map_erase ks m)"
    using a(2) m by (auto simp: Value_resize_def Let_def simp del: Value_size.simps Value_clear.simps split: if_splits) metis
  then show "value_ok v'"
  proof cases
    case 1
    then show ?thesis by (rule Value_clear_ok)
  next
    case 2
    then show ?thesis using Value_index_ok ok by blast
  next
    case 3
    then show ?thesis using fold_erase_ok [OF ok] by blast
  qed
qed

lemmas operations_ok = set_member_ok set_index_ok resolveReference_ok Value_index_ok const_member_ok const_index_ok get_member_ok
  get_index_ok removeMember_ok Value_clear_ok Value_resize_ok

section \<open>Properties\<close>



text \<open>With an exact comparison of numbers \<open>operator ==\<close> is equality.\<close>

lemma list_all2_pairs:
  "(\<And>e w. e \<in> set m \<Longrightarrow> P (snd e) w \<longleftrightarrow> snd e = w) \<Longrightarrow> list_all2 (\<lambda>x y. fst x = fst y \<and> P (snd x) (snd y)) m n \<longleftrightarrow> m = n"
  by (induction m arbitrary: n) (auto simp: list_all2_Cons1 prod_eq_iff)

lemma Value_eq_iff: "Value_eq (=) v w \<longleftrightarrow> v = w"
proof (induction v arbitrary: w)
  case (arrayValue m)
  then have "\<And>e w. e \<in> set m \<Longrightarrow> Value_eq (=) (snd e) w \<longleftrightarrow> snd e = w" by (metis snds.intros)
  from list_all2_pairs [OF this] show ?case by (auto split: Value.split)
next
  case (objectValue m)
  then have "\<And>e w. e \<in> set m \<Longrightarrow> Value_eq (=) (snd e) w \<longleftrightarrow> snd e = w" by (metis snds.intros)
  from list_all2_pairs [OF this] show ?case by (auto split: Value.split)
qed (auto split: Value.split)

end
