(* ===== verification/JsonReader.thy ===== *)
theory JsonReader
  imports JsonValue
begin

text \<open>
  The reader of the JSON library (\<open>src/public/json/json_reader.cpp\<close>, \<open>include/reader.h\<close>), for \<open>collectComments\<close> false, as
  the program calls it.

  The reader keeps the part of the document from \<open>current_\<close> to \<open>end_\<close>; a location is its offset from \<open>begin_\<close>, and a
  token carries the characters from \<open>start_\<close> to \<open>end_\<close>.  Some places look at the character at \<open>end_\<close>, which is the field
  \<open>rd_behind\<close>.  The stack of nodes is the recursion: the functions that fill the current value take its old content
  and return the new one.  A write behind the buffer of \<open>decodeDouble\<close> sets \<open>rd_overrun\<close>.
\<close>

section \<open>Tokens\<close>

datatype TokenType =
    tokenEndOfStream | tokenObjectBegin | tokenObjectEnd | tokenArrayBegin | tokenArrayEnd | tokenString | tokenNumber
  | tokenTrue | tokenFalse | tokenNull | tokenArraySeparator | tokenMemberSeparator | tokenComment | tokenError

record Token =
  type_of :: TokenType
  start_of :: nat
  text_of :: "byte list"

record ErrorInfo =
  err_token :: Token
  err_message :: "byte list"
  err_extra :: "nat option"

record Features =
  allowComments :: bool
  strictRoot :: bool

definition Features_all :: Features where
  "Features_all = \<lparr>allowComments = True, strictRoot = False\<rparr>"

definition Features_strictMode :: Features where
  "Features_strictMode = \<lparr>allowComments = False, strictRoot = True\<rparr>"

record Reader =
  rd_features :: Features
  rd_length :: nat
  rd_rest :: "byte list"
  rd_behind :: byte
  rd_errors :: "ErrorInfo list"
  rd_overrun :: bool

definition json_space :: "byte \<Rightarrow> bool" where
  "json_space c \<longleftrightarrow> c = 0x20 \<or> c = 0x09 \<or> c = 0x0D \<or> c = 0x0A"

definition skipSpaces :: "byte list \<Rightarrow> byte list" where
  "skipSpaces s = dropWhile json_space s"

definition getNextChar :: "byte list \<Rightarrow> byte \<times> byte list" where
  "getNextChar s = (case s of [] \<Rightarrow> (0, []) | c # r \<Rightarrow> (c, r))"

definition peek :: "byte \<Rightarrow> byte list \<Rightarrow> byte" where
  "peek b s = (case s of [] \<Rightarrow> b | c # _ \<Rightarrow> c)"

definition json_match :: "byte list \<Rightarrow> byte list \<Rightarrow> bool \<times> byte list" where
  "json_match pattern s =
     (if length s < length pattern then (False, s)
      else if take (length pattern) s = pattern then (True, drop (length pattern) s) else (False, s))"

fun c_comment :: "byte \<Rightarrow> byte list \<Rightarrow> byte list" where
  "c_comment b [] = []"
| "c_comment b (c # r) = (if c = 0x2A \<and> peek b r = 0x2F then r else c_comment b r)"

definition readCStyleComment :: "byte \<Rightarrow> byte list \<Rightarrow> bool \<times> byte list" where
  "readCStyleComment b s = (case getNextChar (c_comment b s) of (c, r) \<Rightarrow> (c = 0x2F, r))"

fun readCppStyleComment :: "byte list \<Rightarrow> byte list" where
  "readCppStyleComment [] = []"
| "readCppStyleComment (c # r) = (if c = 0x0D \<or> c = 0x0A then r else readCppStyleComment r)"

definition readComment :: "byte \<Rightarrow> byte list \<Rightarrow> bool \<times> byte list" where
  "readComment b s =
     (case getNextChar s of
        (c, r) \<Rightarrow> if c = 0x2A then readCStyleComment b r else if c = 0x2F then (True, readCppStyleComment r) else (False, r))"

definition number_char :: "byte \<Rightarrow> bool" where
  "number_char c \<longleftrightarrow> 0x30 \<le> c \<and> c \<le> 0x39 \<or> c = 0x2E \<or> c = 0x65 \<or> c = 0x45 \<or> c = 0x2B \<or> c = 0x2D"

definition readNumber :: "byte list \<Rightarrow> byte list" where
  "readNumber s = dropWhile number_char s"

text \<open>The loop of \<open>readString\<close>, with the last character read.\<close>

fun readString :: "byte \<Rightarrow> byte list \<Rightarrow> bool \<times> byte list" where
  "readString c [] = (c = 0x22, [])"
| "readString c (x # r) =
     (if x = 0x5C then readString x (drop 1 r)
      else if x = 0x22 then (True, r)
      else readString x r)"

definition checked :: "TokenType \<Rightarrow> bool \<times> byte list \<Rightarrow> TokenType \<times> byte list" where
  "checked ty r = (if fst r then (ty, snd r) else (tokenError, snd r))"

definition lex :: "byte \<Rightarrow> byte list \<Rightarrow> TokenType \<times> byte list" where
  "lex b s =
     (case getNextChar s of
        (c, r) \<Rightarrow>
          if c = 0x7B then (tokenObjectBegin, r)
          else if c = 0x7D then (tokenObjectEnd, r)
          else if c = 0x5B then (tokenArrayBegin, r)
          else if c = 0x5D then (tokenArrayEnd, r)
          else if c = 0x22 then checked tokenString (readString 0 r)
          else if c = 0x2F then checked tokenComment (readComment b r)
          else if 0x30 \<le> c \<and> c \<le> 0x39 \<or> c = 0x2D then (tokenNumber, readNumber r)
          else if c = 0x74 then checked tokenTrue (json_match (bytes_of ''rue'') r)
          else if c = 0x66 then checked tokenFalse (json_match (bytes_of ''alse'') r)
          else if c = 0x6E then checked tokenNull (json_match (bytes_of ''ull'') r)
          else if c = 0x2C then (tokenArraySeparator, r)
          else if c = 0x3A then (tokenMemberSeparator, r)
          else if c = 0 then (tokenEndOfStream, r)
          else (tokenError, r))"

definition readToken :: "Reader \<Rightarrow> Token \<times> Reader" where
  "readToken rd =
     (let s = skipSpaces (rd_rest rd);
          (ty, r) = lex (rd_behind rd) s
      in (\<lparr>type_of = ty, start_of = rd_length rd - length s, text_of = take (length s - length r) s\<rparr>, rd\<lparr>rd_rest := r\<rparr>))"

section \<open>Reading makes progress\<close>

lemma c_comment_le: "length (c_comment b s) \<le> length s"
  by (induction b s rule: c_comment.induct) auto

lemma readCppStyleComment_le: "length (readCppStyleComment s) \<le> length s"
  by (induction s rule: readCppStyleComment.induct) auto

lemma getNextChar_le: "getNextChar s = (c, r) \<Longrightarrow> length r \<le> length s"
  by (cases s) (auto simp: getNextChar_def)

lemma readComment_le: "length (snd (readComment b s)) \<le> length s"
proof -
  obtain c r where g: "getNextChar s = (c, r)" by (cases "getNextChar s")
  obtain c' r' where g': "getNextChar (c_comment b r) = (c', r')" by (cases "getNextChar (c_comment b r)")
  have "length r' \<le> length r" using getNextChar_le [OF g'] c_comment_le [of b r] by simp
  then show ?thesis using getNextChar_le [OF g] g g' readCppStyleComment_le [of r]
    by (simp add: readComment_def readCStyleComment_def)
qed

lemma readString_le: "length (snd (readString c s)) \<le> length s"
  by (induction c s rule: readString.induct) auto

lemma json_match_le: "length (snd (json_match p s)) \<le> length s"
  by (simp add: json_match_def)

lemma lex_Nil [simp]: "lex b [] = (tokenEndOfStream, [])"
  by (simp add: lex_def getNextChar_def)

lemma lex_less: "length (snd (lex b (c # r))) \<le> length r"
  by (simp add: lex_def getNextChar_def checked_def readNumber_def readString_le readComment_le json_match_le length_dropWhile_le)

lemma skipSpaces_le: "length (skipSpaces s) \<le> length s"
  by (simp add: skipSpaces_def length_dropWhile_le)

text \<open>A token is the end of the document, or it consumes a character.\<close>

lemma readToken_less:
  assumes "readToken rd = (t, rd')"
  shows "length (rd_rest rd') < length (rd_rest rd) \<or> type_of t = tokenEndOfStream \<and> rd_rest rd' = []"
proof (cases "skipSpaces (rd_rest rd)")
  case Nil
  then show ?thesis using assms by (auto simp: readToken_def)
next
  case (Cons c r)
  then have "length r < length (rd_rest rd)" using skipSpaces_le [of "rd_rest rd"] by simp
  then show ?thesis using lex_less [of "rd_behind rd" c r] assms Cons
    by (auto simp: readToken_def Let_def split: prod.splits)
qed

section \<open>Loops over tokens\<close>

text \<open>While the token is a comment the next one is read.\<close>

function skip_comments :: "Token \<Rightarrow> Reader \<Rightarrow> Token \<times> Reader" where
  "skip_comments t rd = (if type_of t = tokenComment then (case readToken rd of (t', rd') \<Rightarrow> skip_comments t' rd') else (t, rd))"
  by pat_completeness auto

termination
proof (relation "measure (\<lambda>(t, rd). length (rd_rest rd) + (if type_of t = tokenComment then 1 else 0))")
  fix t t' :: Token and rd rd' :: Reader
  assume t: "type_of t = tokenComment" and "(t', rd') = readToken rd"
  then have "readToken rd = (t', rd')" by simp
  with t show "((t', rd'), t, rd) \<in> measure (\<lambda>(t, rd). length (rd_rest rd) + (if type_of t = tokenComment then 1 else 0))"
    using readToken_less [of rd t' rd'] by auto
qed simp

declare skip_comments.simps [simp del]

definition skipCommentTokens :: "Reader \<Rightarrow> Token \<times> Reader" where
  "skipCommentTokens rd =
     (if allowComments (rd_features rd) then (case readToken rd of (t, rd) \<Rightarrow> skip_comments t rd) else readToken rd)"

text \<open>\<open>recoverFromError\<close>: reading a token adds no error, so that none has to be discarded.\<close>

function recoverFromError :: "TokenType \<Rightarrow> Reader \<Rightarrow> Reader" where
  "recoverFromError skipUntilToken rd =
     (case readToken rd of
        (skip, rd') \<Rightarrow>
          if type_of skip = skipUntilToken \<or> type_of skip = tokenEndOfStream then rd'
          else recoverFromError skipUntilToken rd')"
  by pat_completeness auto

termination
proof (relation "measure (\<lambda>(_, rd). length (rd_rest rd))")
  fix k and t :: Token and rd rd' :: Reader
  assume "(t, rd') = readToken rd" "\<not> (type_of t = k \<or> type_of t = tokenEndOfStream)"
  then show "((k, rd'), k, rd) \<in> measure (\<lambda>(_, rd). length (rd_rest rd))" using readToken_less [of rd t rd'] by auto
qed simp

declare recoverFromError.simps [simp del]

definition addError :: "string \<Rightarrow> Token \<Rightarrow> nat option \<Rightarrow> Reader \<Rightarrow> Reader" where
  "addError message t extra rd = rd\<lparr>rd_errors := rd_errors rd @ [\<lparr>err_token = t, err_message = bytes_of message, err_extra = extra\<rparr>]\<rparr>"

definition addErrorAndRecover :: "string \<Rightarrow> Token \<Rightarrow> TokenType \<Rightarrow> Reader \<Rightarrow> Reader" where
  "addErrorAndRecover message t skipUntilToken rd = recoverFromError skipUntilToken (addError message t None rd)"

section \<open>Texts\<close>

text \<open>The code point in UTF-8, for code points of \<open>unsigned int\<close>.\<close>

definition codePointToUTF8 :: "nat \<Rightarrow> byte list" where
  "codePointToUTF8 cp =
     (if cp \<le> 0x7F then [of_nat cp]
      else if cp \<le> 0x7FF then [of_nat (0xC0 + cp div 2 ^ 6 mod 32), of_nat (0x80 + cp mod 64)]
      else if cp \<le> 0xFFFF
      then [of_nat (0xE0 + cp div 2 ^ 12 mod 16), of_nat (0x80 + cp div 2 ^ 6 mod 64), of_nat (0x80 + cp mod 64)]
      else if cp \<le> 0x10FFFF
      then [of_nat (0xF0 + cp div 2 ^ 18 mod 8), of_nat (0x80 + cp div 2 ^ 12 mod 64), of_nat (0x80 + cp div 2 ^ 6 mod 64),
            of_nat (0x80 + cp mod 64)]
      else [])"

text \<open>The location of the rest of a text in its token, in front of the closing quote.\<close>

definition loc_in :: "Token \<Rightarrow> byte list \<Rightarrow> nat option" where
  "loc_in t r = Some (start_of t + length (text_of t) - 1 - length r)"

definition hex_value :: "byte \<Rightarrow> nat option" where
  "hex_value c =
     (if 0x30 \<le> c \<and> c \<le> 0x39 then Some (unat c - 0x30)
      else if 0x61 \<le> c \<and> c \<le> 0x66 then Some (unat c - 0x61 + 10)
      else if 0x41 \<le> c \<and> c \<le> 0x46 then Some (unat c - 0x41 + 10)
      else None)"

text \<open>\<^term>\<open>Inl\<close> is the message and the location of an error.\<close>

fun unicode_digits :: "Token \<Rightarrow> nat \<Rightarrow> nat \<Rightarrow> byte list \<Rightarrow> (string \<times> nat option) + (nat \<times> byte list)" where
  "unicode_digits t 0 unicode s = Inr (unicode, s)"
| "unicode_digits t (Suc n) unicode [] = Inr (unicode, [])"
| "unicode_digits t (Suc n) unicode (c # r) =
     (case hex_value c of
        Some d \<Rightarrow> unicode_digits t n (unicode * 16 + d) r
      | None \<Rightarrow> Inl (''Bad unicode escape sequence in string: hexadecimal digit expected.'', loc_in t r))"

definition decodeUnicodeEscapeSequence :: "Token \<Rightarrow> byte list \<Rightarrow> (string \<times> nat option) + (nat \<times> byte list)" where
  "decodeUnicodeEscapeSequence t s =
     (if length s < 4 then Inl (''Bad unicode escape sequence in string: four digits expected.'', loc_in t s)
      else unicode_digits t 4 0 s)"

definition decodeUnicodeCodePoint :: "Token \<Rightarrow> byte list \<Rightarrow> (string \<times> nat option) + (nat \<times> byte list)" where
  "decodeUnicodeCodePoint t s =
     (case decodeUnicodeEscapeSequence t s of
        Inl e \<Rightarrow> Inl e
      | Inr (unicode, r) \<Rightarrow>
          if 0xD800 \<le> unicode \<and> unicode \<le> 0xDBFF
          then if length r < 6 then Inl (''additional six characters expected to parse unicode surrogate pair.'', loc_in t r)
               else if r ! 0 \<noteq> 0x5C
               then Inl (''expecting another '' @ [CHR 0x5C] @ ''u token to begin the second half of a unicode surrogate pair'', loc_in t (drop 1 r))
               else if r ! 1 \<noteq> 0x75
               then Inl (''expecting another '' @ [CHR 0x5C] @ ''u token to begin the second half of a unicode surrogate pair'', loc_in t (drop 2 r))
               else (case decodeUnicodeEscapeSequence t (drop 2 r) of
                       Inl e \<Rightarrow> Inl e
                     | Inr (surrogatePair, r') \<Rightarrow> Inr (0x10000 + unicode mod 1024 * 1024 + surrogatePair mod 1024, r'))
          else Inr (unicode, r))"

lemma unicode_digits_le: "unicode_digits t n u s = Inr (u', r) \<Longrightarrow> length r \<le> length s"
  by (induction t n u s rule: unicode_digits.induct) (auto split: option.splits)

lemma decodeUnicodeCodePoint_le: "decodeUnicodeCodePoint t s = Inr (u, r) \<Longrightarrow> length r \<le> length s"
  by (auto simp: decodeUnicodeCodePoint_def decodeUnicodeEscapeSequence_def split: sum.splits if_splits dest!: unicode_digits_le)

text \<open>The loop of \<open>decodeString\<close> over the characters between the quotes.\<close>

definition simple_escape :: "byte \<Rightarrow> byte option" where
  "simple_escape c =
     map_of [(0x22, 0x22), (0x2F, 0x2F), (0x5C, 0x5C), (0x62, 0x08), (0x66, 0x0C), (0x6E, 0x0A), (0x72, 0x0D), (0x74, 0x09)] c"

function decode_chars :: "Token \<Rightarrow> byte list \<Rightarrow> byte list \<Rightarrow> (string \<times> nat option) + byte list" where
  "decode_chars t [] decoded = Inr decoded"
| "decode_chars t (c # r) decoded =
     (if c = 0x22 then Inr decoded
      else if c = 0x5C
      then (case r of
              [] \<Rightarrow> Inl (''Empty escape sequence in string'', loc_in t r)
            | e # r' \<Rightarrow>
                (case simple_escape e of
                   Some x \<Rightarrow> decode_chars t r' (decoded @ [x])
                 | None \<Rightarrow>
                     if e = 0x75
                     then (case decodeUnicodeCodePoint t r' of
                             Inl err \<Rightarrow> Inl err
                           | Inr (unicode, r'') \<Rightarrow> decode_chars t r'' (decoded @ codePointToUTF8 unicode))
                     else Inl (''Bad escape sequence in string'', loc_in t r')))
      else decode_chars t r (decoded @ [c]))"
  by pat_completeness auto

termination
  by (relation "measure (\<lambda>(_, s, _). length s)") (auto dest: decodeUnicodeCodePoint_le)

definition decodeString :: "Token \<Rightarrow> Reader \<Rightarrow> byte list option \<times> Reader" where
  "decodeString t rd =
     (case decode_chars t (butlast (tl (text_of t))) [] of
        Inl (message, extra) \<Rightarrow> (None, addError message t extra rd)
      | Inr decoded \<Rightarrow> (Some decoded, rd))"

section \<open>Numbers\<close>

datatype num_result = NR_bad | NR_double | NR_value nat

fun number_digits :: "nat \<Rightarrow> nat \<Rightarrow> byte list \<Rightarrow> num_result" where
  "number_digits threshold value [] = NR_value value"
| "number_digits threshold value (c # r) =
     (if c < 0x30 \<or> 0x39 < c then NR_bad
      else if value \<ge> threshold then NR_double
      else number_digits threshold (value * 10 + (unat c - 0x30)) r)"

definition not_a_number :: "Token \<Rightarrow> string" where
  "not_a_number t = [CHR 0x27] @ chars_of (text_of t) @ [CHR 0x27] @ '' is not a number.''"

text \<open>A text of 32 characters fills the buffer, and the zero behind it is written outside.\<close>

definition decodeDouble :: "fp \<Rightarrow> Token \<Rightarrow> Value \<Rightarrow> Reader \<Rightarrow> bool \<times> Value \<times> Reader" where
  "decodeDouble f t cv rd =
     (let rd = (if length (text_of t) = 32 then rd\<lparr>rd_overrun := True\<rparr> else rd)
      in case fp_scan f (text_of t) of
           None \<Rightarrow> (False, cv, addError (not_a_number t) t None rd)
         | Some value \<Rightarrow> (True, realValue value, rd))"

definition is_double :: "byte list \<Rightarrow> bool" where
  "is_double s \<longleftrightarrow>
     list_ex (\<lambda>c. c = 0x2E \<or> c = 0x65 \<or> c = 0x45 \<or> c = 0x2B) s \<or> list_ex (\<lambda>c. c = 0x2D) (tl s)"

definition decodeNumber :: "fp \<Rightarrow> Token \<Rightarrow> Value \<Rightarrow> Reader \<Rightarrow> bool \<times> Value \<times> Reader" where
  "decodeNumber f t cv rd =
     (if is_double (text_of t) then decodeDouble f t cv rd
      else let isNegative = (peek 0 (text_of t) = 0x2D);
               threshold = (if isNegative then 2 ^ 31 else maxUInt) div 10
           in case number_digits threshold 0 (if isNegative then tl (text_of t) else text_of t) of
                NR_bad \<Rightarrow> (False, cv, addError (not_a_number t) t None rd)
              | NR_double \<Rightarrow> decodeDouble f t cv rd
              | NR_value value \<Rightarrow>
                  (True, if isNegative then intValue (- int value)
                         else if int value \<le> maxInt then intValue (int value) else uintValue value, rd))"

section \<open>Values\<close>

text \<open>
  \<open>readValue\<close>, the loop of \<open>readObject\<close> (with the name of the last member) and the loop of \<open>readArray\<close>.  The first
  argument bounds the recursion.  A member that appears twice is read into the value it already has.
\<close>

definition empty_array_ahead :: "Reader \<Rightarrow> bool \<times> Reader" where
  "empty_array_ahead rd =
     (let s = skipSpaces (rd_rest rd); rd = rd\<lparr>rd_rest := s\<rparr>
      in if peek (rd_behind rd) s = 0x5D then (True, snd (readToken rd)) else (False, rd))"

text \<open>The cases of \<open>readValue\<close> without recursion.\<close>

definition readScalar :: "fp \<Rightarrow> Token \<Rightarrow> Value \<Rightarrow> Reader \<Rightarrow> bool \<times> Value \<times> Reader" where
  "readScalar f t cv rd =
     (case type_of t of
        tokenNumber \<Rightarrow> decodeNumber f t cv rd
      | tokenString \<Rightarrow> (case decodeString t rd of (None, rd) \<Rightarrow> (False, cv, rd) | (Some decoded, rd) \<Rightarrow> (True, Value_text decoded, rd))
      | tokenTrue \<Rightarrow> (True, booleanValue True, rd)
      | tokenFalse \<Rightarrow> (True, booleanValue False, rd)
      | tokenNull \<Rightarrow> (True, nullValue, rd)
      | _ \<Rightarrow> (False, cv, addError ''Syntax error: value, object or array expected.'' t None rd))"

text \<open>
  The start of a member: its name and the colon.  \<^term>\<open>Inl\<close> ends the object.
\<close>

definition quoted :: "string \<Rightarrow> string" where
  "quoted s = [CHR 0x27] @ s @ [CHR 0x27]"

definition readMemberName :: "byte list \<Rightarrow> Reader \<Rightarrow> (bool \<times> Reader) + (byte list \<times> Reader)" where
  "readMemberName name rd =
     (case (case readToken rd of (t, rd) \<Rightarrow> skip_comments t rd) of
        (tokenName, rd) \<Rightarrow>
          if type_of tokenName = tokenObjectEnd \<and> name = [] then Inl (True, rd)
          else if type_of tokenName \<noteq> tokenString
          then Inl (False, addErrorAndRecover (''Missing '' @ quoted ''}'' @ '' or object member name'') tokenName tokenObjectEnd rd)
          else (case decodeString tokenName rd of
                  (None, rd) \<Rightarrow> Inl (False, recoverFromError tokenObjectEnd rd)
                | (Some name, rd) \<Rightarrow>
                    (case readToken rd of
                       (colon, rd) \<Rightarrow>
                         if type_of colon \<noteq> tokenMemberSeparator
                         then Inl (False, addErrorAndRecover (''Missing '' @ quoted '':'' @ '' after object member name'') colon tokenObjectEnd rd)
                         else Inr (name, rd))))"

text \<open>The end of a member: \<^term>\<open>Some ok\<close> ends the object, \<^term>\<open>None\<close> goes on.\<close>

definition readMemberEnd :: "Reader \<Rightarrow> bool option \<times> Reader" where
  "readMemberEnd rd =
     (case readToken rd of
        (comma, rd) \<Rightarrow>
          if type_of comma \<notin> {tokenObjectEnd, tokenArraySeparator, tokenComment}
          then (Some False, addErrorAndRecover (''Missing '' @ quoted '','' @ '' or '' @ quoted ''}'' @ '' in object declaration'') comma tokenObjectEnd rd)
          else (case skip_comments comma rd of
                  (comma, rd) \<Rightarrow> if type_of comma = tokenObjectEnd then (Some True, rd) else (None, rd)))"

fun readValue :: "nat \<Rightarrow> fp \<Rightarrow> Value \<Rightarrow> Reader \<Rightarrow> (bool \<times> Value \<times> Reader) option"
  and readObject :: "nat \<Rightarrow> fp \<Rightarrow> byte list \<Rightarrow> (byte list \<times> Value) list \<Rightarrow> Reader \<Rightarrow> (bool \<times> Value \<times> Reader) option"
  and readArray :: "nat \<Rightarrow> fp \<Rightarrow> nat \<Rightarrow> (nat \<times> Value) list \<Rightarrow> Reader \<Rightarrow> (bool \<times> Value \<times> Reader) option" where
  "readValue 0 f cv rd = None"
| "readValue (Suc n) f cv rd =
     (case skipCommentTokens rd of
        (t, rd) \<Rightarrow>
          if type_of t = tokenObjectBegin then readObject n f [] [] rd
          else if type_of t = tokenArrayBegin
          then (case empty_array_ahead rd of (e, rd) \<Rightarrow> if e then Some (True, arrayValue [], rd) else readArray n f 0 [] rd)
          else Some (readScalar f t cv rd))"
| "readObject 0 f name m rd = None"
| "readObject (Suc n) f name m rd =
     (case readMemberName name rd of
        Inl (ok, rd) \<Rightarrow> Some (ok, objectValue m, rd)
      | Inr (name, rd) \<Rightarrow>
          (case readValue n f (entry_or_null m (buf_str name)) rd of
             None \<Rightarrow> None
           | Some (ok, v, rd) \<Rightarrow>
               let m = map_put (buf_str name) v m
               in if \<not> ok then Some (False, objectValue m, recoverFromError tokenObjectEnd rd)
                  else (case readMemberEnd rd of
                          (Some ok, rd) \<Rightarrow> Some (ok, objectValue m, rd)
                        | (None, rd) \<Rightarrow> readObject n f name m rd)))"
| "readArray 0 f index m rd = None"
| "readArray (Suc n) f index m rd =
     (case readValue n f (entry_or_null m index) rd of
        None \<Rightarrow> None
      | Some (ok, v, rd) \<Rightarrow>
          let m = map_put index v m
          in if \<not> ok then Some (False, arrayValue m, recoverFromError tokenArrayEnd rd)
             else (case (case readToken rd of (t, rd) \<Rightarrow> skip_comments t rd) of
                     (t, rd) \<Rightarrow> if type_of t = tokenArrayEnd then Some (True, arrayValue m, rd) else readArray n f (index + 1) m rd))"

section \<open>Documents\<close>

definition Reader_start :: "Features \<Rightarrow> byte \<Rightarrow> byte list \<Rightarrow> Reader" where
  "Reader_start features behind doc =
     \<lparr>rd_features = features, rd_length = length doc, rd_rest = doc, rd_behind = behind, rd_errors = [], rd_overrun = False\<rparr>"

definition parse_fuel :: "nat \<Rightarrow> fp \<Rightarrow> Features \<Rightarrow> byte \<Rightarrow> byte list \<Rightarrow> Value \<Rightarrow> (bool \<times> Value \<times> Reader) option" where
  "parse_fuel n f features behind doc root =
     map_option (\<lambda>(successful, root, rd).
         case skipCommentTokens rd of
           (t, rd) \<Rightarrow>
             if strictRoot features \<and> \<not> isArray root \<and> \<not> isObject root
             then (False, root, addError ''A valid JSON document must be either an array or an object value.''
                     \<lparr>type_of = tokenError, start_of = 0, text_of = doc\<rparr> None rd)
             else (successful, root, rd))
       (readValue n f root (Reader_start features behind doc))"

definition parse :: "fp \<Rightarrow> Features \<Rightarrow> byte \<Rightarrow> byte list \<Rightarrow> Value \<Rightarrow> (bool \<times> Value \<times> Reader) option" where
  "parse f features behind doc root = parse_fuel (2 * length doc + 2) f features behind doc root"

text \<open>The document as a \<open>std::string\<close> is followed by a zero.\<close>

definition parse_string :: "fp \<Rightarrow> Features \<Rightarrow> byte list \<Rightarrow> Value \<Rightarrow> (bool \<times> Value \<times> Reader) option" where
  "parse_string f features document root = parse f features 0 document root"

section \<open>Error messages\<close>

text \<open>The lines in front of a location, and the offset of the start of its line.\<close>

function line_loop :: "byte \<Rightarrow> nat \<Rightarrow> nat \<Rightarrow> nat \<Rightarrow> nat \<Rightarrow> byte list \<Rightarrow> nat \<times> nat" where
  "line_loop b location current lastLineStart line [] = (line, lastLineStart)"
| "line_loop b location current lastLineStart line (c # r) =
     (if \<not> current < location then (line, lastLineStart)
      else if c = 0x0D
      then let k = (if peek b r = 0x0A then 2 else 1)
           in line_loop b location (current + k) (current + k) (line + 1) (drop (k - 1) r)
      else if c = 0x0A then line_loop b location (current + 1) (current + 1) (line + 1) r
      else line_loop b location (current + 1) lastLineStart line r)"
  by pat_completeness auto

termination
  by (relation "measure (\<lambda>(_, _, _, _, _, s). length s)") auto

definition getLocationLineAndColumn :: "byte \<Rightarrow> byte list \<Rightarrow> nat \<Rightarrow> int \<times> int" where
  "getLocationLineAndColumn b doc location =
     (case line_loop b location 0 0 0 doc of (line, lastLineStart) \<Rightarrow> (int line + 1, int location - int lastLineStart + 1))"

definition location_text :: "byte \<Rightarrow> byte list \<Rightarrow> nat \<Rightarrow> byte list" where
  "location_text b doc location =
     (case getLocationLineAndColumn b doc location of
        (line, column) \<Rightarrow> bytes_of (''Line '' @ print_int line @ '', Column '' @ print_int column))"

definition error_text :: "byte \<Rightarrow> byte list \<Rightarrow> ErrorInfo \<Rightarrow> byte list" where
  "error_text b doc e =
     bytes_of ''* '' @ location_text b doc (start_of (err_token e)) @ [0x0A] @ bytes_of ''  '' @ err_message e @ [0x0A]
     @ (case err_extra e of None \<Rightarrow> [] | Some x \<Rightarrow> bytes_of ''See '' @ location_text b doc x @ bytes_of '' for detail.'' @ [0x0A])"

definition getFormatedErrorMessages :: "byte list \<Rightarrow> Reader \<Rightarrow> byte list" where
  "getFormatedErrorMessages doc rd = concat (map (error_text (rd_behind rd) doc) (rd_errors rd))"

end
