(* ===== verification/JsonTotal.thy ===== *)
theory JsonTotal
  imports JsonReader
begin

text \<open>
  The reader of the JSON library on every document: it returns, the bound of the recursion is enough, it reports success
  exactly when it recorded no error, and the value it leaves is well-formed.
\<close>

declare readValue.simps [simp del] readObject.simps [simp del] readArray.simps [simp del]

lemmas reader_simps = readValue.simps(2) readObject.simps(2) readArray.simps(2)

section \<open>Progress\<close>

abbreviation rest_len :: "Reader \<Rightarrow> nat" where
  "rest_len rd \<equiv> length (rd_rest rd)"

lemma readToken_le: "readToken rd = (t, rd') \<Longrightarrow> rest_len rd' \<le> rest_len rd"
  using readToken_less by fastforce

lemma readToken_errors [simp]: "readToken rd = (t, rd') \<Longrightarrow> rd_errors rd' = rd_errors rd"
  by (auto simp: readToken_def Let_def split: prod.splits)

lemma skip_comments_le: "skip_comments t rd = (t', rd') \<Longrightarrow> rest_len rd' \<le> rest_len rd \<and> rd_errors rd' = rd_errors rd"
proof (induction t rd arbitrary: t' rd' rule: skip_comments.induct)
  case (1 t rd)
  show ?case
  proof (cases "type_of t = tokenComment")
    case True
    obtain t1 rd1 where r: "readToken rd = (t1, rd1)" by (cases "readToken rd")
    then have "skip_comments t1 rd1 = (t', rd')" using "1.prems" True by (simp add: skip_comments.simps [of t])
    then show ?thesis using "1.IH" [OF True r [symmetric]] readToken_le [OF r] readToken_errors [OF r] by fastforce
  next
    case False
    then show ?thesis using "1.prems" by (simp add: skip_comments.simps [of t])
  qed
qed

lemma skip_comments_other [simp]: "type_of t \<noteq> tokenComment \<Longrightarrow> skip_comments t rd = (t, rd)"
  by (simp add: skip_comments.simps [of t])

text \<open>Reading a token and the comments behind it.\<close>

lemma next_token_less:
  assumes "(case readToken rd of (t, rd) \<Rightarrow> skip_comments t rd) = (t', rd')"
  shows "(rest_len rd' < rest_len rd \<or> type_of t' = tokenEndOfStream) \<and> rest_len rd' \<le> rest_len rd \<and> rd_errors rd' = rd_errors rd"
proof -
  obtain t rd1 where r: "readToken rd = (t, rd1)" by (cases "readToken rd")
  then have s: "skip_comments t rd1 = (t', rd')" using assms by simp
  have "type_of t \<noteq> tokenEndOfStream \<Longrightarrow> rest_len rd1 < rest_len rd" using readToken_less [OF r] by blast
  moreover have "type_of t = tokenEndOfStream \<Longrightarrow> t' = t" using s by simp
  ultimately show ?thesis using skip_comments_le [OF s] readToken_le [OF r] readToken_errors [OF r] by force
qed

lemma skipCommentTokens_less:
  assumes "skipCommentTokens rd = (t, rd')"
  shows "(rest_len rd' < rest_len rd \<or> type_of t = tokenEndOfStream) \<and> rest_len rd' \<le> rest_len rd \<and> rd_errors rd' = rd_errors rd"
  using assms next_token_less [of rd t rd'] readToken_less [of rd t rd'] readToken_le [of rd t rd'] readToken_errors [of rd t rd']
  by (auto simp: skipCommentTokens_def split: if_splits)

lemma recoverFromError_le: "rest_len (recoverFromError k rd) \<le> rest_len rd \<and> rd_errors (recoverFromError k rd) = rd_errors rd"
proof (induction k rd rule: recoverFromError.induct)
  case (1 k rd)
  obtain t rd1 where r: "readToken rd = (t, rd1)" by (cases "readToken rd")
  show ?case
  proof (cases "type_of t = k \<or> type_of t = tokenEndOfStream")
    case True
    then show ?thesis using r readToken_le [OF r] readToken_errors [OF r] by (simp add: recoverFromError.simps [of k rd])
  next
    case False
    then show ?thesis using "1.IH" [OF r [symmetric] False] r readToken_le [OF r] readToken_errors [OF r]
      by (auto simp: recoverFromError.simps [of k rd])
  qed
qed

lemma addError_rest [simp]: "rd_rest (addError msg t x rd) = rd_rest rd" "rd_errors (addError msg t x rd) \<noteq> []"
  by (simp_all add: addError_def)

lemma addErrorAndRecover_le: "rest_len (addErrorAndRecover msg t k rd) \<le> rest_len rd" "rd_errors (addErrorAndRecover msg t k rd) \<noteq> []"
  using recoverFromError_le [of k "addError msg t None rd"] by (auto simp: addErrorAndRecover_def)

lemma decodeString_le: "decodeString t rd = (d, rd') \<Longrightarrow>
    rd_rest rd' = rd_rest rd \<and> (d = None \<longrightarrow> rd_errors rd' \<noteq> []) \<and> (d \<noteq> None \<longrightarrow> rd_errors rd' = rd_errors rd)"
  by (auto simp: decodeString_def split: sum.splits)

text \<open>What a part of the reader does to the rest and the errors: it gives back less or the same, and fails exactly with an error.\<close>

definition steps :: "bool \<Rightarrow> Reader \<Rightarrow> Reader \<Rightarrow> bool" where
  "steps ok rd rd' \<longleftrightarrow> rest_len rd' \<le> rest_len rd \<and> (ok \<longrightarrow> rd_errors rd' = rd_errors rd) \<and> (\<not> ok \<longrightarrow> rd_errors rd' \<noteq> [])"

lemma steps_trans [trans]: "\<lbrakk>steps True rd rd1; steps ok rd1 rd2\<rbrakk> \<Longrightarrow> steps ok rd rd2"
  by (auto simp: steps_def)

lemma steps_token: "(case readToken rd of (t, rd) \<Rightarrow> skip_comments t rd) = (t', rd') \<Longrightarrow> steps True rd rd'"
  using next_token_less by (auto simp: steps_def)

lemma steps_readToken: "readToken rd = (t, rd') \<Longrightarrow> steps True rd rd'"
  using readToken_le readToken_errors by (auto simp: steps_def)

lemma steps_recover: "steps ok rd rd' \<Longrightarrow> steps ok rd (recoverFromError k rd')"
  using recoverFromError_le [of k rd'] by (auto simp: steps_def)

lemma steps_error: "steps True rd rd' \<Longrightarrow> steps False rd (addErrorAndRecover msg t k rd')"
  using addErrorAndRecover_le [of msg t k rd'] by (auto simp: steps_def)

lemma steps_decodeString: "decodeString t rd = (d, rd') \<Longrightarrow> steps (d \<noteq> None) rd rd'"
  using decodeString_le [of t rd d rd'] by (auto simp: steps_def)

lemma readMemberName_steps:
  "(case readMemberName name rd of Inl (ok, rd') \<Rightarrow> steps ok rd rd' | Inr (name', rd') \<Rightarrow> steps True rd rd' \<and> rest_len rd' < rest_len rd)"
proof -
  obtain t rd1 where t: "(case readToken rd of (t, rd) \<Rightarrow> skip_comments t rd) = (t, rd1)" by (metis surj_pair)
  obtain d rd2 where d: "decodeString t rd1 = (d, rd2)" by (metis surj_pair)
  obtain c rd3 where c: "readToken rd2 = (c, rd3)" by (metis surj_pair)
  note s1 = steps_token [OF t] and s2 = steps_decodeString [OF d] and s3 = steps_readToken [OF c]
  have "steps True rd rd2 \<and> steps True rd rd3 \<and> rest_len rd3 \<le> rest_len rd1" if "d \<noteq> None"
    using that s1 s2 s3 decodeString_le [OF d] by (auto simp: steps_def)
  moreover have "steps False rd rd2" if "d = None" using that s1 s2 by (auto simp: steps_def)
  moreover have "rest_len rd1 < rest_len rd" if "type_of t = tokenString" using that next_token_less [OF t] by auto
  ultimately show ?thesis using s1 steps_error steps_recover
    by (auto simp: readMemberName_def t d c split: option.splits)
qed

lemma readMemberEnd_steps:
  assumes "readMemberEnd rd = (e, rd')"
  shows "case e of Some ok \<Rightarrow> steps ok rd rd' | None \<Rightarrow> steps True rd rd' \<and> rest_len rd' < rest_len rd"
proof -
  obtain c rd1 where c: "readToken rd = (c, rd1)" by (metis surj_pair)
  obtain c' rd2 where c': "skip_comments c rd1 = (c', rd2)" by (metis surj_pair)
  have "steps True rd1 rd2" using skip_comments_le [OF c'] by (simp add: steps_def)
  then have "steps True rd rd2" using steps_readToken [OF c] steps_trans by blast
  moreover have "rest_len rd2 < rest_len rd" if "type_of c \<noteq> tokenEndOfStream"
    using that readToken_less [OF c] skip_comments_le [OF c'] by auto
  ultimately show ?thesis using assms steps_error [OF steps_readToken [OF c]] by (auto simp: readMemberEnd_def c c' split: if_splits)
qed

lemma readScalar_steps:
  assumes "readScalar f t cv rd = (ok, v, rd')"
  shows "steps ok rd rd' \<and> (ok \<longrightarrow> type_of t \<noteq> tokenEndOfStream)"
proof -
  have "steps ok rd rd'" if "decodeDouble f t cv rd = (ok, v, rd')"
    using that by (auto simp: decodeDouble_def Let_def steps_def split: option.splits if_splits)
  moreover have "steps ok rd rd'" if "decodeString t rd = (None, rd'')" "(False, cv, rd'') = (ok, v, rd')" for rd''
    using steps_decodeString [OF that(1)] that(2) by simp
  moreover have "steps ok rd rd'" if "decodeString t rd = (Some d, rd'')" "(True, Value_text d, rd'') = (ok, v, rd')" for d rd''
    using steps_decodeString [OF that(1)] that(2) by simp
  moreover have "steps True rd rd" "steps False rd (addError msg t None rd)" for msg by (auto simp: steps_def)
  ultimately show ?thesis using assms
    by (auto simp: readScalar_def decodeNumber_def Let_def split: TokenType.splits num_result.splits prod.splits option.splits if_splits)
qed

lemma empty_array_ahead_steps: "empty_array_ahead rd = (e, rd') \<Longrightarrow> steps True rd rd'"
proof -
  assume a: "empty_array_ahead rd = (e, rd')"
  let ?rd = "rd\<lparr>rd_rest := skipSpaces (rd_rest rd)\<rparr>"
  obtain t rd1 where r: "readToken ?rd = (t, rd1)" by (metis surj_pair)
  have "steps True rd ?rd" using skipSpaces_le [of "rd_rest rd"] by (simp add: steps_def)
  then show ?thesis using a r steps_trans [OF _ steps_readToken [OF r]] by (auto simp: empty_array_ahead_def Let_def split: if_splits)
qed

section \<open>The bound is enough\<close>

text \<open>A part of the reader that returns, and consumes a character when it succeeds.\<close>

definition returns :: "bool \<Rightarrow> Reader \<Rightarrow> (bool \<times> Value \<times> Reader) option \<Rightarrow> bool" where
  "returns strict rd r \<longleftrightarrow> (\<exists>ok v rd'. r = Some (ok, v, rd') \<and> steps ok rd rd' \<and> (strict \<and> ok \<longrightarrow> rest_len rd' < rest_len rd))"

lemma returns_step: "\<lbrakk>steps True rd rd1; returns False rd1 r; rest_len rd1 < rest_len rd\<rbrakk> \<Longrightarrow> returns True rd r"
  by (fastforce simp: returns_def steps_def)

lemma returns_same: "\<lbrakk>steps True rd rd1; returns s rd1 r\<rbrakk> \<Longrightarrow> returns False rd r"
  by (fastforce simp: returns_def steps_def)

lemma returns_Some: "steps ok rd rd' \<Longrightarrow> returns False rd (Some (ok, v, rd'))"
  by (simp add: returns_def)

lemma readValue_step:
  assumes o: "\<And>f name m rd. 2 * rest_len rd + 1 \<le> n \<Longrightarrow> returns False rd (readObject n f name m rd)"
    and a: "\<And>f i m rd. 2 * rest_len rd + 3 \<le> n \<Longrightarrow> returns False rd (readArray n f i m rd)"
    and n: "2 * rest_len rd + 2 \<le> Suc n"
  shows "returns True rd (readValue (Suc n) f cv rd)"
proof -
  obtain t rd1 where t: "skipCommentTokens rd = (t, rd1)" by (metis surj_pair)
  note less = skipCommentTokens_less [OF t]
  then have s: "steps True rd rd1" by (simp add: steps_def)
  show ?thesis
  proof (cases "type_of t = tokenObjectBegin \<or> type_of t = tokenArrayBegin")
    case True
    then have lt: "rest_len rd1 < rest_len rd" using less by auto
    obtain e rd2 where e: "empty_array_ahead rd1 = (e, rd2)" by (metis surj_pair)
    have le: "rest_len rd2 \<le> rest_len rd1" using empty_array_ahead_steps [OF e] by (simp add: steps_def)
    have "returns False rd1 (readObject n f [] [] rd1)" using o lt n by simp
    moreover have "returns False rd1 (if e then Some (True, arrayValue [], rd2) else readArray n f 0 [] rd2)"
      using returns_same [OF empty_array_ahead_steps [OF e] a] returns_Some [OF empty_array_ahead_steps [OF e]] lt le n by auto
    ultimately show ?thesis using returns_step [OF s _ lt] True t e by (auto simp: reader_simps)
  next
    case False
    obtain ok v rd2 where r: "readScalar f t cv rd1 = (ok, v, rd2)" by (metis prod_cases3)
    have "rest_len rd2 < rest_len rd" if ok using that readScalar_steps [OF r] less by (auto simp: steps_def)
    then have "returns True rd (Some (ok, v, rd2))" using steps_trans [OF s] readScalar_steps [OF r] by (auto simp: returns_def)
    then show ?thesis using t False r by (simp add: reader_simps)
  qed
qed

lemma readObject_step:
  assumes v: "\<And>f cv rd. 2 * rest_len rd + 2 \<le> n \<Longrightarrow> returns True rd (readValue n f cv rd)"
    and o: "\<And>f name m rd. 2 * rest_len rd + 1 \<le> n \<Longrightarrow> returns False rd (readObject n f name m rd)"
    and n: "2 * rest_len rd + 1 \<le> Suc n"
  shows "returns False rd (readObject (Suc n) f name m rd)"
proof (cases "readMemberName name rd")
  case (Inl r)
  then show ?thesis using readMemberName_steps [where name = name and rd = rd] by (cases r) (auto simp: reader_simps intro: returns_Some)
next
  case (Inr r)
  obtain name' rd1 where r: "r = (name', rd1)" by (cases r)
  then have s1: "steps True rd rd1" "rest_len rd1 < rest_len rd" using readMemberName_steps [where name = name and rd = rd] Inr by auto
  then obtain ok x rd2 where x: "readValue n f (entry_or_null m (buf_str name')) rd1 = Some (ok, x, rd2)" and s2: "steps ok rd1 rd2"
    using v [of rd1 f "entry_or_null m (buf_str name')"] n by (auto simp: returns_def)
  obtain e rd3 where e: "readMemberEnd rd2 = (e, rd3)" by (metis surj_pair)
  note s3 = readMemberEnd_steps [OF e]
  have s12: "steps ok rd rd2" using s1(1) s2 by (rule steps_trans)
  show ?thesis
  proof (cases "ok \<and> e = None")
    case True
    then have "steps True rd rd3" "rest_len rd3 < rest_len rd" using s12 s3 by (auto simp: steps_def)
    then have "returns False rd (readObject n f name' (map_put (buf_str name') x m) rd3)" using returns_same [OF _ o] n by auto
    then show ?thesis using Inr r x e True by (simp add: reader_simps)
  next
    case False
    have "steps okk rd rd3" if "ok" "e = Some okk" for okk using that s12 s3 steps_trans by auto
    then show ?thesis using Inr r x e False s12 steps_recover by (auto simp: reader_simps Let_def intro!: returns_Some)
  qed
qed

lemma readArray_step:
  assumes v: "\<And>f cv rd. 2 * rest_len rd + 2 \<le> n \<Longrightarrow> returns True rd (readValue n f cv rd)"
    and a: "\<And>f i m rd. 2 * rest_len rd + 3 \<le> n \<Longrightarrow> returns False rd (readArray n f i m rd)"
    and n: "2 * rest_len rd + 3 \<le> Suc n"
  shows "returns False rd (readArray (Suc n) f i m rd)"
proof -
  obtain ok x rd1 where x: "readValue n f (entry_or_null m i) rd = Some (ok, x, rd1)" and s1: "steps ok rd rd1"
    and lt: "ok \<longrightarrow> rest_len rd1 < rest_len rd"
    using v [of rd f "entry_or_null m i"] n by (auto simp: returns_def)
  obtain t rd2 where t: "(case readToken rd1 of (t, rd) \<Rightarrow> skip_comments t rd) = (t, rd2)" by (metis surj_pair)
  have s2: "steps ok rd rd2" if ok using that s1 steps_token [OF t] steps_trans by auto
  show ?thesis
  proof (cases "ok \<and> type_of t \<noteq> tokenArrayEnd")
    case True
    then have "rest_len rd2 < rest_len rd" using lt steps_token [OF t] by (auto simp: steps_def)
    then have "returns False rd (readArray n f (i + 1) (map_put i x m) rd2)" using returns_same [OF _ a] s2 True n by auto
    then show ?thesis using x t True by (simp add: reader_simps)
  next
    case False
    then show ?thesis using x t s1 s2 steps_recover by (auto simp: reader_simps Let_def intro!: returns_Some)
  qed
qed

lemma readers_return:
  "(\<forall>f cv rd. 2 * rest_len rd + 2 \<le> n \<longrightarrow> returns True rd (readValue n f cv rd))
   \<and> (\<forall>f name m rd. 2 * rest_len rd + 1 \<le> n \<longrightarrow> returns False rd (readObject n f name m rd))
   \<and> (\<forall>f i m rd. 2 * rest_len rd + 3 \<le> n \<longrightarrow> returns False rd (readArray n f i m rd))"
proof (induction n)
  case (Suc n)
  then show ?case by (intro conjI allI impI; intro readValue_step readObject_step readArray_step) auto
qed (simp add: returns_def)

section \<open>A larger bound changes nothing\<close>

lemma readers_mono:
  "(\<forall>f cv rd r. readValue n f cv rd = Some r \<longrightarrow> readValue (Suc n) f cv rd = Some r)
   \<and> (\<forall>f name m rd r. readObject n f name m rd = Some r \<longrightarrow> readObject (Suc n) f name m rd = Some r)
   \<and> (\<forall>f i m rd r. readArray n f i m rd = Some r \<longrightarrow> readArray (Suc n) f i m rd = Some r)"
proof (induction n)
  case (Suc n)
  then have v: "\<And>f cv rd r. readValue n f cv rd = Some r \<Longrightarrow> readValue (Suc n) f cv rd = Some r"
    and o: "\<And>f name m rd r. readObject n f name m rd = Some r \<Longrightarrow> readObject (Suc n) f name m rd = Some r"
    and a: "\<And>f i m rd r. readArray n f i m rd = Some r \<Longrightarrow> readArray (Suc n) f i m rd = Some r" by blast+
  have "readValue (Suc (Suc n)) f cv rd = Some r" if "readValue (Suc n) f cv rd = Some r" for f cv rd r
    using that [unfolded readValue.simps(2) [of n]] o a by (cases r) (auto simp: readValue.simps(2) [of "Suc n"] split: prod.splits if_splits)
  moreover have "readObject (Suc (Suc n)) f name m rd = Some r" if "readObject (Suc n) f name m rd = Some r" for f name m rd r
    using that [unfolded readObject.simps(2) [of n]] v o
    by (cases r) (auto simp: readObject.simps(2) [of "Suc n"] Let_def split: prod.splits if_splits option.splits sum.splits)
  moreover have "readArray (Suc (Suc n)) f i m rd = Some r" if "readArray (Suc n) f i m rd = Some r" for f i m rd r
    using that [unfolded readArray.simps(2) [of n]] v a
    by (cases r) (auto simp: readArray.simps(2) [of "Suc n"] Let_def split: prod.splits if_splits option.splits)
  ultimately show ?case by blast
qed (simp add: readValue.simps readObject.simps readArray.simps)

lemma readValue_mono: "\<lbrakk>readValue m f cv rd = Some r; m \<le> n\<rbrakk> \<Longrightarrow> readValue n f cv rd = Some r"
proof (induction n)
  case (Suc n)
  then show ?case using conjunct1 [OF readers_mono [of n]] by (metis le_Suc_eq)
qed simp

section \<open>Results are well-formed\<close>

lemma number_digits_bound: "\<lbrakk>number_digits T v s = NR_value w; v < 10 * T\<rbrakk> \<Longrightarrow> w < 10 * T"
proof (induction T v s rule: number_digits.induct)
  case (2 T v c r)
  have "unat c - 0x30 \<le> 9" if "\<not> 0x39 < c"
  proof -
    have "c \<le> 0x39" using that by simp
    then have "unat c \<le> 0x39" by (simp add: word_le_nat_alt)
    then show ?thesis by simp
  qed
  then show ?case using 2 by (auto split: if_splits)
qed simp

lemma decodeNumber_ok: "\<lbrakk>decodeNumber f t cv rd = (ok, v, rd'); value_ok cv\<rbrakk> \<Longrightarrow> value_ok v"
proof -
  assume a: "decodeNumber f t cv rd = (ok, v, rd')" "value_ok cv"
  have d: "value_ok v" if "decodeDouble f t cv rd = (ok, v, rd')"
    using that a(2) by (auto simp: decodeDouble_def Let_def split: option.splits)
  have "w < 2147483640" if "number_digits 214748364 0 s = NR_value w" for w s using number_digits_bound [OF that] by simp
  moreover have "w < 4294967290" if "number_digits 429496729 0 s = NR_value w" for w s using number_digits_bound [OF that] by simp
  ultimately show ?thesis using a d
    by (fastforce simp: decodeNumber_def Let_def maxUInt_def minInt_def maxInt_def split: if_splits num_result.splits)
qed

lemma readScalar_ok: "\<lbrakk>readScalar f t cv rd = (ok, v, rd'); value_ok cv\<rbrakk> \<Longrightarrow> value_ok v"
  using decodeNumber_ok
  by (auto simp: readScalar_def Value_text_def split: TokenType.splits prod.splits option.splits)

lemma object_entry_ok: "value_ok (objectValue m) \<Longrightarrow> value_ok (entry_or_null m k)"
  by (auto intro: entry_ok)

lemma array_entry_ok: "value_ok (arrayValue m) \<Longrightarrow> value_ok (entry_or_null m k)"
  by (auto intro: entry_ok)

lemma readers_ok:
  "(\<forall>f cv rd ok v rd'. value_ok cv \<longrightarrow> readValue n f cv rd = Some (ok, v, rd') \<longrightarrow> value_ok v)
   \<and> (\<forall>f name m rd ok v rd'. value_ok (objectValue m) \<longrightarrow> readObject n f name m rd = Some (ok, v, rd') \<longrightarrow> value_ok v)
   \<and> (\<forall>f i m rd ok v rd'. value_ok (arrayValue m) \<longrightarrow> readArray n f i m rd = Some (ok, v, rd') \<longrightarrow> value_ok v)"
proof (induction n)
  case (Suc n)
  then have v: "\<And>f cv rd ok v rd'. \<lbrakk>value_ok cv; readValue n f cv rd = Some (ok, v, rd')\<rbrakk> \<Longrightarrow> value_ok v"
    and o: "\<And>f name m rd ok v rd'. \<lbrakk>value_ok (objectValue m); readObject n f name m rd = Some (ok, v, rd')\<rbrakk> \<Longrightarrow> value_ok v"
    and a: "\<And>f i m rd ok v rd'. \<lbrakk>value_ok (arrayValue m); readArray n f i m rd = Some (ok, v, rd')\<rbrakk> \<Longrightarrow> value_ok v" by blast+
  have e: "value_ok (objectValue [])" "value_ok (arrayValue [])" by simp_all
  have "value_ok x" if "value_ok cv" "readValue (Suc n) f cv rd = Some (ok, x, rd')" for f cv rd ok x rd'
    using that e o [of "[]"] a [of "[]"] readScalar_ok by (auto simp: reader_simps simp del: value_ok.simps split: prod.splits if_splits)
  moreover have "value_ok x" if m: "value_ok (objectValue m)" and r: "readObject (Suc n) f name m rd = Some (ok, x, rd')" for f name m rd ok x rd'
  proof -
    have p: "value_ok (objectValue (map_put (buf_str k) y m))" if "readValue n f (entry_or_null m (buf_str k)) rd1 = Some (ok1, y, rd2)" for k y rd1 ok1 rd2
      by (rule object_put_ok [OF m v [OF object_entry_ok [OF m] that] no_nul_buf_str])
    show ?thesis using r m
      by (auto simp: reader_simps Let_def simp del: value_ok.simps dest!: p dest: o split: prod.splits sum.splits option.splits if_splits)
  qed
  moreover have "value_ok x" if m: "value_ok (arrayValue m)" and r: "readArray (Suc n) f i m rd = Some (ok, x, rd')" for f i m rd ok x rd'
  proof -
    have p: "value_ok (arrayValue (map_put i y m))" if "readValue n f (entry_or_null m i) rd1 = Some (ok1, y, rd2)" for y rd1 ok1 rd2
      by (rule array_put_ok [OF m v [OF array_entry_ok [OF m] that]])
    show ?thesis using r
      by (auto simp: reader_simps Let_def simp del: value_ok.simps dest!: p dest: a split: prod.splits option.splits if_splits)
  qed
  ultimately show ?case by blast
qed (simp add: readValue.simps readObject.simps readArray.simps)

section \<open>Documents\<close>

lemma parse_outcome:
  assumes "parse f features behind doc root = Some (ok, v, rd)"
  shows "(ok \<longleftrightarrow> rd_errors rd = []) \<and> (value_ok root \<longrightarrow> value_ok v)"
proof -
  let ?rd = "Reader_start features behind doc" and ?n = "2 * length doc + 2"
  have "returns True ?rd (readValue ?n f root ?rd)" using readers_return [of ?n] by (simp add: Reader_start_def)
  then obtain ok' v' rd' where r: "readValue ?n f root ?rd = Some (ok', v', rd')" and s: "steps ok' ?rd rd'" by (auto simp: returns_def)
  obtain t rd2 where t: "skipCommentTokens rd' = (t, rd2)" by (metis surj_pair)
  have "ok' \<longleftrightarrow> rd_errors rd' = []" using s by (auto simp: steps_def Reader_start_def)
  moreover have "value_ok root \<longrightarrow> value_ok v'" using conjunct1 [OF readers_ok [of ?n]] r by blast
  moreover have "rd_errors rd2 = rd_errors rd'" using skipCommentTokens_less [OF t] by blast
  ultimately show ?thesis using assms r by (auto simp: parse_def parse_fuel_def t split: if_splits)
qed

lemma parse_enough: "2 * length doc + 2 \<le> n \<Longrightarrow> parse_fuel n f features behind doc root = parse f features behind doc root"
proof -
  assume n: "2 * length doc + 2 \<le> n"
  let ?rd = "Reader_start features behind doc" and ?n = "2 * length doc + 2"
  have "returns True ?rd (readValue ?n f root ?rd)" using readers_return [of ?n] by (simp add: Reader_start_def)
  then obtain r where "readValue ?n f root ?rd = Some r" by (auto simp: returns_def)
  then show ?thesis using readValue_mono [OF _ n] by (simp add: parse_def parse_fuel_def)
qed

lemma parse_returns: "parse f features behind doc root \<noteq> None"
proof -
  let ?rd = "Reader_start features behind doc" and ?n = "2 * length doc + 2"
  have "returns True ?rd (readValue ?n f root ?rd)" using readers_return [of ?n] by (simp add: Reader_start_def)
  then show ?thesis by (auto simp: returns_def parse_def parse_fuel_def)
qed

section \<open>Properties\<close>

text \<open>
  \<^bold>\<open>C9\<close>  The reader on any document.  \<open>parse\<close> returns, for every byte sequence, every configuration and every byte
  behind the document: the bound on its recursion is enough, and larger bounds give the same.  It reports success exactly
  when it has recorded no error, and the value it leaves is well-formed when the one it was given is.
\<close>

theorem parse_total:
  "\<exists>ok v rd. parse f features behind doc root = Some (ok, v, rd)
     \<and> (\<forall>n \<ge> 2 * length doc + 2. parse_fuel n f features behind doc root = Some (ok, v, rd))
     \<and> (ok \<longleftrightarrow> rd_errors rd = []) \<and> (value_ok root \<longrightarrow> value_ok v)"
proof -
  obtain ok v rd where "parse f features behind doc root = Some (ok, v, rd)" using parse_returns by fastforce
  then show ?thesis using parse_enough [of doc] parse_outcome by fastforce
qed

text \<open>Floating point numbers that are all zero.\<close>

definition sample_fp :: fp where
  "sample_fp =
     \<lparr>fp_le_int = (\<lambda>_ i. 0 \<le> i), fp_ge_int = (\<lambda>_ i. i \<le> 0), fp_trunc = (\<lambda>_. 0), fp_of_int = (\<lambda>_. 0), fp_scan = (\<lambda>_. Some 0),
      fp_print = (\<lambda>_. [0x30, 0x2E, 0x30])\<rparr>"

theorem parse_total_witness:
  "\<exists>ok v rd. parse sample_fp Features_all 0 [0x5B, 0x5B] nullValue = Some (ok, v, rd) \<and> (ok \<longleftrightarrow> rd_errors rd = []) \<and> value_ok v"
  using parse_total [of sample_fp Features_all 0 "[0x5B, 0x5B]" nullValue] by auto

end
