(* ===== verification/JsonGrammar.thy ===== *)
theory JsonGrammar
  imports JsonTotal
begin

text \<open>
  The grammar of JSON texts with their values, and that the reader accepts it: tokens, texts and numbers first, then
  values by rule induction, then documents.

  White space may stand around every token, members may come in any order, and texts may be spelled with any escapes.
  Integers from 2147483640 below zero and from 4294967290 above it are left out, as the reader takes them for floating
  point numbers, and floating point numbers take part as far as the scanner accepts them.
\<close>

section \<open>The grammar\<close>

definition ws :: "byte list \<Rightarrow> bool" where
  "ws s \<longleftrightarrow> list_all json_space s"

definition json_escapes :: "(byte \<times> byte) list" where
  "json_escapes = [(0x22, 0x22), (0x5C, 0x5C), (0x2F, 0x2F), (0x62, 0x08), (0x66, 0x0C), (0x6E, 0x0A), (0x72, 0x0D), (0x74, 0x09)]"

text \<open>The number of four hexadecimal digits.\<close>

definition hex4 :: "byte \<Rightarrow> byte \<Rightarrow> byte \<Rightarrow> byte \<Rightarrow> nat option" where
  "hex4 a b c d =
     do { i \<leftarrow> hex_value a; j \<leftarrow> hex_value b; k \<leftarrow> hex_value c; l \<leftarrow> hex_value d; Some (((i * 16 + j) * 16 + k) * 16 + l) }"

definition high_surrogate :: "nat \<Rightarrow> bool" where
  "high_surrogate u \<longleftrightarrow> 0xD800 \<le> u \<and> u \<le> 0xDBFF"

text \<open>UTF-8: the mark of the length with the highest bits, then groups of six bits.\<close>

definition utf8 :: "nat \<Rightarrow> byte list" where
  "utf8 cp =
     (let k = (if cp < 0x80 then 0 else if cp < 0x800 then 1 else if cp < 0x10000 then 2 else 3)
      in of_nat ([0, 0xC0, 0xE0, 0xF0] ! k + cp div 64 ^ k) # map (\<lambda>i. of_nat (0x80 + cp div 64 ^ i mod 64)) (rev [0..<k]))"

text \<open>The characters between quotes, and the bytes they stand for.\<close>

inductive json_chars :: "byte list \<Rightarrow> byte list \<Rightarrow> bool" where
  chars_end: "json_chars [] []"
| chars_plain: "\<lbrakk>c \<noteq> 0x22; c \<noteq> 0x5C; json_chars s t\<rbrakk> \<Longrightarrow> json_chars (c # s) (c # t)"
| chars_escape: "\<lbrakk>(e, c) \<in> set json_escapes; json_chars s t\<rbrakk> \<Longrightarrow> json_chars (0x5C # e # s) (c # t)"
| chars_unicode: "\<lbrakk>hex4 a b c d = Some u; \<not> high_surrogate u; json_chars s t\<rbrakk>
    \<Longrightarrow> json_chars ([0x5C, 0x75, a, b, c, d] @ s) (utf8 u @ t)"
| chars_pair: "\<lbrakk>hex4 a b c d = Some u; high_surrogate u; hex4 e f g h = Some l; json_chars s t\<rbrakk>
    \<Longrightarrow> json_chars ([0x5C, 0x75, a, b, c, d, 0x5C, 0x75, e, f, g, h] @ s)
          (utf8 (0x10000 + u mod 1024 * 1024 + l mod 1024) @ t)"

abbreviation digit_byte :: "byte \<Rightarrow> bool" where
  "digit_byte c \<equiv> 0x30 \<le> c \<and> c \<le> 0x39"

definition dval :: "byte list \<Rightarrow> nat" where
  "dval ds = foldl (\<lambda>n c. n * 10 + (unat c - 48)) 0 ds"

text \<open>A floating point number: its text, with a mark that tells it from an integer, fits the buffer and is scanned.\<close>

definition json_real :: "fp \<Rightarrow> byte list \<Rightarrow> 64 word \<Rightarrow> bool" where
  "json_real f s r \<longleftrightarrow>
     (case s of [] \<Rightarrow> False | c # t \<Rightarrow> (digit_byte c \<or> c = 0x2D) \<and> list_all number_char t)
     \<and> is_double s \<and> length s \<noteq> 32 \<and> fp_scan f s = Some r"

text \<open>Values, the elements of arrays, and the members of objects, in which the last of several members with one name counts.\<close>

definition put_all :: "(byte list \<times> Value) list \<Rightarrow> (byte list \<times> Value) list \<Rightarrow> (byte list \<times> Value) list" where
  "put_all kvs m = foldl (\<lambda>m (k, v). map_put (buf_str k) v m) m kvs"

inductive json_text :: "fp \<Rightarrow> byte list \<Rightarrow> Value \<Rightarrow> bool"
  and json_elements :: "fp \<Rightarrow> byte list \<Rightarrow> Value list \<Rightarrow> bool"
  and json_members :: "fp \<Rightarrow> byte list \<Rightarrow> (byte list \<times> Value) list \<Rightarrow> bool"
  for f where
  text_null: "json_text f (bytes_of ''null'') nullValue"
| text_true: "json_text f (bytes_of ''true'') (booleanValue True)"
| text_false: "json_text f (bytes_of ''false'') (booleanValue False)"
| text_nonneg: "\<lbrakk>ds \<noteq> []; list_all digit_byte ds; dval ds < 4294967290\<rbrakk>
    \<Longrightarrow> json_text f ds (if int (dval ds) \<le> maxInt then intValue (int (dval ds)) else uintValue (dval ds))"
| text_negative: "\<lbrakk>list_all digit_byte ds; dval ds < 2147483640\<rbrakk> \<Longrightarrow> json_text f (0x2D # ds) (intValue (- int (dval ds)))"
| text_real: "json_real f s r \<Longrightarrow> json_text f s (realValue r)"
| text_string: "json_chars s t \<Longrightarrow> json_text f (0x22 # s @ [0x22]) (Value_text t)"
| text_no_element: "ws a \<Longrightarrow> json_text f (0x5B # a @ [0x5D]) (arrayValue [])"
| text_array: "json_elements f s vs \<Longrightarrow> json_text f (0x5B # s @ [0x5D]) (arrayValue (zip [0..<length vs] vs))"
| text_no_member: "ws a \<Longrightarrow> json_text f (0x7B # a @ [0x7D]) (objectValue [])"
| text_object: "json_members f s kvs \<Longrightarrow> json_text f (0x7B # s @ [0x7D]) (objectValue (put_all kvs []))"
| last_element: "\<lbrakk>ws a; json_text f s v; ws b\<rbrakk> \<Longrightarrow> json_elements f (a @ s @ b) [v]"
| more_elements: "\<lbrakk>ws a; json_text f s v; ws b; json_elements f r vs\<rbrakk> \<Longrightarrow> json_elements f (a @ s @ b @ 0x2C # r) (v # vs)"
| last_member: "\<lbrakk>ws a; json_chars k n; ws b; ws c; json_text f s v; ws d\<rbrakk>
    \<Longrightarrow> json_members f (a @ 0x22 # k @ 0x22 # b @ 0x3A # c @ s @ d) [(n, v)]"
| more_members: "\<lbrakk>ws a; json_chars k n; ws b; ws c; json_text f s v; ws d; json_members f r kvs\<rbrakk>
    \<Longrightarrow> json_members f (a @ 0x22 # k @ 0x22 # b @ 0x3A # c @ s @ d @ 0x2C # r) ((n, v) # kvs)"

text \<open>A document: a value with white space around it.\<close>

definition json_document :: "fp \<Rightarrow> byte list \<Rightarrow> Value \<Rightarrow> bool" where
  "json_document f doc v \<longleftrightarrow> (\<exists>a s b. doc = a @ s @ b \<and> ws a \<and> ws b \<and> json_text f s v)"

section \<open>Tokens\<close>

text \<open>The reader stands, behind white space, at a text.\<close>

definition at_text :: "Reader \<Rightarrow> byte list \<Rightarrow> bool" where
  "at_text rd s \<longleftrightarrow> skipSpaces (rd_rest rd) = s"

lemma skip_ws: "ws a \<Longrightarrow> skipSpaces (a @ s) = skipSpaces s"
  by (simp add: skipSpaces_def ws_def dropWhile_append2 list_all_iff)

lemma skip_here: "\<not> json_space c \<Longrightarrow> skipSpaces (c # s) = c # s"
  by (simp add: skipSpaces_def)

lemma at_text_ws: "\<lbrakk>rd_rest rd = a @ c # s; ws a; \<not> json_space c\<rbrakk> \<Longrightarrow> at_text rd (c # s)"
  by (simp add: at_text_def skip_ws skip_here)

lemma next_token_at:
  assumes "at_text rd (tk @ s)" "lex (rd_behind rd) (tk @ s) = (ty, s)" "ty \<noteq> tokenComment"
  shows "\<exists>t. readToken rd = (t, rd\<lparr>rd_rest := s\<rparr>) \<and> skipCommentTokens rd = (t, rd\<lparr>rd_rest := s\<rparr>)
    \<and> (case readToken rd of (t, rd) \<Rightarrow> skip_comments t rd) = (t, rd\<lparr>rd_rest := s\<rparr>) \<and> type_of t = ty \<and> text_of t = tk"
  using assms by (auto simp: skipCommentTokens_def readToken_def at_text_def)

lemma lex_single:
  "lex b (0x7B # s) = (tokenObjectBegin, s)" "lex b (0x7D # s) = (tokenObjectEnd, s)" "lex b (0x5B # s) = (tokenArrayBegin, s)"
  "lex b (0x5D # s) = (tokenArrayEnd, s)" "lex b (0x2C # s) = (tokenArraySeparator, s)" "lex b (0x3A # s) = (tokenMemberSeparator, s)"
  by (simp_all add: lex_def getNextChar_def)

lemma lex_words:
  "lex b (bytes_of ''null'' @ s) = (tokenNull, s)" "lex b (bytes_of ''true'' @ s) = (tokenTrue, s)" "lex b (bytes_of ''false'' @ s) = (tokenFalse, s)"
  by (simp_all add: lex_def getNextChar_def checked_def json_match_def bytes_of_def char_byte_def)

lemma delim_not_space: "\<not> json_space 0x2C" "\<not> json_space 0x5D" "\<not> json_space 0x7D" "\<not> json_space 0x3A" "\<not> json_space 0x22" "\<not> json_space 0x7B"
  "\<not> json_space 0x5B"
  by (simp_all add: json_space_def)

lemma token_delim:
  assumes "rd_rest rd = a @ c # r" "ws a" "c \<in> {0x2C, 0x5D, 0x7D, 0x3A}"
  shows "\<exists>t. readToken rd = (t, rd\<lparr>rd_rest := r\<rparr>) \<and> (case readToken rd of (t, rd) \<Rightarrow> skip_comments t rd) = (t, rd\<lparr>rd_rest := r\<rparr>)
    \<and> type_of t = (if c = 0x2C then tokenArraySeparator else if c = 0x5D then tokenArrayEnd
        else if c = 0x7D then tokenObjectEnd else tokenMemberSeparator)"
proof -
  have "at_text rd ([c] @ r)" using assms delim_not_space at_text_ws [of rd a c r] by auto
  moreover have "lex (rd_behind rd) ([c] @ r) = (if c = 0x2C then tokenArraySeparator else if c = 0x5D then tokenArrayEnd
        else if c = 0x7D then tokenObjectEnd else tokenMemberSeparator, r)"
    using assms(3) by (auto simp: lex_single)
  ultimately show ?thesis using next_token_at [of rd "[c]" r] by fastforce
qed

section \<open>Texts\<close>

lemma readString_plain: "\<forall>x\<in>set xs. x \<noteq> 0x5C \<and> x \<noteq> 0x22 \<Longrightarrow> \<exists>c'. readString c (xs @ r) = readString c' r"
  by (induction xs arbitrary: c) auto

lemma hex_value_plain: "hex_value c = Some d \<Longrightarrow> c \<noteq> 0x5C \<and> c \<noteq> 0x22"
  by (auto simp: hex_value_def split: if_splits)

lemma hex4_plain: "hex4 a b c d = Some u \<Longrightarrow> \<forall>x\<in>set [a, b, c, d]. x \<noteq> 0x5C \<and> x \<noteq> 0x22"
  by (auto simp: hex4_def bind_eq_Some_conv dest: hex_value_plain)

lemma readString_chars: "json_chars s t \<Longrightarrow> readString c (s @ 0x22 # r) = (True, r)"
proof (induction arbitrary: c rule: json_chars.induct)
  case (chars_unicode a b c' d u s t)
  then show ?case using readString_plain [OF hex4_plain [OF chars_unicode(1)], of "0x5C" "s @ 0x22 # r"] by auto
next
  case (chars_pair a b c' d u e f g h l s t)
  obtain x where "readString 0x5C ([e, f, g, h] @ s @ 0x22 # r) = readString x (s @ 0x22 # r)"
    using readString_plain [OF hex4_plain [OF chars_pair(3)]] by blast
  then show ?case
    using readString_plain [OF hex4_plain [OF chars_pair(1)], of "0x5C" "0x5C # 0x75 # [e, f, g, h] @ s @ 0x22 # r"] chars_pair(5) by auto
qed simp_all

lemma escape_digits: "hex4 a b c d = Some u \<Longrightarrow> decodeUnicodeEscapeSequence t (a # b # c # d # r) = Inr (u, r)"
proof -
  assume h: "hex4 a b c d = Some u"
  have "unicode_digits t (Suc (Suc (Suc (Suc 0)))) 0 (a # b # c # d # r) = Inr (u, r)"
    using h by (auto simp: hex4_def bind_eq_Some_conv)
  moreover have "(4 :: nat) = Suc (Suc (Suc (Suc 0)))" by simp
  ultimately have "unicode_digits t 4 0 (a # b # c # d # r) = Inr (u, r)" by metis
  then show ?thesis by (simp add: decodeUnicodeEscapeSequence_def)
qed

lemma simple_escapes: "(e, c) \<in> set json_escapes \<Longrightarrow> simple_escape e = Some c \<and> e \<noteq> 0x75"
  by (auto simp: json_escapes_def simple_escape_def)

lemma codePoint_utf8:
  assumes "cp \<le> 0x10FFFF"
  shows "codePointToUTF8 cp = utf8 cp"
proof -
  have m: "cp < 0x800 \<Longrightarrow> cp div 64 mod 32 = cp div 64" "cp < 0x10000 \<Longrightarrow> cp div 4096 mod 16 = cp div 4096" "cp div 262144 mod 8 = cp div 262144"
    using assms by auto
  have u: "[0..<1] = [0 :: nat]" "[0..<2] = [0, 1 :: nat]" "[0..<3] = [0, 1, 2 :: nat]" by (simp_all add: upt_rec)
  consider "cp < 0x80" | "0x80 \<le> cp" "cp < 0x800" | "0x800 \<le> cp" "cp < 0x10000" | "0x10000 \<le> cp" by linarith
  then show ?thesis
  proof cases
    case 4
    then show ?thesis using assms m(3) by (simp add: codePointToUTF8_def utf8_def u)
  qed (simp_all add: codePointToUTF8_def utf8_def u m)
qed

lemma hex_value_bound: "hex_value c = Some d \<Longrightarrow> d < 16"
  by (auto simp: hex_value_def word_le_nat_alt split: if_splits)

lemma hex4_bound: "hex4 a b c d = Some u \<Longrightarrow> u < 0x10000"
  by (fastforce simp: hex4_def bind_eq_Some_conv dest!: hex_value_bound)

lemma decode_json_chars: "json_chars s t \<Longrightarrow> decode_chars tk s dec = Inr (dec @ t)"
proof (induction arbitrary: dec rule: json_chars.induct)
  case (chars_escape e c s t)
  then show ?case using simple_escapes [OF chars_escape(1)] by simp
next
  case (chars_unicode a b c d u s t)
  then have "decodeUnicodeCodePoint tk (a # b # c # d # s) = Inr (u, s)"
    by (auto simp: decodeUnicodeCodePoint_def escape_digits high_surrogate_def)
  moreover have "codePointToUTF8 u = utf8 u" using hex4_bound [OF chars_unicode(1)] by (simp add: codePoint_utf8)
  ultimately show ?case using chars_unicode by (simp add: simple_escape_def)
next
  case (chars_pair a b c d u e f g h l s t)
  then have "decodeUnicodeCodePoint tk (a # b # c # d # 0x5C # 0x75 # e # f # g # h # s) = Inr (0x10000 + u mod 1024 * 1024 + l mod 1024, s)"
    by (simp add: decodeUnicodeCodePoint_def escape_digits high_surrogate_def)
  moreover have "u mod 1024 < 1024" "l mod 1024 < 1024" by simp_all
  then have "codePointToUTF8 (0x10000 + u mod 1024 * 1024 + l mod 1024) = utf8 (0x10000 + u mod 1024 * 1024 + l mod 1024)"
    by (intro codePoint_utf8) linarith
  ultimately show ?case using chars_pair by (simp add: simple_escape_def)
qed simp_all

lemma lex_chars: "json_chars s t \<Longrightarrow> lex b (0x22 # s @ 0x22 # r) = (tokenString, r)"
  by (simp add: lex_def getNextChar_def checked_def readString_chars)

lemma decodeString_chars: "\<lbrakk>json_chars s u; text_of t = 0x22 # s @ [0x22]\<rbrakk> \<Longrightarrow> decodeString t rd = (Some u, rd)"
  by (simp add: decodeString_def decode_json_chars butlast_append)

section \<open>Numbers\<close>

lemma number_digits_snoc:
  "number_digits T v (xs @ [c]) = (case number_digits T v xs of NR_value w \<Rightarrow> number_digits T w [c] | r \<Rightarrow> r)"
  by (induction T v xs rule: number_digits.induct) auto

lemma number_digits_dval: "\<lbrakk>list_all digit_byte ds; dval ds div 10 < T\<rbrakk> \<Longrightarrow> number_digits T 0 ds = NR_value (dval ds)"
proof (induction ds rule: rev_induct)
  case (snoc c ds)
  have c: "digit_byte c" "unat c - 48 < 10" using snoc.prems(1) by (auto simp: word_le_nat_alt)
  have d: "dval (ds @ [c]) = dval ds * 10 + (unat c - 48)" by (simp add: dval_def)
  then have "dval (ds @ [c]) div 10 = dval ds" using c(2) by simp
  then have "number_digits T 0 ds = NR_value (dval ds)" "dval ds < T" using snoc by (simp_all add: list_all_iff)
  then show ?case using c(1) d by (auto simp: number_digits_snoc)
qed (simp add: dval_def)

text \<open>A text does not go on with a character of a number.\<close>

definition stops :: "byte list \<Rightarrow> bool" where
  "stops r \<longleftrightarrow> r = [] \<or> \<not> number_char (hd r)"

lemma space_stops: "\<lbrakk>ws a; \<not> number_char c\<rbrakk> \<Longrightarrow> stops (a @ c # r)"
  by (cases a) (auto simp: stops_def ws_def json_space_def number_char_def)

lemma ws_stops: "ws a \<Longrightarrow> stops a"
  by (cases a) (auto simp: stops_def ws_def json_space_def number_char_def)

lemma delim_stops: "\<not> number_char 0x2C" "\<not> number_char 0x5D" "\<not> number_char 0x7D"
  by (simp_all add: number_char_def)

lemma lex_number:
  assumes "digit_byte c \<or> c = 0x2D" "list_all number_char s" "stops r"
  shows "lex b ((c # s) @ r) = (tokenNumber, r)"
proof -
  have "dropWhile number_char (s @ r) = r"
    using assms(2,3) by (cases r) (simp_all add: dropWhile_append2 stops_def list_all_iff)
  moreover have "c \<notin> {0x7B, 0x7D, 0x5B, 0x5D, 0x22, 0x2F}" using assms(1) by auto
  ultimately show ?thesis using assms(1) by (simp add: lex_def getNextChar_def readNumber_def)
qed

lemma digits_number: "list_all digit_byte ds \<Longrightarrow> list_all number_char ds"
  by (auto simp: list_all_iff number_char_def)

lemma not_double: "list_all digit_byte s \<Longrightarrow> \<not> is_double s \<and> \<not> is_double (0x2D # s)"
proof -
  assume a: "list_all digit_byte s"
  have "\<not> digit_byte x" if "x \<in> {0x2E, 0x65, 0x45, 0x2B, 0x2D}" for x :: byte using that by auto
  then have "\<forall>x\<in>set s. x \<notin> {0x2E, 0x65, 0x45, 0x2B, 0x2D}" using a by (auto simp: list_all_iff)
  moreover have "set (tl s) \<subseteq> set s" by (cases s) auto
  ultimately show ?thesis by (auto simp: is_double_def list_ex_iff)
qed

lemma decodeNumber_nonneg:
  assumes "text_of t = ds" "ds \<noteq> []" "list_all digit_byte ds" "dval ds < 4294967290"
  shows "decodeNumber f t cv rd = (True, if int (dval ds) \<le> maxInt then intValue (int (dval ds)) else uintValue (dval ds), rd)"
proof -
  obtain c s where cs: "ds = c # s" "digit_byte c" using assms(2,3) by (cases ds) auto
  then have "c \<noteq> 0x2D" by auto
  moreover have "number_digits 429496729 0 ds = NR_value (dval ds)" using number_digits_dval [OF assms(3)] assms(4) by simp
  ultimately show ?thesis using assms(1) not_double [OF assms(3)] cs(1) by (simp add: decodeNumber_def peek_def maxUInt_def)
qed

lemma decodeNumber_negative:
  assumes "text_of t = 0x2D # ds" "list_all digit_byte ds" "dval ds < 2147483640"
  shows "decodeNumber f t cv rd = (True, intValue (- int (dval ds)), rd)"
proof -
  have "number_digits 214748364 0 ds = NR_value (dval ds)" using number_digits_dval [OF assms(2)] assms(3) by simp
  then show ?thesis using assms(1) not_double [OF assms(2)] by (simp add: decodeNumber_def peek_def)
qed

section \<open>Scalars\<close>

text \<open>A value is read back from its text, with any value in its place before.\<close>

definition reads_back :: "fp \<Rightarrow> byte list \<Rightarrow> Value \<Rightarrow> bool" where
  "reads_back f s v \<longleftrightarrow>
     (\<forall>rd r. at_text rd (s @ r) \<longrightarrow> stops r \<longrightarrow> (\<exists>N. \<forall>n \<ge> N. \<forall>cv. readValue n f cv rd = Some (True, v, rd\<lparr>rd_rest := r\<rparr>)))"

lemma reads_backD:
  assumes "reads_back f s v" "at_text rd (s @ r)" "stops r"
  obtains N where "\<And>n cv. N \<le> n \<Longrightarrow> readValue n f cv rd = Some (True, v, rd\<lparr>rd_rest := r\<rparr>)"
  using assms unfolding reads_back_def by blast

lemma enough_fuel: "(\<And>n. N \<le> n \<Longrightarrow> P (Suc n)) \<Longrightarrow> \<exists>N. \<forall>n \<ge> N. P n"
  by (rule exI [of _ "Suc N"]) (metis Suc_le_D Suc_le_mono)

lemma reads_back_scalar:
  assumes "\<And>b r. stops r \<Longrightarrow> lex b (s @ r) = (ty, r)" "ty \<notin> {tokenComment, tokenObjectBegin, tokenArrayBegin}"
    "\<And>t cv rd. type_of t = ty \<Longrightarrow> text_of t = s \<Longrightarrow> readScalar f t cv rd = (True, v, rd)"
  shows "reads_back f s v"
  unfolding reads_back_def
proof (intro allI impI)
  fix rd r assume a: "at_text rd (s @ r)" "stops r"
  obtain t where t: "skipCommentTokens rd = (t, rd\<lparr>rd_rest := r\<rparr>)" "type_of t = ty" "text_of t = s"
    using next_token_at [OF a(1) assms(1) [OF a(2)]] assms(2) by auto
  have "\<forall>cv. readValue (Suc n) f cv rd = Some (True, v, rd\<lparr>rd_rest := r\<rparr>)" for n
    using t assms(2,3) by (simp add: reader_simps)
  then show "\<exists>N. \<forall>n \<ge> N. \<forall>cv. readValue n f cv rd = Some (True, v, rd\<lparr>rd_rest := r\<rparr>)" by (rule enough_fuel)
qed

lemma reads_back_number:
  assumes "s = c # s'" "digit_byte c \<or> c = 0x2D" "list_all number_char s'"
    "\<And>t cv rd. text_of t = s \<Longrightarrow> decodeNumber f t cv rd = (True, v, rd)"
  shows "reads_back f s v"
  using lex_number [OF assms(2,3)] assms(1,4) by (intro reads_back_scalar [where ty = tokenNumber]) (simp_all add: readScalar_def)

lemma reads_back_words:
  "reads_back f (bytes_of ''null'') nullValue" "reads_back f (bytes_of ''true'') (booleanValue True)"
  "reads_back f (bytes_of ''false'') (booleanValue False)"
  by (rule reads_back_scalar [where ty = tokenNull] reads_back_scalar [where ty = tokenTrue] reads_back_scalar [where ty = tokenFalse];
      simp add: lex_words readScalar_def)+

lemma reads_back_string: "json_chars s t \<Longrightarrow> reads_back f (0x22 # s @ [0x22]) (Value_text t)"
  by (rule reads_back_scalar [where ty = tokenString]) (simp_all add: lex_chars readScalar_def decodeString_chars)

lemma reads_back_nonneg:
  assumes "ds \<noteq> []" "list_all digit_byte ds" "dval ds < 4294967290"
  shows "reads_back f ds (if int (dval ds) \<le> maxInt then intValue (int (dval ds)) else uintValue (dval ds))"
proof -
  obtain c s where cs: "ds = c # s" using assms(1) by (cases ds) auto
  then show ?thesis using assms digits_number [of s] decodeNumber_nonneg [OF _ assms] by (intro reads_back_number [OF cs]) auto
qed

lemma reads_back_negative: "\<lbrakk>list_all digit_byte ds; dval ds < 2147483640\<rbrakk> \<Longrightarrow> reads_back f (0x2D # ds) (intValue (- int (dval ds)))"
  using decodeNumber_negative digits_number by (intro reads_back_number [OF refl]) auto

lemma reads_back_real: "json_real f s r \<Longrightarrow> reads_back f s (realValue r)"
proof -
  assume a: "json_real f s r"
  then obtain c s' where cs: "s = c # s'" "digit_byte c \<or> c = 0x2D" "list_all number_char s'"
    by (auto simp: json_real_def split: list.splits)
  then show ?thesis using a by (intro reads_back_number [OF cs]) (auto simp: json_real_def decodeNumber_def decodeDouble_def Let_def)
qed

text \<open>A text that starts a value: no white space, and not the end of an array.\<close>

definition starts :: "byte list \<Rightarrow> bool" where
  "starts s \<longleftrightarrow> s \<noteq> [] \<and> \<not> json_space (hd s) \<and> hd s \<noteq> 0x5D"

lemma starts_skip: "\<lbrakk>ws a; starts s\<rbrakk> \<Longrightarrow> skipSpaces (a @ s @ r) = s @ r"
  by (cases s) (auto simp: starts_def skip_ws skip_here)

lemma at_text_starts: "\<lbrakk>rd_rest rd = a @ s @ r; ws a; starts s\<rbrakk> \<Longrightarrow> at_text rd (s @ r)"
  by (simp add: at_text_def starts_skip)

lemma number_starts: "digit_byte c \<or> c = 0x2D \<Longrightarrow> starts (c # s)"
  by (auto simp: starts_def json_space_def)

lemma word_starts: "starts (bytes_of ''null'')" "starts (bytes_of ''true'')" "starts (bytes_of ''false'')"
  by (simp_all add: starts_def json_space_def bytes_of_def char_byte_def)

lemma bracket_starts: "starts (0x22 # s)" "starts (0x5B # s)" "starts (0x7B # s)"
  by (simp_all add: starts_def json_space_def)

section \<open>Arrays\<close>

lemma readArray_element:
  assumes "reads_back f s v" "at_text rd (s @ b @ d # r)" "ws b" "d = 0x2C \<or> d = 0x5D" "\<forall>e\<in>set m. fst e < i"
  shows "\<exists>N. \<forall>n \<ge> N. readArray (Suc n) f i m rd
    = (if d = 0x5D then Some (True, arrayValue (m @ [(i, v)]), rd\<lparr>rd_rest := r\<rparr>) else readArray n f (i + 1) (m @ [(i, v)]) (rd\<lparr>rd_rest := r\<rparr>))"
proof -
  have "stops (b @ d # r)" using space_stops [OF assms(3)] assms(4) delim_stops by auto
  then obtain N where N: "\<And>n cv. N \<le> n \<Longrightarrow> readValue n f cv rd = Some (True, v, rd\<lparr>rd_rest := b @ d # r\<rparr>)"
    using reads_backD [OF assms(1,2)] by blast
  obtain t where "(case readToken (rd\<lparr>rd_rest := b @ d # r\<rparr>) of (t, rd) \<Rightarrow> skip_comments t rd) = (t, rd\<lparr>rd_rest := r\<rparr>)"
      "type_of t = (if d = 0x2C then tokenArraySeparator else tokenArrayEnd)"
    using token_delim [of "rd\<lparr>rd_rest := b @ d # r\<rparr>" b d r] assms(3,4) by auto
  then have "readArray (Suc n) f i m rd
      = (if d = 0x5D then Some (True, arrayValue (m @ [(i, v)]), rd\<lparr>rd_rest := r\<rparr>) else readArray n f (i + 1) (m @ [(i, v)]) (rd\<lparr>rd_rest := r\<rparr>))"
    if "N \<le> n" for n
    using N [OF that] map_put_last [of m i v] assms(4,5) by (auto simp: reader_simps)
  then show ?thesis by blast
qed

definition reads_elements :: "fp \<Rightarrow> byte list \<Rightarrow> Value list \<Rightarrow> bool" where
  "reads_elements f s vs \<longleftrightarrow>
     (\<forall>rd r i m. at_text rd (skipSpaces (s @ 0x5D # r)) \<longrightarrow> (\<forall>e\<in>set m. fst e < i)
        \<longrightarrow> (\<exists>N. \<forall>n \<ge> N. readArray n f i m rd = Some (True, arrayValue (m @ zip [i..<i + length vs] vs), rd\<lparr>rd_rest := r\<rparr>)))
     \<and> (\<forall>r. \<exists>c u. skipSpaces (s @ r) = c # u \<and> c \<noteq> 0x5D)"

lemma reads_elementsD:
  assumes "reads_elements f s vs" "at_text rd (skipSpaces (s @ 0x5D # r))" "\<forall>e\<in>set m. fst e < i"
  obtains N where "\<And>n. N \<le> n \<Longrightarrow> readArray n f i m rd = Some (True, arrayValue (m @ zip [i..<i + length vs] vs), rd\<lparr>rd_rest := r\<rparr>)"
  using assms unfolding reads_elements_def by blast

lemma starts_first: "\<lbrakk>ws a; starts s\<rbrakk> \<Longrightarrow> \<exists>c u. skipSpaces (a @ s @ r) = c # u \<and> c \<noteq> 0x5D"
  unfolding starts_skip by (cases s) (auto simp: starts_def)

lemma at_text_skip: "rd_rest rd = s \<Longrightarrow> at_text rd (skipSpaces s)"
  by (simp add: at_text_def)

lemma reads_last_element:
  assumes "ws a" "reads_back f s v" "starts s" "ws b"
  shows "reads_elements f (a @ s @ b) [v]"
  unfolding reads_elements_def
proof (intro conjI allI impI)
  fix rd r and i :: nat and m :: "(nat \<times> Value) list" assume "at_text rd (skipSpaces ((a @ s @ b) @ 0x5D # r))" and m: "\<forall>e\<in>set m. fst e < i"
  then have "at_text rd (s @ b @ 0x5D # r)" using starts_skip [OF assms(1,3)] by simp
  from readArray_element [OF assms(2) this assms(4) _ m]
  show "\<exists>N. \<forall>n \<ge> N. readArray n f i m rd = Some (True, arrayValue (m @ zip [i..<i + length [v]] [v]), rd\<lparr>rd_rest := r\<rparr>)"
    by (auto intro: enough_fuel)
qed (use starts_first [OF assms(1,3)] in simp)

lemma reads_more_elements:
  assumes "ws a" "reads_back f s v" "starts s" "ws b" "reads_elements f r vs"
  shows "reads_elements f (a @ s @ b @ 0x2C # r) (v # vs)"
  unfolding reads_elements_def
proof (intro conjI allI impI)
  fix rd r' and i :: nat and m :: "(nat \<times> Value) list" assume "at_text rd (skipSpaces ((a @ s @ b @ 0x2C # r) @ 0x5D # r'))" and m: "\<forall>e\<in>set m. fst e < i"
  then have tx: "at_text rd (s @ b @ 0x2C # r @ 0x5D # r')" using starts_skip [OF assms(1,3)] by simp
  let ?rd = "rd\<lparr>rd_rest := r @ 0x5D # r'\<rparr>" and ?m = "m @ [(i, v)]"
  obtain N where N: "\<And>n. N \<le> n \<Longrightarrow> readArray (Suc n) f i m rd = readArray n f (i + 1) ?m ?rd"
    using readArray_element [OF assms(2) tx assms(4) _ m] by auto
  have m': "\<forall>e\<in>set ?m. fst e < i + 1" using m by auto
  have "at_text ?rd (skipSpaces (r @ 0x5D # r'))" by (simp add: at_text_skip)
  then obtain M where M: "\<And>n. M \<le> n \<Longrightarrow> readArray n f (i + 1) ?m ?rd
      = Some (True, arrayValue (?m @ zip [i + 1..<i + 1 + length vs] vs), ?rd\<lparr>rd_rest := r'\<rparr>)"
    using reads_elementsD [OF assms(5) _ m'] by blast
  have z: "?m @ zip [i + 1..<i + 1 + length vs] vs = m @ zip [i..<i + length (v # vs)] (v # vs)"
    using upt_conv_Cons [of i "i + length (v # vs)"] by (simp del: upt_Suc)
  have "readArray (Suc n) f i m rd = Some (True, arrayValue (m @ zip [i..<i + length (v # vs)] (v # vs)), rd\<lparr>rd_rest := r'\<rparr>)"
    if "max N M \<le> n" for n
    using N [of n] M [of n] that unfolding z by simp
  then show "\<exists>N. \<forall>n \<ge> N. readArray n f i m rd = Some (True, arrayValue (m @ zip [i..<i + length (v # vs)] (v # vs)), rd\<lparr>rd_rest := r'\<rparr>)"
    by (rule enough_fuel)
qed (use starts_first [OF assms(1,3)] in simp)

lemma ahead_bracket:
  assumes "skipSpaces (rd_rest rd) = c # u"
  shows "empty_array_ahead rd = (if c = 0x5D then (True, rd\<lparr>rd_rest := u\<rparr>) else (False, rd\<lparr>rd_rest := c # u\<rparr>))"
proof -
  have c: "skipSpaces (c # u) = c # u"
    using assms by (metis skipSpaces_def hd_dropWhile list.discI list.sel(1) skip_here)
  then have "c = 0x5D \<Longrightarrow> snd (readToken (rd\<lparr>rd_rest := c # u\<rparr>)) = rd\<lparr>rd_rest := u\<rparr>"
    using token_delim [of "rd\<lparr>rd_rest := c # u\<rparr>" "[]" c u] by (auto simp: ws_def)
  then show ?thesis using assms by (simp add: empty_array_ahead_def Let_def peek_def)
qed

lemma reads_array:
  assumes "reads_elements f s vs"
  shows "reads_back f (0x5B # s @ [0x5D]) (arrayValue (zip [0..<length vs] vs))"
  unfolding reads_back_def
proof (intro allI impI)
  fix rd r assume a: "at_text rd ((0x5B # s @ [0x5D]) @ r)" "stops r"
  let ?j = "s @ 0x5D # r"
  obtain t where t: "skipCommentTokens rd = (t, rd\<lparr>rd_rest := ?j\<rparr>)" "type_of t = tokenArrayBegin"
    using next_token_at [of rd "[0x5B]" ?j tokenArrayBegin] a(1) by (auto simp: lex_single)
  obtain c u where c: "skipSpaces ?j = c # u" "c \<noteq> 0x5D" using assms unfolding reads_elements_def by metis
  then have ahead: "empty_array_ahead (rd\<lparr>rd_rest := ?j\<rparr>) = (False, rd\<lparr>rd_rest := skipSpaces ?j\<rparr>)"
    using ahead_bracket [of "rd\<lparr>rd_rest := ?j\<rparr>" c u] by simp
  have "skipSpaces (skipSpaces ?j) = skipSpaces ?j" by (simp add: skipSpaces_def)
  then have tx: "at_text (rd\<lparr>rd_rest := skipSpaces ?j\<rparr>) (skipSpaces ?j)" by (simp add: at_text_def)
  obtain N where N: "\<And>n. N \<le> n \<Longrightarrow> readArray n f 0 [] (rd\<lparr>rd_rest := skipSpaces ?j\<rparr>)
      = Some (True, arrayValue (zip [0..<length vs] vs), rd\<lparr>rd_rest := r\<rparr>)"
    using reads_elementsD [OF assms tx, of "[]" 0] by auto
  have "\<forall>cv. readValue (Suc n) f cv rd = Some (True, arrayValue (zip [0..<length vs] vs), rd\<lparr>rd_rest := r\<rparr>)" if "N \<le> n" for n
    using t ahead N [OF that] by (simp add: reader_simps)
  then show "\<exists>N. \<forall>n \<ge> N. \<forall>cv. readValue n f cv rd = Some (True, arrayValue (zip [0..<length vs] vs), rd\<lparr>rd_rest := r\<rparr>)" by (rule enough_fuel)
qed

lemma reads_no_element: "ws a \<Longrightarrow> reads_back f (0x5B # a @ [0x5D]) (arrayValue [])"
  unfolding reads_back_def
proof (intro allI impI)
  fix rd r assume a: "ws a" "at_text rd ((0x5B # a @ [0x5D]) @ r)" "stops r"
  let ?j = "a @ 0x5D # r"
  obtain t where t: "skipCommentTokens rd = (t, rd\<lparr>rd_rest := ?j\<rparr>)" "type_of t = tokenArrayBegin"
    using next_token_at [of rd "[0x5B]" ?j tokenArrayBegin] a(2) by (auto simp: lex_single)
  have "empty_array_ahead (rd\<lparr>rd_rest := ?j\<rparr>) = (True, rd\<lparr>rd_rest := r\<rparr>)"
    using ahead_bracket [of "rd\<lparr>rd_rest := ?j\<rparr>" "0x5D" r] a(1) by (simp add: skip_ws skip_here delim_not_space)
  then have "\<forall>cv. readValue (Suc n) f cv rd = Some (True, arrayValue [], rd\<lparr>rd_rest := r\<rparr>)" for n
    using t by (simp add: reader_simps)
  then show "\<exists>N. \<forall>n \<ge> N. \<forall>cv. readValue n f cv rd = Some (True, arrayValue [], rd\<lparr>rd_rest := r\<rparr>)" by (rule enough_fuel)
qed

section \<open>Objects\<close>

lemma readMemberName_back:
  assumes "at_text rd (0x22 # k @ 0x22 # b @ 0x3A # r)" "json_chars k nm" "ws b"
  shows "readMemberName name rd = Inr (nm, rd\<lparr>rd_rest := r\<rparr>)"
proof -
  let ?r = "b @ 0x3A # r"
  have tx: "at_text rd ((0x22 # k @ [0x22]) @ ?r)" using assms(1) by simp
  obtain t where t: "(case readToken rd of (t, rd) \<Rightarrow> skip_comments t rd) = (t, rd\<lparr>rd_rest := ?r\<rparr>)" "type_of t = tokenString"
      "text_of t = 0x22 # k @ [0x22]"
    using next_token_at [OF tx] lex_chars [OF assms(2)] by auto
  obtain c where c: "readToken (rd\<lparr>rd_rest := ?r\<rparr>) = (c, rd\<lparr>rd_rest := r\<rparr>)" "type_of c = tokenMemberSeparator"
    using token_delim [of "rd\<lparr>rd_rest := ?r\<rparr>" b "0x3A" r] assms(3) by auto
  show ?thesis using t c decodeString_chars [OF assms(2) t(3)] by (simp add: readMemberName_def)
qed

lemma readMemberEnd_back:
  assumes "rd_rest rd = d @ e # r" "ws d" "e = 0x2C \<or> e = 0x7D"
  shows "readMemberEnd rd = (if e = 0x7D then Some True else None, rd\<lparr>rd_rest := r\<rparr>)"
proof -
  obtain t where t: "readToken rd = (t, rd\<lparr>rd_rest := r\<rparr>)" "type_of t = (if e = 0x2C then tokenArraySeparator else tokenObjectEnd)"
    using token_delim [of rd d e r] assms by auto
  then have "skip_comments t (rd\<lparr>rd_rest := r\<rparr>) = (t, rd\<lparr>rd_rest := r\<rparr>)" by (auto simp: skip_comments_other)
  then show ?thesis using t assms(3) by (auto simp: readMemberEnd_def)
qed

lemma readObject_member:
  assumes "json_chars k nm" "ws b" "ws c" "reads_back f s v" "starts s" "ws d" "e = 0x2C \<or> e = 0x7D"
    "at_text rd (0x22 # k @ 0x22 # b @ 0x3A # c @ s @ d @ e # r)"
  shows "\<exists>N. \<forall>n \<ge> N. \<forall>m name. readObject (Suc n) f name m rd
    = (if e = 0x7D then Some (True, objectValue (map_put (buf_str nm) v m), rd\<lparr>rd_rest := r\<rparr>)
       else readObject n f nm (map_put (buf_str nm) v m) (rd\<lparr>rd_rest := r\<rparr>))"
proof -
  let ?u = "c @ s @ d @ e # r"
  have u: "readMemberName name rd = Inr (nm, rd\<lparr>rd_rest := ?u\<rparr>)" for name using readMemberName_back [OF assms(8,1,2)] .
  have tx: "at_text (rd\<lparr>rd_rest := ?u\<rparr>) (s @ d @ e # r)" using assms(3,5) by (intro at_text_starts [of _ c]) simp_all
  have st: "stops (d @ e # r)" using space_stops [OF assms(6)] assms(7) delim_stops by auto
  obtain N where N: "\<And>n cv. N \<le> n \<Longrightarrow> readValue n f cv (rd\<lparr>rd_rest := ?u\<rparr>) = Some (True, v, rd\<lparr>rd_rest := d @ e # r\<rparr>)"
    using reads_backD [OF assms(4) tx st] by auto
  have "readMemberEnd (rd\<lparr>rd_rest := d @ e # r\<rparr>) = (if e = 0x7D then Some True else None, rd\<lparr>rd_rest := r\<rparr>)"
    using readMemberEnd_back [of "rd\<lparr>rd_rest := d @ e # r\<rparr>" d e r] assms(6,7) by simp
  then have "readObject (Suc n) f name m rd = (if e = 0x7D then Some (True, objectValue (map_put (buf_str nm) v m), rd\<lparr>rd_rest := r\<rparr>)
      else readObject n f nm (map_put (buf_str nm) v m) (rd\<lparr>rd_rest := r\<rparr>))" if "N \<le> n" for n m name
    using N [OF that] u [of name] by (simp add: reader_simps)
  then show ?thesis by blast
qed

definition reads_members :: "fp \<Rightarrow> byte list \<Rightarrow> (byte list \<times> Value) list \<Rightarrow> bool" where
  "reads_members f s kvs \<longleftrightarrow>
     (\<forall>rd r. at_text rd (skipSpaces (s @ 0x7D # r))
        \<longrightarrow> (\<exists>N. \<forall>n \<ge> N. \<forall>m name. readObject n f name m rd = Some (True, objectValue (put_all kvs m), rd\<lparr>rd_rest := r\<rparr>)))"

lemma reads_membersD:
  assumes "reads_members f s kvs" "at_text rd (skipSpaces (s @ 0x7D # r))"
  obtains N where "\<And>n m name. N \<le> n \<Longrightarrow> readObject n f name m rd = Some (True, objectValue (put_all kvs m), rd\<lparr>rd_rest := r\<rparr>)"
  using assms unfolding reads_members_def by blast

lemma put_all_Cons: "put_all ((k, v) # kvs) m = put_all kvs (map_put (buf_str k) v m)" "put_all [] m = m"
  by (simp_all add: put_all_def)

lemma reads_last_member:
  assumes "ws a" "json_chars k nm" "ws b" "ws c" "reads_back f s v" "starts s" "ws d"
  shows "reads_members f (a @ 0x22 # k @ 0x22 # b @ 0x3A # c @ s @ d) [(nm, v)]"
  unfolding reads_members_def
proof (intro allI impI)
  fix rd r assume "at_text rd (skipSpaces ((a @ 0x22 # k @ 0x22 # b @ 0x3A # c @ s @ d) @ 0x7D # r))"
  then have "at_text rd (0x22 # k @ 0x22 # b @ 0x3A # c @ s @ d @ 0x7D # r)"
    using assms(1) by (simp add: skip_ws skip_here delim_not_space)
  from readObject_member [OF assms(2-7) _ this]
  obtain N where "\<forall>n \<ge> N. \<forall>m name. readObject (Suc n) f name m rd = Some (True, objectValue (map_put (buf_str nm) v m), rd\<lparr>rd_rest := r\<rparr>)"
    by auto
  then show "\<exists>N. \<forall>n \<ge> N. \<forall>m name. readObject n f name m rd = Some (True, objectValue (put_all [(nm, v)] m), rd\<lparr>rd_rest := r\<rparr>)"
    unfolding put_all_Cons by (intro enough_fuel) blast
qed

lemma reads_more_members:
  assumes "ws a" "json_chars k nm" "ws b" "ws c" "reads_back f s v" "starts s" "ws d" "reads_members f r kvs"
  shows "reads_members f (a @ 0x22 # k @ 0x22 # b @ 0x3A # c @ s @ d @ 0x2C # r) ((nm, v) # kvs)"
  unfolding reads_members_def
proof (intro allI impI)
  fix rd r' assume "at_text rd (skipSpaces ((a @ 0x22 # k @ 0x22 # b @ 0x3A # c @ s @ d @ 0x2C # r) @ 0x7D # r'))"
  then have tx: "at_text rd (0x22 # k @ 0x22 # b @ 0x3A # c @ s @ d @ 0x2C # r @ 0x7D # r')"
    using assms(1) by (simp add: skip_ws skip_here delim_not_space)
  let ?rd = "rd\<lparr>rd_rest := r @ 0x7D # r'\<rparr>"
  obtain N where N: "\<forall>n \<ge> N. \<forall>m name. readObject (Suc n) f name m rd = readObject n f nm (map_put (buf_str nm) v m) ?rd"
    using readObject_member [OF assms(2-7) _ tx] by auto
  have "at_text ?rd (skipSpaces (r @ 0x7D # r'))" by (simp add: at_text_skip)
  then obtain M where M: "\<And>n m name. M \<le> n \<Longrightarrow> readObject n f name m ?rd = Some (True, objectValue (put_all kvs m), ?rd\<lparr>rd_rest := r'\<rparr>)"
    using reads_membersD [OF assms(8)] by blast
  have "\<forall>m name. readObject (Suc n) f name m rd = Some (True, objectValue (put_all ((nm, v) # kvs) m), rd\<lparr>rd_rest := r'\<rparr>)" if "max N M \<le> n" for n
    using N M [of n] that by (simp add: put_all_Cons)
  then show "\<exists>N. \<forall>n \<ge> N. \<forall>m name. readObject n f name m rd = Some (True, objectValue (put_all ((nm, v) # kvs) m), rd\<lparr>rd_rest := r'\<rparr>)"
    by (rule enough_fuel)
qed

lemma object_begin:
  assumes "at_text rd ((0x7B # s @ [0x7D]) @ r)" "\<And>n. N \<le> n \<Longrightarrow> readObject n f [] [] (rd\<lparr>rd_rest := s @ 0x7D # r\<rparr>) = Some (True, v, rd\<lparr>rd_rest := r\<rparr>)"
  shows "\<exists>N. \<forall>n \<ge> N. \<forall>cv. readValue n f cv rd = Some (True, v, rd\<lparr>rd_rest := r\<rparr>)"
proof -
  obtain t where t: "skipCommentTokens rd = (t, rd\<lparr>rd_rest := s @ 0x7D # r\<rparr>)" "type_of t = tokenObjectBegin"
    using next_token_at [of rd "[0x7B]" "s @ 0x7D # r" tokenObjectBegin] assms(1) by (auto simp: lex_single)
  have "\<forall>cv. readValue (Suc n) f cv rd = Some (True, v, rd\<lparr>rd_rest := r\<rparr>)" if "N \<le> n" for n
    using t assms(2) [OF that] by (simp add: reader_simps)
  then show ?thesis by (rule enough_fuel)
qed

lemma reads_object:
  assumes "reads_members f s kvs"
  shows "reads_back f (0x7B # s @ [0x7D]) (objectValue (put_all kvs []))"
  unfolding reads_back_def
proof (intro allI impI)
  fix rd r assume a: "at_text rd ((0x7B # s @ [0x7D]) @ r)"
  let ?rd = "rd\<lparr>rd_rest := s @ 0x7D # r\<rparr>"
  have "at_text ?rd (skipSpaces (s @ 0x7D # r))" by (simp add: at_text_skip)
  then obtain N where N: "\<And>n m name. N \<le> n \<Longrightarrow> readObject n f name m ?rd = Some (True, objectValue (put_all kvs m), ?rd\<lparr>rd_rest := r\<rparr>)"
    using reads_membersD [OF assms] by blast
  show "\<exists>N. \<forall>n \<ge> N. \<forall>cv. readValue n f cv rd = Some (True, objectValue (put_all kvs []), rd\<lparr>rd_rest := r\<rparr>)"
    using N by (intro object_begin [OF a]) simp
qed

lemma reads_no_member: "ws a \<Longrightarrow> reads_back f (0x7B # a @ [0x7D]) (objectValue [])"
  unfolding reads_back_def
proof (intro allI impI)
  fix rd r assume a: "ws a" "at_text rd ((0x7B # a @ [0x7D]) @ r)"
  let ?rd = "rd\<lparr>rd_rest := a @ 0x7D # r\<rparr>"
  obtain t where "(case readToken ?rd of (t, rd) \<Rightarrow> skip_comments t rd) = (t, rd\<lparr>rd_rest := r\<rparr>)" "type_of t = tokenObjectEnd"
    using token_delim [of ?rd a "0x7D" r] a(1) by auto
  then have "readObject (Suc n) f [] [] ?rd = Some (True, objectValue [], rd\<lparr>rd_rest := r\<rparr>)" for n
    by (simp add: reader_simps readMemberName_def)
  then have "readObject n f [] [] ?rd = Some (True, objectValue [], rd\<lparr>rd_rest := r\<rparr>)" if "1 \<le> n" for n
    using that by (cases n) simp_all
  then show "\<exists>N. \<forall>n \<ge> N. \<forall>cv. readValue n f cv rd = Some (True, objectValue [], rd\<lparr>rd_rest := r\<rparr>)" by (rule object_begin [OF a(2)])
qed

section \<open>The reader and the grammar\<close>

lemma grammar_read:
  "(json_text f s v \<longrightarrow> reads_back f s v \<and> starts s) \<and> (json_elements f s vs \<longrightarrow> reads_elements f s vs) \<and> (json_members f s kvs \<longrightarrow> reads_members f s kvs)"
proof (induction rule: json_text_json_elements_json_members.induct)
  case (text_nonneg ds)
  then have "starts ds" using number_starts by (cases ds) auto
  then show ?case using reads_back_nonneg [OF text_nonneg] by blast
next
  case (text_real s r)
  then show ?case using reads_back_real number_starts by (auto simp: json_real_def split: list.splits)
qed (auto simp: reads_back_words word_starts bracket_starts number_starts
    intro: reads_back_negative reads_back_string reads_no_element reads_array reads_no_member reads_object
      reads_last_element reads_more_elements reads_last_member reads_more_members)

lemma end_of_document: "\<lbrakk>rd_rest rd = a; ws a\<rbrakk> \<Longrightarrow> \<exists>t. skipCommentTokens rd = (t, rd\<lparr>rd_rest := []\<rparr>)"
  using skip_ws [of a "[]"]
  by (simp add: skipCommentTokens_def readToken_def lex_def getNextChar_def Let_def) (simp add: skipSpaces_def)

lemma parse_document:
  assumes "json_document f doc v" "strictRoot features \<longrightarrow> isArray v \<or> isObject v"
  shows "parse f features behind doc root = Some (True, v, (Reader_start features behind doc)\<lparr>rd_rest := []\<rparr>)"
proof -
  obtain a s b where doc: "doc = a @ s @ b" "ws a" "ws b" "json_text f s v" using assms(1) by (auto simp: json_document_def)
  then have s: "reads_back f s v" "starts s" using grammar_read by blast+
  let ?rd = "Reader_start features behind doc"
  have "at_text ?rd (s @ b)" using doc s(2) by (intro at_text_starts [of _ a]) (simp_all add: Reader_start_def)
  then obtain N where N: "\<And>n cv. N \<le> n \<Longrightarrow> readValue n f cv ?rd = Some (True, v, ?rd\<lparr>rd_rest := b\<rparr>)"
    using reads_backD [OF s(1)] ws_stops [OF doc(3)] by blast
  obtain t where t: "skipCommentTokens (?rd\<lparr>rd_rest := b\<rparr>) = (t, ?rd\<lparr>rd_rest := []\<rparr>)"
    using end_of_document [of "?rd\<lparr>rd_rest := b\<rparr>" b] doc(3) by auto
  let ?n = "max N (2 * length doc + 2)"
  have "parse_fuel ?n f features behind doc root = Some (True, v, ?rd\<lparr>rd_rest := []\<rparr>)"
    using N [of ?n root] t assms(2) by (auto simp: parse_fuel_def)
  then show ?thesis using parse_enough [of doc ?n f features behind root] by simp
qed

lemma fresh_reader: "rd_errors ((Reader_start features behind doc)\<lparr>rd_rest := r\<rparr>) = []" "\<not> rd_overrun ((Reader_start features behind doc)\<lparr>rd_rest := r\<rparr>)"
  by (simp_all add: Reader_start_def)

section \<open>Properties\<close>


text \<open>The document \<open>[ "\u0041" ,0]\<close>.\<close>

definition sample_document :: "byte list" where
  "sample_document = [0x5B, 0x20, 0x22, 0x5C, 0x75, 0x30, 0x30, 0x34, 0x31, 0x22, 0x20, 0x2C, 0x30, 0x5D]"

lemma sample_document_value: "json_document f sample_document (arrayValue [(0, stringValue (Some [0x41])), (1, intValue 0)])"
proof -
  have "hex4 0x30 0x30 0x34 0x31 = Some 65" by (simp add: hex4_def hex_value_def)
  from chars_unicode [OF this _ chars_end] have "json_chars [0x5C, 0x75, 0x30, 0x30, 0x34, 0x31] [0x41]"
    by (simp add: high_surrogate_def utf8_def)
  from text_string [OF this] have a: "json_text f [0x22, 0x5C, 0x75, 0x30, 0x30, 0x34, 0x31, 0x22] (stringValue (Some [0x41]))"
    by (simp add: Value_text_def buf_str_def)
  have z: "json_text f [0x30] (intValue 0)" using text_nonneg [of "[0x30]" f] by (simp add: dval_def maxInt_def)
  have sp: "ws [0x20]" "ws []" by (simp_all add: ws_def json_space_def)
  have "json_text f sample_document (arrayValue (zip [0..<length [stringValue (Some [0x41]), intValue 0]] [stringValue (Some [0x41]), intValue 0]))"
    using text_array [OF more_elements [OF sp(1) a sp(1) last_element [OF sp(2) z sp(2)]]] by (simp add: sample_document_def)
  then have "json_text f sample_document (arrayValue [(0, stringValue (Some [0x41])), (1, intValue 0)])" by simp
  then show ?thesis using sp(2) unfolding json_document_def by (intro exI [of _ "[]"] exI [of _ sample_document]) simp
qed


end
