(* ===== verification/JsonWriter.thy ===== *)
theory JsonWriter
  imports JsonValue
begin

text \<open>
  The writer of the JSON library the program uses, \<open>FastWriter\<close> of \<open>src/public/json/json_writer.cpp\<close>.  The text of a
  \<open>double\<close> by \<open>%#.16g\<close> is an argument.  \<^term>\<open>None\<close> is the use of a null pointer, and the negation of the smallest
  \<open>int\<close>.
\<close>

section \<open>Numbers and texts\<close>

text \<open>\<open>uintToString\<close> writes the digits from the last to the first in front of what is there.\<close>

fun uintToString :: "nat \<Rightarrow> byte list \<Rightarrow> byte list" where
  "uintToString value current =
     (let current = of_nat (value mod 10 + 48) # current
      in if value div 10 \<noteq> 0 then uintToString (value div 10) current else current)"

declare uintToString.simps [simp del]

definition valueToString_int :: "int \<Rightarrow> byte list option" where
  "valueToString_int value =
     (if value = minInt then None
      else let isNegative = value < 0;
               current = uintToString (nat (if isNegative then - value else value)) []
           in Some (if isNegative then 0x2D # current else current))"

definition valueToString_uint :: "nat \<Rightarrow> byte list" where
  "valueToString_uint value = uintToString value []"

definition is_digit_byte :: "byte \<Rightarrow> bool" where
  "is_digit_byte c \<longleftrightarrow> 0x30 \<le> c \<and> c \<le> 0x39"

text \<open>The zeros behind the point are cut off, but for one.\<close>

definition valueToString_double :: "fp \<Rightarrow> 64 word \<Rightarrow> byte list" where
  "valueToString_double f value =
     (let buffer = fp_print f value
      in if buffer = [] \<or> last buffer \<noteq> 0x30 then buffer
         else let nz = length (dropWhile (\<lambda>c. c = 0x30) (rev buffer));
                  last_nonzero = (if nz = 0 then 0 else nz - 1)
              in case dropWhile is_digit_byte (rev (take (last_nonzero + 1) buffer)) of
                   c # _ \<Rightarrow> if c = 0x2E then take (last_nonzero + 2) buffer else buffer
                 | [] \<Rightarrow> buffer)"

definition valueToString_bool :: "bool \<Rightarrow> byte list" where
  "valueToString_bool value = bytes_of (if value then ''true'' else ''false'')"

text \<open>Bytes from 128 are negative characters.\<close>

definition isControlCharacter :: "byte \<Rightarrow> bool" where
  "isControlCharacter ch \<longleftrightarrow> 0 < ch \<and> ch \<le> 0x1F"

definition containsControlCharacter :: "byte list \<Rightarrow> bool" where
  "containsControlCharacter str \<longleftrightarrow> list_ex isControlCharacter str"

definition hex_upper :: "nat \<Rightarrow> byte" where
  "hex_upper d = of_nat (if d < 10 then 48 + d else 55 + d)"

definition escape_char :: "byte \<Rightarrow> byte list" where
  "escape_char c =
     (if c = 0x22 then [0x5C, 0x22]
      else if c = 0x5C then [0x5C, 0x5C]
      else if c = 0x08 then [0x5C, 0x62]
      else if c = 0x0C then [0x5C, 0x66]
      else if c = 0x0A then [0x5C, 0x6E]
      else if c = 0x0D then [0x5C, 0x72]
      else if c = 0x09 then [0x5C, 0x74]
      else if isControlCharacter c
      then [0x5C, 0x75, 0x30, 0x30, hex_upper (unat c div 16), hex_upper (unat c mod 16)]
      else [c])"

definition valueToQuotedString :: "byte list \<Rightarrow> byte list" where
  "valueToQuotedString value =
     (if list_all (\<lambda>c. c \<notin> {0x22, 0x5C, 0x08, 0x0C, 0x0A, 0x0D, 0x09}) value \<and> \<not> containsControlCharacter value
      then 0x22 # value @ [0x22]
      else 0x22 # concat (map escape_char value) @ [0x22])"

section \<open>The writer\<close>

fun join :: "byte list \<Rightarrow> byte list list \<Rightarrow> byte list" where
  "join sep [] = []"
| "join sep [x] = x"
| "join sep (x # y # xs) = x @ sep @ join sep (y # xs)"

text \<open>
  The elements of an array are read by their indices up to its size; a missing one is null.  The first argument tells
  whether the text is to be compatible with YAML.
\<close>

fun writeValue :: "fp \<Rightarrow> bool \<Rightarrow> Value \<Rightarrow> byte list option" where
  "writeValue f yaml nullValue = Some (bytes_of ''null'')"
| "writeValue f yaml (intValue i) = valueToString_int i"
| "writeValue f yaml (uintValue u) = Some (valueToString_uint u)"
| "writeValue f yaml (realValue r) = Some (valueToString_double f r)"
| "writeValue f yaml (stringValue s) = map_option valueToQuotedString s"
| "writeValue f yaml (booleanValue b) = Some (valueToString_bool b)"
| "writeValue f yaml (arrayValue m) =
     (let ws = map (\<lambda>e. (fst e, writeValue f yaml (snd e))) m;
          element = (\<lambda>index. case map_of ws index of Some w \<Rightarrow> w | None \<Rightarrow> Some (bytes_of ''null''))
      in map_option (\<lambda>ts. 0x5B # join [0x2C] ts @ [0x5D]) (those (map element [0..<Value_size (arrayValue m)])))"
| "writeValue f yaml (objectValue m) =
     map_option (\<lambda>ts. 0x7B # join [0x2C] ts @ [0x7D])
       (those (map (\<lambda>e. map_option (\<lambda>t. valueToQuotedString (fst e) @ (if yaml then [0x3A, 0x20] else [0x3A]) @ t)
                          (writeValue f yaml (snd e))) m))"

definition FastWriter_write :: "fp \<Rightarrow> bool \<Rightarrow> Value \<Rightarrow> byte list option" where
  "FastWriter_write f yaml root = map_option (\<lambda>document. document @ [0x0A]) (writeValue f yaml root)"

section \<open>Facts\<close>

lemma uintToString_digits: "uintToString n acc = bytes_of (digits_of n) @ acc"
proof (induction n arbitrary: acc rule: less_induct)
  case (less n)
  have d: "char_byte (digit_char k) = of_nat (k + 48)" if "k < 10" for k
    using that by (simp add: char_byte_def of_digit_char add.commute)
  show ?case
  proof (cases "n < 10")
    case True
    then show ?thesis using d [of n] by (simp add: uintToString.simps [of n] digits_of.simps [of n] bytes_of_def)
  next
    case False
    then have "digits_of n = digits_of (n div 10) @ [digit_char (n mod 10)]" "n div 10 \<noteq> 0" by (simp_all add: digits_of.simps [of n])
    then show ?thesis using less.IH [of "n div 10"] d [of "n mod 10"]
      by (simp add: uintToString.simps [of n] bytes_of_def Let_def)
  qed
qed

lemma escape_plain: "c \<notin> {0x22, 0x5C, 0x08, 0x0C, 0x0A, 0x0D, 0x09} \<Longrightarrow> \<not> isControlCharacter c \<Longrightarrow> escape_char c = [c]"
  by (simp add: escape_char_def)

text \<open>The shortcut for texts without special characters gives the same result.\<close>

lemma valueToQuotedString_eq: "valueToQuotedString s = 0x22 # concat (map escape_char s) @ [0x22]"
proof -
  have "concat (map escape_char s) = s"
    if "list_all (\<lambda>c. c \<notin> {0x22, 0x5C, 0x08, 0x0C, 0x0A, 0x0D, 0x09}) s" "\<not> containsControlCharacter s"
    using that by (induction s) (auto simp: containsControlCharacter_def escape_plain simp del: insert_iff)
  then show ?thesis by (auto simp: valueToQuotedString_def)
qed

end
