(* ===== verification/JsonRound.thy ===== *)
theory JsonRound
  imports JsonGrammar JsonWriter
begin

text \<open>
  What \<open>FastWriter\<close> writes is a text of the grammar with the value that was written, so that the reader reads it back.
\<close>

section \<open>Texts and numbers\<close>

lemma hex_upper_value: "d < 16 \<Longrightarrow> hex_value (hex_upper d) = Some d"
proof -
  have "list_all (\<lambda>d. hex_value (hex_upper d) = Some d) [0..<16]" by code_simp
  then show "d < 16 \<Longrightarrow> ?thesis" by (auto simp: list_all_iff)
qed

lemma control_bound: "isControlCharacter c \<Longrightarrow> unat c < 32"
  by (auto simp: isControlCharacter_def word_le_nat_alt)

lemma escape_control:
  assumes "isControlCharacter c" "json_chars s t"
  shows "json_chars ([0x5C, 0x75, 0x30, 0x30, hex_upper (unat c div 16), hex_upper (unat c mod 16)] @ s) (c # t)"
proof -
  have "unat c < 32" using control_bound [OF assms(1)] .
  moreover have "hex_value 0x30 = Some 0" by (simp add: hex_value_def)
  ultimately have "hex4 0x30 0x30 (hex_upper (unat c div 16)) (hex_upper (unat c mod 16)) = Some (unat c)"
    by (simp add: hex4_def hex_upper_value)
  moreover have "\<not> high_surrogate (unat c)" "utf8 (unat c) = [c]"
    using \<open>unat c < 32\<close> by (simp_all add: high_surrogate_def utf8_def)
  ultimately show ?thesis using chars_unicode [of "0x30" "0x30" _ _ "unat c" s t] assms(2) by simp
qed

lemma escape_chars: "json_chars (concat (map escape_char s)) s"
proof (induction s)
  case (Cons c s)
  let ?r = "concat (map escape_char s)"
  have "(\<exists>e. (e, c) \<in> set json_escapes \<and> escape_char c = [0x5C, e])
      \<or> isControlCharacter c \<and> escape_char c = [0x5C, 0x75, 0x30, 0x30, hex_upper (unat c div 16), hex_upper (unat c mod 16)]
      \<or> c \<noteq> 0x22 \<and> c \<noteq> 0x5C \<and> escape_char c = [c]"
    by (simp add: escape_char_def json_escapes_def)
  then consider e where "(e, c) \<in> set json_escapes" "escape_char c = [0x5C, e]"
    | "isControlCharacter c" "escape_char c = [0x5C, 0x75, 0x30, 0x30, hex_upper (unat c div 16), hex_upper (unat c mod 16)]"
    | "c \<noteq> 0x22" "c \<noteq> 0x5C" "escape_char c = [c]"
    by blast
  then show ?case
  proof cases
    case (1 e)
    then show ?thesis using chars_escape [OF 1(1) Cons] by simp
  next
    case 2
    then show ?thesis using escape_control [OF 2(1) Cons] by simp
  next
    case 3
    then show ?thesis using chars_plain [OF 3(1,2) Cons] by simp
  qed
qed (simp add: chars_end)

lemma quoted_text: "no_nul s \<Longrightarrow> json_text f (valueToQuotedString s) (stringValue (Some s))"
  using text_string [OF escape_chars, of f s] by (simp add: valueToQuotedString_eq Value_text_def)

lemma dval_snoc: "dval (ds @ [c]) = dval ds * 10 + (unat c - 48)"
  by (simp add: dval_def)

lemma digit_byte_facts:
  assumes "d < 10"
  shows "digit_byte (char_byte (digit_char d))" "unat (char_byte (digit_char d)) - 48 = d"
proof -
  have "unat (of_nat (48 + d) :: byte) = 48 + d" using assms by (simp add: unsigned_of_nat take_bit_nat_eq_self del: of_nat_add)
  then have "unat (char_byte (digit_char d)) = 48 + d" using assms by (simp add: char_byte_def of_digit_char)
  then show "digit_byte (char_byte (digit_char d))" "unat (char_byte (digit_char d)) - 48 = d"
    using assms by (simp_all add: word_le_nat_alt)
qed

lemma digits_text: "list_all digit_byte (bytes_of (digits_of n)) \<and> dval (bytes_of (digits_of n)) = n"
proof (induction n rule: less_induct)
  case (less n)
  show ?case
  proof (cases "n < 10")
    case True
    then show ?thesis using digit_byte_facts [OF True] by (simp add: digits_of.simps [of n] bytes_of_def dval_def)
  next
    case False
    then have "bytes_of (digits_of n) = bytes_of (digits_of (n div 10)) @ [char_byte (digit_char (n mod 10))]"
      by (simp add: digits_of.simps [of n] bytes_of_def)
    then show ?thesis using less [of "n div 10"] False digit_byte_facts [of "n mod 10"] by (simp add: dval_snoc)
  qed
qed

lemma nonneg_text: "n < 4294967290 \<Longrightarrow> json_text f (bytes_of (digits_of n)) (if int n \<le> maxInt then intValue (int n) else uintValue n)"
proof -
  have d: "list_all digit_byte (bytes_of (digits_of n))" "dval (bytes_of (digits_of n)) = n" using digits_text by simp_all
  have "bytes_of (digits_of n) \<noteq> []" using digits_of_facts [of n] by simp
  then show "n < 4294967290 \<Longrightarrow> ?thesis" using text_nonneg [OF _ d(1), of f] unfolding d(2) by blast
qed

lemma negative_text: "n < 2147483640 \<Longrightarrow> json_text f (0x2D # bytes_of (digits_of n)) (intValue (- int n))"
  using text_negative [of "bytes_of (digits_of n)" f] digits_text [of n] by simp

section \<open>Values that can be read back\<close>

text \<open>
  A \<open>double\<close> takes part when its text, as printed and cut, is one of the grammar for it.  Integers must not be so large
  that the reader takes them for floating point numbers, and a value without sign must not fit into \<open>int\<close>; the indices of
  an array have no gaps.
\<close>

fun writable :: "fp \<Rightarrow> Value \<Rightarrow> bool" where
  "writable f nullValue = True"
| "writable f (intValue i) = (- 2147483640 < i \<and> i \<le> maxInt)"
| "writable f (uintValue u) = (maxInt < int u \<and> u < 4294967290)"
| "writable f (realValue r) = json_real f (valueToString_double f r) r"
| "writable f (stringValue s) = (case s of Some t \<Rightarrow> no_nul t | None \<Rightarrow> False)"
| "writable f (booleanValue b) = True"
| "writable f (arrayValue m) = (map fst m = [0..<length m] \<and> (\<forall>e\<in>set m. writable f (snd e)))"
| "writable f (objectValue m) = (keys_sorted m \<and> (\<forall>e\<in>set m. no_nul (fst e) \<and> writable f (snd e)))"

section \<open>Arrays and objects\<close>

lemma ws_Nil: "ws []" and ws_space: "ws [0x20]"
  by (simp_all add: ws_def json_space_def)

lemma joined_elements: "\<lbrakk>list_all2 (json_text f) ts vs; ts \<noteq> []\<rbrakk> \<Longrightarrow> json_elements f (join [0x2C] ts) vs"
proof (induction ts arbitrary: vs rule: induct_list012)
  case (2 t)
  then show ?case using last_element [OF ws_Nil _ ws_Nil, of f t] by (auto simp: list_all2_Cons1)
next
  case (3 t t' ts)
  then obtain v vs' where v: "vs = v # vs'" "json_text f t v" "list_all2 (json_text f) (t' # ts) vs'" by (auto simp: list_all2_Cons1)
  then show ?case using more_elements [OF ws_Nil v(2) ws_Nil "3.IH"(2) [OF v(3)]] by simp
qed simp

text \<open>One member: its name, a colon with or without a space, and its value.\<close>

definition member_text :: "bool \<Rightarrow> byte list \<Rightarrow> byte list \<Rightarrow> byte list" where
  "member_text yaml k s = valueToQuotedString k @ (if yaml then [0x3A, 0x20] else [0x3A]) @ s"

lemma member_spelled:
  "member_text yaml k s = [] @ 0x22 # concat (map escape_char k) @ 0x22 # [] @ 0x3A # (if yaml then [0x20] else []) @ s @ []"
  by (simp add: member_text_def valueToQuotedString_eq)

lemma joined_members:
  "\<lbrakk>list_all2 (\<lambda>t e. \<exists>s. t = member_text yaml (fst e) s \<and> json_text f s (snd e)) ts kvs; ts \<noteq> []\<rbrakk> \<Longrightarrow> json_members f (join [0x2C] ts) kvs"
proof (induction ts arbitrary: kvs rule: induct_list012)
  case (2 t)
  then obtain k v s where e: "kvs = [(k, v)]" "t = member_text yaml k s" "json_text f s v" by (auto simp: list_all2_Cons1)
  show ?case
    using last_member [OF ws_Nil escape_chars [of k] ws_Nil _ e(3) ws_Nil, of "if yaml then [0x20] else []"] ws_Nil ws_space e(1)
    by (simp add: e(2) member_spelled)
next
  case (3 t t' ts)
  obtain x kvs' where x: "kvs = x # kvs'" "\<exists>s. t = member_text yaml (fst x) s \<and> json_text f s (snd x)"
      "list_all2 (\<lambda>t e. \<exists>s. t = member_text yaml (fst e) s \<and> json_text f s (snd e)) (t' # ts) kvs'"
    using "3.prems"(1) by (subst (asm) list_all2_Cons1) blast
  then obtain k v s where e: "kvs = (k, v) # kvs'" "t = member_text yaml k s" "json_text f s v" by (metis surjective_pairing)
  show ?case
    using more_members [OF ws_Nil escape_chars [of k] ws_Nil _ e(3) ws_Nil "3.IH"(2) [OF x(3)], of "if yaml then [0x20] else []"]
      ws_Nil ws_space e(1)
    by (simp add: e(2) member_spelled)
qed simp

lemma put_all_sorted: "\<lbrakk>keys_sorted (m @ kvs); \<forall>e\<in>set kvs. no_nul (fst e)\<rbrakk> \<Longrightarrow> put_all kvs m = m @ kvs"
proof (induction kvs arbitrary: m)
  case (Cons e kvs)
  then have "map_put (fst e) (snd e) m = m @ [e]" using map_put_last [of m "fst e" "snd e"] by (simp add: sorted_wrt_append)
  then show ?case using Cons by (cases e) (simp add: put_all_Cons)
qed (simp add: put_all_Cons)

section \<open>Written values\<close>

text \<open>An array without gaps is the list of its elements.\<close>

lemma contiguous_size: "map fst m = [0..<length m] \<Longrightarrow> Value_size (arrayValue m) = length m"
proof (cases m rule: rev_cases)
  case (snoc xs x)
  assume "map fst m = [0..<length m]"
  then have "fst x = length xs" using snoc by simp
  then show ?thesis using snoc by simp
qed simp

lemma contiguous_map:
  assumes "map fst m = [0..<length m]"
  shows "map (\<lambda>i. case map_of (map (\<lambda>e. (fst e, g (snd e))) m) i of Some w \<Rightarrow> w | None \<Rightarrow> d) [0..<length m] = map (\<lambda>e. g (snd e)) m"
    (is "map ?f _ = _")
proof (rule nth_equalityI)
  let ?w = "map (\<lambda>e. g (snd e)) m"
  have z: "map (\<lambda>e. (fst e, g (snd e))) m = zip [0..<length m] ?w" unfolding assms [symmetric] by (induction m) auto
  fix i assume i: "i < length (map ?f [0..<length m])"
  then have "map_of (zip [0..<length m] ?w) i = Some (?w ! i)" using map_of_zip_nth [of "[0..<length m]" ?w i] by simp
  then show "map ?f [0..<length m] ! i = ?w ! i" using i by (simp add: z)
qed simp

lemma written_array:
  assumes "map fst m = [0..<length m]"
  shows "writeValue f yaml (arrayValue m) = map_option (\<lambda>ts. 0x5B # join [0x2C] ts @ [0x5D]) (those (map (\<lambda>e. writeValue f yaml (snd e)) m))"
  unfolding writeValue.simps Let_def contiguous_size [OF assms] contiguous_map [OF assms] ..

lemma those_texts:
  "(\<And>x. x \<in> set xs \<Longrightarrow> \<exists>y. g x = Some y \<and> P y x) \<Longrightarrow> \<exists>ys. those (map g xs) = Some ys \<and> list_all2 P ys xs"
  by (induction xs) fastforce+

lemma array_text:
  assumes "map fst m = [0..<length m]" "\<And>e. e \<in> set m \<Longrightarrow> \<exists>s. writeValue f yaml (snd e) = Some s \<and> json_text f s (snd e)"
  shows "\<exists>s. writeValue f yaml (arrayValue m) = Some s \<and> json_text f s (arrayValue m)"
proof -
  obtain ts where ts: "those (map (\<lambda>e. writeValue f yaml (snd e)) m) = Some ts" "list_all2 (\<lambda>s e. json_text f s (snd e)) ts m"
    using those_texts [of m "\<lambda>e. writeValue f yaml (snd e)" "\<lambda>s e. json_text f s (snd e)"] assms(2) by auto
  have vs: "list_all2 (json_text f) ts (map snd m)" using ts(2) by (simp add: list_all2_map2)
  have "zip [0..<length (map snd m)] (map snd m) = m" using assms(1) by (metis length_map zip_map_fst_snd)
  then have "json_text f (0x5B # join [0x2C] ts @ [0x5D]) (arrayValue m)"
    using text_array [OF joined_elements [OF vs]] text_no_element [OF ws_Nil, of f] vs by (cases "ts = []") auto
  then show ?thesis using written_array [OF assms(1)] ts(1) by simp
qed

lemma object_text:
  assumes "keys_sorted m" "\<And>e. e \<in> set m \<Longrightarrow> no_nul (fst e) \<and> (\<exists>s. writeValue f yaml (snd e) = Some s \<and> json_text f s (snd e))"
  shows "\<exists>s. writeValue f yaml (objectValue m) = Some s \<and> json_text f s (objectValue m)"
proof -
  let ?g = "\<lambda>e. map_option (\<lambda>t. valueToQuotedString (fst e) @ (if yaml then [0x3A, 0x20] else [0x3A]) @ t) (writeValue f yaml (snd e))"
  have "\<exists>t. ?g e = Some t \<and> (\<exists>s. t = member_text yaml (fst e) s \<and> json_text f s (snd e))" if "e \<in> set m" for e
    using assms(2) [OF that] by (auto simp: member_text_def)
  then obtain ts where ts: "those (map ?g m) = Some ts" "list_all2 (\<lambda>t e. \<exists>s. t = member_text yaml (fst e) s \<and> json_text f s (snd e)) ts m"
    using those_texts [of m ?g "\<lambda>t e. \<exists>s. t = member_text yaml (fst e) s \<and> json_text f s (snd e)"] by blast
  have "put_all m [] = m" using put_all_sorted [of "[]" m] assms by simp
  then have "json_text f (0x7B # join [0x2C] ts @ [0x7D]) (objectValue m)"
    using text_object [OF joined_members [OF ts(2)]] text_no_member [OF ws_Nil, of f] ts(2) by (cases "ts = []") auto
  then show ?thesis using ts(1) by simp
qed

lemma value_text: "writable f v \<Longrightarrow> \<exists>s. writeValue f yaml v = Some s \<and> json_text f s v"
proof (induction v)
  case (intValue i)
  then show ?case using nonneg_text [of "nat i" f] negative_text [of "nat (- i)" f]
    by (auto simp: valueToString_int_def uintToString_digits Let_def maxInt_def minInt_def)
next
  case (uintValue u)
  then show ?case using nonneg_text [of u f] by (simp add: valueToString_uint_def uintToString_digits)
next
  case (stringValue s)
  then show ?case using quoted_text by (auto split: option.splits)
next
  case (arrayValue m)
  then have "\<exists>s. writeValue f yaml (snd e) = Some s \<and> json_text f s (snd e)" if "e \<in> set m" for e
    using that by (metis snds.intros writable.simps(7))
  then show ?case using arrayValue.prems by (intro array_text) simp_all
next
  case (objectValue m)
  then have "no_nul (fst e) \<and> (\<exists>s. writeValue f yaml (snd e) = Some s \<and> json_text f s (snd e))" if "e \<in> set m" for e
    using that by (metis snds.intros writable.simps(8))
  then show ?case using objectValue.prems by (intro object_text) simp_all
qed (auto simp: valueToString_bool_def text_null text_true text_false intro: text_real)

lemma write_document: "writable f v \<Longrightarrow> \<exists>doc. FastWriter_write f yaml v = Some doc \<and> json_document f doc v"
proof -
  assume "writable f v"
  then obtain s where s: "writeValue f yaml v = Some s" "json_text f s v" using value_text by blast
  have "ws [0x0A]" by (simp add: ws_def json_space_def)
  then have "json_document f ([] @ s @ [0x0A]) v" using s(2) ws_Nil unfolding json_document_def by blast
  then show ?thesis using s(1) by (simp add: FastWriter_write_def)
qed

text \<open>The length of a written text.\<close>

lemma length_quoted: "length (valueToQuotedString s) \<le> 6 * length s + 2"
proof -
  have esc: "length (escape_char c) \<le> 6" for c by (simp add: escape_char_def)
  have "length (concat (map escape_char s)) \<le> 6 * length s"
  proof (induction s)
    case (Cons c s)
    then show ?case using esc [of c] by simp
  qed simp
  then show ?thesis by (simp add: valueToQuotedString_eq)
qed

section \<open>Properties\<close>

text \<open>
  \<^bold>\<open>C7\<close>  Round trip of documents.  For every value of nulls, numbers, texts of any bytes but zero, booleans,
  contiguous arrays and objects, nested to any depth, \<open>FastWriter\<close> writes a text, in both of its styles, from which
  \<open>Reader::parse\<close> in any configuration that allows its root succeeds with the same value, without errors and without
  leaving a buffer.  Floating point numbers take part when printing and scanning them are inverse; integers from
  2147483640 below zero and 4294967290 above it do not, as the reader takes them for floating point numbers.
\<close>

theorem write_parse_roundtrip:
  assumes "writable f v" "strictRoot features \<longrightarrow> isArray v \<or> isObject v"
  shows "\<exists>doc rd. FastWriter_write f yaml v = Some doc \<and> parse f features behind doc root = Some (True, v, rd)
    \<and> rd_errors rd = [] \<and> \<not> rd_overrun rd"
proof -
  obtain doc where "FastWriter_write f yaml v = Some doc" "json_document f doc v" using write_document [OF assms(1)] by blast
  then show ?thesis using parse_document [OF _ assms(2)] fresh_reader by fast
qed

theorem write_parse_roundtrip_witness:
  "\<exists>doc rd. FastWriter_write sample_fp False (objectValue [([0x61], arrayValue [(0, intValue (- 7)), (1, stringValue (Some [0x22, 0x01]))])]) = Some doc
     \<and> parse sample_fp Features_strictMode 0 doc nullValue
         = Some (True, objectValue [([0x61], arrayValue [(0, intValue (- 7)), (1, stringValue (Some [0x22, 0x01]))])], rd)
     \<and> rd_errors rd = [] \<and> \<not> rd_overrun rd"
  by (rule write_parse_roundtrip) (simp_all add: maxInt_def no_nul_def isObject_def)

end
