(* ===== verification/AstServer.thy ===== *)
theory AstServer
  imports AstClient AstConf JsonRound
begin

text \<open>
  The registration of an agent: \<open>astServerCtrl\<close> of \<open>src/public/astPackage/astserverctrl.cpp\<close> and
  \<open>astserverctrl.h\<close>, with the device records of \<open>src/public/define.h\<close>.  It composes the client
  (\<open>AstClient\<close>), the message layer (\<open>AstPackage\<close>) and the JSON library (\<open>JsonReader\<close>, \<open>JsonWriter\<close>).

  What the collectors of system information report is an argument (\<open>DEV_SOURCE\<close>), and so are the floating point
  arithmetic of the JSON library, the content of uninitialised arrays, and the value of \<open>RegAck\<close>, which has no
  return statement.
\<close>

section \<open>Device information\<close>

record ST_IP_MAC =
  cIp :: "byte list"
  cMac :: "byte list"
  cMask :: "byte list"

record ST_OS_INFO =
  strOsName :: string
  strOsVersion :: string
  strOsLanguage :: string
  strLastUpTime :: string
  strArchitecture :: string
  strInstallTime :: string

record ST_CPU_INFO =
  strProcessorId :: string
  strVendorId :: string
  strCpuFamily :: string
  strModel :: string
  strModelName :: string
  nCpuMHZ :: nat
  nCacheSize :: nat

record ST_MEM_INFO =
  nMemSize :: nat
  nUsedSize :: nat

record ST_DISK_INFO =
  strDiskId :: string
  strCaption :: string
  strType :: string
  strSerialNo :: string
  strManufauturer :: string
  disk_nSize :: nat
  strHotPlug :: string

record ST_LOGICAL_DISK =
  strDeviceId :: string
  strFileType :: string
  ld_nSize :: nat
  nFreeSize :: nat

record ST_DEV_INFO =
  ipmac :: ST_IP_MAC
  strUserName :: string
  strPcName :: string
  strDomainName :: string
  stSystemInfo :: ST_OS_INFO
  stCpuInfo :: ST_CPU_INFO
  stMemInfo :: ST_MEM_INFO
  vecDiskInfo :: "ST_DISK_INFO list"
  vecLogicalDisk :: "ST_LOGICAL_DISK list"

text \<open>The reports of \<open>NetworkInfo\<close>, \<open>SystemInfo\<close>, \<open>CpuInfo\<close>, \<open>MemoryInfo\<close> and \<open>DiskInfo\<close>.\<close>

record ST_NETIPINFO =
  qsNetName :: string
  qsIp :: string
  qsMac :: string
  qsMask :: string
  qsBroadCast :: string

record DEV_SOURCE =
  src_net :: "ST_NETIPINFO list"
  src_user :: string
  src_host :: string
  src_os :: ST_OS_INFO
  src_cpu :: ST_CPU_INFO
  src_mem :: ST_MEM_INFO
  src_disks :: "ST_DISK_INFO list"
  src_parts :: "ST_LOGICAL_DISK list"

record ST_SERVER_INFO =
  srv_cIp :: "byte list"
  srv_nPort :: int
  srv_nTimeout :: int

definition server_info_init :: "ST_SERVER_INFO \<Rightarrow> ST_SERVER_INFO" where
  "server_info_init s = s\<lparr>srv_cIp := replicate 32 0, srv_nPort := 11000, srv_nTimeout := 30000\<rparr>"

record astServerCtrl =
  m_clsAstPackage :: astPackage
  m_clsAstClient :: CAstClient
  m_stServerInfo :: ST_SERVER_INFO
  m_stDevInfo :: ST_DEV_INFO
  m_qsCurrentIp :: string

definition astServerCtrl_ctor :: "astServerCtrl \<Rightarrow> astServerCtrl" where
  "astServerCtrl_ctor sc = sc\<lparr>m_stServerInfo := server_info_init (m_stServerInfo sc)\<rparr>"

text \<open>The string that starts an array; without a zero in the array the read leaves it.\<close>

definition array_str :: "byte list \<Rightarrow> byte list option" where
  "array_str b = (if 0 \<in> set b then Some (buf_str b) else None)"

text \<open>\<open>memcpy(dst, s.c_str(), s.length())\<close> into an array; the terminator is not copied.\<close>

definition copy_over :: "string \<Rightarrow> byte list \<Rightarrow> byte list option" where
  "copy_over s dst = (if length s > length dst then None else Some (put_at 0 (bytes_of s) dst))"

definition set_ipmac :: "ST_NETIPINFO \<Rightarrow> ST_IP_MAC \<Rightarrow> ST_IP_MAC option" where
  "set_ipmac n m =
     (case (copy_over (qsIp n) (cIp m), copy_over (qsMac n) (cMac m), copy_over (qsMask n) (cMask m)) of
        (Some a, Some b, Some c) \<Rightarrow> Some (m\<lparr>cIp := a, cMac := b, cMask := c\<rparr>)
      | _ \<Rightarrow> None)"

text \<open>\<open>GetDevInfo\<close>: the first network entry with the current address; the disks are appended.\<close>

definition GetDevInfo :: "DEV_SOURCE \<Rightarrow> astServerCtrl \<Rightarrow> astServerCtrl option" where
  "GetDevInfo src sc =
     (let d = m_stDevInfo sc;
          net = find (\<lambda>n. qsIp n = m_qsCurrentIp sc) (src_net src);
          os = src_os src; cpu = src_cpu src; mem = src_mem src;
          d' = d\<lparr>strUserName := src_user src, strPcName := src_host src,
                 stSystemInfo := (stSystemInfo d)\<lparr>strOsName := strOsName os, strOsVersion := strOsVersion os,
                   strLastUpTime := strLastUpTime os, strOsLanguage := strOsLanguage os,
                   strInstallTime := strInstallTime os, strArchitecture := strArchitecture os\<rparr>,
                 stCpuInfo := (stCpuInfo d)\<lparr>strCpuFamily := strCpuFamily cpu, strModel := strModel cpu,
                   strModelName := strModelName cpu, strVendorId := strVendorId cpu,
                   nCpuMHZ := nCpuMHZ cpu, nCacheSize := nCacheSize cpu\<rparr>,
                 stMemInfo := (stMemInfo d)\<lparr>nMemSize := nMemSize mem, nUsedSize := nUsedSize mem\<rparr>,
                 vecDiskInfo := vecDiskInfo d @ map (\<lambda>x. x\<lparr>strDiskId := []\<rparr>) (src_disks src),
                 vecLogicalDisk := vecLogicalDisk d @ src_parts src\<rparr>
      in map_option (\<lambda>m. sc\<lparr>m_stDevInfo := d'\<lparr>ipmac := m\<rparr>\<rparr>)
           (case net of None \<Rightarrow> Some (ipmac d) | Some n \<Rightarrow> set_ipmac n (ipmac d)))"

section \<open>Connection\<close>

definition TryConnect :: "astServerCtrl \<Rightarrow> reply list \<Rightarrow> (int \<times> astServerCtrl \<times> reply list) option" where
  "TryConnect sc rs =
     (let srv = m_stServerInfo sc
      in case map_option (\<lambda>ip. InitServer (m_clsAstClient sc) (chars_of ip) (srv_nPort srv) (srv_nTimeout srv))
                (array_str (srv_cIp srv)) of
           None \<Rightarrow> None
         | Some c0 \<Rightarrow>
       (case client_connect False c0 rs of
           None \<Rightarrow> None
         | Some (ret, c1, r1) \<Rightarrow>
             (case (if ret \<noteq> 0 then Some (m_qsCurrentIp sc, r1)
                    else case r1 of
                           Name ip # r2 \<Rightarrow> Some (ip, r2)
                         | Fail e # r2 \<Rightarrow> Some (m_qsCurrentIp sc, r2)
                         | _ \<Rightarrow> None) of
                None \<Rightarrow> None
              | Some (ip, r2) \<Rightarrow>
                  map_option (\<lambda>(_, c2, r3). (ret, sc\<lparr>m_clsAstClient := c2, m_qsCurrentIp := ip\<rparr>, r3)) (client_close c1 r2))))"

definition InitServerInfo :: "astServerCtrl \<Rightarrow> ST_SERVER_INFO \<Rightarrow> reply list \<Rightarrow> (int \<times> astServerCtrl \<times> reply list) option" where
  "InitServerInfo sc info rs =
     map_option (\<lambda>(_, sc', r). (0, sc', r))
       (TryConnect (sc\<lparr>m_stServerInfo := (m_stServerInfo sc)\<lparr>srv_cIp := take 32 (srv_cIp info),
          srv_nPort := srv_nPort info, srv_nTimeout := srv_nTimeout info\<rparr>\<rparr>) rs)"

section \<open>The answer of the server\<close>

text \<open>What registration takes from outside; \<open>*0\<close> are contents of uninitialised arrays.\<close>

record REG_ENV =
  reg_fp :: fp
  source :: DEV_SOURCE
  alloc_ok :: bool
  cAid0 :: "byte list"
  cKA_text0 :: "byte list"
  cMKA0 :: "byte list"
  tmp0 :: "byte list"
  out0 :: "byte list"
  mac0 :: "byte list"
  cbuf0 :: "byte list"
  obuf0 :: "byte list"
  heap0 :: "nat \<Rightarrow> byte list"
  ack :: int

text \<open>The string in an array after \<open>memcpy\<close> of a text without its terminator.\<close>

definition copied_str :: "byte list \<Rightarrow> byte list \<Rightarrow> byte list option" where
  "copied_str s dst =
     (if length s > length dst then None else array_str (put_at 0 s dst))"

text \<open>\<open>root[name]\<close>, which adds a missing member, and \<open>asString\<close>; its exception for numbers is not caught here.\<close>

definition read_member :: "Value \<Rightarrow> string \<Rightarrow> (byte list \<times> Value) option" where
  "read_member root name = do { (cid, root) \<leftarrow> resolveReference root (bytes_of name); s \<leftarrow> asString cid; Some (s, root) }"

text \<open>The texts of the answer, copied into the arrays \<open>cAid\<close>, \<open>cKA\<close> and \<open>cMKA\<close>.\<close>

definition answer_keys :: "REG_ENV \<Rightarrow> Value \<Rightarrow> (byte list \<times> byte list \<times> byte list) option" where
  "answer_keys env root =
     do {
       (s, root) \<leftarrow> read_member root ''aid'';
       aid \<leftarrow> copied_str s (cAid0 env);
       (s, root) \<leftarrow> read_member root ''ka'';
       ka \<leftarrow> copied_str s (cKA_text0 env);
       (s, root) \<leftarrow> read_member root ''mka'';
       mka \<leftarrow> copied_str s (cMKA0 env);
       Some (aid, ka, mka)
     }"

text \<open>What \<open>reader.parse\<close> leaves in \<open>root\<close>; its result is not looked at.\<close>

definition parse_answer :: "REG_ENV \<Rightarrow> GET_IO \<Rightarrow> Value option" where
  "parse_answer env io =
     do {
       (ok, root, rd) \<leftarrow> parse (reg_fp env) Features_all (peek 0 (drop (nat (io_datalen io)) (io_data io)))
                        (take (nat (io_datalen io)) (io_data io)) nullValue;
       if rd_overrun rd then None else Some root
     }"

definition RegFinish :: "REG_ENV \<Rightarrow> astPackage \<Rightarrow> byte list \<Rightarrow> int \<Rightarrow> (int \<times> astPackage) option" where
  "RegFinish env p regmsg regmsglen =
     (let nJson = GetMsgLen regmsg regmsglen
      in if nJson \<le> 0 then Some (1, p)
         else if nJson = 2 ^ 31 - 1 then None
         else if \<not> alloc_ok env then Some (2, p)
         else case GetData p regmsg regmsglen 0
                \<lparr>io_ver = 0, io_type = 0, io_sid = [], io_aid = [], io_data = replicate (nat nJson + 1) 0,
                 io_datalen = nJson + 1\<rparr> of
                None \<Rightarrow> None
              | Some (ret, io) \<Rightarrow>
                  if ret \<noteq> 0 then Some (3, p)
                  else if io_sid io \<noteq> [0, 0, 0, 0] then Some (4, p)
                  else (case Option.bind (parse_answer env io) (\<lambda>root. read_member root ''cid'') of
                          None \<Rightarrow> None
                        | Some (cid, root) \<Rightarrow>
                            if cid \<noteq> [0x31] then Some (5, p)
                            else (case answer_keys env root of
                                    None \<Rightarrow> None
                                  | Some (aid, ka, mka) \<Rightarrow>
                                      map_option (\<lambda>(e, p'). (if e \<noteq> 0 then 6 + e else 0, p'))
                                        (InitReg p aid ka mka (io_sid io) (tmp0 env) (out0 env) (mac0 env)))))"

section \<open>Registration\<close>

abbreviation cSID :: "byte list" where "cSID \<equiv> [0, 0, 0, 0]"

text \<open>The members of the request and of the confirmation.\<close>

definition reg_request :: "astServerCtrl \<Rightarrow> (string \<times> byte list) list option" where
  "reg_request sc =
     (let d = m_stDevInfo sc
      in case (array_str (cIp (ipmac d)), array_str (cMac (ipmac d)), array_str (cMask (ipmac d))) of
           (Some ip, Some mac, Some msk) \<Rightarrow>
             Some [(''cid'', [0x31]), (''ip'', ip), (''port'', bytes_of ''10086''),
               (''os'', bytes_of (strOsName (stSystemInfo d))), (''osType'', bytes_of ''linux''),
               (''architecture'', bytes_of (strArchitecture (stSystemInfo d))), (''mac'', mac), (''ipMask'', msk)]
         | _ \<Rightarrow> None)"

definition reg_confirm :: "astServerCtrl \<Rightarrow> byte list \<Rightarrow> (string \<times> byte list) list option" where
  "reg_confirm sc cRegCK =
     (let d = m_stDevInfo sc
      in case (array_str (cMac (ipmac d)), array_str (cMask (ipmac d))) of
           (Some mac, Some msk) \<Rightarrow>
             Some [(''cid'', [0x31]), (''ip'', bytes_of (m_qsCurrentIp sc)), (''mac'', mac), (''ipMask'', msk),
               (''regck'', cRegCK)]
         | _ \<Rightarrow> None)"

text \<open>The assignments \<open>root[name] = value\<close>.\<close>

definition put_members :: "Value \<Rightarrow> (string \<times> byte list) list \<Rightarrow> Value option" where
  "put_members root kvs = puts set_member root (map (\<lambda>(k, s). (bytes_of k, Value_text s)) kvs)"

text \<open>
  \<open>memcpy(cCmdBuf, text, length)\<close> into the array of 4096 bytes, which is read as a string afterwards; a
  text that fills the array leaves no terminator in it.
\<close>

definition put_cmd :: "byte list \<Rightarrow> byte list \<Rightarrow> byte list option" where
  "put_cmd text cCmdBuf = (if length text \<ge> length cCmdBuf then None else Some (put_at 0 text cCmdBuf))"

text \<open>The assignments, and the text of \<open>FastWriter\<close> in the array.\<close>

definition write_cmd :: "REG_ENV \<Rightarrow> Value \<Rightarrow> (string \<times> byte list) list \<Rightarrow> byte list \<Rightarrow> (byte list \<times> Value) option" where
  "write_cmd env root kvs cCmdBuf =
     do { root \<leftarrow> put_members root kvs; t \<leftarrow> FastWriter_write (reg_fp env) False root; cmd \<leftarrow> put_cmd t cCmdBuf; Some (cmd, root) }"

text \<open>\<open>InitClient\<close>, \<open>connect(true)\<close> and, after a change of address, \<open>GetDevInfo\<close>.\<close>

definition reg_open :: "REG_ENV \<Rightarrow> astServerCtrl \<Rightarrow> reply list \<Rightarrow> (int \<times> astServerCtrl \<times> reply list) option" where
  "reg_open env sc rs =
     (case client_connect True (InitClient (m_clsAstClient sc) (m_qsCurrentIp sc) 0) rs of
        None \<Rightarrow> None
      | Some (ret, c1, r1) \<Rightarrow>
          let sc1 = sc\<lparr>m_clsAstClient := c1\<rparr>
          in if ret \<noteq> 0 then Some (ret, sc1, r1)
             else if m_bChangeIp c1
             then map_option (\<lambda>sc2. (0, sc2, r1)) (GetDevInfo (source env) (sc1\<lparr>m_qsCurrentIp := m_clientip c1\<rparr>))
             else Some (0, sc1, r1))"

text \<open>
  \<open>run\<close>, and \<open>runcontinue\<close> into a block of the heap when the answer does not fit \<open>obuf\<close>; its result is
  ignored.  The result: the code of \<open>run\<close>, the answer with its length, \<open>obuf\<close> and the block \<open>pData\<close>.
\<close>

definition reg_exchange ::
    "REG_ENV \<Rightarrow> astServerCtrl \<Rightarrow> byte list \<Rightarrow> byte list \<Rightarrow> byte list option \<Rightarrow> reply list
       \<Rightarrow> (int \<times> byte list \<times> int \<times> byte list \<times> byte list option \<times> astServerCtrl \<times> reply list) option" where
  "reg_exchange env sc msg obuf pData rs =
     (case run (m_clsAstClient sc) msg (Some obuf) 4096 rs of
        None \<Rightarrow> None
      | Some (res, c1, r1) \<Rightarrow>
          let ob = the (run_obuf res); n = nat (run_ret res); sc1 = sc\<lparr>m_clsAstClient := c1\<rparr>
          in if run_ret res \<le> 0 then Some (run_ret res, ob, run_olen res, ob, pData, sc1, r1)
             else let blk = (case pData of Some b \<Rightarrow> (if length b < n then heap0 env n else b) | None \<Rightarrow> heap0 env n);
                      p0 = put_at 0 (take 8 ob) blk
                  in map_option (\<lambda>(_, rest, c2, r2).
                       (0, take 8 p0 @ rest, run_ret res, ob, Some (take 8 p0 @ rest), sc1\<lparr>m_clsAstClient := c2\<rparr>, r2))
                       (runcontinue c1 (run_ret res - 8) (drop 8 p0) r1))"

text \<open>The label \<open>EXIT_Reg\<close>.\<close>

definition reg_exit :: "int \<Rightarrow> astServerCtrl \<Rightarrow> reply list \<Rightarrow> (int \<times> astServerCtrl \<times> reply list) option" where
  "reg_exit nReturn sc rs =
     map_option (\<lambda>(_, c, r). (nReturn, sc\<lparr>m_clsAstClient := c\<rparr>, r)) (client_close (m_clsAstClient sc) rs)"

text \<open>The second half of \<open>RegAst\<close>: the confirmation, under the new agent key.\<close>

definition RegAst_confirm ::
    "REG_ENV \<Rightarrow> astServerCtrl \<Rightarrow> Value \<Rightarrow> byte list \<Rightarrow> byte list \<Rightarrow> byte list \<Rightarrow> byte list option \<Rightarrow> reply list
       \<Rightarrow> (int \<times> astServerCtrl \<times> reply list) option" where
  "RegAst_confirm env sc root cCmdBuf cbuf obuf pData rs =
     (let p = m_clsAstPackage sc;
          cAID = put_at 0 (ToAgentID p) (replicate 16 0);
          cMAC = snd (MacByID p (take 12 cAID) cSID 1 (replicate 32 0));
          cRegCK = encode (take 16 cMAC)
      in case do { root \<leftarrow> Value_clear root; kvs \<leftarrow> reg_confirm sc cRegCK; write_cmd env root kvs cCmdBuf } of
           None \<Rightarrow> None
         | Some (cmd, _) \<Rightarrow>
             (case PutData p (buf_str cmd) 1 1 3 cSID cAID 1 cbuf 1024 of
                None \<Rightarrow> None
              | Some (ret, cbuf', nLen) \<Rightarrow>
                  if ret \<noteq> 0 then reg_exit 4 sc rs
                  else (case reg_open env sc rs of
                          None \<Rightarrow> None
                        | Some (ret2, sc1, r1) \<Rightarrow>
                            if ret2 \<noteq> 0 then reg_exit 5 sc1 r1
                            else (case reg_exchange env sc1 (take (nat nLen) cbuf') obuf pData r1 of
                                    None \<Rightarrow> None
                                  | Some (ret3, _, _, _, _, sc2, r2) \<Rightarrow>
                                      if ret3 < 0 then reg_exit 6 sc2 r2
                                      else if ack env \<noteq> 0
                                      then reg_exit (if ack env > 1000 then ack env else 30 + ack env) sc2 r2
                                      else reg_exit 0 sc2 r2))))"

definition RegAst :: "REG_ENV \<Rightarrow> astServerCtrl \<Rightarrow> reply list \<Rightarrow> (int \<times> astServerCtrl \<times> reply list) option" where
  "RegAst env sc rs =
     (case TryConnect sc rs of
        None \<Rightarrow> None
      | Some (_, sc0, r0) \<Rightarrow>
          (case GetDevInfo (source env) sc0 of
             None \<Rightarrow> None
           | Some sc1 \<Rightarrow>
               (case Option.bind (reg_request sc1) (\<lambda>kvs. write_cmd env nullValue kvs (replicate 4096 0)) of
                  None \<Rightarrow> None
                | Some (cmd, root) \<Rightarrow>
                    (case PutData (m_clsAstPackage sc1) (buf_str cmd) 1 1 2 cSID (replicate 16 0) 0 (cbuf0 env) 1024 of
                       None \<Rightarrow> None
                     | Some (ret, cbuf, nLen) \<Rightarrow>
                         if ret \<noteq> 0 then reg_exit 1 sc1 r0
                         else (case reg_open env sc1 r0 of
                                 None \<Rightarrow> None
                               | Some (ret2, sc2, r1) \<Rightarrow>
                                   if ret2 \<noteq> 0 then reg_exit 2 sc2 r1
                                   else (case reg_exchange env sc2 (take (nat nLen) cbuf) (obuf0 env) None r1 of
                                           None \<Rightarrow> None
                                         | Some (ret3, sign, olen, obuf, pData, sc3, r2) \<Rightarrow>
                                             if ret3 < 0 then reg_exit 3 sc3 r2
                                             else (case RegFinish env (m_clsAstPackage sc3) sign olen of
                                                     None \<Rightarrow> None
                                                   | Some (ret4, p') \<Rightarrow>
                                                       let sc4 = sc3\<lparr>m_clsAstPackage := p'\<rparr>
                                                       in if ret4 \<noteq> 0 then reg_exit (10 + ret4) sc4 r2
                                                          else (case client_close (m_clsAstClient sc4) r2 of
                                                                  None \<Rightarrow> None
                                                                | Some (_, c, r3) \<Rightarrow>
                                                                    RegAst_confirm env (sc4\<lparr>m_clsAstClient := c\<rparr>) root cmd cbuf obuf pData r3))))))))"

section \<open>What the steps keep of the package\<close>

named_theorems keeps_package \<open>steps that do not touch the message layer\<close>

lemma GetDevInfo_package [keeps_package]: "GetDevInfo src sc = Some sc' \<Longrightarrow> m_clsAstPackage sc' = m_clsAstPackage sc"
  by (auto simp: GetDevInfo_def Let_def)

lemma TryConnect_package [keeps_package]: "TryConnect sc rs = Some (n, sc', r) \<Longrightarrow> m_clsAstPackage sc' = m_clsAstPackage sc"
  by (auto simp: TryConnect_def Let_def split: option.splits)

lemma reg_open_package [keeps_package]: "reg_open env sc rs = Some (n, sc', r) \<Longrightarrow> m_clsAstPackage sc' = m_clsAstPackage sc"
  by (auto simp: reg_open_def Let_def split: option.splits if_splits dest!: GetDevInfo_package)

lemma reg_exchange_package [keeps_package]:
  "reg_exchange env sc msg ob pd rs = Some (n, x, l, ob', pd', sc', r) \<Longrightarrow> m_clsAstPackage sc' = m_clsAstPackage sc"
  by (auto simp: reg_exchange_def Let_def split: option.splits if_splits)

lemma reg_exit_package [keeps_package]: "reg_exit n sc rs = Some (m, sc', r) \<Longrightarrow> m = n \<and> m_clsAstPackage sc' = m_clsAstPackage sc"
  by (auto simp: reg_exit_def)

section \<open>A genuine answer\<close>

lemma copied_str_whole:
  assumes "0 \<notin> set s" "length s < length dst" "dst ! length s = 0"
  shows "copied_str s dst = Some s"
proof -
  have "put_at 0 s dst = s @ 0 # drop (Suc (length s)) dst"
    using assms(2,3) Cons_nth_drop_Suc [OF assms(2)] by (simp add: put_at_def)
  moreover have "buf_str (s @ 0 # r) = s" for r
    using assms(1) by (auto simp: buf_str_def takeWhile_append)
  ultimately show ?thesis using assms(2) by (simp add: copied_str_def array_str_def)
qed

lemma GetMsgLen_message:
  assumes "length aid = 16" "length sid = 4" "length mac = 4" "length body + 32 < 2 ^ 31"
  shows "GetMsgLen (message ver typ flg aid sid mac body @ rest) (int (32 + length body)) = int (32 + length body)"
proof -
  have "int_of_u32 (of_nat (length body + 32)) = int (32 + length body)"
    using assms(4) by (subst int_of_u32_of_nat) simp_all
  then show ?thesis
    using assms(4) unfolding GetMsgLen_def header_message [OF assms(1-3)]
    by (simp add: Let_def zs_GetBE32_def header_size_def)
qed

lemma RegFinish_message:
  assumes k: "k = id_key p 0 cSID" and len: "length aid = 16" "length t + 48 < 2 ^ 31" and env: "alloc_ok env" "rest \<noteq> []"
    and doc: "\<And>b. \<exists>ok rd. parse (reg_fp env) Features_all b t nullValue = Some (ok, root, rd) \<and> \<not> rd_overrun rd"
    and root: "read_member root ''cid'' = Some ([0x31], root')" "answer_keys env root' = Some (a, ka, mka)"
    and reg: "InitReg p a ka mka cSID (tmp0 env) (out0 env) (mac0 env) = Some (0, p')"
  shows "RegFinish env p (message ver typ 2 aid cSID (sent_mac k 2 t) t @ rest) (int (32 + length t)) = Some (0, p')"
proof -
  define io where "io = \<lparr>io_ver = 0, io_type = 0, io_sid = [], io_aid = [],
    io_data = replicate (nat (int (32 + length t)) + 1) 0 :: byte list, io_datalen = int (32 + length t) + 1\<rparr>"
  have n: "GetMsgLen (message ver typ 2 aid cSID (sent_mac k 2 t) t @ rest) (int (32 + length t)) = int (32 + length t)"
    using len by (intro GetMsgLen_message) simp_all
  have g: "GetData p (message ver typ 2 aid cSID (sent_mac k 2 t) t @ rest) (int (32 + length t)) 0 io
      = Some (0, received ver typ cSID aid t io)"
    using len env(2) by (intro GetData_ok [OF _ _ _ _ _ _ _ k]) (simp_all add: io_def sent_body_def)
  have "take (nat (io_datalen (received ver typ cSID aid t io))) (io_data (received ver typ cSID aid t io)) = t"
    "io_sid (received ver typ cSID aid t io) = cSID"
    by (simp_all add: received_def put_at_def)
  moreover from this(1) have "parse_answer env (received ver typ cSID aid t io) = Some root"
    using doc [of "peek 0 (drop (nat (io_datalen (received ver typ cSID aid t io))) (io_data (received ver typ cSID aid t io)))"]
    by (auto simp: parse_answer_def)
  ultimately show ?thesis
    using len(2) env(1) root reg unfolding RegFinish_def n Let_def io_def [symmetric] g by simp
qed

text \<open>A member that is there is read and stays.\<close>

lemma read_member_text:
  "const_member root (bytes_of name) = Some (Value_text s) \<Longrightarrow> read_member root name = Some (buf_str s, root)"
  by (cases root) (auto simp: read_member_def const_member_def resolveReference_def entry_or_null_def Value_text_def split: option.splits)

section \<open>What a registration changes\<close>

lemma InitReg_codes: "InitReg p aid ka mka ident t0 o0 m0 = Some (e, p') \<Longrightarrow> 0 \<le> e \<and> e \<le> 3 \<and> (e \<noteq> 0 \<longrightarrow> p' = p) \<and> (e = 0 \<longrightarrow> \<not> m_bInit p')"
  by (auto simp: InitReg_def Let_def split_beta split: option.splits prod.splits if_splits)

definition taken_over :: "REG_ENV \<Rightarrow> astPackage \<Rightarrow> astPackage \<Rightarrow> bool" where
  "taken_over env p p' \<longleftrightarrow> \<not> m_bInit p'
     \<and> (\<exists>aid ka mka. InitReg p aid ka mka cSID (tmp0 env) (out0 env) (mac0 env) = Some (0, p'))"

lemma RegFinish_codes:
  assumes "RegFinish env p msg n = Some (e, p')"
  shows "0 \<le> e \<and> e \<le> 9 \<and> (e \<noteq> 0 \<longrightarrow> p' = p) \<and> (e = 0 \<longrightarrow> taken_over env p p')"
proof -
  consider "1 \<le> e" "e \<le> 5" "p' = p"
    | aid ka mka c where "InitReg p aid ka mka cSID (tmp0 env) (out0 env) (mac0 env) = Some (c, p')"
        "e = (if c \<noteq> 0 then 6 + c else 0)"
    using assms by (auto simp: RegFinish_def Let_def split: option.splits prod.splits if_splits)
  then show ?thesis
  proof cases
    case 2
    then show ?thesis using InitReg_codes [OF 2(1)] by (auto simp: taken_over_def)
  qed simp
qed

lemma RegAst_confirm_codes:
  assumes "RegAst_confirm env sc root cmd cb ob pd rs = Some (n, sc', r)"
  shows "m_clsAstPackage sc' = m_clsAstPackage sc \<and> (0 \<le> ack env \<longrightarrow> n = 0 \<or> 4 \<le> n \<and> n \<le> 6 \<or> 30 \<le> n)"
  using assms by (auto simp: RegAst_confirm_def Let_def split: option.splits prod.splits if_splits dest!: keeps_package)

lemma RegAst_outcome:
  assumes "RegAst env sc rs = Some (n, sc', r)"
  obtains (failed) "m_clsAstPackage sc' = m_clsAstPackage sc" "1 \<le> n \<and> n \<le> 3 \<or> 11 \<le> n \<and> n \<le> 19"
  | (finished) "taken_over env (m_clsAstPackage sc) (m_clsAstPackage sc')" "0 \<le> ack env \<longrightarrow> n = 0 \<or> 4 \<le> n \<and> n \<le> 6 \<or> 30 \<le> n"
  using assms
  by (auto simp: RegAst_def Let_def split: option.splits prod.splits if_splits dest!: keeps_package RegFinish_codes RegAst_confirm_codes)

section \<open>The members of a genuine answer\<close>

lemma answer_keys_genuine:
  assumes "const_member root (bytes_of ''aid'') = Some (Value_text (hex_of A))"
    "const_member root (bytes_of ''ka'') = Some (Value_text (encode (ecb_text k KA)))"
    "const_member root (bytes_of ''mka'') = Some (Value_text (encode (key_mac k KA)))"
    "length KA = 32" "length A \<le> 16"
    "length (cAid0 env) = 128" "length (cKA_text0 env) = 128" "length (cMKA0 env) = 128"
    "cAid0 env ! (2 * length A) = 0" "cKA_text0 env ! 64 = 0" "cMKA0 env ! 44 = 0"
  shows "answer_keys env root = Some (hex_of A, encode (ecb_text k KA), encode (key_mac k KA))"
proof -
  have "length (hex_of A) = 2 * length A" by (induction A) (simp_all add: hex_of_def)
  then have c: "copied_str (hex_of A) (cAid0 env) = Some (hex_of A)"
    using assms(5,6,9) by (intro copied_str_whole) (simp_all add: hex_not_zero)
  have "length (encode (ecb_text k KA)) = 64" using assms(4) by (simp add: length_encode pad_len_def)
  then have ka: "copied_str (encode (ecb_text k KA)) (cKA_text0 env) = Some (encode (ecb_text k KA))"
    using assms(7,10) by (intro copied_str_whole) (simp_all add: encode_not_zero)
  have "length (encode (key_mac k KA)) = 44" by (simp add: length_encode key_mac_def)
  then have mka: "copied_str (encode (key_mac k KA)) (cMKA0 env) = Some (encode (key_mac k KA))"
    using assms(8,11) by (intro copied_str_whole) (simp_all add: encode_not_zero)
  have "no_nul (hex_of A)" "no_nul (encode (ecb_text k KA))" "no_nul (encode (key_mac k KA))"
    by (simp_all add: no_nul_def hex_not_zero encode_not_zero)
  then show ?thesis
    using read_member_text [OF assms(1)] read_member_text [OF assms(2)] read_member_text [OF assms(3)] c ka mka
    by (simp add: answer_keys_def)
qed

section \<open>An answer that does not fit\<close>

lemma run_too_long:
  assumes "run c msg (Some obuf) olen rs = Some (res, c', r)" "0 < run_ret res"
  obtains ob where "run_obuf res = Some ob" "length ob = length obuf" "olen < run_ret res"
    "run_ret res = int_of_u32 (zs_GetBE32 (drop 4 ob))"
  using assms
  by (auto simp: run_def run_receive_def Let_def length_put_at dest!: recvv_length split: option.splits prod.splits if_splits)

lemma zs_GetBE32_take: "4 \<le> length x \<Longrightarrow> zs_GetBE32 (take 4 x) = zs_GetBE32 x"
  by (simp add: zs_GetBE32_def GetBE32_def)

lemma reg_exchange_block:
  assumes "reg_exchange env sc msg obuf None rs = Some (e, sign, olen, ob, Some blk, sc', r)"
    "length obuf = 4096" "\<forall>n. length (heap0 env n) = n"
  shows "length sign = nat olen" "int_of_u32 (zs_GetBE32 (h_len (header_of sign))) = olen" "4096 < olen"
proof -
  obtain res c1 r1 x rest c2 where run: "run (m_clsAstClient sc) msg (Some obuf) 4096 rs = Some (res, c1, r1)" "0 < run_ret res"
    and cont: "runcontinue c1 (run_ret res - 8) (drop 8 (put_at 0 (take 8 (the (run_obuf res))) (heap0 env (nat (run_ret res))))) r1
      = Some (x, rest, c2, r)"
    and res: "olen = run_ret res"
      "sign = take 8 (put_at 0 (take 8 (the (run_obuf res))) (heap0 env (nat (run_ret res)))) @ rest"
    using assms(1) by (auto simp: reg_exchange_def Let_def not_le split: option.splits prod.splits if_splits)
  obtain o1 where o1: "run_obuf res = Some o1" "length o1 = length obuf" "4096 < run_ret res"
    "run_ret res = int_of_u32 (zs_GetBE32 (drop 4 o1))"
    using run_too_long [OF run] by metis
  define b where "b = put_at 0 (take 8 o1) (heap0 env (nat olen))"
  have b: "length b = nat olen" "take 8 b = take 8 o1"
    using o1(2,3) assms(2,3) res(1) by (simp_all add: b_def put_at_def)
  obtain bs where "rest = put_at 0 bs (drop 8 b)" "length bs \<le> length (drop 8 b)"
    using cont o1(1) by (auto simp: runcontinue_def b_def res(1) dest!: recvv_length)
  then have "length rest = nat olen - 8" using b(1) by (simp add: length_put_at)
  moreover have sign: "sign = take 8 o1 @ rest" using res o1(1) b(2) by (simp add: b_def)
  ultimately show "length sign = nat olen" using o1(2,3) assms(2) res(1) by simp
  have "h_len (header_of sign) = take 4 (drop 4 o1)" using o1(2) assms(2) by (simp add: header_of_def sign drop_take)
  then show "int_of_u32 (zs_GetBE32 (h_len (header_of sign))) = olen"
    using o1(2,4) assms(2) res(1) by (simp add: zs_GetBE32_take)
  show "4096 < olen" using o1(3) res(1) by simp
qed

section \<open>Sample objects\<close>

definition sample_package :: astPackage where
  "sample_package = \<lparr>m_KI = replicate 32 1, m_KA = replicate 32 2, m_bInit = True, m_AgentID = replicate 64 0,
     m_nAidLen = 0, m_UUID = []\<rparr>"

definition sample_env :: REG_ENV where
  "sample_env = \<lparr>reg_fp = sample_fp,
     source = \<lparr>src_net = [], src_user = [], src_host = [],
       src_os = \<lparr>strOsName = [], strOsVersion = [], strOsLanguage = [], strLastUpTime = [], strArchitecture = [], strInstallTime = []\<rparr>,
       src_cpu = \<lparr>strProcessorId = [], strVendorId = [], strCpuFamily = [], strModel = [], strModelName = [], nCpuMHZ = 0, nCacheSize = 0\<rparr>,
       src_mem = \<lparr>nMemSize = 0, nUsedSize = 0\<rparr>, src_disks = [], src_parts = []\<rparr>,
     alloc_ok = True, cAid0 = replicate 128 0, cKA_text0 = replicate 128 0, cMKA0 = replicate 128 0, tmp0 = replicate 128 0,
     out0 = replicate 128 0, mac0 = replicate 32 0, cbuf0 = replicate 1024 0, obuf0 = replicate 4096 0,
     heap0 = \<lambda>n. replicate n 0, ack = 0\<rparr>"

definition sample_ctrl :: astServerCtrl where
  "sample_ctrl = \<lparr>m_clsAstPackage = sample_package,
     m_clsAstClient = \<lparr>m_Error = [], cl_fd = \<lparr>m_fd = - 1, fd_nonblock = False, open_fds = []\<rparr>, m_bChangeIp = False, m_ip = [],
        m_port = 1, m_timeout = 5, m_clientip = [], m_clientport = 0\<rparr>,
     m_stServerInfo = \<lparr>srv_cIp = replicate 32 0, srv_nPort = 11000, srv_nTimeout = 30000\<rparr>,
     m_stDevInfo = \<lparr>ipmac = \<lparr>cIp = replicate 32 0, cMac = replicate 32 0, cMask = replicate 32 0\<rparr>,
       strUserName = [], strPcName = [], strDomainName = [], stSystemInfo = src_os (source sample_env),
       stCpuInfo = src_cpu (source sample_env), stMemInfo = src_mem (source sample_env), vecDiskInfo = [], vecLogicalDisk = []\<rparr>,
     m_qsCurrentIp = []\<rparr>"

section \<open>Properties\<close>

text \<open>
  \<^bold>\<open>C5\<close> Registration with a genuine server succeeds: when a server with the same registration key sends, as
  a message with a MAC, a JSON document, in any layout and spelling, of an object with any members besides command 1, the agent id in
  hexadecimal, and the agent key encrypted under the zero session with its MAC, both in Base64, \<open>RegFinish\<close> reads it, returns 0,
  and the agent is registered with exactly this key and id.  The texts are copied without their
  terminators into uninitialised arrays: a zero has to stand behind each of them already.
\<close>

theorem RegFinish_accepts:
  assumes "PutData q t ver typ 2 cSID aid 0 out outlen = Some (0, msg, n)" "m_KI q = m_KI p" "length aid = 16"
    "int (length t) + 48 \<le> outlen" "outlen < 2 ^ 31" "nat outlen \<le> length out"
    "json_document (reg_fp env) t root"
    "const_member root (bytes_of ''cid'') = Some (Value_text [0x31])" "const_member root (bytes_of ''aid'') = Some (Value_text (hex_of A))"
    "const_member root (bytes_of ''ka'') = Some (Value_text (encode (ecb_text (id_key q 0 cSID) KA)))"
    "const_member root (bytes_of ''mka'') = Some (Value_text (encode (key_mac (id_key q 0 cSID) KA)))"
    "length KA = 32" "length A \<le> 16" "length (m_AgentID p) = 64" "128 \<le> length (tmp0 env)" "alloc_ok env" "rest \<noteq> []"
    "length (cAid0 env) = 128" "length (cKA_text0 env) = 128" "length (cMKA0 env) = 128"
    "cAid0 env ! (2 * length A) = 0" "cKA_text0 env ! 64 = 0" "cMKA0 env ! 44 = 0"
  shows "RegFinish env p (take (nat n) msg @ rest) n
    = Some (0, p\<lparr>m_AgentID := A @ replicate (16 - length A) 0 @ drop 16 (m_AgentID p), m_nAidLen := int (length A),
        m_KA := KA, m_bInit := False\<rparr>)"
proof -
  define k where "k = id_key p 0 cSID"
  have k: "id_key q 0 cSID = k" using id_key_KI [OF _ assms(2)] by (simp add: k_def)
  define m where "m = message ver typ 2 aid cSID (sent_mac k 2 t) t"
  have "length m = 32 + length t" using assms(3) by (simp add: m_def length_message)
  then have m: "take (nat n) msg = m" "n = int (32 + length t)"
    using assms(1) PutData_ok [of 0 q 2 t outlen out cSID aid ver "typ"] assms(3-6) take_put_at0 [of m out]
    by (simp_all add: k m_def [symmetric] sent_body_def Let_def nat_add_distrib)
  have keys: "answer_keys env root = Some (hex_of A, encode (ecb_text k KA), encode (key_mac k KA))"
    using answer_keys_genuine [OF assms(9-11) assms(12,13) assms(18-23)] unfolding k .
  have reg: "InitReg p (hex_of A) (encode (ecb_text k KA)) (encode (key_mac k KA)) cSID (tmp0 env) (out0 env) (mac0 env)
      = Some (0, p\<lparr>m_AgentID := A @ replicate (16 - length A) 0 @ drop 16 (m_AgentID p), m_nAidLen := int (length A),
          m_KA := KA, m_bInit := False\<rparr>)"
    unfolding k_def by (rule InitReg_genuine [OF assms(12-15)])
  have "read_member root ''cid'' = Some ([0x31], root)" using read_member_text [OF assms(8)] by (simp add: buf_str_def)
  moreover have "\<exists>ok rd. parse (reg_fp env) Features_all b t nullValue = Some (ok, root, rd) \<and> \<not> rd_overrun rd" for b
    using parse_document [OF assms(7), of Features_all b nullValue] fresh_reader by (auto simp: Features_all_def)
  ultimately show ?thesis
    unfolding m(1) unfolding m(2) m_def using assms(4,5)
    by (intro RegFinish_message [OF k_def assms(3) _ assms(16,17) _ _ keys reg]) simp_all
qed

text \<open>
  \<^bold>\<open>C6\<close> Only an accepted answer changes the identity of the agent: after \<open>RegAst\<close> the message layer is
  either untouched, and the code tells the step that failed, or \<open>InitReg\<close> has accepted key, id and MAC
  under the zero session; with a sensible \<open>RegAck\<close> the codes of the two cases are different.
\<close>

theorem RegAst_only_by_InitReg:
  assumes "RegAst env sc rs = Some (n, sc', r)" "0 \<le> ack env"
  shows "if 1 \<le> n \<and> n \<le> 3 \<or> 11 \<le> n \<and> n \<le> 19 then m_clsAstPackage sc' = m_clsAstPackage sc
    else (n = 0 \<or> 4 \<le> n \<and> n \<le> 6 \<or> 30 \<le> n) \<and> \<not> m_bInit (m_clsAstPackage sc')
      \<and> (\<exists>aid ka mka. InitReg (m_clsAstPackage sc) aid ka mka cSID (tmp0 env) (out0 env) (mac0 env)
            = Some (0, m_clsAstPackage sc'))"
  using assms by (cases rule: RegAst_outcome) (auto simp: taken_over_def)

text \<open>
  An answer of more than 4096 bytes is never handled properly: it is received into a block of exactly
  its length, and \<open>RegFinish\<close> lets \<open>GetData\<close> set the byte behind the message, outside the block, whatever
  the answer holds.
\<close>

theorem long_answer_overruns:
  assumes "reg_exchange env sc msg obuf None rs = Some (e, sign, olen, ob, Some blk, sc', r)"
    "length obuf = 4096" "\<forall>n. length (heap0 env n) = n" "alloc_ok env"
  shows "RegFinish env p sign olen = None"
proof -
  note b = reg_exchange_block [OF assms(1-3)]
  have "GetMsgLen sign olen = olen"
    using b(3) sint_less [of "zs_GetBE32 (h_len (header_of sign))"]
    by (simp add: GetMsgLen_def Let_def b(2) header_size_def) (simp add: b(2) [unfolded int_of_u32_def])
  then show ?thesis using b(1,3) assms(4) by (simp add: RegFinish_def Let_def GetData_def)
qed

text \<open>
  The confirmation is not the text of the JSON library: it is written over the request without a
  terminator, so whenever it is shorter than the request the tail of the request is sent behind it.
\<close>

theorem confirmation_keeps_tail:
  assumes "put_cmd t1 (replicate 4096 0) = Some b1" "put_cmd t2 b1 = Some b2" "0 \<notin> set t1" "0 \<notin> set t2"
  shows "buf_str b2 = t2 @ drop (length t2) t1"
proof -
  have "length t1 < 4096" "b1 = t1 @ replicate (4096 - length t1) 0" "b2 = t2 @ drop (length t2) b1" "length t2 < 4096"
    using assms(1,2) by (auto simp: put_cmd_def put_at_def split: if_splits)
  moreover from this have "b2 = (t2 @ drop (length t2) t1) @ replicate (4096 - max (length t1) (length t2)) 0"
    by (simp add: max_def)
  moreover have "0 \<notin> set (t2 @ drop (length t2) t1)" using assms(3,4) by (auto dest: in_set_dropD)
  moreover have "buf_str (x @ replicate (Suc k) 0) = x" if "0 \<notin> set x" for x k
    using that by (auto simp: buf_str_def takeWhile_append)
  ultimately show ?thesis
    by (metis Suc_diff_Suc max_less_iff_conj)
qed

text \<open>The answer of a server to the sample agent.\<close>

definition sample_answer :: Value where
  "sample_answer = objectValue
     [(bytes_of ''aid'', Value_text (hex_of [0xab])), (bytes_of ''cid'', Value_text [0x31]),
      (bytes_of ''ka'', Value_text (encode (ecb_text (id_key sample_package 0 cSID) (replicate 32 5)))),
      (bytes_of ''mka'', Value_text (encode (key_mac (id_key sample_package 0 cSID) (replicate 32 5))))]"

lemma sample_members:
  "const_member sample_answer (bytes_of ''aid'') = Some (Value_text (hex_of [0xab]))"
  "const_member sample_answer (bytes_of ''cid'') = Some (Value_text [0x31])"
  "const_member sample_answer (bytes_of ''ka'') = Some (Value_text (encode (ecb_text (id_key sample_package 0 cSID) (replicate 32 5))))"
  "const_member sample_answer (bytes_of ''mka'') = Some (Value_text (encode (key_mac (id_key sample_package 0 cSID) (replicate 32 5))))"
  by (simp_all add: sample_answer_def const_member_def entry_or_null_def bytes_of_def char_byte_def buf_str_def)

lemma sample_writable: "writable f sample_answer"
proof -
  have "no_nul (bytes_of ''aid'')" "no_nul (bytes_of ''cid'')" "no_nul (bytes_of ''ka'')" "no_nul (bytes_of ''mka'')"
    by (simp_all add: no_nul_def bytes_of_def char_byte_def)
  moreover have "bytes_of ''aid'' < bytes_of ''cid''" "bytes_of ''cid'' < bytes_of ''ka''" "bytes_of ''ka'' < bytes_of ''mka''"
    by (simp_all add: bytes_of_def char_byte_def)
  ultimately show ?thesis by (auto simp: sample_answer_def Value_text_def)
qed

lemma sample_text:
  obtains t where "FastWriter_write f False sample_answer = Some t" "length t < 2000"
proof -
  let ?ka = "encode (ecb_text (id_key sample_package 0 cSID) (replicate 32 5))" and ?mka = "encode (key_mac (id_key sample_package 0 cSID) (replicate 32 5))"
  have "no_nul ?ka" "no_nul ?mka" "no_nul (hex_of [0xab])" "no_nul [0x31]" by (simp_all add: no_nul_def hex_not_zero encode_not_zero)
  moreover have "length ?ka = 64" by (simp add: length_encode pad_len_def)
  moreover have "length ?mka = 44" by (simp add: length_encode key_mac_def)
  moreover have "length (hex_of [0xab]) = 2" by (simp add: hex_of_def)
  ultimately show thesis
    using length_quoted [of ?ka] length_quoted [of ?mka] length_quoted [of "hex_of [0xab]"] length_quoted [of "[0x31]"]
      length_quoted [of "bytes_of ''aid''"] length_quoted [of "bytes_of ''cid''"] length_quoted [of "bytes_of ''ka''"] length_quoted [of "bytes_of ''mka''"]
    by - (rule that, simp add: FastWriter_write_def sample_answer_def Value_text_def, simp)
qed

theorem RegFinish_accepts_witness:
  "\<exists>t msg n. FastWriter_write sample_fp False sample_answer = Some t
    \<and> PutData sample_package t 1 1 2 cSID (replicate 16 0) 0 (replicate 2100 0) 2100 = Some (0, msg, n)
    \<and> RegFinish sample_env sample_package (take (nat n) msg @ [0]) n
      = Some (0, sample_package\<lparr>m_AgentID := [0xab] @ replicate (16 - length [0xab :: byte]) 0 @ drop 16 (m_AgentID sample_package),
          m_nAidLen := int (length [0xab :: byte]), m_KA := replicate 32 5, m_bInit := False\<rparr>)"
proof -
  obtain t where t: "FastWriter_write sample_fp False sample_answer = Some t" "length t < 2000" by (rule sample_text)
  then have doc: "json_document sample_fp t sample_answer" using write_document [OF sample_writable, of sample_fp False] by simp
  obtain msg n where m: "PutData sample_package t 1 1 2 cSID (replicate 16 0) 0 (replicate 2100 0) 2100 = Some (0, msg, n)"
    using t(2) by (subst (asm) PutData_ok) (simp_all add: Let_def)
  show ?thesis
    using RegFinish_accepts [OF m, of sample_package sample_env sample_answer "[0xab]" "replicate 32 5" "[0]"] m t doc sample_members
    by (simp add: sample_env_def sample_package_def)
qed

text \<open>The request of the sample agent.\<close>

definition sample_request :: "(string \<times> byte list) list" where
  "sample_request = [(''cid'', [0x31]), (''ip'', []), (''port'', bytes_of ''10086''), (''os'', []), (''osType'', bytes_of ''linux''),
     (''architecture'', []), (''mac'', []), (''ipMask'', [])]"

lemma sample_request_text:
  "case put_members nullValue sample_request \<bind> FastWriter_write sample_fp False of Some t \<Rightarrow> length t < 900 \<and> no_nul t | None \<Rightarrow> False"
  by code_simp

lemma buf_str_padded: "\<lbrakk>no_nul t; length t < n\<rbrakk> \<Longrightarrow> buf_str (put_at 0 t (replicate n 0)) = t"
  by (cases "n - length t") (auto simp: put_at_def buf_str_def no_nul_def takeWhile_append)

lemma sample_request_written:
  obtains t r where "write_cmd sample_env nullValue sample_request (replicate 4096 0) = Some (put_at 0 t (replicate 4096 0), r)"
    "length t < 900" "no_nul t"
  using sample_request_text
  by (auto simp: write_cmd_def put_cmd_def sample_env_def split: option.splits bind_splits)

theorem RegAst_only_by_InitReg_witness:
  "\<exists>sc'. RegAst sample_env sample_ctrl [Fail ETIME, Fail ETIME, Fail ETIME] = Some (2, sc', [])
    \<and> m_clsAstPackage sc' = m_clsAstPackage sample_ctrl"
proof -
  obtain t r where t: "write_cmd sample_env nullValue sample_request (replicate 4096 0) = Some (put_at 0 t (replicate 4096 0), r)"
    "length t < 900" "no_nul t" by (rule sample_request_written)
  obtain msg n where m: "PutData sample_package t 1 1 2 cSID (replicate 16 0) 0 (replicate 1024 0) 1024 = Some (0, msg, n)"
    using t(2) by (subst (asm) PutData_ok) (simp_all add: Let_def)
  have "buf_str (put_at 0 t (replicate 4096 0)) = t" using t(2,3) buf_str_padded by simp
  moreover have "reg_request sc = Some sample_request" if "m_stDevInfo sc = m_stDevInfo sample_ctrl" for sc
    using that by (simp add: reg_request_def sample_request_def sample_ctrl_def sample_env_def array_str_def buf_str_def)
  ultimately have "\<exists>sc'. RegAst sample_env sample_ctrl [Fail ETIME, Fail ETIME, Fail ETIME] = Some (2, sc', [])"
    using m t(1) by (simp add: RegAst_def TryConnect_def GetDevInfo_def reg_open_def reg_exit_def
      sample_ctrl_def sample_env_def array_str_def client_connect_def connect_first_def connect_plain_def connect_again_def
      client_build_def build_socket_def client_close_def close_def InitServer_def InitClient_def Let_def)
  then obtain sc' where "RegAst sample_env sample_ctrl [Fail ETIME, Fail ETIME, Fail ETIME] = Some (2, sc', [])" by blast
  from RegAst_only_by_InitReg [OF this] this show ?thesis by (auto simp: sample_env_def)
qed

end
