(* ===== verification/SysInfo.thy ===== *)
theory SysInfo
  imports AstServer Complex_Main "HOL-Library.Monad_Syntax"
begin

text \<open>
  The collectors of system information (\<open>src/public/cpu\<close>, \<open>memory\<close>, \<open>disk\<close>, \<open>network\<close>, \<open>system\<close>, with the helpers
  of \<open>src/public/utils\<close> they use), which give the registration its \<open>DEV_SOURCE\<close>.

  The collectors are written with Qt, which is not part of the sources: its operations on texts are the fields of
  the record \<open>qt\<close>, and what Qt and the system report is the record \<open>machine\<close> (files, output of commands, network
  interfaces, mounted volumes, block devices).  A command that throws, and \<open>at\<close>, \<open>first\<close> or \<open>last\<close> of a list that is too
  short, give \<^term>\<open>None\<close>.
\<close>

type_synonym u64 = "64 word"

section \<open>Qt and the machine\<close>

record qt =
  q_trimmed :: "string \<Rightarrow> string"
  q_split :: "string \<Rightarrow> string \<Rightarrow> string list"
  q_split_ws :: "string \<Rightarrow> string list"
  q_filter :: "string \<Rightarrow> string list \<Rightarrow> string list"
  q_startsWith :: "string \<Rightarrow> string \<Rightarrow> bool"
  q_indexOf :: "string \<Rightarrow> string \<Rightarrow> int"
  q_index_ws :: "string \<Rightarrow> int"
  q_mid :: "string \<Rightarrow> int \<Rightarrow> int \<Rightarrow> string"
  q_remove :: "string \<Rightarrow> string \<Rightarrow> string"
  q_replace_ws :: "string \<Rightarrow> string"
  q_toInt :: "string \<Rightarrow> int"
  q_toLong :: "string \<Rightarrow> int"
  q_toULongLong :: "string \<Rightarrow> int"
  q_toDouble :: "string \<Rightarrow> real"
  q_number :: "real \<Rightarrow> string"

record addr_entry =
  ae_ip :: string
  ae_mask :: string
  ae_broadcast :: string
  ae_null :: bool
  ae_ipv4 :: bool

record interface =
  if_name :: string
  if_mac :: string
  if_up :: bool
  if_running :: bool
  if_loopback :: bool
  if_entries :: "addr_entry list"

record volume =
  vol_valid :: bool
  vol_name :: string
  vol_device :: string
  vol_total :: u64
  vol_free :: u64
  vol_type :: string

record machine =
  mc_files :: "string \<rightharpoonup> string"
  mc_exec :: "string \<Rightarrow> string option"
  mc_env :: "string \<Rightarrow> string"
  mc_interfaces :: "interface list"
  mc_volumes :: "volume list"
  mc_blocks :: "(string \<times> bool) list"
  mc_host :: string
  mc_arch :: string

definition list_at :: "'a list \<Rightarrow> nat \<Rightarrow> 'a option" where
  "list_at xs i = (if i < length xs then Some (xs ! i) else None)"

definition list_last :: "'a list \<Rightarrow> 'a option" where
  "list_last xs = (if xs = [] then None else Some (last xs))"

section \<open>Helpers\<close>

definition readStringFromFile :: "machine \<Rightarrow> string \<Rightarrow> string" where
  "readStringFromFile mc path = (case mc_files mc path of None \<Rightarrow> [] | Some c \<Rightarrow> c)"

definition readListFromFile :: "qt \<Rightarrow> machine \<Rightarrow> string \<Rightarrow> string list" where
  "readListFromFile q mc path = q_split q [newline] (q_trimmed q (readStringFromFile mc path))"

definition exec_lines :: "qt \<Rightarrow> machine \<Rightarrow> string \<Rightarrow> string list option" where
  "exec_lines q mc cmd = map_option (q_split q [newline]) (mc_exec mc cmd)"

definition LSCPU_COMMAND :: string where "LSCPU_COMMAND = ''LANG=nl_NL.UTF-8 lscpu''"
definition PROC_LSBLK :: string where "PROC_LSBLK = ''lsblk -d -P -o NAME,KNAME,FSTYPE,MODEL,SERIAL,SIZE,VENDOR,HOTPLUG''"

section \<open>Memory\<close>

record MemoryInfo =
  memTotal :: u64
  memFree :: u64
  memUsed :: u64
  buffers :: u64
  cached :: u64
  sreclaimable :: u64
  shmem :: u64
  swapTotal :: u64
  swapFree :: u64
  swapUsed :: u64

text \<open>The constructor; the other members are not initialised.\<close>

definition MemoryInfo_ctor :: "MemoryInfo \<Rightarrow> MemoryInfo" where
  "MemoryInfo_ctor m = m\<lparr>memTotal := 0, memFree := 0, memUsed := 0\<rparr>"

definition meminfo_filter :: string where
  "meminfo_filter = ''^MemTotal|^MemFree|^Buffers|^Cached|^SwapTotal|^SwapFree|^Shmem|^SReclaimable''"

text \<open>\<open>getValue(l)\<close>; \<open>toLong\<close> is shifted and stored without sign.\<close>

definition getValue :: "qt \<Rightarrow> string list \<Rightarrow> nat \<Rightarrow> u64 option" where
  "getValue q lines l =
     do {
       t \<leftarrow> list_at lines l;
       v \<leftarrow> list_at (q_split_ws q t) 1;
       Some (word_of_int (q_toLong q v * 2 ^ 10))
     }"

definition updateMemoryInfo :: "qt \<Rightarrow> machine \<Rightarrow> MemoryInfo \<Rightarrow> MemoryInfo option" where
  "updateMemoryInfo q mc m =
     do {
       let lines = q_filter q meminfo_filter (readListFromFile q mc ''/proc/meminfo'');
       v0 \<leftarrow> getValue q lines 0;
       v1 \<leftarrow> getValue q lines 1;
       v2 \<leftarrow> getValue q lines 2;
       v3 \<leftarrow> getValue q lines 3;
       v4 \<leftarrow> getValue q lines 4;
       v5 \<leftarrow> getValue q lines 5;
       v6 \<leftarrow> getValue q lines 6;
       v7 \<leftarrow> getValue q lines 7;
       let c = v3 + v6 - v7;
       Some (m\<lparr>memTotal := v0, memFree := v1, buffers := v2, swapTotal := v4, swapFree := v5, sreclaimable := v6, shmem := v7,
         cached := c, memUsed := v0 - (v1 + v2 + c), swapUsed := v4 - v5\<rparr>)
     }"

section \<open>Processor\<close>

text \<open>The pass over the lines; \<open>physical\<close> and \<open>core\<close> keep their values between processors.\<close>

fun core_pairs :: "qt \<Rightarrow> string list \<Rightarrow> int \<Rightarrow> int \<Rightarrow> (int \<times> int) list" where
  "core_pairs q [] physical core = []"
| "core_pairs q (line # lines) physical core =
     (let physical = (if q_startsWith q line ''physical id''
            then (case q_split q '': '' line of _ # f # _ \<Rightarrow> q_toInt q f | _ \<Rightarrow> physical) else physical)
      in if q_startsWith q line ''core id''
         then let core = (case q_split q '': '' line of _ # f # _ \<Rightarrow> q_toInt q f | _ \<Rightarrow> core)
              in (physical, core) # core_pairs q lines physical core
         else core_pairs q lines physical core)"

text \<open>The result and the static variable, which is used as soon as it is not zero.\<close>

definition getCpuPhysicalCoreCount :: "qt \<Rightarrow> machine \<Rightarrow> nat \<Rightarrow> nat \<times> nat" where
  "getCpuPhysicalCoreCount q mc cached_n =
     (if cached_n \<noteq> 0 then (cached_n, cached_n)
      else let cpuinfo = readListFromFile q mc ''/proc/cpuinfo'';
               n = (if cpuinfo = [] then 0 else length (remdups (core_pairs q cpuinfo 0 0)))
           in (n, n))"

text \<open>The static variable is a \<open>quint8\<close>.\<close>

definition getCpuCoreCount :: "qt \<Rightarrow> machine \<Rightarrow> byte \<Rightarrow> nat \<times> byte" where
  "getCpuCoreCount q mc cached_n =
     (if cached_n \<noteq> 0 then (unat cached_n, cached_n)
      else let cpuinfo = readListFromFile q mc ''/proc/cpuinfo'';
               n = (if cpuinfo = [] then 0 else of_nat (length (q_filter q ''^processor'' cpuinfo)))
           in (unat n, n))"

definition getLoadAvgs :: "qt \<Rightarrow> machine \<Rightarrow> real list" where
  "getLoadAvgs q mc =
     (let l = q_split_ws q (readStringFromFile mc ''/proc/loadavg'')
      in if length l > 2 then map (q_toDouble q) (take 3 l) else [0, 0, 0])"

definition getAvgClock :: "qt \<Rightarrow> machine \<Rightarrow> real option" where
  "getAvgClock q mc =
     do {
       lines \<leftarrow> exec_lines q mc LSCPU_COMMAND;
       l \<leftarrow> list_at (q_filter q ''^CPU MHz'' lines) 0;
       v \<leftarrow> list_last (q_split q '':'' l);
       Some (q_toDouble q v)
     }"

definition getClocks :: "qt \<Rightarrow> machine \<Rightarrow> real list option" where
  "getClocks q mc =
     those (map (\<lambda>l. map_option (q_toDouble q) (list_last (q_split q '':'' l)))
       (q_filter q ''^cpu MHz'' (readListFromFile q mc ''/proc/cpuinfo'')))"

text \<open>A line of \<open>lscpu\<close>: the text behind the last colon of the first line that matches.\<close>

definition lscpu_field :: "qt \<Rightarrow> machine \<Rightarrow> string \<Rightarrow> string option" where
  "lscpu_field q mc name =
     do {
       lines \<leftarrow> exec_lines q mc LSCPU_COMMAND;
       if lines = [] then Some []
       else do {
         qsTemp \<leftarrow> list_at (q_filter q name lines) 0;
         if qsTemp = [] then Some [] else map_option (q_trimmed q) (list_last (q_split q '':'' qsTemp))
       }
     }"

definition getCpuVendor :: "qt \<Rightarrow> machine \<Rightarrow> string option" where "getCpuVendor q mc = lscpu_field q mc ''Vendor ID''"
definition getCpuFamily :: "qt \<Rightarrow> machine \<Rightarrow> string option" where "getCpuFamily q mc = lscpu_field q mc ''CPU family''"
definition getCpuModel :: "qt \<Rightarrow> machine \<Rightarrow> string option" where "getCpuModel q mc = lscpu_field q mc ''Model''"
definition getCpuModelName :: "qt \<Rightarrow> machine \<Rightarrow> string option" where "getCpuModelName q mc = lscpu_field q mc ''Model name''"

text \<open>An empty field stays zero, as \<open>toDouble\<close> of an empty text does.\<close>

definition getCpuMHZ :: "qt \<Rightarrow> machine \<Rightarrow> nat option" where
  "getCpuMHZ q mc = map_option (\<lambda>t. if t = [] then 0 else nat \<lfloor>q_toDouble q t\<rfloor>) (lscpu_field q mc ''CPU MHz'')"

definition getCpuCache :: "qt \<Rightarrow> machine \<Rightarrow> nat option" where
  "getCpuCache q mc =
     do {
       qsCache \<leftarrow> lscpu_field q mc ''L3 cache'';
       if qsCache = [] then Some 0
       else do {
         k \<leftarrow> list_at (q_split q ''K'' qsCache) 0;
         Some (nat (q_toULongLong q k * 1024 mod 2 ^ 64))
       }
     }"

section \<open>Network\<close>

record NetworkInfo =
  defaultNetworkInterface :: string
  rxPath :: string
  txPath :: string
  m_qvecNet :: "ST_NETIPINFO list"

definition NetworkInfo_ctor :: "machine \<Rightarrow> NetworkInfo" where
  "NetworkInfo_ctor mc =
     (let d = (case find (\<lambda>n. if_up n \<and> if_running n \<and> \<not> if_loopback n) (mc_interfaces mc) of None \<Rightarrow> [] | Some n \<Rightarrow> if_name n)
      in \<lparr>defaultNetworkInterface = d, rxPath = ''/sys/class/net/'' @ d @ ''/statistics/rx_bytes'',
          txPath = ''/sys/class/net/'' @ d @ ''/statistics/tx_bytes'', m_qvecNet = []\<rparr>)"

definition getRXbytes :: "qt \<Rightarrow> machine \<Rightarrow> NetworkInfo \<Rightarrow> u64" where
  "getRXbytes q mc n = word_of_int (q_toLong q (q_trimmed q (readStringFromFile mc (rxPath n))))"

definition getTXbytes :: "qt \<Rightarrow> machine \<Rightarrow> NetworkInfo \<Rightarrow> u64" where
  "getTXbytes q mc n = word_of_int (q_toLong q (q_trimmed q (readStringFromFile mc (txPath n))))"

text \<open>\<open>getNetInfo\<close>: one entry for every address of version 4 but \<open>127.0.0.1\<close>, appended.\<close>

definition net_entries :: "interface \<Rightarrow> ST_NETIPINFO list" where
  "net_entries n =
     map (\<lambda>e. \<lparr>qsNetName = if_name n, qsIp = ae_ip e, qsMac = if_mac n, qsMask = ae_mask e, qsBroadCast = ae_broadcast e\<rparr>)
       (filter (\<lambda>e. \<not> ae_null e \<and> ae_ipv4 e \<and> ae_ip e \<noteq> ''127.0.0.1'') (if_entries n))"

definition getNetInfo :: "machine \<Rightarrow> NetworkInfo \<Rightarrow> NetworkInfo" where
  "getNetInfo mc n = n\<lparr>m_qvecNet := m_qvecNet n @ concat (map net_entries (mc_interfaces mc))\<rparr>"

section \<open>Disks\<close>

record Disk =
  dk_name :: string
  dk_device :: string
  dk_fileSystemType :: string
  dk_size :: u64
  dk_free :: u64
  dk_used :: u64

record DiskHardInfo =
  hd_qsName :: string
  hd_qsCaption :: string
  hd_qsFileSystemType :: string
  hd_qsSerialNo :: string
  hd_qsManufauturer :: string
  hd_qlSize :: nat
  hd_qsHotPlug :: string

definition updateDiskInfo :: "machine \<Rightarrow> Disk list" where
  "updateDiskInfo mc =
     map (\<lambda>v. \<lparr>dk_name = vol_name v, dk_device = vol_device v, dk_fileSystemType = vol_type v, dk_size = vol_total v,
               dk_free = vol_free v, dk_used = vol_total v - vol_free v\<rparr>)
       (filter vol_valid (mc_volumes mc))"

text \<open>The lists \<open>devices\<close> and \<open>fileSystemTypes\<close> have no given order.\<close>

definition devices :: "machine \<Rightarrow> string set" where
  "devices mc = vol_device ` set (filter vol_valid (mc_volumes mc))"

definition fileSystemTypes :: "machine \<Rightarrow> string set" where
  "fileSystemTypes mc = vol_type ` set (filter vol_valid (mc_volumes mc))"

definition getDiskNames :: "machine \<Rightarrow> string list" where
  "getDiskNames mc = map fst (filter snd (mc_blocks mc))"

definition getDiskIO :: "qt \<Rightarrow> machine \<Rightarrow> string list \<Rightarrow> u64 \<times> u64" where
  "getDiskIO q mc diskNames =
     foldl (\<lambda>(r, w) d.
       let st = q_split_ws q (q_trimmed q (readStringFromFile mc (''/sys/block/'' @ d @ ''/stat'')))
       in if length st > 7
          then (r + word_of_int (q_toLong q (st ! 2) * 512), w + word_of_int (q_toLong q (st ! 6) * 512)) else (r, w))
       (0, 0) diskNames"

fun df_type :: "qt \<Rightarrow> string \<Rightarrow> string list \<Rightarrow> string option" where
  "df_type q name [] = Some []"
| "df_type q name (l # ls) =
     do {
       f \<leftarrow> list_at (q_split_ws q l) 0;
       if q_indexOf q f name \<noteq> - 1 then list_at (q_split_ws q l) 1 else df_type q name ls
     }"

definition getFileTypeByDiskName :: "qt \<Rightarrow> machine \<Rightarrow> string \<Rightarrow> string option" where
  "getFileTypeByDiskName q mc qsDiskName = exec_lines q mc ''df -T'' \<bind> df_type q qsDiskName"

definition after_eq :: "qt \<Rightarrow> string list \<Rightarrow> nat \<Rightarrow> string option" where
  "after_eq q fs i = list_at fs i \<bind> (\<lambda>t. list_last (q_split q ''='' t))"

text \<open>One line of \<open>lsblk\<close>; only names that begin with \<open>sd\<close>.\<close>

definition disk_line :: "qt \<Rightarrow> machine \<Rightarrow> string \<Rightarrow> string \<Rightarrow> DiskHardInfo list option" where
  "disk_line q mc eachDiskName echoLine =
     do {
       let fs = q_split_ws q (q_remove q echoLine [CHR 0x22]);
       qsDiskName \<leftarrow> after_eq q fs 0;
       if q_indexOf q qsDiskName eachDiskName \<noteq> - 1 \<and> q_indexOf q qsDiskName ''sd'' = 0
       then do {
         typ' \<leftarrow> getFileTypeByDiskName q mc qsDiskName;
         cap \<leftarrow> after_eq q fs 3;
         ser \<leftarrow> after_eq q fs 4;
         sz \<leftarrow> after_eq q fs 5;
         g \<leftarrow> list_at (q_split q ''G'' sz) 0;
         man \<leftarrow> after_eq q fs 6;
         plug \<leftarrow> after_eq q fs 7;
         Some [\<lparr>hd_qsName = qsDiskName, hd_qsCaption = cap, hd_qsFileSystemType = typ', hd_qsSerialNo = ser,
                hd_qsManufauturer = man, hd_qlSize = nat \<lfloor>q_toDouble q g * 1024 * 1024\<rfloor>, hd_qsHotPlug = plug\<rparr>]
       }
       else Some []
     }"

definition getDiskInfo :: "qt \<Rightarrow> machine \<Rightarrow> string list \<Rightarrow> DiskHardInfo list option" where
  "getDiskInfo q mc diskNames =
     map_option concat (those (map (\<lambda>d. do {
         lines \<leftarrow> exec_lines q mc PROC_LSBLK;
         map_option concat (those (map (disk_line q mc d) lines))
       }) diskNames))"

section \<open>System\<close>

record SystemInfo =
  sy_cpuCore :: string
  sy_cpuModel :: string
  sy_cpuSpeed :: string
  sy_username :: string
  sy_lastUpTime :: string
  sy_osVersion :: string
  sy_osDescription :: string
  sy_osLanguage :: string
  sy_osInstallTime :: string

definition getLastUpTime :: "qt \<Rightarrow> machine \<Rightarrow> SystemInfo \<Rightarrow> SystemInfo option" where
  "getLastUpTime q mc s =
     do {
       lines \<leftarrow> exec_lines q mc ''who -b'';
       case lines of [] \<Rightarrow> Some s | l # _ \<Rightarrow> Some (s\<lparr>sy_lastUpTime := q_mid q l (q_index_ws q l + 1) (- 1)\<rparr>)
     }"

fun os_version :: "qt \<Rightarrow> string list \<Rightarrow> SystemInfo \<Rightarrow> SystemInfo option" where
  "os_version q [] s = Some s"
| "os_version q (l # ls) s =
     (case q_split q [CHR 0x09] l of
        [] \<Rightarrow> None
      | f # fs \<Rightarrow>
          let v = last (f # fs)
          in os_version q ls
               (if v = [] then s
                else if f = ''Release:'' then s\<lparr>sy_osVersion := v\<rparr>
                else if f = ''Description:'' then s\<lparr>sy_osDescription := v\<rparr>
                else s))"

definition getOsVersion :: "qt \<Rightarrow> machine \<Rightarrow> SystemInfo \<Rightarrow> SystemInfo option" where
  "getOsVersion q mc s = exec_lines q mc ''lsb_release -a'' \<bind> (\<lambda>lines. os_version q lines s)"

definition getOsLanguage :: "qt \<Rightarrow> machine \<Rightarrow> SystemInfo \<Rightarrow> SystemInfo option" where
  "getOsLanguage q mc s =
     do {
       lines \<leftarrow> exec_lines q mc ''echo $LANG'';
       case lines of [] \<Rightarrow> Some s | l # _ \<Rightarrow> Some (s\<lparr>sy_osLanguage := l\<rparr>)
     }"

fun install_time :: "qt \<Rightarrow> string list \<Rightarrow> string option option" where
  "install_time q [] = Some None"
| "install_time q (l # ls) =
     do {
       let fs = q_split_ws q l;
       n \<leftarrow> list_last fs;
       if n = ''lost+found''
       then do {
         d \<leftarrow> list_at fs 5;
         t \<leftarrow> list_at fs 6;
         Some (Some (d @ '' '' @ q_mid q t 0 (q_indexOf q t ''.'')))
       }
       else install_time q ls
     }"

definition getOsInstallTime :: "qt \<Rightarrow> machine \<Rightarrow> SystemInfo \<Rightarrow> SystemInfo option" where
  "getOsInstallTime q mc s =
     do {
       lines \<leftarrow> exec_lines q mc ''ls / --full-time'';
       t \<leftarrow> install_time q lines;
       Some (case t of None \<Rightarrow> s | Some x \<Rightarrow> s\<lparr>sy_osInstallTime := x\<rparr>)
     }"

text \<open>The model and speed of the processor; a command that throws makes both unknown.\<close>

definition cpu_texts :: "qt \<Rightarrow> machine \<Rightarrow> (string \<times> string) option" where
  "cpu_texts q mc =
     (case exec_lines q mc LSCPU_COMMAND of
        None \<Rightarrow> Some (''Unknown'', ''Unknown'')
      | Some lines \<Rightarrow>
          let ms = q_filter q ''^Model name'' lines;
              modelLine = (case ms of [] \<Rightarrow> ''error missing model:error missing model'' | l # _ \<Rightarrow> l);
              speedLine = (if q_filter q ''^CPU max MHz'' lines = []
                then (case q_filter q ''^CPU MHz'' lines of [] \<Rightarrow> ''error:0.0'' | l # _ \<Rightarrow> l) else ''error:0.0'')
          in do {
               m \<leftarrow> list_last (q_split q '':'' modelLine);
               v \<leftarrow> list_last (q_split q '':'' speedLine);
               m \<leftarrow> (if q_indexOf q m ''@'' \<noteq> - 1 then list_at (q_split q ''@'' m) 0 else Some m);
               Some (q_replace_ws q (q_trimmed q m),
                 q_replace_ws q (q_trimmed q (q_number q (q_toDouble q v / 1000) @ ''GHz'')))
             })"

definition user_name :: "qt \<Rightarrow> machine \<Rightarrow> string" where
  "user_name q mc =
     (if mc_env mc ''USER'' \<noteq> [] then mc_env mc ''USER''
      else if mc_env mc ''USERNAME'' \<noteq> [] then mc_env mc ''USERNAME''
      else case mc_exec mc ''whoami'' of None \<Rightarrow> [] | Some t \<Rightarrow> q_trimmed q t)"

definition SystemInfo_ctor :: "qt \<Rightarrow> machine \<Rightarrow> nat \<Rightarrow> (SystemInfo \<times> nat) option" where
  "SystemInfo_ctor q mc cached_n =
     do {
       (model, speed) \<leftarrow> cpu_texts q mc;
       let (n, cached_n) = getCpuPhysicalCoreCount q mc cached_n;
       let s = \<lparr>sy_cpuCore = print_int (int n), sy_cpuModel = model, sy_cpuSpeed = speed, sy_username = user_name q mc,
                sy_lastUpTime = [], sy_osVersion = [], sy_osDescription = [], sy_osLanguage = [], sy_osInstallTime = []\<rparr>;
       s \<leftarrow> getLastUpTime q mc s;
       s \<leftarrow> getOsVersion q mc s;
       s \<leftarrow> getOsLanguage q mc s;
       s \<leftarrow> getOsInstallTime q mc s;
       Some (s, cached_n)
     }"

text \<open>\<open>getUserList\<close> and \<open>getGroupList\<close>: the first field of every line.\<close>

definition first_fields :: "qt \<Rightarrow> machine \<Rightarrow> string \<Rightarrow> string list option" where
  "first_fields q mc path = those (map (\<lambda>row. list_at (q_split q '':'' row) 0) (readListFromFile q mc path))"

definition getUserList :: "qt \<Rightarrow> machine \<Rightarrow> string list option" where "getUserList q mc = first_fields q mc ''/etc/passwd''"
definition getGroupList :: "qt \<Rightarrow> machine \<Rightarrow> string list option" where "getGroupList q mc = first_fields q mc ''/etc/group''"

section \<open>The report of the device\<close>

text \<open>What \<open>GetDevInfo\<close> of the registration collects, when no collector throws.\<close>

definition disk_report :: "DiskHardInfo \<Rightarrow> ST_DISK_INFO" where
  "disk_report d =
     \<lparr>strDiskId = [], strCaption = hd_qsName d, strType = hd_qsFileSystemType d, strSerialNo = hd_qsSerialNo d,
      strManufauturer = hd_qsManufauturer d, disk_nSize = hd_qlSize d, strHotPlug = hd_qsHotPlug d\<rparr>"

definition volume_report :: "Disk \<Rightarrow> ST_LOGICAL_DISK" where
  "volume_report d =
     \<lparr>strDeviceId = dk_name d, strFileType = dk_fileSystemType d, ld_nSize = unat (dk_size d), nFreeSize = unat (dk_free d)\<rparr>"

definition collect :: "qt \<Rightarrow> machine \<Rightarrow> MemoryInfo \<Rightarrow> nat \<Rightarrow> DEV_SOURCE option" where
  "collect q mc m0 cached_n =
     do {
       (sy, _) \<leftarrow> SystemInfo_ctor q mc cached_n;
       fam \<leftarrow> getCpuFamily q mc;
       model \<leftarrow> getCpuModel q mc;
       name \<leftarrow> getCpuModelName q mc;
       vendor \<leftarrow> getCpuVendor q mc;
       mhz \<leftarrow> getCpuMHZ q mc;
       cache \<leftarrow> getCpuCache q mc;
       m \<leftarrow> updateMemoryInfo q mc m0;
       disks \<leftarrow> getDiskInfo q mc (getDiskNames mc);
       Some \<lparr>src_net = m_qvecNet (getNetInfo mc (NetworkInfo_ctor mc)), src_user = sy_username sy, src_host = mc_host mc,
         src_os = \<lparr>strOsName = sy_osDescription sy, strOsVersion = sy_osVersion sy, strOsLanguage = sy_osLanguage sy,
           strLastUpTime = sy_lastUpTime sy, strArchitecture = mc_arch mc, strInstallTime = sy_osInstallTime sy\<rparr>,
         src_cpu = \<lparr>strProcessorId = [], strVendorId = vendor, strCpuFamily = fam, strModel = model, strModelName = name,
           nCpuMHZ = mhz, nCacheSize = cache\<rparr>,
         src_mem = \<lparr>nMemSize = unat (memTotal m), nUsedSize = unat (memUsed m)\<rparr>,
         src_disks = map disk_report disks, src_parts = map volume_report (updateDiskInfo mc)\<rparr>
     }"

section \<open>Memory in the report\<close>

text \<open>
  The lines of \<open>/proc/meminfo\<close> the filter keeps, in the order of the kernel: \<open>Shmem\<close> stands in front of
  \<open>SReclaimable\<close>.
\<close>

definition meminfo_line :: "string \<Rightarrow> nat \<Rightarrow> string" where
  "meminfo_line name v = name @ '': '' @ digits_of v @ '' kB''"

definition meminfo_names :: "string list" where
  "meminfo_names = [''MemTotal'', ''MemFree'', ''Buffers'', ''Cached'', ''SwapTotal'', ''SwapFree'', ''Shmem'', ''SReclaimable'']"

definition meminfo_lines :: "nat list \<Rightarrow> string list" where
  "meminfo_lines vs = map2 meminfo_line meminfo_names vs"

text \<open>What Qt does with these lines: it keeps them, splits them at the white space, and reads decimal numbers.\<close>

definition reads_meminfo :: "qt \<Rightarrow> machine \<Rightarrow> nat list \<Rightarrow> bool" where
  "reads_meminfo q mc vs \<longleftrightarrow>
     length vs = 8
     \<and> (\<exists>more. q_filter q meminfo_filter (readListFromFile q mc ''/proc/meminfo'') = meminfo_lines vs @ more)
     \<and> list_all (\<lambda>(n, v). q_split_ws q (meminfo_line n v) = [n @ '':'', digits_of v, ''kB''] \<and> q_toLong q (digits_of v) = int v)
          (zip meminfo_names vs)"

lemma getValue_meminfo:
  assumes "reads_meminfo q mc vs" "i < 8"
  shows "getValue q (q_filter q meminfo_filter (readListFromFile q mc ''/proc/meminfo'')) i = Some (of_nat (vs ! i * 1024))"
proof -
  obtain more where m: "q_filter q meminfo_filter (readListFromFile q mc ''/proc/meminfo'') = meminfo_lines vs @ more"
    using assms(1) by (auto simp: reads_meminfo_def)
  have len: "length (meminfo_lines vs) = 8" "length meminfo_names = 8" "length vs = 8"
    using assms(1) by (simp_all add: meminfo_lines_def meminfo_names_def reads_meminfo_def)
  have "(meminfo_lines vs @ more) ! i = meminfo_line (meminfo_names ! i) (vs ! i)"
    using assms(2) len by (simp add: nth_append meminfo_lines_def)
  moreover have "word_of_int (int (vs ! i) * 1024) = (of_nat (vs ! i * 1024) :: u64)" by simp
  moreover have "(meminfo_names ! i, vs ! i) \<in> set (zip meminfo_names vs)" using assms(2) len by (auto simp: in_set_zip)
  then have "q_split_ws q (meminfo_line (meminfo_names ! i) (vs ! i)) = [meminfo_names ! i @ '':'', digits_of (vs ! i), ''kB'']"
    "q_toLong q (digits_of (vs ! i)) = int (vs ! i)"
    using assms(1) by (auto simp: reads_meminfo_def list_all_iff)
  ultimately show ?thesis using assms(2) len by (simp add: getValue_def m list_at_def)
qed

lemma updateMemoryInfo_meminfo:
  assumes "reads_meminfo q mc vs"
  shows "\<exists>m. updateMemoryInfo q mc m0 = Some m \<and> memTotal m = of_nat (vs ! 0 * 1024)
    \<and> memUsed m = of_nat (vs ! 0 * 1024)
        - (of_nat (vs ! 1 * 1024) + of_nat (vs ! 2 * 1024) + (of_nat (vs ! 3 * 1024) + of_nat (vs ! 6 * 1024) - of_nat (vs ! 7 * 1024)))"
  using getValue_meminfo [OF assms] by (simp add: updateMemoryInfo_def Let_def)

text \<open>
  The memory in the report of the device.  Its size is that of \<open>MemTotal\<close>.  The memory in use is meant to be
  \<open>MemTotal - MemFree - Buffers - (Cached + SReclaimable - Shmem)\<close>, but the last two lines are read in the wrong order:
  when the report is built from the collectors, the number given differs from this one by twice the difference of
  \<open>SReclaimable\<close> and \<open>Shmem\<close>.
\<close>

theorem reported_memory:
  assumes "collect q mc m0 n0 = Some src" "GetDevInfo src sc = Some sc'"
    "reads_meminfo q mc [tot, fre, buf, cac, st, sf, shm, srec]"
    "tot < 2 ^ 50" "fre + buf + cac + shm \<le> tot" "srec \<le> cac" "fre + buf + cac + srec \<le> tot"
  shows "nMemSize (stMemInfo (m_stDevInfo sc')) = tot * 1024
    \<and> int (nUsedSize (stMemInfo (m_stDevInfo sc')))
        = (int tot - int fre - int buf - (int cac + int srec - int shm)) * 1024 + 2 * (int srec - int shm) * 1024"
proof -
  obtain m where m: "updateMemoryInfo q mc m0 = Some m" "memTotal m = of_nat (tot * 1024)"
    "memUsed m = of_nat (tot * 1024) - (of_nat (fre * 1024) + of_nat (buf * 1024)
       + (of_nat (cac * 1024) + of_nat (shm * 1024) - of_nat (srec * 1024)))"
    using updateMemoryInfo_meminfo [OF assms(3), of m0] by (auto simp: eval_nat_numeral(2,3))
  have src: "src_mem src = \<lparr>nMemSize = unat (memTotal m), nUsedSize = unat (memUsed m)\<rparr>"
    using assms(1) m(1) by (auto simp: collect_def bind_eq_Some_conv)
  have dev: "stMemInfo (m_stDevInfo sc') = (stMemInfo (m_stDevInfo sc))\<lparr>nMemSize := unat (memTotal m), nUsedSize := unat (memUsed m)\<rparr>"
    using assms(2) src by (auto simp: GetDevInfo_def Let_def)
  have "memUsed m = of_nat ((tot + srec - fre - buf - cac - shm) * 1024)"
    using assms(5) by (simp add: m(3) of_nat_diff algebra_simps)
  moreover have "(tot + srec - fre - buf - cac - shm) * 1024 < 2 ^ 64" "tot * 1024 < 2 ^ 64" using assms(4,6) by simp_all
  moreover have u: "unat (of_nat x :: u64) = x" if "x < 2 ^ 64" for x
    using that by (simp add: unsigned_of_nat take_bit_nat_eq_self)
  ultimately have "unat (memUsed m) = (tot + srec - fre - buf - cac - shm) * 1024" "unat (memTotal m) = tot * 1024"
    unfolding m(2) by (simp_all only: u)
  then show ?thesis using dev assms(5) by (simp add: of_nat_diff algebra_simps)
qed

section \<open>A sample machine\<close>

text \<open>Operations on texts as Qt documents them, as far as the sample needs them.\<close>

fun split_on :: "char \<Rightarrow> string \<Rightarrow> string list" where
  "split_on c [] = [[]]"
| "split_on c (x # t) = (if x = c then [] # split_on c t else case split_on c t of [] \<Rightarrow> [[x]] | f # fs \<Rightarrow> (x # f) # fs)"

definition sample_qt :: "string list \<Rightarrow> qt" where
  "sample_qt mem =
     \<lparr>q_trimmed = (\<lambda>t. t), q_split = (\<lambda>sep t. split_on (hd sep) t), q_split_ws = split_on (CHR '' ''),
      q_filter = (\<lambda>r ls. if r = meminfo_filter then filter (\<lambda>l. l \<in> set mem) ls else ls),
      q_startsWith = (\<lambda>t p. take (length p) t = p), q_indexOf = (\<lambda>t p. if take (length p) t = p then 0 else - 1),
      q_index_ws = (\<lambda>_. - 1), q_mid = (\<lambda>t _ _. t), q_remove = (\<lambda>t _. t), q_replace_ws = (\<lambda>t. t),
      q_toInt = atoi, q_toLong = atoi, q_toULongLong = atoi, q_toDouble = (\<lambda>t. of_int (atoi t)), q_number = (\<lambda>_. [])\<rparr>"

definition sample_meminfo :: "nat list" where
  "sample_meminfo = [8, 1, 1, 2, 0, 0, 1, 1]"

definition sample_machine :: machine where
  "sample_machine =
     \<lparr>mc_files = [''/proc/meminfo'' \<mapsto> concat (map (\<lambda>l. l @ [newline]) (meminfo_lines sample_meminfo))], mc_exec = (\<lambda>_. Some ''a:b''),
      mc_env = (\<lambda>_. ''u''), mc_interfaces = [], mc_volumes = [], mc_blocks = [], mc_host = ''h'', mc_arch = ''x86_64''\<rparr>"

definition sample_q :: qt where "sample_q = sample_qt (meminfo_lines sample_meminfo)"

lemma sample_digits: "digits_of 0 = ''0''" "digits_of 1 = ''1''" "digits_of 2 = ''2''" "digits_of 8 = ''8''" "digits_of (Suc 0) = ''1''"
  by code_simp+

lemma sample_lines:
  "meminfo_lines sample_meminfo = [''MemTotal: 8 kB'', ''MemFree: 1 kB'', ''Buffers: 1 kB'', ''Cached: 2 kB'', ''SwapTotal: 0 kB'', ''SwapFree: 0 kB'', ''Shmem: 1 kB'', ''SReclaimable: 1 kB'']"
  by (simp add: meminfo_lines_def meminfo_names_def sample_meminfo_def meminfo_line_def sample_digits)

lemma sample_atoi: "atoi ''0'' = 0" "atoi ''1'' = 1" "atoi ''2'' = 2" "atoi ''8'' = 8"
  by (simp_all add: atoi_def is_space_def digits_val_def is_digit_def)

lemma sample_reads: "reads_meminfo sample_q sample_machine sample_meminfo"
proof -
  have "q_filter sample_q meminfo_filter (readListFromFile sample_q sample_machine ''/proc/meminfo'') = meminfo_lines sample_meminfo @ []"
    unfolding sample_lines by (simp add: readListFromFile_def readStringFromFile_def sample_machine_def sample_lines sample_q_def sample_qt_def)
  moreover have "list_all (\<lambda>(n, v). q_split_ws sample_q (meminfo_line n v) = [n @ '':'', digits_of v, ''kB'']
      \<and> q_toLong sample_q (digits_of v) = int v) (zip meminfo_names sample_meminfo)"
    by (simp add: sample_meminfo_def meminfo_names_def meminfo_line_def sample_q_def sample_qt_def sample_digits sample_atoi)
  ultimately show ?thesis unfolding reads_meminfo_def by (auto simp: sample_meminfo_def)
qed

lemma sample_collect: "\<exists>src. collect sample_q sample_machine m0 n0 = Some src \<and> src_net src = []"
proof -
  obtain m where m: "updateMemoryInfo sample_q sample_machine m0 = Some m" using updateMemoryInfo_meminfo [OF sample_reads] by blast
  have l: "lscpu_field sample_q sample_machine n = Some ''b''" if "n \<noteq> meminfo_filter" for n
    using that by (simp add: lscpu_field_def exec_lines_def sample_machine_def sample_q_def sample_qt_def list_at_def list_last_def)
  have "\<exists>r. SystemInfo_ctor sample_q sample_machine n0 = Some r"
    by (auto simp: SystemInfo_ctor_def cpu_texts_def getLastUpTime_def getOsVersion_def getOsLanguage_def getOsInstallTime_def exec_lines_def
        sample_machine_def sample_q_def sample_qt_def list_at_def list_last_def meminfo_filter_def Let_def split: prod.split)
  moreover have "getDiskInfo sample_q sample_machine (getDiskNames sample_machine) = Some []"
    by (simp add: getDiskInfo_def getDiskNames_def sample_machine_def)
  moreover have "m_qvecNet (getNetInfo sample_machine (NetworkInfo_ctor sample_machine)) = []"
    by (simp add: getNetInfo_def NetworkInfo_ctor_def sample_machine_def Let_def)
  moreover have "q_split sample_q ''K'' ''b'' = [''b'']" by (simp add: sample_q_def sample_qt_def)
  then have "\<exists>x. getCpuMHZ sample_q sample_machine = Some x" "\<exists>x. getCpuCache sample_q sample_machine = Some x"
    by (simp_all add: getCpuMHZ_def getCpuCache_def l meminfo_filter_def list_at_def)
  ultimately show ?thesis using m l
    by (auto simp: collect_def getCpuFamily_def getCpuModel_def getCpuModelName_def getCpuVendor_def meminfo_filter_def)
qed

definition sample_mem :: MemoryInfo where
  "sample_mem =
     \<lparr>memTotal = 0, memFree = 0, memUsed = 0, buffers = 0, cached = 0, sreclaimable = 0, shmem = 0, swapTotal = 0, swapFree = 0, swapUsed = 0\<rparr>"

end
