(* ===== verification/SysUtil.thy ===== *)
theory SysUtil
  imports SysInfo
begin

text \<open>
  What the collectors compute over time and over directories: the usage of the processors
  (\<open>getCpuPercents\<close> of \<open>src/public/cpu/cpu_info.cpp\<close>), the size of a directory (\<open>src/public/utils/file_util.cpp\<close>),
  commands (\<open>command_util.cpp\<close>) and sizes as texts (\<open>format_util.cpp\<close>).

  Numbers of type \<open>double\<close> are reals; the argument \<open>rnd\<close> is the rounding after each operation.
\<close>

section \<open>Usage of the processors\<close>

text \<open>The static variables: the number of processors and the two vectors, which the first call creates.\<close>

record cpu_statics =
  cs_count :: byte
  cs_vecs :: "(real list \<times> real list) option"

text \<open>The conversion to \<open>int\<close> cuts the fraction off; outside the range it is not defined.\<close>

definition double_to_int :: "real \<Rightarrow> int option" where
  "double_to_int x =
     (let z = (if x < 0 then - \<lfloor>- x\<rfloor> else \<lfloor>x\<rfloor>) in if - (2 ^ 31) \<le> z \<and> z < 2 ^ 31 then Some z else None)"

definition clamp_percent :: "int \<Rightarrow> int" where
  "clamp_percent utilisation = (if utilisation > 100 then 100 else if utilisation < 0 then 0 else utilisation)"

definition getCpuPercent ::
    "qt \<Rightarrow> (real \<Rightarrow> real) \<Rightarrow> machine \<Rightarrow> real list \<Rightarrow> nat \<Rightarrow> cpu_statics \<Rightarrow> (int \<times> cpu_statics) option" where
  "getCpuPercent q rnd mc cpuTimes processor cs =
     (let (c, cnt) = getCpuCoreCount q mc (cs_count cs);
          N = c + 1;
          (l_idles, l_totals) = (case cs_vecs cs of None \<Rightarrow> (replicate N 0, replicate N 0) | Some v \<Rightarrow> v)
      in if cpuTimes = [] then Some (0, cs\<lparr>cs_count := cnt, cs_vecs := Some (l_idles, l_totals)\<rparr>)
         else do {
           t3 \<leftarrow> list_at cpuTimes 3;
           t4 \<leftarrow> list_at cpuTimes 4;
           let idle = rnd (t3 + t4);
           let sum = foldl (\<lambda>s t. rnd (s + t)) 0 cpuTimes;
           li \<leftarrow> list_at l_idles processor;
           lt \<leftarrow> list_at l_totals processor;
           let idle_delta = rnd (idle - li);
           let total_delta = rnd (sum - lt);
           utilisation \<leftarrow> (if total_delta \<noteq> 0 then double_to_int (rnd (100 * rnd (rnd (total_delta - idle_delta) / total_delta)))
                           else Some 0);
           Some (clamp_percent utilisation,
             cs\<lparr>cs_count := cnt, cs_vecs := Some (l_idles[processor := idle], l_totals[processor := sum])\<rparr>)
         })"

text \<open>The numbers of one line of \<open>/proc/stat\<close>.\<close>

definition stat_times :: "qt \<Rightarrow> string list \<Rightarrow> nat \<Rightarrow> real list option" where
  "stat_times q stat i =
     do {
       t \<leftarrow> list_at stat i;
       case q_split_ws q t of [] \<Rightarrow> None | _ # n_times \<Rightarrow> Some (map (q_toDouble q) n_times)
     }"

fun percents_loop ::
    "qt \<Rightarrow> (real \<Rightarrow> real) \<Rightarrow> machine \<Rightarrow> string list \<Rightarrow> nat list \<Rightarrow> cpu_statics \<Rightarrow> (int list \<times> cpu_statics) option" where
  "percents_loop q rnd mc stat [] cs = Some ([], cs)"
| "percents_loop q rnd mc stat (i # is) cs =
     do {
       cpuTimes \<leftarrow> stat_times q stat i;
       (p, cs) \<leftarrow> getCpuPercent q rnd mc cpuTimes i cs;
       (ps, cs) \<leftarrow> percents_loop q rnd mc stat is cs;
       Some (p # ps, cs)
     }"

definition getCpuPercents :: "qt \<Rightarrow> (real \<Rightarrow> real) \<Rightarrow> machine \<Rightarrow> cpu_statics \<Rightarrow> (int list \<times> cpu_statics) option" where
  "getCpuPercents q rnd mc cs =
     (let stat = readListFromFile q mc ''/proc/stat''
      in if stat = [] then Some ([], cs)
         else let (c, cnt) = getCpuCoreCount q mc (cs_count cs)
              in percents_loop q rnd mc stat [0..<c + 1] (cs\<lparr>cs_count := cnt\<rparr>))"

section \<open>Sizes of directories\<close>

text \<open>
  What Qt reports of a path: a file with its size, a directory with the absolute paths of its files and directories
  (links to them included), or something else.
\<close>

datatype fs_node = FN_file u64 | FN_dir "string list" | FN_other

text \<open>The first argument bounds the depth of the recursion.\<close>

primrec getFileSize :: "nat \<Rightarrow> (string \<rightharpoonup> fs_node) \<Rightarrow> string \<Rightarrow> u64 option" where
  "getFileSize 0 fs path = None"
| "getFileSize (Suc n) fs path =
     (case fs path of
        None \<Rightarrow> Some 0
      | Some (FN_file s) \<Rightarrow> Some (0 + s)
      | Some (FN_dir entries) \<Rightarrow>
          foldl (\<lambda>totalSize i. do { t \<leftarrow> totalSize; s \<leftarrow> getFileSize n fs i; Some (t + s) }) (Some 0) entries
      | Some FN_other \<Rightarrow> Some 0)"

section \<open>Commands and texts\<close>

text \<open>How a process ended: whether Qt reports an error, and what it printed.\<close>

record process_end =
  pe_error :: bool
  pe_output :: string

definition CommandUtil_exec ::
    "qt \<Rightarrow> (string \<Rightarrow> string list \<Rightarrow> string \<Rightarrow> process_end) \<Rightarrow> string \<Rightarrow> string list \<Rightarrow> string \<Rightarrow> string option" where
  "CommandUtil_exec q run_process cmd args data =
     (let p = run_process cmd args data in if pe_error p then None else Some (q_trimmed q (pe_output p)))"

definition sudoExec ::
    "qt \<Rightarrow> (string \<Rightarrow> string list \<Rightarrow> string \<Rightarrow> process_end) \<Rightarrow> string \<Rightarrow> string list \<Rightarrow> string \<Rightarrow> string" where
  "sudoExec q run_process cmd args data =
     (case CommandUtil_exec q run_process ''pkexec'' (cmd # args) data of None \<Rightarrow> [] | Some result \<Rightarrow> result)"

text \<open>\<open>fixed1\<close> prints a \<open>double\<close> with one decimal.\<close>

definition formatUnit :: "(real \<Rightarrow> real) \<Rightarrow> (real \<Rightarrow> string) \<Rightarrow> u64 \<Rightarrow> nat \<Rightarrow> string \<Rightarrow> string" where
  "formatUnit rnd fixed1 v u t = fixed1 (rnd (rnd (real (unat v)) / real u)) @ '' '' @ t"

definition formatBytes :: "(real \<Rightarrow> real) \<Rightarrow> (real \<Rightarrow> string) \<Rightarrow> u64 \<Rightarrow> string" where
  "formatBytes rnd fixed1 bytes =
     (if bytes = 1 then digits_of (unat bytes) @ '' byte''
      else if unat bytes < 1024 then digits_of (unat bytes) @ '' bytes''
      else if unat bytes < 1048576 then formatUnit rnd fixed1 bytes 1024 ''KiB''
      else if unat bytes < 1073741824 then formatUnit rnd fixed1 bytes 1048576 ''MiB''
      else if unat bytes < 1099511627776 then formatUnit rnd fixed1 bytes 1073741824 ''GiB''
      else formatUnit rnd fixed1 bytes 1099511627776 ''TiB'')"

section \<open>Arithmetic on counters\<close>

text \<open>The rounding of the type \<open>double\<close> keeps the order and the integers of 53 bits.\<close>

definition double_rounding :: "(real \<Rightarrow> real) \<Rightarrow> bool" where
  "double_rounding rnd \<longleftrightarrow> mono rnd \<and> (\<forall>i :: int. \<bar>i\<bar> \<le> 2 ^ 53 \<longrightarrow> rnd (of_int i) = of_int i)"

lemma rnd_int: "\<lbrakk>double_rounding rnd; \<bar>i\<bar> \<le> 2 ^ 53\<rbrakk> \<Longrightarrow> rnd (of_int i) = of_int i"
  by (simp add: double_rounding_def)

lemma rnd_nat: "\<lbrakk>double_rounding rnd; n \<le> 2 ^ 53\<rbrakk> \<Longrightarrow> rnd (real n) = real n"
  using rnd_int [of rnd "int n"] by simp

lemma rnd_diff: "\<lbrakk>double_rounding rnd; m \<le> n; n \<le> 2 ^ 53\<rbrakk> \<Longrightarrow> rnd (real n - real m) = real (n - m)"
  using rnd_nat [of rnd "n - m"] by (simp add: of_nat_diff)

lemma rnd_between:
  assumes "double_rounding rnd" "of_int a \<le> x" "x \<le> of_int b" "\<bar>a\<bar> \<le> 2 ^ 53" "\<bar>b\<bar> \<le> 2 ^ 53"
  shows "of_int a \<le> rnd x" "rnd x \<le> of_int b"
proof -
  have "mono rnd" using assms(1) by (simp add: double_rounding_def)
  then show "of_int a \<le> rnd x" "rnd x \<le> of_int b"
    using monoD [of rnd "of_int a" x] monoD [of rnd x "of_int b"] assms rnd_int [of rnd] by metis+
qed

lemma foldl_rnd:
  assumes "double_rounding rnd"
  shows "a + sum_list js \<le> 2 ^ 53 \<Longrightarrow> foldl (\<lambda>s t. rnd (s + t)) (real a) (map real js) = real (a + sum_list js)"
proof (induction js arbitrary: a)
  case (Cons j js)
  then have "rnd (real a + real j) = real (a + j)" using rnd_nat [OF assms, of "a + j"] by simp
  then show ?case using Cons.IH [of "a + j"] Cons.prems by (simp add: add.assoc)
qed simp

lemma double_to_int_percent: "\<lbrakk>0 \<le> x; x \<le> 100\<rbrakk> \<Longrightarrow> double_to_int x = Some \<lfloor>x\<rfloor> \<and> 0 \<le> \<lfloor>x\<rfloor> \<and> \<lfloor>x\<rfloor> \<le> 100"
proof -
  assume a: "0 \<le> x" "x \<le> 100"
  then have "0 \<le> \<lfloor>x\<rfloor>" "\<lfloor>x\<rfloor> \<le> 100" by (simp_all add: floor_le_iff)
  then show ?thesis using a by (simp add: double_to_int_def)
qed

section \<open>Usage between two calls\<close>

text \<open>The share of the time that was not idle, in percent.\<close>

definition usage :: "(real \<Rightarrow> real) \<Rightarrow> nat \<Rightarrow> nat \<Rightarrow> int" where
  "usage rnd idle all = (if all = 0 then 0 else \<lfloor>rnd (100 * rnd (real (all - idle) / real all))\<rfloor>)"

lemma usage_result:
  assumes "double_rounding rnd"
  shows "(if all \<noteq> 0 then double_to_int (rnd (100 * rnd (real (all - idle) / real all))) else Some 0) = Some (usage rnd idle all)
    \<and> 0 \<le> usage rnd idle all \<and> usage rnd idle all \<le> 100"
proof (cases "all = 0")
  case False
  let ?x = "real (all - idle) / real all"
  have "0 \<le> rnd ?x" "rnd ?x \<le> 1"
    using rnd_between [OF assms, of 0 ?x 1] False by (auto simp: field_simps)
  then have "0 \<le> rnd (100 * rnd ?x)" "rnd (100 * rnd ?x) \<le> 100"
    using rnd_between [OF assms, of 0 "100 * rnd ?x" 100] by auto
  then show ?thesis using double_to_int_percent False by (simp add: usage_def)
qed (simp add: usage_def)

text \<open>
  The counters of processor \<open>i\<close> in the file and at the last call: \<open>now i\<close> are the numbers of its line, \<open>idle0 i\<close> and
  \<open>all0 i\<close> the sums kept in the static vectors.  Counters only grow, and stay below \<open>2\<^sup>5\<^sup>3\<close>.
\<close>

definition idle_of :: "nat list \<Rightarrow> nat" where
  "idle_of js = js ! 3 + js ! 4"

definition counters_grow :: "nat list \<Rightarrow> nat \<Rightarrow> nat \<Rightarrow> bool" where
  "counters_grow js idle0 all0 \<longleftrightarrow>
     5 \<le> length js \<and> sum_list js \<le> 2 ^ 53 \<and> idle0 \<le> idle_of js \<and> all0 \<le> sum_list js
     \<and> idle_of js - idle0 \<le> sum_list js - all0"

definition keeps :: "cpu_statics \<Rightarrow> byte \<Rightarrow> real list \<Rightarrow> real list \<Rightarrow> bool" where
  "keeps cs n vi va \<longleftrightarrow> n \<noteq> 0 \<and> cs_count cs = n \<and> cs_vecs cs = Some (vi, va) \<and> length vi = unat n + 1 \<and> length va = unat n + 1"

lemma idle_of_le: "5 \<le> length js \<Longrightarrow> idle_of js \<le> sum_list js"
proof -
  assume a: "5 \<le> length js"
  then obtain a b c d e r where "js = a # b # c # d # e # r" by (auto simp: numeral_eq_Suc Suc_le_length_iff)
  then show ?thesis by (simp add: idle_of_def)
qed

lemma getCpuPercent_step:
  assumes "double_rounding rnd" "keeps cs n vi va" "i \<le> unat n" "vi ! i = real i0" "va ! i = real a0" "counters_grow js i0 a0"
  shows "getCpuPercent q rnd mc (map real js) i cs
      = Some (usage rnd (idle_of js - i0) (sum_list js - a0), cs\<lparr>cs_vecs := Some (vi[i := real (idle_of js)], va[i := real (sum_list js)])\<rparr>)
    \<and> 0 \<le> usage rnd (idle_of js - i0) (sum_list js - a0) \<and> usage rnd (idle_of js - i0) (sum_list js - a0) \<le> 100"
proof -
  let ?di = "idle_of js - i0" and ?da = "sum_list js - a0"
  have g: "5 \<le> length js" "sum_list js \<le> 2 ^ 53" "i0 \<le> idle_of js" "a0 \<le> sum_list js" "?di \<le> ?da"
    using assms(6) by (simp_all add: counters_grow_def)
  have le: "idle_of js \<le> 2 ^ 53" using idle_of_le [OF g(1)] g(2) by simp
  have "rnd (real (js ! 3) + real (js ! 4)) = real (idle_of js)"
    using rnd_nat [OF assms(1) le] by (simp add: idle_of_def)
  moreover have "foldl (\<lambda>s t. rnd (s + t)) 0 (map real js) = real (sum_list js)"
    using foldl_rnd [OF assms(1), of 0 js] g(2) by simp
  moreover have "rnd (real (idle_of js) - real i0) = real ?di" "rnd (real (sum_list js) - real a0) = real ?da"
    using rnd_diff [OF assms(1)] g le by simp_all
  moreover have "rnd (real ?da - real ?di) = real (?da - ?di)" using rnd_diff [OF assms(1) g(5)] g(2) by simp
  ultimately have eq: "getCpuPercent q rnd mc (map real js) i cs
      = map_option (\<lambda>u. (clamp_percent u, cs\<lparr>cs_vecs := Some (vi[i := real (idle_of js)], va[i := real (sum_list js)])\<rparr>))
          (if ?da \<noteq> 0 then double_to_int (rnd (100 * rnd (real (?da - ?di) / real ?da))) else Some 0)"
    using assms(2-5) g(1) by (auto simp: getCpuPercent_def keeps_def getCpuCoreCount_def list_at_def Let_def bind_map_option
        split: bind_splits)
  moreover note usage_result [OF assms(1), of ?da ?di]
  ultimately show ?thesis by (simp add: clamp_percent_def del: One_nat_def)
qed

text \<open>The loop over different processors: every one is measured against its own entry of the vectors.\<close>

lemma percents_loop_steps:
  assumes "double_rounding rnd" "\<And>i. i \<le> unat n \<Longrightarrow> stat_times q stat i = Some (map real (now i)) \<and> counters_grow (now i) (idle0 i) (all0 i)"
  shows "\<lbrakk>distinct is; set is \<subseteq> {..unat n}; keeps cs n vi va; \<forall>i\<in>set is. vi ! i = real (idle0 i) \<and> va ! i = real (all0 i)\<rbrakk>
    \<Longrightarrow> \<exists>cs' vi' va'. percents_loop q rnd mc stat is cs
          = Some (map (\<lambda>i. usage rnd (idle_of (now i) - idle0 i) (sum_list (now i) - all0 i)) is, cs')
      \<and> keeps cs' n vi' va' \<and> (\<forall>i\<in>set is. vi' ! i = real (idle_of (now i)) \<and> va' ! i = real (sum_list (now i)))
      \<and> (\<forall>i. i \<notin> set is \<longrightarrow> vi' ! i = vi ! i \<and> va' ! i = va ! i)"
proof (induction "is" arbitrary: cs vi va)
  case (Cons i "is")
  let ?vi = "vi[i := real (idle_of (now i))]" and ?va = "va[i := real (sum_list (now i))]"
  let ?cs = "cs\<lparr>cs_vecs := Some (?vi, ?va)\<rparr>"
  have i: "i \<le> unat n" "i < length vi" "i < length va" using Cons.prems(2,3) by (auto simp: keeps_def)
  have step: "getCpuPercent q rnd mc (map real (now i)) i cs
      = Some (usage rnd (idle_of (now i) - idle0 i) (sum_list (now i) - all0 i), ?cs)"
    using getCpuPercent_step [OF assms(1) Cons.prems(3) i(1)] Cons.prems(4) assms(2) [OF i(1)] by simp
  have "keeps ?cs n ?vi ?va" using Cons.prems(3) by (simp add: keeps_def)
  moreover have "\<forall>j\<in>set is. ?vi ! j = real (idle0 j) \<and> ?va ! j = real (all0 j)"
    using Cons.prems(1,4) by (metis distinct.simps(2) list.set_intros(2) nth_list_update_neq)
  ultimately obtain cs' vi' va' where r: "percents_loop q rnd mc stat is ?cs
        = Some (map (\<lambda>i. usage rnd (idle_of (now i) - idle0 i) (sum_list (now i) - all0 i)) is, cs')"
      "keeps cs' n vi' va'" "\<forall>i\<in>set is. vi' ! i = real (idle_of (now i)) \<and> va' ! i = real (sum_list (now i))"
      "\<forall>i. i \<notin> set is \<longrightarrow> vi' ! i = ?vi ! i \<and> va' ! i = ?va ! i"
    using Cons.IH [of ?cs ?vi ?va] Cons.prems(1,2) by auto
  have "i \<notin> set is" using Cons.prems(1) by simp
  then have "\<forall>j\<in>set (i # is). vi' ! j = real (idle_of (now j)) \<and> va' ! j = real (sum_list (now j))"
    "\<forall>j. j \<notin> set (i # is) \<longrightarrow> vi' ! j = vi ! j \<and> va' ! j = va ! j"
    using r(3,4) i by (auto simp: nth_list_update)
  then show ?case using r(1,2) step assms(2) [OF i(1)] by (intro exI [of _ cs'] exI [of _ vi'] exI [of _ va']) simp
qed auto

text \<open>
  The usage of the processors.  When the vectors hold the sums of the last call and the counters in
  \<open>/proc/stat\<close> have only grown since, \<open>getCpuPercents\<close> returns, for the whole machine and each processor, the share of
  the time between the two calls that was not idle, always from 0 to 100, and keeps the new sums for the next
  call.
\<close>

theorem usage_between_calls:
  assumes "double_rounding rnd" "keeps cs n vi va" "readListFromFile q mc ''/proc/stat'' = stat"
    "\<And>i. i \<le> unat n \<Longrightarrow> vi ! i = real (idle0 i) \<and> va ! i = real (all0 i)"
    "\<And>i. i \<le> unat n \<Longrightarrow> stat_times q stat i = Some (map real (now i)) \<and> counters_grow (now i) (idle0 i) (all0 i)"
  shows "\<exists>ps cs' vi' va'. getCpuPercents q rnd mc cs = Some (ps, cs') \<and> keeps cs' n vi' va' \<and> length ps = unat n + 1
    \<and> (\<forall>i \<le> unat n. ps ! i = usage rnd (idle_of (now i) - idle0 i) (sum_list (now i) - all0 i) \<and> 0 \<le> ps ! i \<and> ps ! i \<le> 100
         \<and> vi' ! i = real (idle_of (now i)) \<and> va' ! i = real (sum_list (now i)))"
proof -
  let ?is = "[0..<unat n + 1]"
  have "stat \<noteq> []" using assms(5) [of 0] by (auto simp: stat_times_def list_at_def)
  moreover have c: "cs\<lparr>cs_count := n\<rparr> = cs" "cs_count cs = n" "n \<noteq> 0" using assms(2) by (cases cs; simp add: keeps_def)+
  ultimately have "getCpuPercents q rnd mc cs = percents_loop q rnd mc stat ?is cs"
    using assms(3) by (simp add: getCpuPercents_def getCpuCoreCount_def Let_def c del: upt_Suc)
  moreover have v: "\<forall>i\<in>set ?is. vi ! i = real (idle0 i) \<and> va ! i = real (all0 i)" using assms(4) by auto
  have "set ?is \<subseteq> {..unat n}" by auto
  from percents_loop_steps [where mc = mc, OF assms(1,5) distinct_upt this assms(2) v]
  obtain cs' vi' va' where "percents_loop q rnd mc stat ?is cs
        = Some (map (\<lambda>i. usage rnd (idle_of (now i) - idle0 i) (sum_list (now i) - all0 i)) ?is, cs')"
      "keeps cs' n vi' va'" "\<forall>i\<in>set ?is. vi' ! i = real (idle_of (now i)) \<and> va' ! i = real (sum_list (now i))"
    by blast
  ultimately show ?thesis using usage_result [OF assms(1)]
    by (intro exI [of _ "map (\<lambda>i. usage rnd (idle_of (now i) - idle0 i) (sum_list (now i) - all0 i)) ?is"]
        exI [of _ cs'] exI [of _ vi'] exI [of _ va']) (auto simp del: upt_Suc)
qed

text \<open>A machine with one processor, and the counters of two lines.\<close>

definition sample_now :: "nat \<Rightarrow> nat list" where
  "sample_now i = (if i = 0 then [60, 0, 10, 120, 10, 0] else [30, 0, 0, 60, 10, 0])"

definition sample_stat :: "string \<Rightarrow> nat list \<Rightarrow> string" where
  "sample_stat name js = name @ concat (map (\<lambda>j. '' '' @ digits_of j) js)"

definition stat_machine :: machine where
  "stat_machine = sample_machine\<lparr>mc_files := [''/proc/stat'' \<mapsto> sample_stat ''cpu'' (sample_now 0) @ [newline] @ sample_stat ''cpu0'' (sample_now 1)]\<rparr>"

lemma stat_digits: "digits_of 0 = ''0''" "digits_of 10 = ''10''" "digits_of 30 = ''30''" "digits_of 60 = ''60''" "digits_of 120 = ''120''"
  by code_simp+

lemma stat_atoi: "atoi ''0'' = 0" "atoi ''10'' = 10" "atoi ''30'' = 30" "atoi ''60'' = 60" "atoi ''120'' = 120"
  by (simp_all add: atoi_def is_space_def digits_val_def is_digit_def)

lemma stat_texts:
  "sample_stat ''cpu'' (sample_now 0) = ''cpu 60 0 10 120 10 0''" "sample_stat ''cpu0'' (sample_now (Suc 0)) = ''cpu0 30 0 0 60 10 0''"
  by (simp_all add: sample_stat_def sample_now_def stat_digits)

section \<open>Sizes of directories, and loops\<close>

text \<open>An entry of a directory.\<close>

definition entry_of :: "(string \<rightharpoonup> fs_node) \<Rightarrow> string \<Rightarrow> string \<Rightarrow> bool" where
  "entry_of fs i path \<longleftrightarrow> (\<exists>entries. fs path = Some (FN_dir entries) \<and> i \<in> set entries)"

lemma size_loop:
  "foldl (\<lambda>totalSize i. do { t \<leftarrow> totalSize; s \<leftarrow> f i; Some (t + s) }) (Some a) ps
     = map_option (\<lambda>ss. a + sum_list ss) (those (map f ps))" for a :: u64
proof (induction ps arbitrary: a)
  case (Cons p ps)
  have none: "foldl (\<lambda>totalSize i. do { t \<leftarrow> totalSize; s \<leftarrow> f i; Some (t + s) }) None ps = None"
    by (induction ps) simp_all
  show ?case by (cases "f p") (simp_all add: none Cons.IH option.map_comp comp_def add.assoc)
qed simp

lemma those_all: "(\<forall>x\<in>set xs. \<exists>y. f x = Some y) \<Longrightarrow> \<exists>ys. those (map f xs) = Some ys"
  by (induction xs) auto

lemma those_None: "\<lbrakk>x \<in> set xs; f x = None\<rbrakk> \<Longrightarrow> those (map f xs) = None"
  by (induction xs) (auto split: option.splits)

lemma those_mono: "\<lbrakk>those (map f xs) = Some ys; \<And>x y. \<lbrakk>x \<in> set xs; f x = Some y\<rbrakk> \<Longrightarrow> g x = Some y\<rbrakk> \<Longrightarrow> those (map g xs) = Some ys"
proof (induction xs arbitrary: ys)
  case (Cons x xs)
  then show ?case by (auto split: option.splits)
qed simp

lemma getFileSize_dir: "fs path = Some (FN_dir entries) \<Longrightarrow> getFileSize (Suc n) fs path = map_option sum_list (those (map (getFileSize n fs) entries))"
  by (simp add: size_loop)

lemma getFileSize_no_dir: "(\<And>entries. fs path \<noteq> Some (FN_dir entries)) \<Longrightarrow> \<exists>v. \<forall>n. getFileSize (Suc n) fs path = Some v"
  by (cases "fs path"; cases "the (fs path)") auto

lemma getFileSize_Suc: "getFileSize n fs path = Some v \<Longrightarrow> getFileSize (Suc n) fs path = Some v"
proof (induction n arbitrary: path v)
  case (Suc n)
  show ?case
  proof (cases "\<exists>entries. fs path = Some (FN_dir entries)")
    case True
    then obtain entries where d: "fs path = Some (FN_dir entries)" by blast
    from Suc.prems obtain ss where "those (map (getFileSize n fs) entries) = Some ss" "v = sum_list ss"
      unfolding getFileSize_dir [of fs path entries, OF d] by blast
    moreover from this(1) have "those (map (getFileSize (Suc n) fs) entries) = Some ss" by (rule those_mono) (rule Suc.IH)
    ultimately show ?thesis unfolding getFileSize_dir [of fs path entries, OF d] by simp
  next
    case False
    then show ?thesis using getFileSize_no_dir [of fs path] Suc.prems by fastforce
  qed
qed simp

lemma getFileSize_mono: "\<lbrakk>getFileSize m fs path = Some v; m \<le> n\<rbrakk> \<Longrightarrow> getFileSize n fs path = Some v"
  by (induction n) (auto simp: le_Suc_eq simp del: getFileSize.simps dest: getFileSize_Suc)

text \<open>The directory tree at a path, as a tree; the same file may appear in it several times.\<close>

datatype fs_tree = T_none | T_file u64 | T_dir "(string \<times> fs_tree) list"

inductive tree_at :: "(string \<rightharpoonup> fs_node) \<Rightarrow> string \<Rightarrow> fs_tree \<Rightarrow> bool" for fs where
  tree_none: "fs path = None \<or> fs path = Some FN_other \<Longrightarrow> tree_at fs path T_none"
| tree_file: "fs path = Some (FN_file s) \<Longrightarrow> tree_at fs path (T_file s)"
| tree_dir: "\<lbrakk>fs path = Some (FN_dir (map fst ts)); \<And>c. c \<in> set ts \<Longrightarrow> tree_at fs (fst c) (snd c)\<rbrakk> \<Longrightarrow> tree_at fs path (T_dir ts)"

fun tree_bytes :: "fs_tree \<Rightarrow> nat" where
  "tree_bytes T_none = 0"
| "tree_bytes (T_file s) = unat s"
| "tree_bytes (T_dir ts) = sum_list (map (\<lambda>c. tree_bytes (snd c)) ts)"

lemma common_fuel:
  assumes "\<And>x. x \<in> set xs \<Longrightarrow> \<exists>n v. getFileSize n fs (f x) = Some v \<and> P x v"
  shows "\<exists>n. \<forall>x\<in>set xs. \<exists>v. getFileSize n fs (f x) = Some v \<and> P x v"
  using assms
proof (induction xs)
  case (Cons x xs)
  obtain n where "\<forall>x\<in>set xs. \<exists>v. getFileSize n fs (f x) = Some v \<and> P x v" using Cons by auto
  moreover obtain m v where "getFileSize m fs (f x) = Some v" "P x v" using Cons.prems [of x] by auto
  ultimately have "\<forall>y\<in>set (x # xs). \<exists>v. getFileSize (max n m) fs (f y) = Some v \<and> P y v"
    by (metis getFileSize_mono max.cobounded1 max.cobounded2 set_ConsD)
  then show ?case by blast
qed simp

lemma of_nat_sum_list: "of_nat (sum_list (map f xs)) = sum_list (map (\<lambda>x. of_nat (f x)) xs)"
  by (induction xs) simp_all

lemma tree_size:
  "tree_at fs path t \<Longrightarrow> \<exists>n. getFileSize n fs path = Some (of_nat (tree_bytes t))"
proof (induction rule: tree_at.induct)
  case (tree_none path)
  then have "getFileSize 1 fs path = Some (of_nat (tree_bytes T_none))" by auto
  then show ?case by blast
next
  case (tree_file path s)
  then have "getFileSize 1 fs path = Some (of_nat (tree_bytes (T_file s)))" by simp
  then show ?case by blast
next
  case (tree_dir path ts)
  obtain n where "\<forall>c\<in>set ts. \<exists>v. getFileSize n fs (fst c) = Some v \<and> v = of_nat (tree_bytes (snd c))"
    using common_fuel [of ts fs fst "\<lambda>c v. v = of_nat (tree_bytes (snd c))"] tree_dir.IH by auto
  then have "those (map (\<lambda>c. getFileSize n fs (fst c)) ts) = Some (map (\<lambda>c. of_nat (tree_bytes (snd c))) ts)"
    by (induction ts) auto
  then have "getFileSize (Suc n) fs path = Some (of_nat (tree_bytes (T_dir ts)))"
    using getFileSize_dir [of fs path "map fst ts" n, OF tree_dir.hyps(1)]
    by (simp add: comp_def of_nat_sum_list del: getFileSize.simps)
  then show ?case by blast
qed

text \<open>
  \<^bold>\<open>C39\<close>  The size of a directory.  \<open>getFileSize\<close> returns exactly when no path of entries leads downwards for ever, as a
  link to a directory above it does.  Where the entries form a tree the result is the sum of the sizes of its
  files, modulo \<open>2\<^sup>6\<^sup>4\<close>.
\<close>

theorem directory_size:
  "((\<exists>n v. getFileSize n fs path = Some v) \<longleftrightarrow> Wellfounded.accp (entry_of fs) path)
    \<and> (tree_at fs path t \<longrightarrow> (\<exists>m. \<forall>n \<ge> m. getFileSize n fs path = Some (of_nat (tree_bytes t))))"
proof (intro conjI iffI impI)
  assume "\<exists>n v. getFileSize n fs path = Some v"
  then obtain n v where "getFileSize n fs path = Some v" by blast
  then show "Wellfounded.accp (entry_of fs) path"
  proof (induction n arbitrary: path v)
    case (Suc n)
    show ?case
    proof (rule accp.accI)
      fix i assume "entry_of fs i path"
      then obtain entries where d: "fs path = Some (FN_dir entries)" "i \<in> set entries" by (auto simp: entry_of_def)
      obtain ss where "those (map (getFileSize n fs) entries) = Some ss"
        using Suc.prems unfolding getFileSize_dir [of fs path entries, OF d(1)] by blast
      then have "\<exists>s. getFileSize n fs i = Some s" using d(2) by (induction entries arbitrary: ss) (auto split: option.splits)
      then show "Wellfounded.accp (entry_of fs) i" using Suc.IH by blast
    qed
  qed simp
next
  assume "Wellfounded.accp (entry_of fs) path"
  then show "\<exists>n v. getFileSize n fs path = Some v"
  proof (induction rule: accp.induct)
    case (accI path)
    show ?case
    proof (cases "\<exists>entries. fs path = Some (FN_dir entries)")
      case True
      then obtain entries where d: "fs path = Some (FN_dir entries)" by blast
      have "\<exists>n v. getFileSize n fs i = Some v \<and> True" if "i \<in> set entries" for i
        using accI.IH [of i] d that by (auto simp: entry_of_def)
      then obtain n where "\<forall>i\<in>set entries. \<exists>v. getFileSize n fs i = Some v \<and> True"
        using common_fuel [of entries fs "\<lambda>i. i" "\<lambda>_ _. True"] by blast
      then obtain ss where "those (map (getFileSize n fs) entries) = Some ss" using those_all [of entries "getFileSize n fs"] by auto
      then have "getFileSize (Suc n) fs path = Some (sum_list ss)" using getFileSize_dir [of fs path entries n, OF d] by simp
      then show ?thesis by blast
    next
      case False
      then show ?thesis using getFileSize_no_dir [of fs path] by blast
    qed
  qed
next
  assume "tree_at fs path t"
  then show "\<exists>m. \<forall>n \<ge> m. getFileSize n fs path = Some (of_nat (tree_bytes t))"
    using tree_size getFileSize_mono by blast
qed

theorem directory_size_witness:
  "\<exists>m. \<forall>n \<ge> m. getFileSize n [''/a'' \<mapsto> FN_dir [''/a/b'', ''/a/c''], ''/a/b'' \<mapsto> FN_file 5, ''/a/c'' \<mapsto> FN_file 7] ''/a'' = Some 12"
proof -
  let ?fs = "[''/a'' \<mapsto> FN_dir [''/a/b'', ''/a/c''], ''/a/b'' \<mapsto> FN_file 5, ''/a/c'' \<mapsto> FN_file 7]"
  have "tree_at ?fs ''/a'' (T_dir [(''/a/b'', T_file 5), (''/a/c'', T_file 7)])"
    by (rule tree_dir) (auto intro!: tree_file)
  then show ?thesis using directory_size [of ?fs "''/a''" "T_dir [(''/a/b'', T_file 5), (''/a/c'', T_file 7)]"]
    by (simp del: getFileSize.simps)
qed

text \<open>A directory that contains a link to itself has no size.\<close>

lemma directory_loop: "entry_of fs path path \<Longrightarrow> getFileSize n fs path = None"
proof (induction n)
  case (Suc n)
  then obtain entries where d: "fs path = Some (FN_dir entries)" "path \<in> set entries" by (auto simp: entry_of_def)
  then have "those (map (getFileSize n fs) entries) = None" using Suc those_None [of path entries "getFileSize n fs"] by simp
  then show ?case using getFileSize_dir [of fs path entries n, OF d(1)] by simp
qed simp

text \<open>The number in front of a unit is at least 1 and below 1024, up to 1024 TiB.\<close>

lemma formatBytes_range:
  assumes "double_rounding rnd" "1024 \<le> unat bytes" "unat bytes < 2 ^ 50"
  shows "\<exists>u t. formatBytes rnd fixed1 bytes = fixed1 (rnd (real (unat bytes) / real u)) @ '' '' @ t
    \<and> u \<in> {2 ^ 10, 2 ^ 20, 2 ^ 30, 2 ^ 40} \<and> 1 \<le> real (unat bytes) / real u \<and> real (unat bytes) / real u < 1024"
proof -
  define n where "n = unat bytes"
  have n: "1024 \<le> n" "n < 2 ^ 50" "bytes \<noteq> 1" using assms(2,3) by (auto simp: n_def)
  have "rnd (real n) = real n" by (rule rnd_nat [OF assms(1)]) (use n in simp)
  then have f: "formatUnit rnd fixed1 bytes u t = fixed1 (rnd (real n / real u)) @ '' '' @ t" for u t
    by (simp only: formatUnit_def n_def)
  consider "n < 2 ^ 20" | "2 ^ 20 \<le> n" "n < 2 ^ 30" | "2 ^ 30 \<le> n" "n < 2 ^ 40" | "2 ^ 40 \<le> n" by linarith
  then have "\<exists>u t. formatBytes rnd fixed1 bytes = formatUnit rnd fixed1 bytes u t \<and> u \<in> {2 ^ 10, 2 ^ 20, 2 ^ 30, 2 ^ 40} \<and> u \<le> n \<and> n < 1024 * u"
    unfolding formatBytes_def n_def [symmetric]
    by cases (use n in \<open>intro exI [of _ "2 ^ 10"] exI [of _ "''KiB''"], simp\<close>, use n in \<open>intro exI [of _ "2 ^ 20"] exI [of _ "''MiB''"], simp\<close>,
        use n in \<open>intro exI [of _ "2 ^ 30"] exI [of _ "''GiB''"], simp\<close>, use n in \<open>intro exI [of _ "2 ^ 40"] exI [of _ "''TiB''"], simp\<close>)
  then obtain u t where u: "formatBytes rnd fixed1 bytes = formatUnit rnd fixed1 bytes u t" "u \<in> {2 ^ 10, 2 ^ 20, 2 ^ 30, 2 ^ 40}" "u \<le> n" "n < 1024 * u"
    by blast
  then have "1 \<le> real n / real u" "real n / real u < 1024" by (auto simp: field_simps)
  then show ?thesis using u(1) [unfolded f] u(2) unfolding n_def [symmetric] by blast
qed

end
