(* ===== verification/SqlDb.thy ===== *)
theory SqlDb
  imports CText "HOL-Library.Monad_Syntax"
begin

text \<open>
  The wrapper of the database (\<open>src/public/sqlite3341/SQLiteWrapper.cpp\<close>, \<open>.h\<close>) and the handle of the program
  (\<open>dbhandle.cpp\<close>, \<open>.h\<close>).

  The library SQLite is not part of the sources, only its header is: its routines are the fields of the record
  \<open>sqlite\<close>, over the state \<open>'d\<close> of the library.  \<open>sq_exec\<close> gives its code and the rows for which it calls the callback.
  A pointer is a natural number, and 0 is the null pointer.  The constructor of \<open>std::string\<close> on a null pointer, and
  waiting for a lock nobody releases, give \<^term>\<open>None\<close>.
\<close>

section \<open>The library\<close>

record 'd sqlite =
  sq_open :: "string \<Rightarrow> 'd \<Rightarrow> int \<times> nat \<times> 'd"
  sq_close :: "nat \<Rightarrow> 'd \<Rightarrow> int \<times> 'd"
  sq_errmsg :: "nat \<Rightarrow> 'd \<Rightarrow> string"
  sq_exec :: "nat \<Rightarrow> string \<Rightarrow> 'd \<Rightarrow> int \<times> string option list list \<times> 'd"
  sq_prepare :: "nat \<Rightarrow> string \<Rightarrow> 'd \<Rightarrow> int \<times> nat \<times> 'd"
  sq_finalize :: "nat \<Rightarrow> 'd \<Rightarrow> 'd"
  sq_bind_text :: "nat \<Rightarrow> int \<Rightarrow> string \<Rightarrow> 'd \<Rightarrow> int \<times> 'd"
  sq_bind_double :: "nat \<Rightarrow> int \<Rightarrow> 64 word \<Rightarrow> 'd \<Rightarrow> int \<times> 'd"
  sq_bind_int :: "nat \<Rightarrow> int \<Rightarrow> int \<Rightarrow> 'd \<Rightarrow> int \<times> 'd"
  sq_bind_null :: "nat \<Rightarrow> int \<Rightarrow> 'd \<Rightarrow> int \<times> 'd"
  sq_step :: "nat \<Rightarrow> 'd \<Rightarrow> int \<times> 'd"
  sq_reset :: "nat \<Rightarrow> 'd \<Rightarrow> 'd"
  sq_column_type :: "nat \<Rightarrow> int \<Rightarrow> 'd \<Rightarrow> int"
  sq_column_int :: "nat \<Rightarrow> int \<Rightarrow> 'd \<Rightarrow> int"
  sq_column_text :: "nat \<Rightarrow> int \<Rightarrow> 'd \<Rightarrow> string option"

definition SQLITE_OK :: int where "SQLITE_OK = 0"
definition SQLITE_ERROR :: int where "SQLITE_ERROR = 1"
definition SQLITE_BUSY :: int where "SQLITE_BUSY = 5"
definition SQLITE_MISUSE :: int where "SQLITE_MISUSE = 21"
definition SQLITE_ROW :: int where "SQLITE_ROW = 100"
definition SQLITE_DONE :: int where "SQLITE_DONE = 101"

lemmas sqlite_codes = SQLITE_OK_def SQLITE_ERROR_def SQLITE_BUSY_def SQLITE_MISUSE_def SQLITE_ROW_def SQLITE_DONE_def

section \<open>Statements\<close>

record SQLiteStatement =
  st_stmt :: nat

datatype dataType = DT_INT | DT_FLT | DT_TXT | DT_BLB | DT_NUL

definition SQLiteStatement_default :: SQLiteStatement where
  "SQLiteStatement_default = \<lparr>st_stmt = 0\<rparr>"

text \<open>The constructor; \<^term>\<open>Inl\<close> is the text it throws.\<close>

definition SQLiteStatement_ctor :: "'d sqlite \<Rightarrow> string \<Rightarrow> nat \<Rightarrow> 'd \<Rightarrow> (string + SQLiteStatement) \<times> 'd" where
  "SQLiteStatement_ctor sq statement db d =
     (case sq_prepare sq db (c_text statement) d of
        (rc, p, d) \<Rightarrow>
          if rc \<noteq> SQLITE_OK then (Inl (sq_errmsg sq db d), d)
          else if p = 0 then (Inl ''stmt_ is 0'', d)
          else (Inr \<lparr>st_stmt = p\<rparr>, d))"

definition SQLiteStatement_dtor :: "'d sqlite \<Rightarrow> SQLiteStatement \<Rightarrow> 'd \<Rightarrow> 'd" where
  "SQLiteStatement_dtor sq s d = (if st_stmt s \<noteq> 0 then sq_finalize sq (st_stmt s) d else d)"

definition sq_ok :: "int \<times> 'd \<Rightarrow> bool \<times> 'd" where
  "sq_ok r = (if fst r \<noteq> SQLITE_OK then (False, snd r) else (True, snd r))"

text \<open>The text is passed with its length, so zero bytes in it are kept; a \<open>double\<close> is passed on as its 64 bits.\<close>

definition Bind_text :: "'d sqlite \<Rightarrow> SQLiteStatement \<Rightarrow> int \<Rightarrow> string \<Rightarrow> 'd \<Rightarrow> bool \<times> 'd" where
  "Bind_text sq s pos_zero_indexed value d = sq_ok (sq_bind_text sq (st_stmt s) (pos_zero_indexed + 1) value d)"

definition Bind_double :: "'d sqlite \<Rightarrow> SQLiteStatement \<Rightarrow> int \<Rightarrow> 64 word \<Rightarrow> 'd \<Rightarrow> bool \<times> 'd" where
  "Bind_double sq s pos_zero_indexed value d = sq_ok (sq_bind_double sq (st_stmt s) (pos_zero_indexed + 1) value d)"

definition Bind_int :: "'d sqlite \<Rightarrow> SQLiteStatement \<Rightarrow> int \<Rightarrow> int \<Rightarrow> 'd \<Rightarrow> bool \<times> 'd" where
  "Bind_int sq s pos_zero_indexed value d = sq_ok (sq_bind_int sq (st_stmt s) (pos_zero_indexed + 1) value d)"

definition BindNull :: "'d sqlite \<Rightarrow> SQLiteStatement \<Rightarrow> int \<Rightarrow> 'd \<Rightarrow> bool \<times> 'd" where
  "BindNull sq s pos_zero_indexed d = sq_ok (sq_bind_null sq (st_stmt s) (pos_zero_indexed + 1) d)"

definition Execute :: "'d sqlite \<Rightarrow> SQLiteStatement \<Rightarrow> 'd \<Rightarrow> bool \<times> 'd" where
  "Execute sq s d =
     (case sq_step sq (st_stmt s) d of
        (rc, d) \<Rightarrow>
          if rc = SQLITE_BUSY then (False, d)
          else if rc = SQLITE_ERROR then (False, d)
          else if rc = SQLITE_MISUSE then (False, d)
          else if rc \<noteq> SQLITE_DONE then (False, d)
          else (True, sq_reset sq (st_stmt s) d))"

definition DataType :: "'d sqlite \<Rightarrow> SQLiteStatement \<Rightarrow> int \<Rightarrow> 'd \<Rightarrow> dataType option" where
  "DataType sq s pos_zero_indexed d =
     map_of [(1, DT_INT), (2, DT_FLT), (3, DT_TXT), (4, DT_BLB), (5, DT_NUL)] (sq_column_type sq (st_stmt s) pos_zero_indexed d)"

definition ValueInt :: "'d sqlite \<Rightarrow> SQLiteStatement \<Rightarrow> int \<Rightarrow> 'd \<Rightarrow> int" where
  "ValueInt sq s pos_zero_indexed d = sq_column_int sq (st_stmt s) pos_zero_indexed d"

definition ValueString :: "'d sqlite \<Rightarrow> SQLiteStatement \<Rightarrow> int \<Rightarrow> 'd \<Rightarrow> string option" where
  "ValueString sq s pos_zero_indexed d = map_option c_text (sq_column_text sq (st_stmt s) pos_zero_indexed d)"

definition RestartSelect :: "'d sqlite \<Rightarrow> SQLiteStatement \<Rightarrow> 'd \<Rightarrow> bool \<times> 'd" where
  "RestartSelect sq s d = (True, sq_reset sq (st_stmt s) d)"

text \<open>\<open>Reset\<close> steps before it resets.\<close>

definition Reset :: "'d sqlite \<Rightarrow> SQLiteStatement \<Rightarrow> 'd \<Rightarrow> bool \<times> 'd" where
  "Reset sq s d =
     (case sq_step sq (st_stmt s) d of
        (rc, d) \<Rightarrow> let d = sq_reset sq (st_stmt s) d in if rc = SQLITE_ROW then (True, d) else (False, d))"

definition NextRow :: "'d sqlite \<Rightarrow> SQLiteStatement \<Rightarrow> 'd \<Rightarrow> bool \<times> 'd" where
  "NextRow sq s d =
     (case sq_step sq (st_stmt s) d of
        (rc, d) \<Rightarrow>
          if rc = SQLITE_ROW then (True, d)
          else if rc = SQLITE_DONE then (False, sq_reset sq (st_stmt s) d)
          else (False, d))"

section \<open>Result tables and the wrapper\<close>

type_synonym ResultRecord = "string list"

text \<open>The position is an \<open>unsigned int\<close>, the size of the vector a \<open>size_t\<close>.\<close>

record ResultTable =
  rt_records :: "ResultRecord list"
  rt_cur :: "32 word"

definition ResultTable_ctor :: ResultTable where
  "ResultTable_ctor = \<lparr>rt_records = [], rt_cur = 0\<rparr>"

definition ResultTable_next :: "ResultTable \<Rightarrow> ResultRecord option \<times> ResultTable" where
  "ResultTable_next t =
     (if unat (rt_cur t) < length (rt_records t)
      then (Some (rt_records t ! unat (rt_cur t)), t\<lparr>rt_cur := rt_cur t + 1\<rparr>)
      else (None, t))"

definition ResultTable_reset :: "ResultTable \<Rightarrow> ResultTable" where
  "ResultTable_reset t = t\<lparr>rt_records := [], rt_cur := 0\<rparr>"

record SQLiteWrapper =
  wr_db :: nat

definition SQLiteWrapper_ctor :: SQLiteWrapper where
  "SQLiteWrapper_ctor = \<lparr>wr_db = 0\<rparr>"

text \<open>\<open>db_\<close> is set in both cases.\<close>

definition Wrapper_Open :: "'d sqlite \<Rightarrow> string \<Rightarrow> SQLiteWrapper \<Rightarrow> 'd \<Rightarrow> bool \<times> SQLiteWrapper \<times> 'd" where
  "Wrapper_Open sq db_file w d =
     (case sq_open sq (c_text db_file) d of
        (rc, p, d) \<Rightarrow> if rc \<noteq> SQLITE_OK then (False, w\<lparr>wr_db := p\<rparr>, d) else (True, w\<lparr>wr_db := p\<rparr>, d))"

text \<open>\<open>SelectCallback\<close>; \<open>SQLITE_WRAPPER_REPORT_COLUMN_NAMES\<close> is not defined.\<close>

definition field_text :: "string option \<Rightarrow> string" where
  "field_text f = (case f of Some t \<Rightarrow> c_text t | None \<Rightarrow> ''<null>'')"

definition SelectCallback :: "string option list \<Rightarrow> ResultTable \<Rightarrow> ResultTable" where
  "SelectCallback p_fields res = res\<lparr>rt_records := rt_records res @ [map field_text p_fields]\<rparr>"

definition SelectStmt :: "'d sqlite \<Rightarrow> SQLiteWrapper \<Rightarrow> string \<Rightarrow> ResultTable \<Rightarrow> 'd \<Rightarrow> bool \<times> ResultTable \<times> 'd" where
  "SelectStmt sq w stmt res d =
     (let res = ResultTable_reset res
      in case sq_exec sq (wr_db w) (c_text stmt) d of
           (ret, rows, d) \<Rightarrow>
             let res = foldl (\<lambda>res r. SelectCallback r res) res rows
             in if ret \<noteq> SQLITE_OK then (False, res, d) else (True, res, d))"

definition Statement :: "'d sqlite \<Rightarrow> SQLiteWrapper \<Rightarrow> string \<Rightarrow> 'd \<Rightarrow> SQLiteStatement option \<times> 'd" where
  "Statement sq w statement d =
     (case SQLiteStatement_ctor sq statement (wr_db w) d of (Inr s, d) \<Rightarrow> (Some s, d) | (Inl _, d) \<Rightarrow> (None, d))"

definition DirectStatement :: "'d sqlite \<Rightarrow> SQLiteWrapper \<Rightarrow> string \<Rightarrow> 'd \<Rightarrow> bool \<times> 'd" where
  "DirectStatement sq w stmt d =
     (case sq_exec sq (wr_db w) (c_text stmt) d of (ret, _, d) \<Rightarrow> if ret \<noteq> SQLITE_OK then (False, d) else (True, d))"

definition Wrapper_Close :: "'d sqlite \<Rightarrow> SQLiteWrapper \<Rightarrow> 'd \<Rightarrow> int \<times> 'd" where
  "Wrapper_Close sq w d = sq_close sq (wr_db w) d"

definition LastError :: "'d sqlite \<Rightarrow> SQLiteWrapper \<Rightarrow> 'd \<Rightarrow> string" where
  "LastError sq w d = c_text (sq_errmsg sq (wr_db w) d)"

definition Begin :: "'d sqlite \<Rightarrow> SQLiteWrapper \<Rightarrow> 'd \<Rightarrow> bool \<times> 'd" where
  "Begin sq w d = DirectStatement sq w ''begin'' d"

definition Commit :: "'d sqlite \<Rightarrow> SQLiteWrapper \<Rightarrow> 'd \<Rightarrow> bool \<times> 'd" where
  "Commit sq w d = DirectStatement sq w ''commit'' d"

definition Rollback :: "'d sqlite \<Rightarrow> SQLiteWrapper \<Rightarrow> 'd \<Rightarrow> bool \<times> 'd" where
  "Rollback sq w d = DirectStatement sq w ''rollback'' d"

section \<open>The handle of the program\<close>

text \<open>The constructor initialises the mutex and the wrapper; the other members keep what the memory holds.\<close>

record dbHandle =
  m_sqlite_wrapper :: SQLiteWrapper
  m_bDBConnect :: bool
  m_strErrInfo :: string
  m_strDBPath :: string
  m_mutex :: bool

definition dbHandle_ctor :: "bool \<Rightarrow> dbHandle" where
  "dbHandle_ctor garbage =
     \<lparr>m_sqlite_wrapper = SQLiteWrapper_ctor, m_bDBConnect = garbage, m_strErrInfo = [], m_strDBPath = [], m_mutex = False\<rparr>"

definition OpenAstDB :: "'d sqlite \<Rightarrow> string \<Rightarrow> dbHandle \<Rightarrow> 'd \<Rightarrow> bool \<times> dbHandle \<times> 'd" where
  "OpenAstDB sq dbPath h d =
     (case Wrapper_Open sq dbPath (m_sqlite_wrapper h) d of
        (ok, w, d) \<Rightarrow>
          let h = h\<lparr>m_sqlite_wrapper := w\<rparr>
          in if ok then (True, h\<lparr>m_bDBConnect := True, m_strDBPath := dbPath\<rparr>, d)
             else (False, h\<lparr>m_bDBConnect := False, m_strErrInfo := LastError sq w d\<rparr>, d))"

text \<open>The code of SQLite is returned as a \<open>bool\<close>.\<close>

definition CloseAstDB :: "'d sqlite \<Rightarrow> dbHandle \<Rightarrow> 'd \<Rightarrow> bool \<times> 'd" where
  "CloseAstDB sq h d = (case Wrapper_Close sq (m_sqlite_wrapper h) d of (rc, d) \<Rightarrow> (rc \<noteq> 0, d))"

definition LockDB :: "dbHandle \<Rightarrow> (bool \<times> dbHandle) option" where
  "LockDB h = (if m_mutex h then None else Some (True, h\<lparr>m_mutex := True\<rparr>))"

definition unLockDB :: "dbHandle \<Rightarrow> bool \<times> dbHandle" where
  "unLockDB h = (True, h\<lparr>m_mutex := False\<rparr>)"

section \<open>Reading a table\<close>

text \<open>The results of calling a function that walks over a sequence \<open>n\<close> times.\<close>

fun nexts :: "('s \<Rightarrow> 'a option \<times> 's) \<Rightarrow> nat \<Rightarrow> 's \<Rightarrow> 'a option list" where
  "nexts nx 0 s = []"
| "nexts nx (Suc n) s = (case nx s of (r, s') \<Rightarrow> r # nexts nx n s')"

text \<open>
  The contract of such a function: it gives the elements that remain, one by one, and then nothing.
\<close>

locale cursor =
  fixes inv :: "'s \<Rightarrow> bool" and rest :: "'s \<Rightarrow> 'a list" and nx :: "'s \<Rightarrow> 'a option \<times> 's"
  assumes nx_end: "\<lbrakk>inv s; rest s = []\<rbrakk> \<Longrightarrow> nx s = (None, s)"
    and nx_more: "\<lbrakk>inv s; rest s = x # xs\<rbrakk> \<Longrightarrow> \<exists>s'. nx s = (Some x, s') \<and> inv s' \<and> rest s' = xs"
begin

lemma nexts_rest: "inv s \<Longrightarrow> nexts nx n s = map Some (take n (rest s)) @ replicate (n - length (rest s)) None"
proof (induction n arbitrary: s)
  case (Suc n)
  show ?case
  proof (cases "rest s")
    case Nil
    then show ?thesis using Suc.IH [OF Suc.prems] nx_end [OF Suc.prems] by simp
  next
    case (Cons x xs)
    then obtain s' where "nx s = (Some x, s')" "inv s'" "rest s' = xs" using nx_more [OF Suc.prems] by blast
    then show ?thesis using Suc.IH [of s'] Cons by simp
  qed
qed simp

end

definition table_inv :: "ResultTable \<Rightarrow> bool" where
  "table_inv t \<longleftrightarrow> length (rt_records t) < 2 ^ 32"

definition table_rest :: "ResultTable \<Rightarrow> ResultRecord list" where
  "table_rest t = drop (unat (rt_cur t)) (rt_records t)"

interpretation tbl: cursor table_inv table_rest ResultTable_next
proof unfold_locales
  show "ResultTable_next s = (None, s)" if "table_inv s" "table_rest s = []" for s
    using that by (simp add: ResultTable_next_def table_rest_def)
next
  fix s x xs
  assume a: "table_inv s" "table_rest s = x # xs"
  let ?i = "unat (rt_cur s)"
  have i: "?i < length (rt_records s)" using a(2) by (metis table_rest_def drop_eq_Nil linorder_not_less list.distinct(1))
  then have "unat (rt_cur s + 1) = Suc ?i" using a(1) by (simp add: table_inv_def unat_word_ariths(1))
  moreover have "rt_records s ! ?i = x" "drop (Suc ?i) (rt_records s) = xs"
    using a(2) i by (simp_all add: table_rest_def Cons_nth_drop_Suc [symmetric])
  ultimately show "\<exists>s'. ResultTable_next s = (Some x, s') \<and> table_inv s' \<and> table_rest s' = xs"
    using a(1) i by (simp add: ResultTable_next_def table_inv_def table_rest_def)
qed

lemma foldl_SelectCallback:
  "foldl (\<lambda>res r. SelectCallback r res) res rows = res\<lparr>rt_records := rt_records res @ map (map field_text) rows\<rparr>"
  by (induction rows arbitrary: res) (simp_all add: SelectCallback_def)

text \<open>
  \<^bold>\<open>C40\<close>  Reading a query through the wrapper.  \<open>SelectStmt\<close> succeeds exactly when the library does.  Whatever the table
  held and wherever it stood, calling \<open>next\<close> afterwards gives one record for each row the library reported, in
  order, and then the null pointer for ever; the fields are the texts of the row, and a value that is absent
  is shown as \<open><null>\<close>.  The rows reported in front of an error are in the table too.
\<close>

theorem select_rows:
  assumes "sq_exec sq (wr_db w) (c_text stmt) d = (ret, rows, d')" "length rows < 2 ^ 32"
  shows "\<exists>res'. SelectStmt sq w stmt res d = (ret = SQLITE_OK, res', d')
    \<and> nexts ResultTable_next n res' = map (Some \<circ> map field_text) (take n rows) @ replicate (n - length rows) None"
proof -
  let ?t = "ResultTable_reset res\<lparr>rt_records := map (map field_text) rows\<rparr>"
  have "SelectStmt sq w stmt res d = (ret = SQLITE_OK, ?t, d')"
    using assms(1) by (simp add: SelectStmt_def foldl_SelectCallback ResultTable_reset_def Let_def)
  moreover have "table_inv ?t" "table_rest ?t = map (map field_text) rows"
    using assms(2) by (simp_all add: table_inv_def table_rest_def ResultTable_reset_def)
  ultimately show ?thesis using tbl.nexts_rest [of ?t n] by (simp add: take_map)
qed

text \<open>A library that answers every query with two rows.\<close>

definition sample_sqlite :: "bool sqlite" where
  "sample_sqlite =
     \<lparr>sq_open = (\<lambda>_ d. (0, 1, d)), sq_close = (\<lambda>_ d. (0, d)), sq_errmsg = (\<lambda>_ _. []),
      sq_exec = (\<lambda>_ _ d. (0, [[Some ''a'', None], [Some ''b'', Some ''c'']], d)), sq_prepare = (\<lambda>_ _ d. (0, 1, d)),
      sq_finalize = (\<lambda>_ d. d), sq_bind_text = (\<lambda>_ _ _ d. (0, d)), sq_bind_double = (\<lambda>_ _ _ d. (0, d)),
      sq_bind_int = (\<lambda>_ _ _ d. (0, d)), sq_bind_null = (\<lambda>_ _ d. (0, d)), sq_step = (\<lambda>_ _. (SQLITE_ROW, True)),
      sq_reset = (\<lambda>_ _. False), sq_column_type = (\<lambda>_ _ _. 1), sq_column_int = (\<lambda>_ _ _. 7), sq_column_text = (\<lambda>_ _ _. None)\<rparr>"

theorem select_rows_witness:
  "\<exists>res'. SelectStmt sample_sqlite SQLiteWrapper_ctor ''select'' \<lparr>rt_records = [[''old'']], rt_cur = 1\<rparr> False = (True, res', False)
    \<and> nexts ResultTable_next 3 res' = [Some [''a'', ''<null>''], Some [''b'', ''c''], None]"
  using select_rows [of sample_sqlite SQLiteWrapper_ctor "''select''" False 0 "[[Some ''a'', None], [Some ''b'', Some ''c'']]" False
      "\<lparr>rt_records = [[''old'']], rt_cur = 1\<rparr>" 3]
  by (simp add: sample_sqlite_def field_text_def c_text_def SQLITE_OK_def del: nexts.simps)

section \<open>Statements left open\<close>

text \<open>
  What the header of SQLite documents of \<open>sqlite3_stmt_busy\<close>: a statement is busy when it was stepped and has neither
  been reset nor run to completion.
\<close>

definition busy_contract :: "'d sqlite \<Rightarrow> (nat \<Rightarrow> 'd \<Rightarrow> bool) \<Rightarrow> bool" where
  "busy_contract sq busy \<longleftrightarrow>
     (\<forall>p d. \<not> busy p (sq_reset sq p d) \<and> (busy p (snd (sq_step sq p d)) \<longleftrightarrow> fst (sq_step sq p d) \<noteq> SQLITE_DONE))"

text \<open>
  \<open>Execute\<close> leaves the statement busy exactly when it fails; \<open>NextRow\<close> leaves it free only at the end of the rows, and
  \<open>Reset\<close> and \<open>RestartSelect\<close> always do.
\<close>

theorem statement_left_busy:
  assumes "busy_contract sq busy"
  shows "busy (st_stmt s) (snd (Execute sq s d)) \<longleftrightarrow> \<not> fst (Execute sq s d)"
    and "busy (st_stmt s) (snd (NextRow sq s d)) \<longleftrightarrow> fst (sq_step sq (st_stmt s) d) \<noteq> SQLITE_DONE"
    and "\<not> busy (st_stmt s) (snd (Reset sq s d))" and "\<not> busy (st_stmt s) (snd (RestartSelect sq s d))"
proof -
  have b: "\<not> busy (st_stmt s) (sq_reset sq (st_stmt s) e)"
    "busy (st_stmt s) e \<longleftrightarrow> rc \<noteq> SQLITE_DONE" if "sq_step sq (st_stmt s) e' = (rc, e)" for rc e e'
    using assms that unfolding busy_contract_def by (blast, metis fst_conv snd_conv)
  show "busy (st_stmt s) (snd (Execute sq s d)) \<longleftrightarrow> \<not> fst (Execute sq s d)"
    by (auto simp: Execute_def b sqlite_codes split: prod.split)
  show "busy (st_stmt s) (snd (NextRow sq s d)) \<longleftrightarrow> fst (sq_step sq (st_stmt s) d) \<noteq> SQLITE_DONE"
    by (auto simp: NextRow_def b sqlite_codes split: prod.split)
  show "\<not> busy (st_stmt s) (snd (Reset sq s d))" by (auto simp: Reset_def Let_def b split: prod.split)
  show "\<not> busy (st_stmt s) (snd (RestartSelect sq s d))" using assms by (simp add: RestartSelect_def busy_contract_def)
qed

section \<open>Opening and closing\<close>

datatype db_op = Op_open string | Op_close | Op_lock | Op_unlock

text \<open>A run of operations of one thread; the list collects the results of opening.\<close>

fun db_run :: "'d sqlite \<Rightarrow> db_op list \<Rightarrow> dbHandle \<Rightarrow> 'd \<Rightarrow> (bool list \<times> dbHandle \<times> 'd) option" where
  "db_run sq [] h d = Some ([], h, d)"
| "db_run sq (Op_open p # ops) h d =
     (case OpenAstDB sq p h d of (ok, h, d) \<Rightarrow> map_option (\<lambda>(os, r). (ok # os, r)) (db_run sq ops h d))"
| "db_run sq (Op_close # ops) h d = (case CloseAstDB sq h d of (_, d) \<Rightarrow> db_run sq ops h d)"
| "db_run sq (Op_lock # ops) h d = LockDB h \<bind> (\<lambda>(_, h). db_run sq ops h d)"
| "db_run sq (Op_unlock # ops) h d = (case unLockDB h of (_, h) \<Rightarrow> db_run sq ops h d)"

lemma OpenAstDB_flag: "OpenAstDB sq p h d = (ok, h', d') \<Longrightarrow> m_bDBConnect h' = ok"
  by (auto simp: OpenAstDB_def Let_def split: prod.splits if_splits)

text \<open>
  The flag of the handle is the result of the last attempt to open, or what the memory held before the first;
  closing does not change it.
\<close>

theorem connect_flag_of_last_open:
  "db_run sq ops h d = Some (os, h', d') \<Longrightarrow> m_bDBConnect h' = last (m_bDBConnect h # os)"
proof (induction ops arbitrary: h d os)
  case (Cons op ops)
  show ?case
  proof (cases op)
    case (Op_open p)
    obtain ok h1 d1 where o: "OpenAstDB sq p h d = (ok, h1, d1)" by (metis prod_cases3)
    then obtain os1 where "os = ok # os1" "db_run sq ops h1 d1 = Some (os1, h', d')" using Cons.prems Op_open by auto
    then show ?thesis using Cons.IH OpenAstDB_flag [OF o] by fastforce
  next
    case Op_close
    then show ?thesis using Cons by (auto split: prod.splits)
  next
    case Op_lock
    then show ?thesis using Cons.IH [of "h\<lparr>m_mutex := True\<rparr>" d os] Cons.prems by (auto simp: LockDB_def split: if_splits)
  next
    case Op_unlock
    then show ?thesis using Cons.IH [of "h\<lparr>m_mutex := False\<rparr>" d os] Cons.prems by (auto simp: unLockDB_def)
  qed
qed simp

text \<open>\<open>CloseAstDB\<close> returns true exactly when closing failed.\<close>

theorem CloseAstDB_inverted: "fst (CloseAstDB sq h d) \<longleftrightarrow> fst (sq_close sq (wr_db (m_sqlite_wrapper h)) d) \<noteq> SQLITE_OK"
  by (simp add: CloseAstDB_def Wrapper_Close_def SQLITE_OK_def split: prod.split)

end
