(* ===== verification/B64C.thy ===== *)
theory B64C
  imports Base64
begin

text \<open>
  The Base64 routines in C: \<open>b64_encode\<close> of \<open>src/public/base64/encode.c\<close>, \<open>b64_decode\<close> and \<open>b64_decode_ex\<close> of
  \<open>decode.c\<close>, with the table of \<open>b64.h\<close>.

  Which sizes \<open>malloc\<close> and \<open>realloc\<close> grant is an argument.  A result is \<^term>\<open>None\<close> when the code writes through the null
  pointer that a failed \<open>realloc\<close> returned, and \<^term>\<open>Some None\<close> when it returns NULL.  The allocated block is given with
  its terminating zero.
\<close>

unbundle bit_operations_syntax

section \<open>Encoding\<close>

type_synonym grants = "nat \<Rightarrow> bool"

definition b64_table :: "byte list" where
  "b64_table = map of_char ''ABCDEFGHIJKLMNOPQRSTUVWXYZabcdefghijklmnopqrstuvwxyz0123456789+/''"

text \<open>The four codes of the three bytes in \<open>tmp\<close>.\<close>

definition enc_buf :: "byte \<Rightarrow> byte \<Rightarrow> byte \<Rightarrow> byte list" where
  "enc_buf t0 t1 t2 =
     [drop_bit 2 (t0 AND 0xfc), push_bit 4 (t0 AND 0x03) + drop_bit 4 (t1 AND 0xf0),
      push_bit 2 (t1 AND 0x0f) + drop_bit 6 (t2 AND 0xc0), t2 AND 0x3f]"

abbreviation table_at :: "byte \<Rightarrow> byte" where
  "table_at x \<equiv> b64_table ! unat x"

text \<open>The loop over the source; \<open>tmp\<close> holds the bytes of an incomplete group.\<close>

fun b64_enc_loop :: "grants \<Rightarrow> byte list \<Rightarrow> byte list \<Rightarrow> byte list \<Rightarrow> (byte list \<times> byte list) option" where
  "b64_enc_loop ok [] tmp enc = Some (tmp, enc)"
| "b64_enc_loop ok (x # src) tmp enc =
     (case tmp of
        [t0, t1] \<Rightarrow> if ok (length enc + 4) then b64_enc_loop ok src [] (enc @ map table_at (enc_buf t0 t1 x)) else None
      | _ \<Rightarrow> b64_enc_loop ok src (tmp @ [x]) enc)"

text \<open>Characters that are appended one by one, each with a \<open>realloc\<close>.\<close>

fun push_chars :: "grants \<Rightarrow> byte list \<Rightarrow> byte list \<Rightarrow> byte list option" where
  "push_chars ok enc [] = Some enc"
| "push_chars ok enc (c # cs) = (if ok (length enc + 1) then push_chars ok (enc @ [c]) cs else None)"

text \<open>The characters of the bytes that are left.\<close>

definition enc_rest :: "byte list \<Rightarrow> byte list" where
  "enc_rest tmp =
     (let i = length tmp; t = tmp @ replicate (3 - i) 0
      in if i > 0 then take (i + 1) (map table_at (enc_buf (t ! 0) (t ! 1) (t ! 2))) @ replicate (3 - i) 0x3d else [])"

definition b64_encode :: "grants \<Rightarrow> byte list \<Rightarrow> byte list option option" where
  "b64_encode ok src =
     (if \<not> ok 1 then Some None
      else case b64_enc_loop ok src [] [] of
             None \<Rightarrow> None
           | Some (tmp, enc) \<Rightarrow> map_option Some (push_chars ok enc (enc_rest tmp @ [0])))"

section \<open>Decoding\<close>

text \<open>\<open>isalnum\<close> in the C locale.\<close>

definition isalnum :: "byte \<Rightarrow> bool" where
  "isalnum c \<longleftrightarrow> 0x30 \<le> c \<and> c \<le> 0x39 \<or> 0x41 \<le> c \<and> c \<le> 0x5a \<or> 0x61 \<le> c \<and> c \<le> 0x7a"

definition b64_char :: "byte \<Rightarrow> bool" where
  "b64_char c \<longleftrightarrow> c \<noteq> 0x3d \<and> (isalnum c \<or> c = 0x2b \<or> c = 0x2f)"

text \<open>The search for a character in the table; without success it stays.\<close>

definition b64_find :: "byte \<Rightarrow> byte" where
  "b64_find c = (case find (\<lambda>l. b64_table ! l = c) [0..<64] of Some l \<Rightarrow> of_nat l | None \<Rightarrow> c)"

definition dec_buf :: "byte \<Rightarrow> byte \<Rightarrow> byte \<Rightarrow> byte \<Rightarrow> byte list" where
  "dec_buf t0 t1 t2 t3 =
     [push_bit 2 t0 + drop_bit 4 (t1 AND 0x30), push_bit 4 (t1 AND 0xf) + drop_bit 2 (t2 AND 0x3c), push_bit 6 (t2 AND 0x3) + t3]"

text \<open>The loop over the source; \<^term>\<open>None\<close> is the return of NULL.\<close>

fun b64_dec_loop :: "grants \<Rightarrow> byte list \<Rightarrow> byte list \<Rightarrow> byte list \<Rightarrow> (byte list \<times> byte list) option" where
  "b64_dec_loop ok [] tmp dec = Some (tmp, dec)"
| "b64_dec_loop ok (c # src) tmp dec =
     (if \<not> b64_char c then Some (tmp, dec)
      else case tmp of
             [t0, t1, t2] \<Rightarrow>
               if ok (length dec + 3)
               then b64_dec_loop ok src [] (dec @ dec_buf (b64_find t0) (b64_find t1) (b64_find t2) (b64_find c))
               else None
           | _ \<Rightarrow> b64_dec_loop ok src (tmp @ [c]) dec)"

text \<open>The remainder: \<open>i - 1\<close> bytes; for a single character and nothing before it \<open>realloc\<close> is asked for no bytes.\<close>

definition b64_dec_rest :: "grants \<Rightarrow> byte list \<Rightarrow> byte list \<Rightarrow> byte list option" where
  "b64_dec_rest ok tmp dec =
     (if tmp = [] then Some dec
      else let i = length tmp;
               t = map b64_find (tmp @ replicate (4 - i) 0)
           in if ok (length dec + (i - 1)) then Some (dec @ take (i - 1) (dec_buf (t ! 0) (t ! 1) (t ! 2) (t ! 3))) else None)"

text \<open>The block that is returned, and \<open>decsize\<close>; \<^term>\<open>None\<close> is NULL.\<close>

definition b64_decode_ex :: "grants \<Rightarrow> byte list \<Rightarrow> (byte list \<times> nat) option" where
  "b64_decode_ex ok src =
     (if \<not> ok 1 then None
      else case b64_dec_loop ok src [] [] of
             None \<Rightarrow> None
           | Some (tmp, dec) \<Rightarrow>
               (case b64_dec_rest ok tmp dec of
                  None \<Rightarrow> None
                | Some dec \<Rightarrow> if ok (length dec + 1) then Some (dec @ [0], length dec) else None))"

definition b64_decode :: "grants \<Rightarrow> byte list \<Rightarrow> byte list option" where
  "b64_decode ok src = map_option fst (b64_decode_ex ok src)"

section \<open>The codes\<close>

lemma b64_table_digits: "b64_table = base64digits"
  by (simp add: b64_table_def base64digits_def)

lemma table_at_digit: "table_at x = digit x"
  by (simp add: digit_def b64_table_digits)

lemma byte_masks:
  "(0xfc :: byte) = push_bit 2 (mask 6)" "(0x03 :: byte) = mask 2" "(0xf0 :: byte) = push_bit 4 (mask 4)" "(0x0f :: byte) = mask 4"
  "(0xc0 :: byte) = push_bit 6 (mask 2)"
  by (simp_all add: mask_eq_exp_minus_1)

text \<open>The sums of the C routines have no carries.\<close>

lemma enc_buf_codes:
  "enc_buf a b c = [drop_bit 2 a, (push_bit 4 a AND 0x30) OR drop_bit 4 b, (push_bit 2 b AND 0x3c) OR drop_bit 6 c, c AND 0x3f]"
proof -
  have "push_bit 4 (a AND mask 2) AND drop_bit 4 (b AND push_bit 4 (mask 4)) = 0" "push_bit 2 (b AND mask 4) AND drop_bit 6 (c AND push_bit 6 (mask 2)) = 0"
    by (rule byte_eqI; simp add: bit_simps bit_byte_range)+
  then have "enc_buf a b c = [drop_bit 2 (a AND push_bit 2 (mask 6)), push_bit 4 (a AND mask 2) OR drop_bit 4 (b AND push_bit 4 (mask 4)),
      push_bit 2 (b AND mask 4) OR drop_bit 6 (c AND push_bit 6 (mask 2)), c AND 0x3f]"
    unfolding enc_buf_def byte_masks by (simp only: disjunctive_add_eq_or)
  moreover have "drop_bit 2 (a AND push_bit 2 (mask 6)) = drop_bit 2 a"
    "push_bit 4 (a AND mask 2) OR drop_bit 4 (b AND push_bit 4 (mask 4)) = (push_bit 4 a AND 0x30) OR drop_bit 4 b"
    "push_bit 2 (b AND mask 4) OR drop_bit 6 (c AND push_bit 6 (mask 2)) = (push_bit 2 b AND 0x3c) OR drop_bit 6 c"
    unfolding masks by (rule byte_eqI; simp add: bit_simps bit_byte_range)+
  ultimately show ?thesis by (simp only:)
qed

lemma high_bits: "(x :: byte) < 64 \<Longrightarrow> \<not> bit x 6 \<and> \<not> bit x 7"
proof -
  assume "x < 64"
  then have "take_bit 6 (unat x) = unat x" by (intro take_bit_nat_eq_self) (simp add: word_less_nat_alt)
  then have "take_bit 6 x = x" by (metis unsigned_take_bit_eq word_unat_eq_iff)
  then show ?thesis by (metis bit_take_bit_iff less_irrefl numeral_less_iff semiring_norm(76,78,79,81))
qed

lemma dec_buf_bytes:
  assumes "y < 64" "z < 64" "w < 64"
  shows "dec_buf x y z w = [push_bit 2 x OR drop_bit 4 y, push_bit 4 y OR drop_bit 2 z, push_bit 6 z OR w]"
proof -
  note h = assms [THEN high_bits]
  have "push_bit 2 x AND drop_bit 4 (y AND push_bit 4 (mask 2)) = 0" "push_bit 4 (y AND mask 4) AND drop_bit 2 (z AND push_bit 2 (mask 4)) = 0"
    "push_bit 6 (z AND mask 2) AND w = 0"
    using h by (rule_tac [!] byte_eqI; simp add: bit_simps bit_byte_range)+
  then have "dec_buf x y z w = [push_bit 2 x OR drop_bit 4 (y AND push_bit 4 (mask 2)), push_bit 4 (y AND mask 4) OR drop_bit 2 (z AND push_bit 2 (mask 4)),
      push_bit 6 (z AND mask 2) OR w]"
    unfolding dec_buf_def byte_masks masks by (simp only: disjunctive_add_eq_or)
  moreover have "push_bit 2 x OR drop_bit 4 (y AND push_bit 4 (mask 2)) = push_bit 2 x OR drop_bit 4 y"
    "push_bit 4 (y AND mask 4) OR drop_bit 2 (z AND push_bit 2 (mask 4)) = push_bit 4 y OR drop_bit 2 z"
    "push_bit 6 (z AND mask 2) OR w = push_bit 6 z OR w"
    using h by (rule_tac [!] byte_eqI; simp add: bit_simps bit_byte_range)+
  ultimately show ?thesis by (simp only:)
qed

lemma digits_distinct: "\<lbrakk>m < 64; n < 64; base64digits ! m = base64digits ! n\<rbrakk> \<Longrightarrow> m = n"
proof -
  assume a: "m < 64" "n < 64" "base64digits ! m = base64digits ! n"
  then have "(of_nat m :: byte) = of_nat n" using BASE64DECODE_digits [of m] BASE64DECODE_digits [of n] by simp
  moreover have "unat (of_nat k :: byte) = k" if "k < 64" for k using that by (simp add: unsigned_of_nat take_bit_nat_eq_self)
  ultimately show "m = n" using a(1,2) by metis
qed

lemma code_facts:
  assumes "x < 64"
  shows "b64_find (digit x) = x" "b64_char (digit x)"
proof -
  have x: "unat x < 64" using assms by (simp add: word_less_nat_alt)
  have "base64digits ! j \<noteq> base64digits ! unat x" if "j < unat x" for j
    using digits_distinct [OF _ x, of j] that x by auto
  then have "find (\<lambda>l. b64_table ! l = digit x) [0..<64] = Some (unat x)"
    using x unfolding find_Some_iff digit_def b64_table_digits
    by (intro exI [of _ "unat x"]) (simp del: upt_rec_numeral)
  then show "b64_find (digit x) = x" by (simp add: b64_find_def del: upt_rec_numeral)
  have "list_all b64_char base64digits" by (simp add: base64digits_def b64_char_def isalnum_def)
  then show "b64_char (digit x)" using x by (simp add: digit_def list_all_length length_base64digits)
qed

lemma b64_find_zero: "b64_find 0 = 0"
proof -
  have "0 \<notin> set base64digits" by (simp add: base64digits_def)
  then have "find (\<lambda>l. b64_table ! l = 0) [0..<64] = None"
    unfolding find_None_iff b64_table_digits by (auto simp: in_set_conv_nth length_base64digits simp del: upt_rec_numeral)
  then show ?thesis by (simp add: b64_find_def del: upt_rec_numeral)
qed

text \<open>A group of codes gives its bytes back, also when it is not complete.\<close>

lemma dec_enc_buf:
  "dec_buf (drop_bit 2 a) ((push_bit 4 a AND 0x30) OR drop_bit 4 b) ((push_bit 2 b AND 0x3c) OR drop_bit 6 c) (c AND 0x3f) = [a, b, c]"
  "take 2 (dec_buf (drop_bit 2 a) ((push_bit 4 a AND 0x30) OR drop_bit 4 b) (push_bit 2 b AND 0x3c) 0) = [a, b]"
  "take 1 (dec_buf (drop_bit 2 a) (push_bit 4 a AND 0x30) 0 0) = [a]"
proof -
  have z: "(0 :: byte) < 64" by simp
  show "dec_buf (drop_bit 2 a) ((push_bit 4 a AND 0x30) OR drop_bit 4 b) ((push_bit 2 b AND 0x3c) OR drop_bit 6 c) (c AND 0x3f) = [a, b, c]"
    by (simp only: dec_buf_bytes digit_codes join_bytes)
  show "take 2 (dec_buf (drop_bit 2 a) ((push_bit 4 a AND 0x30) OR drop_bit 4 b) (push_bit 2 b AND 0x3c) 0) = [a, b]"
    by (simp only: dec_buf_bytes digit_codes join_bytes z) simp
  show "take 1 (dec_buf (drop_bit 2 a) (push_bit 4 a AND 0x30) 0 0) = [a]"
    by (simp only: dec_buf_bytes digit_codes join_bytes z) simp
qed

lemma pad_no_code: "\<not> b64_char pad_char"
  by (simp add: b64_char_def pad_char_def)

section \<open>Texts\<close>

text \<open>Enough memory for everything.\<close>

abbreviation granted :: grants where
  "granted \<equiv> \<lambda>_. True"

lemma push_chars_granted: "push_chars granted enc cs = Some (enc @ cs)"
  by (induction cs arbitrary: enc) simp_all

lemma enc_rest_encode: "enc_rest [] = []" "enc_rest [a] = encode [a]" "enc_rest [a, b] = encode [a, b]"
  by (simp_all add: enc_rest_def Let_def enc_buf_codes table_at_digit pad_char_def numeral_2_eq_2 numeral_3_eq_3)

lemma enc_loop_encode: "\<exists>tmp out. b64_enc_loop granted src [] enc = Some (tmp, enc @ out) \<and> out @ enc_rest tmp = encode src"
proof (induction src arbitrary: enc rule: encode.induct)
  case (1 a b c src)
  let ?g = "map table_at (enc_buf a b c)"
  obtain tmp out where "b64_enc_loop granted src [] (enc @ ?g) = Some (tmp, (enc @ ?g) @ out)" "out @ enc_rest tmp = encode src"
    using 1 by blast
  then have "b64_enc_loop granted (a # b # c # src) [] enc = Some (tmp, enc @ ?g @ out) \<and> (?g @ out) @ enc_rest tmp = encode (a # b # c # src)"
    by (simp add: enc_buf_codes table_at_digit)
  then show ?case by blast
qed (auto simp: enc_rest_encode simp del: encode.simps(2,3))

lemma b64_encode_granted: "b64_encode granted src = Some (Some (encode src @ [0]))"
  using enc_loop_encode [of src "[]"] by (auto simp: b64_encode_def push_chars_granted)

lemma dec_rest_codes:
  "b64_dec_rest granted [p, q, r] dec = Some (dec @ take 2 (dec_buf (b64_find p) (b64_find q) (b64_find r) 0))"
  "b64_dec_rest granted [p, q] dec = Some (dec @ take 1 (dec_buf (b64_find p) (b64_find q) 0 0))"
  by (simp_all add: b64_dec_rest_def Let_def b64_find_zero numeral_2_eq_2 numeral_3_eq_3)

lemma dec_loop_encode:
  "\<exists>tmp out. b64_dec_loop granted (encode d) [] dec = Some (tmp, dec @ out) \<and> b64_dec_rest granted tmp (dec @ out) = Some (dec @ d)"
proof (induction d arbitrary: dec rule: encode.induct)
  case (1 a b c d)
  obtain tmp out where "b64_dec_loop granted (encode d) [] (dec @ [a, b, c]) = Some (tmp, (dec @ [a, b, c]) @ out)"
      "b64_dec_rest granted tmp ((dec @ [a, b, c]) @ out) = Some ((dec @ [a, b, c]) @ d)"
    using 1 by blast
  then have "b64_dec_loop granted (encode (a # b # c # d)) [] dec = Some (tmp, dec @ [a, b, c] @ out)
      \<and> b64_dec_rest granted tmp (dec @ [a, b, c] @ out) = Some (dec @ a # b # c # d)"
    by (simp add: code_facts dec_enc_buf)
  then show ?case by blast
next
  case (2 a b)
  then show ?case by (simp add: code_facts pad_no_code dec_rest_codes dec_enc_buf)
next
  case (3 a)
  then show ?case using dec_enc_buf(3) [of a] by (simp add: code_facts pad_no_code dec_rest_codes)
qed (simp add: b64_dec_rest_def)

lemma b64_decode_granted: "b64_decode_ex granted (encode d) = Some (d @ [0], length d)"
  using dec_loop_encode [of d "[]"] by (auto simp: b64_decode_ex_def)

section \<open>Properties\<close>

text \<open>
  \<^bold>\<open>C36\<close>  The two Base64 codecs of the program agree: with enough memory \<open>b64_encode\<close> gives, for every byte string, the text of
  \<open>astPackage::encode\<close> with a terminating zero, and \<open>b64_decode_ex\<close> recovers the bytes from it with their number.
\<close>

theorem b64_agrees:
  assumes "\<forall>n. ok n"
  shows "b64_encode ok d = Some (Some (encode d @ [0])) \<and> b64_decode_ex ok (encode d) = Some (d @ [0], length d)"
proof -
  have "ok = granted" using assms by blast
  then show ?thesis by (simp add: b64_encode_granted b64_decode_granted)
qed

theorem b64_agrees_witness:
  "b64_encode (\<lambda>n. n + 1 > 0) [0x66, 0x6f] = Some (Some (encode [0x66, 0x6f] @ [0]))
    \<and> b64_decode_ex (\<lambda>n. n + 1 > 0) (encode [0x66, 0x6f]) = Some ([0x66, 0x6f] @ [0], length [0x66 :: byte, 0x6f])"
  by (rule b64_agrees) simp

text \<open>A text of one Base64 character asks \<open>realloc\<close> for no bytes, which may be answered with NULL; then so is the call.\<close>

lemma b64_single_character: "\<lbrakk>b64_char c; \<not> ok 0\<rbrakk> \<Longrightarrow> b64_decode_ex ok [c] = None"
  by (simp add: b64_decode_ex_def b64_dec_rest_def)

end
