(* ===== verification/SockAddr.thy ===== *)
theory SockAddr
  imports ZSocket
begin

text \<open>
  The rest of \<open>CSocket\<close> (\<open>src/public/zsocket.h\<close>): addresses, socket options, the calls that pass their arguments on, the
  guard \<open>blocking_auto\<close>, and the class \<open>CSocketHandle\<close>.

  What the kernel is asked for is a \<open>request\<close>, which these operations give beside their result.  An address is its
  content in memory, with port and host in network order; \<open>inet_addr\<close> of the C library is an argument that gives the four
  bytes of a host.
\<close>

section \<open>Addresses\<close>

record sockaddr_in =
  sin_family :: nat
  sin_port :: "byte list"
  sin_addr :: "byte list"
  sin_zero :: "byte list"

definition AF_INET :: nat where "AF_INET = 2"

text \<open>\<open>htons\<close> and \<open>htonl\<close>: the bytes of the result in memory; \<open>ntohl\<close> reads them.\<close>

definition htons :: "int \<Rightarrow> byte list" where
  "htons port = (let w = word_of_int port :: 16 word in [ucast (drop_bit 8 w), ucast w])"

definition htonl :: "32 word \<Rightarrow> byte list" where
  "htonl ip = PutBE32 ip"

definition ntohl :: "byte list \<Rightarrow> 32 word" where
  "ntohl bs = GetBE32 bs"

definition build_addr :: "32 word \<Rightarrow> int \<Rightarrow> sockaddr_in" where
  "build_addr ip port = \<lparr>sin_family = AF_INET, sin_port = htons port, sin_addr = htonl ip, sin_zero = replicate 8 0\<rparr>"

definition build_addr_text :: "(string \<Rightarrow> byte list) \<Rightarrow> string \<Rightarrow> int \<Rightarrow> sockaddr_in" where
  "build_addr_text inet_addr ip port = build_addr (ntohl (inet_addr ip)) port"

section \<open>Requests\<close>

datatype optval = OptInt int | OptTime "int \<times> int"
datatype optlevel = IPPROTO_TCP | SOL_SOCKET
datatype sockopt = TCP_NODELAY | SO_REUSEADDR | SO_RCVTIMEO | SO_SNDTIMEO

datatype request =
    ReqOption int optlevel sockopt optval
  | ReqBind int sockaddr_in
  | ReqConnect int sockaddr_in
  | ReqName int
  | ReqListen int int
  | ReqSend int "byte list"
  | ReqRecv int nat

definition code_of :: "reply list \<Rightarrow> (int \<times> reply list) option" where
  "code_of rs = map_option (\<lambda>(n, _, r). (n, r)) (plain_call rs)"

definition setoption :: "optlevel \<Rightarrow> sockopt \<Rightarrow> optval \<Rightarrow> CSocket \<Rightarrow> reply list \<Rightarrow> request \<times> (int \<times> reply list) option" where
  "setoption level name opt s rs = (ReqOption (m_fd s) level name opt, code_of rs)"

definition setnodelay :: "bool \<Rightarrow> CSocket \<Rightarrow> reply list \<Rightarrow> request \<times> (int \<times> reply list) option" where
  "setnodelay nodelay s rs = setoption IPPROTO_TCP TCP_NODELAY (OptInt (if nodelay then 1 else 0)) s rs"

definition setreuseaddr :: "bool \<Rightarrow> CSocket \<Rightarrow> reply list \<Rightarrow> request \<times> (int \<times> reply list) option" where
  "setreuseaddr reuse s rs = setoption SOL_SOCKET SO_REUSEADDR (OptInt (if reuse then 1 else 0)) s rs"

text \<open>\<open>struct timeval tv = { tmout_ms / 1000, tmout_ms % 1000 * 1000 }\<close>\<close>

definition timeo :: "int \<Rightarrow> int \<times> int" where
  "timeo tmout_ms = (tmout_ms sdiv 1000, tmout_ms smod 1000 * 1000)"

definition setrecvtimeo :: "int \<Rightarrow> CSocket \<Rightarrow> reply list \<Rightarrow> request \<times> (int \<times> reply list) option" where
  "setrecvtimeo tmout_ms s rs = setoption SOL_SOCKET SO_RCVTIMEO (OptTime (timeo tmout_ms)) s rs"

definition setsendtimeo :: "int \<Rightarrow> CSocket \<Rightarrow> reply list \<Rightarrow> request \<times> (int \<times> reply list) option" where
  "setsendtimeo tmout_ms s rs = setoption SOL_SOCKET SO_SNDTIMEO (OptTime (timeo tmout_ms)) s rs"

text \<open>\<open>bind\<close> and \<open>connect\<close> for an address, a host as an integer, and a host as text.\<close>

definition bind_sa :: "sockaddr_in \<Rightarrow> CSocket \<Rightarrow> reply list \<Rightarrow> request \<times> (int \<times> reply list) option" where
  "bind_sa sa s rs = (ReqBind (m_fd s) sa, code_of rs)"

definition bind_addr :: "32 word \<Rightarrow> int \<Rightarrow> CSocket \<Rightarrow> reply list \<Rightarrow> request \<times> (int \<times> reply list) option" where
  "bind_addr inaddr port s rs = bind_sa (build_addr inaddr port) s rs"

definition bind_text :: "(string \<Rightarrow> byte list) \<Rightarrow> string \<Rightarrow> int \<Rightarrow> CSocket \<Rightarrow> reply list \<Rightarrow> request \<times> (int \<times> reply list) option" where
  "bind_text inet_addr ip port s rs = bind_sa (build_addr_text inet_addr ip port) s rs"

definition connect_sa :: "sockaddr_in \<Rightarrow> CSocket \<Rightarrow> reply list \<Rightarrow> request \<times> (int \<times> reply list) option" where
  "connect_sa sa s rs = (ReqConnect (m_fd s) sa, code_of rs)"

definition connect_addr :: "32 word \<Rightarrow> int \<Rightarrow> CSocket \<Rightarrow> reply list \<Rightarrow> request \<times> (int \<times> reply list) option" where
  "connect_addr inaddr port s rs = connect_sa (build_addr inaddr port) s rs"

definition connect_text :: "(string \<Rightarrow> byte list) \<Rightarrow> string \<Rightarrow> int \<Rightarrow> CSocket \<Rightarrow> reply list \<Rightarrow> request \<times> (int \<times> reply list) option" where
  "connect_text inet_addr ip port s rs = connect_sa (build_addr_text inet_addr ip port) s rs"

definition getsockname :: "CSocket \<Rightarrow> reply list \<Rightarrow> request \<times> (int \<times> string option \<times> reply list) option" where
  "getsockname s rs =
     (ReqName (m_fd s),
      case rs of Name ip # r \<Rightarrow> Some (0, Some ip, r) | Fail e # r \<Rightarrow> Some (- 1, None, r) | _ \<Rightarrow> None)"

definition sock_listen :: "int \<Rightarrow> CSocket \<Rightarrow> reply list \<Rightarrow> request \<times> (int \<times> reply list) option" where
  "sock_listen backlog s rs = (ReqListen (m_fd s) backlog, code_of rs)"

text \<open>\<open>send\<close> and \<open>recv\<close> return \<open>unsigned int\<close>.\<close>

definition u32_of :: "int \<Rightarrow> nat" where
  "u32_of n = nat (n mod 2 ^ 32)"

definition sock_send :: "byte list \<Rightarrow> CSocket \<Rightarrow> reply list \<Rightarrow> request \<times> (nat \<times> reply list) option" where
  "sock_send b s rs = (ReqSend (m_fd s) b, map_option (\<lambda>(n, r). (u32_of n, r)) (code_of rs))"

definition sock_recv :: "nat \<Rightarrow> CSocket \<Rightarrow> reply list \<Rightarrow> request \<times> (nat \<times> byte list \<times> reply list) option" where
  "sock_recv len s rs =
     (ReqRecv (m_fd s) len,
      case rs of
        Data bs # r \<Rightarrow> if length bs > len then None else Some (u32_of (int (length bs)), bs, r)
      | Fail e # r \<Rightarrow> Some (u32_of (- 1), [], r)
      | _ \<Rightarrow> None)"

section \<open>Guards and handles\<close>

text \<open>\<open>blocking_auto\<close> around an operation; without a socket it does nothing.\<close>

definition blocking_auto ::
    "bool \<Rightarrow> (CSocket \<Rightarrow> reply list \<Rightarrow> ('a \<times> CSocket \<times> reply list) option) \<Rightarrow> CSocket \<Rightarrow> reply list \<Rightarrow> ('a \<times> CSocket \<times> reply list) option" where
  "blocking_auto parent body s rs =
     (if \<not> parent then body s rs
      else case setblocking 0 s rs of
             None \<Rightarrow> None
           | Some (_, s1, r1) \<Rightarrow>
               (case body s1 r1 of
                  None \<Rightarrow> None
                | Some (x, s2, r2) \<Rightarrow> map_option (\<lambda>(_, s3, r3). (x, s3, r3)) (setblocking 1 s2 r2)))"

definition CSocket_dtor :: "CSocket \<Rightarrow> reply list \<Rightarrow> (CSocket \<times> reply list) option" where
  "CSocket_dtor s rs = map_option snd (close s rs)"

text \<open>\<open>CSocketHandle\<close>: the destructor detaches the descriptor before the one of \<open>CSocket\<close> runs.\<close>

definition CSocketHandle_ctor :: "CSocket \<Rightarrow> int \<Rightarrow> CSocket" where
  "CSocketHandle_ctor s fd = CSocket_ctor s fd"

definition CSocketHandle_dtor :: "CSocket \<Rightarrow> reply list \<Rightarrow> (CSocket \<times> reply list) option" where
  "CSocketHandle_dtor s rs = CSocket_dtor (snd (detach s)) rs"

section \<open>Facts\<close>

text \<open>A host given as text reaches the kernel with the bytes of \<open>inet_addr\<close>.\<close>

lemma build_addr_text_bytes: "length (inet_addr ip) = 4 \<Longrightarrow> sin_addr (build_addr_text inet_addr ip port) = inet_addr ip"
  by (simp add: build_addr_text_def build_addr_def htonl_def ntohl_def Put_GetBE32)

text \<open>The port is taken modulo \<open>2 ^ 16\<close>.\<close>

lemma sin_port_value:
  "map unat (sin_port (build_addr ip port)) = [nat (port mod 2 ^ 16) div 256, nat (port mod 2 ^ 16) mod 256]"
proof -
  define w :: "16 word" where "w = word_of_int port"
  have u: "unat w = nat (port mod 2 ^ 16)" by (simp add: w_def unsigned_of_int take_bit_eq_mod)
  have "unat w < 2 ^ 16" using unsigned_less [of w, where ?'a = nat] by simp
  moreover have "unat (ucast (drop_bit 8 w) :: byte) = unat w div 256 mod 256" "unat (ucast w :: byte) = unat w mod 256"
    by (simp_all add: unsigned_ucast_eq take_bit_eq_mod drop_bit_eq_div unat_div)
  ultimately have "unat (ucast (drop_bit 8 w) :: byte) = unat w div 256" "unat (ucast w :: byte) = unat w mod 256" by simp_all
  then show ?thesis by (simp add: build_addr_def htons_def Let_def w_def [symmetric] u)
qed

text \<open>The timeouts of the options are exact, unlike those of \<^const>\<open>time_left\<close>.\<close>

lemma timeo_exact:
  assumes "0 \<le> ms"
  shows "fst (timeo ms) * 1000000 + snd (timeo ms) = ms * 1000" "0 \<le> snd (timeo ms)" "snd (timeo ms) < 1000000"
proof -
  have "ms sdiv 1000 = ms div 1000" "ms smod 1000 = ms mod 1000"
    using assms by (simp_all add: signed_divide_int_def signed_modulo_int_def sgn_if)
  moreover have "ms div 1000 * 1000000 + ms mod 1000 * 1000 = ms * 1000" by presburger
  ultimately show "fst (timeo ms) * 1000000 + snd (timeo ms) = ms * 1000" "0 \<le> snd (timeo ms)" "snd (timeo ms) < 1000000"
    by (simp_all add: timeo_def)
qed

text \<open>An error of the plain calls comes back as a huge count.\<close>

lemma plain_errors: "snd (sock_send b s (Fail e # r)) = Some (4294967295, r)" "snd (sock_recv n s (Fail e # r)) = Some (4294967295, [], r)"
  by (simp_all add: sock_send_def sock_recv_def code_of_def plain_call_def u32_of_def)

text \<open>
  The guard does not restore the mode: when the calls of \<open>fcntl\<close> succeed, the socket is blocking afterwards, whatever
  it was before.
\<close>

lemma blocking_auto_leaves_blocking:
  assumes "\<And>s r. body s r = Some (x, s, r)" "fd_nonblock s"
  shows "blocking_auto True body s (Count a # Count b # Count c # rs) = Some (x, s\<lparr>fd_nonblock := False\<rparr>, rs)"
  using assms by (simp add: blocking_auto_def setblocking_def)

lemma accept_impl_guard: "accept_impl tmo = blocking_auto tmo (\<lambda>s rs. map_option (\<lambda>(fd, r). (fd, s, r)) (accept_loop tmo rs))"
  by (rule ext)+ (auto simp: accept_impl_def blocking_auto_def split: option.splits)

text \<open>A handle never closes its descriptor, a socket does.\<close>

lemma handle_keeps_open: "CSocketHandle_dtor s rs = Some (s\<lparr>m_fd := - 1\<rparr>, rs)"
  by (simp add: CSocketHandle_dtor_def CSocket_dtor_def detach_def close_def)

lemma socket_closes: "m_fd s \<noteq> - 1 \<Longrightarrow> CSocket_dtor s (Count n # rs) = Some (s\<lparr>m_fd := - 1, open_fds := remove1 (m_fd s) (open_fds s)\<rparr>, rs)"
  by (simp add: CSocket_dtor_def close_def Let_def)

end
