(* ===== verification/TaskData.thy ===== *)
theory TaskData
  imports TaskList
begin

text \<open>
  The remaining data of \<open>src/public/astTask/astTask.h\<close>: the contents of commands, messages, updates and device discovery,
  repairs of health checks, the settings of the agent with their initial values, and the constructor of \<open>taskhead\<close>
  with arguments.
\<close>

section \<open>Contents of tasks\<close>

record ST_EXAMREPAIR =
  er_repairSource :: TASK_RESOURCE_DATA
  vecRepairFiles :: "string list"

record ST_EXAMREPAIRSOFT =
  nMethod :: int
  repairDesc :: string
  filePath :: string
  fileName :: string
  exeName :: string
  nFileType :: int
  isInstall :: bool
  cmdParam :: string
  repairSource :: TASK_RESOURCE_DATA

record TASK_CMD_DATA =
  btCmdFlag :: bool
  responseType :: int
  cmd_text :: string
  cmd_resource :: TASK_RESOURCE_DATA
  cmd_path :: string
  cmd_result :: TASK_RESOURCE_DATA
  resPath :: string

record TASK_MESSAGE_DATA =
  msg_content :: string
  msg_type :: int

record TASK_ASS_DATA =
  btAssFlag :: bool
  ass_torrentname :: string
  astType :: string
  ass_resource :: TASK_RESOURCE_DATA
  resourcePath :: string
  ass_name :: string
  strAstVersion :: string

record TASK_DEV_DISCOVER =
  m_strExecParam :: string
  dev_resource :: TASK_RESOURCE_DATA
  sFtpPath :: string

section \<open>Settings\<close>

record AGNETSTRATEGY =
  nCpuRest :: int
  bCpuValid :: bool
  nRamMemoryRest :: int
  bRamMemoryValid :: bool
  nDiskRest :: int
  bDiskValid :: bool
  nClearDays :: int
  nClearType :: int

definition strategy_init :: AGNETSTRATEGY where
  "strategy_init = \<lparr>nCpuRest = 10, bCpuValid = True, nRamMemoryRest = 10, bRamMemoryValid = True, nDiskRest = 10,
     bDiskValid = True, nClearDays = 30, nClearType = 0\<rparr>"

record MSGCONFIGINI =
  lDlgFrequency :: int
  nFontSize :: int
  strFontColor :: string
  bAutoClose :: bool
  nShowPosition :: int
  nShowCount :: int

record WSUS_CONFIG =
  strWsusIp :: string
  strWsusPort :: string

definition wsus_init :: WSUS_CONFIG where
  "wsus_init = \<lparr>strWsusIp = [], strWsusPort = []\<rparr>"

record TORRENT_CONFIG =
  nSeedSpeed :: int
  nSingleOriginalSpeed :: int
  nSingleSeedSpeed :: int
  bSeedRateLimit :: bool
  bSingleOriginalRateLimit :: bool
  bSingleSeedRateLimit :: bool
  strStartTime :: string
  bTimeLimit :: bool
  nOtherTransfer :: int
  nIsSeed :: int

definition torrent_init :: TORRENT_CONFIG where
  "torrent_init = \<lparr>nSeedSpeed = - 1, nSingleOriginalSpeed = - 1, nSingleSeedSpeed = - 1, bSeedRateLimit = False,
     bSingleOriginalRateLimit = False, bSingleSeedRateLimit = False, strStartTime = [], bTimeLimit = False,
     nOtherTransfer = 0, nIsSeed = 0\<rparr>"

section \<open>The constructor with arguments\<close>

text \<open>
  \<open>memcpy(tid, ntid, 30)\<close> into the array of 32 bytes, whose content before is \<open>tid0\<close>: \<open>ntid\<close> has to be 30 bytes long, and the
  task id is a string only when there is a zero among these bytes or the two that are not written.
\<close>

definition TASKHEAD_args :: "byte list \<Rightarrow> byte list \<Rightarrow> int \<Rightarrow> int \<Rightarrow> TASKHEAD option" where
  "TASKHEAD_args tid0 ntid ncycle ntype =
     (let b = take 30 ntid @ drop 30 tid0
      in if length ntid < 30 \<or> 0 \<notin> set b then None
         else Some (TASKHEAD_ctor\<lparr>tid := chars_of (buf_str b), cycle := ncycle, task_type := ntype\<rparr>))"

text \<open>An id of fewer than 30 characters is taken over whatever the array held.\<close>

lemma TASKHEAD_args_short:
  assumes "length ntid = 30" "length t < 30" "ntid = t @ 0 # r" "0 \<notin> set t"
  shows "TASKHEAD_args tid0 ntid n ty = Some (TASKHEAD_ctor\<lparr>tid := chars_of t, cycle := n, task_type := ty\<rparr>)"
proof -
  have "buf_str (t @ 0 # x) = t" for x using assms(4) by (auto simp: buf_str_def takeWhile_append)
  then show ?thesis using assms(1,3) by (simp add: TASKHEAD_args_def Let_def)
qed

text \<open>An id of 30 characters (\<open>checkTid\<close> sets no upper limit) is read on into what the array held.\<close>

lemma TASKHEAD_args_long:
  assumes "length ntid \<ge> 30" "0 \<notin> set (take 30 ntid)" "tid0 = x @ [y, 0]" "length x = 30" "y \<noteq> 0"
  shows "TASKHEAD_args tid0 ntid n ty = Some (TASKHEAD_ctor\<lparr>tid := chars_of (take 30 ntid @ [y]), cycle := n, task_type := ty\<rparr>)"
proof -
  have "buf_str ((take 30 ntid @ [y]) @ [0]) = take 30 ntid @ [y]"
    using assms(2,5) by (auto simp: buf_str_def takeWhile_append)
  then show ?thesis using assms by (simp add: TASKHEAD_args_def Let_def)
qed

end
