(* ===== verification/JsonStyled.thy ===== *)
theory JsonStyled
  imports JsonRound
begin

text \<open>
  The writers for people of \<open>src/public/json/json_writer.cpp\<close>: \<open>StyledWriter\<close> and \<open>StyledStreamWriter\<close>, on values without
  comments.  The two classes share their code but for the start of a line and the amount of indentation; the field
  \<open>to_stream\<close> tells them apart, and the document of the second is what it gave to the stream.

  A value is an action on the writer, so that the children of arrays and objects are actions too.  The vector
  \<open>childValues_\<close> is read while nothing changes it.  Sizes are those of values that fit into memory.
\<close>

section \<open>The writer\<close>

record Styled =
  childValues :: "byte list list"
  document :: "byte list"
  indentString :: "byte list"
  rightMargin :: int
  indentation :: "byte list"
  addChildValues :: bool
  to_stream :: bool

definition StyledWriter_ctor :: Styled where
  "StyledWriter_ctor = \<lparr>childValues = [], document = [], indentString = [], rightMargin = 74, indentation = replicate 3 0x20,
     addChildValues = False, to_stream = False\<rparr>"

definition StyledStreamWriter_ctor :: "byte list \<Rightarrow> Styled" where
  "StyledStreamWriter_ctor ind = \<lparr>childValues = [], document = [], indentString = [], rightMargin = 74, indentation = ind,
     addChildValues = False, to_stream = True\<rparr>"

definition put_text :: "byte list \<Rightarrow> Styled \<Rightarrow> Styled" where
  "put_text t st = st\<lparr>document := document st @ t\<rparr>"

definition pushValue :: "byte list \<Rightarrow> Styled \<Rightarrow> Styled" where
  "pushValue value st = (if addChildValues st then st\<lparr>childValues := childValues st @ [value]\<rparr> else put_text value st)"

definition writeIndent :: "Styled \<Rightarrow> Styled" where
  "writeIndent st =
     (if to_stream st then put_text (0x0A # indentString st) st
      else if document st \<noteq> [] \<and> last (document st) = 0x20 then st
      else put_text ((if document st \<noteq> [] \<and> last (document st) \<noteq> 0x0A then [0x0A] else []) @ indentString st) st)"

definition writeWithIndent :: "byte list \<Rightarrow> Styled \<Rightarrow> Styled" where
  "writeWithIndent value st = put_text value (writeIndent st)"

definition indent :: "Styled \<Rightarrow> Styled" where
  "indent st = st\<lparr>indentString := indentString st @ indentation st\<rparr>"

definition unindent :: "Styled \<Rightarrow> Styled option" where
  "unindent st =
     (if length (indentString st) < length (indentation st) then None
      else Some (st\<lparr>indentString := take (length (indentString st) - length (indentation st)) (indentString st)\<rparr>))"

type_synonym action = "Styled \<Rightarrow> Styled option"

text \<open>The loop over children: a comma behind each but the last.\<close>

fun separated :: "action list \<Rightarrow> action" where
  "separated [] st = Some st"
| "separated [w] st = w st"
| "separated (w # w' # acts) st = w st \<bind> (\<lambda>st. separated (w' # acts) (put_text [0x2C] st))"

section \<open>Arrays\<close>

text \<open>A child that forces several lines.\<close>

definition has_content :: "Value \<Rightarrow> bool" where
  "has_content v \<longleftrightarrow> (isArray v \<or> isObject v) \<and> Value_size v > 0"

text \<open>The loop of \<open>isMultineArray\<close> that collects the texts of the children, with the length of the line.\<close>

fun collect_children :: "nat \<Rightarrow> action list \<Rightarrow> Styled \<Rightarrow> int \<Rightarrow> (Styled \<times> int) option" where
  "collect_children index [] st lineLength = Some (st, lineLength)"
| "collect_children index (w # acts) st lineLength =
     (case w st of
        None \<Rightarrow> None
      | Some st \<Rightarrow>
          if length (childValues st) \<le> index then None
          else collect_children (index + 1) acts st (lineLength + int (length (childValues st ! index))))"

definition isMultineArray :: "Value list \<Rightarrow> action list \<Rightarrow> Styled \<Rightarrow> (bool \<times> Styled) option" where
  "isMultineArray children acts st =
     (let size = int (length children); st1 = st\<lparr>childValues := []\<rparr>
      in if size * 3 \<ge> rightMargin st \<or> list_ex has_content children then Some (True, st1)
         else case collect_children 0 acts (st1\<lparr>addChildValues := True\<rparr>) (4 + (size - 1) * 2) of
                None \<Rightarrow> None
              | Some (st2, lineLength) \<Rightarrow> Some (lineLength \<ge> rightMargin st, st2\<lparr>addChildValues := False\<rparr>))"

definition writeArrayValue :: "Value list \<Rightarrow> action list \<Rightarrow> action" where
  "writeArrayValue children acts st =
     (if children = [] then Some (pushValue [0x5B, 0x5D] st)
      else case isMultineArray children acts st of
             None \<Rightarrow> None
           | Some (isArrayMultiLine, st) \<Rightarrow>
               if isArrayMultiLine
               then let cs = childValues st
                    in do {
                         st \<leftarrow> separated (if cs \<noteq> [] then map (\<lambda>c st. Some (writeWithIndent c st)) cs else map (\<lambda>w st. w (writeIndent st)) acts)
                                (indent (writeWithIndent [0x5B] st));
                         st \<leftarrow> unindent st;
                         Some (writeWithIndent [0x5D] st)
                       }
               else if length (childValues st) \<noteq> length children then None
               else Some (put_text ([0x5B, 0x20] @ join [0x2C, 0x20] (childValues st) @ [0x20, 0x5D]) st))"

section \<open>Values\<close>

definition writeMember :: "byte list \<Rightarrow> action \<Rightarrow> action" where
  "writeMember name w st = w (put_text [0x20, 0x3A, 0x20] (writeWithIndent (valueToQuotedString name) st))"

definition writeObjectValue :: "(byte list \<times> action) list \<Rightarrow> action" where
  "writeObjectValue members st =
     (if members = [] then Some (pushValue [0x7B, 0x7D] st)
      else do {
             st \<leftarrow> separated (map (\<lambda>(name, w). writeMember name w) members) (indent (writeWithIndent [0x7B] st));
             st \<leftarrow> unindent st;
             Some (writeWithIndent [0x7D] st)
           })"

fun styledValue :: "fp \<Rightarrow> Value \<Rightarrow> action" where
  "styledValue f nullValue = (\<lambda>st. Some (pushValue (bytes_of ''null'') st))"
| "styledValue f (intValue i) = (\<lambda>st. map_option (\<lambda>t. pushValue t st) (valueToString_int i))"
| "styledValue f (uintValue u) = (\<lambda>st. Some (pushValue (valueToString_uint u) st))"
| "styledValue f (realValue r) = (\<lambda>st. Some (pushValue (valueToString_double f r) st))"
| "styledValue f (stringValue s) = (\<lambda>st. map_option (\<lambda>t. pushValue (valueToQuotedString t) st) s)"
| "styledValue f (booleanValue b) = (\<lambda>st. Some (pushValue (valueToString_bool b) st))"
| "styledValue f (arrayValue m) =
     (let acts = map (\<lambda>e. (fst e, styledValue f (snd e))) m;
          null = (\<lambda>st. Some (pushValue (bytes_of ''null'') st));
          size = Value_size (arrayValue m)
      in writeArrayValue (map (entry_or_null m) [0..<size])
           (map (\<lambda>index. case map_of acts index of Some w \<Rightarrow> w | None \<Rightarrow> null) [0..<size]))"
| "styledValue f (objectValue m) = writeObjectValue (map (\<lambda>e. (fst e, styledValue f (snd e))) m)"

definition styled_write :: "fp \<Rightarrow> Value \<Rightarrow> action" where
  "styled_write f root st =
     map_option (put_text [0x0A]) (styledValue f root (st\<lparr>addChildValues := False, indentString := []\<rparr>))"

definition StyledWriter_write :: "fp \<Rightarrow> Styled \<Rightarrow> Value \<Rightarrow> byte list option" where
  "StyledWriter_write f w root = map_option document (styled_write f root (w\<lparr>document := []\<rparr>))"

text \<open>The content of the stream afterwards.\<close>

definition StyledStreamWriter_write :: "fp \<Rightarrow> Styled \<Rightarrow> byte list \<Rightarrow> Value \<Rightarrow> byte list option" where
  "StyledStreamWriter_write f w out root = map_option document (styled_write f root (w\<lparr>document := out\<rparr>))"

definition toStyledString :: "fp \<Rightarrow> Value \<Rightarrow> byte list option" where
  "toStyledString f v = StyledWriter_write f StyledWriter_ctor v"

text \<open>\<open>operator<<\<close>\<close>

definition stream_out :: "fp \<Rightarrow> byte list \<Rightarrow> Value \<Rightarrow> byte list option" where
  "stream_out f sout root = StyledStreamWriter_write f (StyledStreamWriter_ctor [0x09]) sout root"

section \<open>What actions write\<close>

text \<open>
  An action appends a text with a property to the document and leaves the layout as it is; while texts are collected, it
  appends one to the vector.
\<close>

definition layout_ok :: "Styled \<Rightarrow> bool" where
  "layout_ok st \<longleftrightarrow> ws (indentString st) \<and> ws (indentation st) \<and> \<not> addChildValues st"

definition writes :: "action \<Rightarrow> (byte list \<Rightarrow> bool) \<Rightarrow> bool" where
  "writes w P \<longleftrightarrow> (\<forall>st. layout_ok st \<longrightarrow> (\<exists>t c. w st = Some (st\<lparr>document := document st @ t, childValues := c\<rparr>) \<and> P t))"

definition pushes :: "action \<Rightarrow> (byte list \<Rightarrow> bool) \<Rightarrow> bool" where
  "pushes w P \<longleftrightarrow> (\<forall>st. addChildValues st \<longrightarrow> (\<exists>t. w st = Some (st\<lparr>childValues := childValues st @ [t]\<rparr>) \<and> P t))"

text \<open>White space in front.\<close>

definition led :: "(byte list \<Rightarrow> bool) \<Rightarrow> byte list \<Rightarrow> bool" where
  "led P t \<longleftrightarrow> (\<exists>a s. t = a @ s \<and> ws a \<and> P s)"

lemma ws_append: "\<lbrakk>ws a; ws b\<rbrakk> \<Longrightarrow> ws (a @ b)"
  by (simp add: ws_def)

lemma led_self: "P s \<Longrightarrow> led P s"
  using ws_Nil unfolding led_def by (metis append_Nil)

lemma led_more: "\<lbrakk>ws a; led P s\<rbrakk> \<Longrightarrow> led P (a @ s)"
  unfolding led_def by (metis append.assoc ws_append)

lemma writesD:
  assumes "writes w P" "layout_ok st"
  obtains t c where "w st = Some (st\<lparr>document := document st @ t, childValues := c\<rparr>)" "P t"
  using assms unfolding writes_def by blast

lemma layout_ok_keeps: "layout_ok (st\<lparr>document := d, childValues := c\<rparr>) = layout_ok st" "layout_ok (st\<lparr>document := d\<rparr>) = layout_ok st"
  by (simp_all add: layout_ok_def)

lemma push_writes: "P s \<Longrightarrow> writes (\<lambda>st. Some (pushValue s st)) (led P) \<and> pushes (\<lambda>st. Some (pushValue s st)) P"
proof
  assume p: "P s"
  show "writes (\<lambda>st. Some (pushValue s st)) (led P)" unfolding writes_def
  proof (intro allI impI)
    fix st assume "layout_ok st"
    then have "Some (pushValue s st) = Some (st\<lparr>document := document st @ s, childValues := childValues st\<rparr>)"
      by (simp add: pushValue_def put_text_def layout_ok_def)
    then show "\<exists>t c. Some (pushValue s st) = Some (st\<lparr>document := document st @ t, childValues := c\<rparr>) \<and> led P t"
      using led_self [of P, OF p] by blast
  qed
  show "pushes (\<lambda>st. Some (pushValue s st)) P" using p by (auto simp: pushes_def pushValue_def)
qed

lemma indent_text:
  assumes "layout_ok st"
  obtains a where "ws a" "writeIndent st = put_text a st"
proof -
  have "ws ((if document st \<noteq> [] \<and> last (document st) \<noteq> 0x0A then [0x0A] else []) @ indentString st)" "ws (0x0A # indentString st)" "ws []"
    using assms by (simp_all add: layout_ok_def ws_def json_space_def)
  moreover have "st = put_text [] st" by (simp add: put_text_def)
  ultimately show thesis using that unfolding writeIndent_def by metis
qed

lemma writes_indented: "writes w (led P) \<Longrightarrow> writes (\<lambda>st. w (writeIndent st)) (led P)"
  unfolding writes_def [of "\<lambda>st. w (writeIndent st)"]
proof (intro allI impI)
  fix st assume w: "writes w (led P)" and ok: "layout_ok st"
  obtain a where a: "ws a" "writeIndent st = put_text a st" using indent_text [OF ok] .
  have "layout_ok (put_text a st)" using ok by (simp add: put_text_def layout_ok_keeps)
  then obtain t c where "w (put_text a st) = Some ((put_text a st)\<lparr>document := document (put_text a st) @ t, childValues := c\<rparr>)" "led P t"
    using writesD [OF w] by blast
  then have "w (writeIndent st) = Some (st\<lparr>document := document st @ a @ t, childValues := c\<rparr>) \<and> led P (a @ t)"
    using a led_more by (simp add: put_text_def)
  then show "\<exists>t c. w (writeIndent st) = Some (st\<lparr>document := document st @ t, childValues := c\<rparr>) \<and> led P t" by blast
qed

lemma writes_put: "P s \<Longrightarrow> writes (\<lambda>st. Some (put_text s st)) (led P)"
  unfolding writes_def
proof (intro allI impI)
  fix st assume "P s"
  then have "Some (put_text s st) = Some (st\<lparr>document := document st @ s, childValues := childValues st\<rparr>) \<and> led P s"
    by (simp add: put_text_def led_self)
  then show "\<exists>t c. Some (put_text s st) = Some (st\<lparr>document := document st @ t, childValues := c\<rparr>) \<and> led P t" by blast
qed

lemma writes_line: "P s \<Longrightarrow> writes (\<lambda>st. Some (writeWithIndent s st)) (led P)"
  unfolding writeWithIndent_def using writes_indented [OF writes_put] .

lemma separated_writes:
  "\<lbrakk>list_all2 writes acts Ps; acts \<noteq> []\<rbrakk> \<Longrightarrow> writes (separated acts) (\<lambda>t. \<exists>ts. t = join [0x2C] ts \<and> list_all2 (\<lambda>t P. P t) ts Ps)"
proof (induction acts arbitrary: Ps rule: induct_list012)
  case (2 w)
  then obtain P where P: "Ps = [P]" "writes w P" by (auto simp: list_all2_Cons1)
  show ?case unfolding writes_def
  proof (intro allI impI)
    fix st assume "layout_ok st"
    then obtain t c where "w st = Some (st\<lparr>document := document st @ t, childValues := c\<rparr>)" "P t" using writesD [OF P(2)] by blast
    then show "\<exists>t c. separated [w] st = Some (st\<lparr>document := document st @ t, childValues := c\<rparr>) \<and> (\<exists>ts. t = join [0x2C] ts \<and> list_all2 (\<lambda>t P. P t) ts Ps)"
      using P(1) by (intro exI [of _ t] exI [of _ c] conjI exI [of _ "[t]"]) simp_all
  qed
next
  case (3 w w' acts)
  then obtain P Ps' where P: "Ps = P # Ps'" "writes w P" "list_all2 writes (w' # acts) Ps'" by (auto simp: list_all2_Cons1 [of _ w])
  show ?case unfolding writes_def
  proof (intro allI impI)
    fix st assume ok: "layout_ok st"
    obtain t c where t: "w st = Some (st\<lparr>document := document st @ t, childValues := c\<rparr>)" "P t" using writesD [OF P(2) ok] by blast
    let ?st = "put_text [0x2C] (st\<lparr>document := document st @ t, childValues := c\<rparr>)"
    have ok': "layout_ok ?st" using ok by (simp add: put_text_def layout_ok_def)
    have "writes (separated (w' # acts)) (\<lambda>t. \<exists>ts. t = join [0x2C] ts \<and> list_all2 (\<lambda>t P. P t) ts Ps')" using "3.IH"(2) [OF P(3)] by simp
    from this [unfolded writes_def, rule_format, OF ok']
    obtain u d ts where u: "separated (w' # acts) ?st = Some (?st\<lparr>document := document ?st @ u, childValues := d\<rparr>)"
        and ts: "u = join [0x2C] ts" "list_all2 (\<lambda>t P. P t) ts Ps'"
      by (elim exE conjE)
    then obtain t' ts' where "ts = t' # ts'" using P(3) by (cases ts) auto
    then have "join [0x2C] (t # ts) = t @ 0x2C # u" using ts(1) by simp
    moreover have "separated (w # w' # acts) st = Some (st\<lparr>document := document st @ t @ 0x2C # u, childValues := d\<rparr>)"
      using t(1) u by (simp add: put_text_def)
    moreover have "list_all2 (\<lambda>t P. P t) (t # ts) Ps" using ts(2) t(2) P(1) by simp
    ultimately show "\<exists>t c. separated (w # w' # acts) st = Some (st\<lparr>document := document st @ t, childValues := c\<rparr>)
        \<and> (\<exists>ts. t = join [0x2C] ts \<and> list_all2 (\<lambda>t P. P t) ts Ps)"
      by metis
  qed
qed simp

section \<open>Blocks of lines\<close>

text \<open>Brackets on lines of their own, with the children indented between them.\<close>

definition block :: "byte \<Rightarrow> byte \<Rightarrow> action \<Rightarrow> action" where
  "block op cl w st = do { st \<leftarrow> w (indent (writeWithIndent [op] st)); st \<leftarrow> unindent st; Some (writeWithIndent [cl] st) }"

lemma block_writes:
  assumes "writes w P" "\<And>t b. P t \<Longrightarrow> ws b \<Longrightarrow> Q (op # (t @ b) @ [cl])"
  shows "writes (block op cl w) (led Q)"
  unfolding writes_def
proof (intro allI impI)
  fix st assume ok: "layout_ok st"
  obtain a where a: "ws a" "writeIndent st = put_text a st" using indent_text [OF ok] .
  let ?st = "indent (writeWithIndent [op] st)"
  have "layout_ok ?st" using ok a(2) by (simp add: layout_ok_def writeWithIndent_def indent_def put_text_def ws_append)
  then obtain t c where t: "w ?st = Some (?st\<lparr>document := document ?st @ t, childValues := c\<rparr>)" "P t" using writesD [OF assms(1)] by blast
  let ?st2 = "st\<lparr>document := document st @ a @ [op] @ t, childValues := c\<rparr>"
  have u: "unindent (?st\<lparr>document := document ?st @ t, childValues := c\<rparr>) = Some ?st2"
    using a(2) by (simp add: unindent_def indent_def writeWithIndent_def put_text_def)
  obtain b where b: "ws b" "writeIndent ?st2 = put_text b ?st2" using indent_text [of ?st2] ok layout_ok_keeps by metis
  have "block op cl w st = Some (st\<lparr>document := document st @ a @ op # (t @ b) @ [cl], childValues := c\<rparr>)"
    unfolding block_def t(1) using u b(2) by (simp add: writeWithIndent_def put_text_def)
  moreover have "led Q (a @ op # (t @ b) @ [cl])" using a(1) assms(2) [OF t(2) b(1)] unfolding led_def by blast
  ultimately show "\<exists>t c. block op cl w st = Some (st\<lparr>document := document st @ t, childValues := c\<rparr>) \<and> led Q t" by blast
qed

lemma spaced_elements:
  "\<lbrakk>list_all2 (\<lambda>t v. led (\<lambda>s. json_text f s v) t) ts vs; ts \<noteq> []; ws b\<rbrakk> \<Longrightarrow> json_elements f (join [0x2C] ts @ b) vs"
proof (induction ts arbitrary: vs rule: induct_list012)
  case (2 t)
  then obtain v a s where "vs = [v]" "t = a @ s" "ws a" "json_text f s v" by (auto simp: list_all2_Cons1 led_def)
  then show ?case using last_element [of a f s v b] 2(3) by simp
next
  case (3 t t' ts)
  obtain v vs' where v: "vs = v # vs'" "led (\<lambda>s. json_text f s v) t" "list_all2 (\<lambda>t v. led (\<lambda>s. json_text f s v) t) (t' # ts) vs'"
    using "3.prems"(1) by (subst (asm) list_all2_Cons1) blast
  then obtain a s where "t = a @ s" "ws a" "json_text f s v" by (auto simp: led_def)
  then show ?case using more_elements [OF _ _ ws_Nil "3.IH"(2) [OF v(3) _ "3.prems"(3)], of a s v] v(1) by simp
qed simp

text \<open>A member on its line.\<close>

definition styled_member :: "fp \<Rightarrow> byte list \<times> Value \<Rightarrow> byte list \<Rightarrow> bool" where
  "styled_member f e t \<longleftrightarrow>
     (\<exists>a c s. t = a @ 0x22 # concat (map escape_char (fst e)) @ 0x22 # [0x20] @ 0x3A # c @ s @ [] \<and> ws a \<and> ws c \<and> json_text f s (snd e))"

lemma spaced_members:
  "\<lbrakk>list_all2 (\<lambda>t e. styled_member f e t) ts kvs; ts \<noteq> []; ws b\<rbrakk> \<Longrightarrow> json_members f (join [0x2C] ts @ b) kvs"
proof (induction ts arbitrary: kvs rule: induct_list012)
  case (2 t)
  then obtain e where e: "kvs = [e]" "styled_member f e t" by (auto simp: list_all2_Cons1)
  then obtain a c s where m: "t = a @ 0x22 # concat (map escape_char (fst e)) @ 0x22 # [0x20] @ 0x3A # c @ s @ []" "ws a" "ws c" "json_text f s (snd e)"
    unfolding styled_member_def by blast
  then show ?case using last_member [OF m(2) escape_chars [of "fst e"] ws_space m(3,4) 2(3)] e(1) by simp
next
  case (3 t t' ts)
  obtain e kvs' where e: "kvs = e # kvs'" "styled_member f e t" "list_all2 (\<lambda>t e. styled_member f e t) (t' # ts) kvs'"
    using "3.prems"(1) by (subst (asm) list_all2_Cons1) blast
  then obtain a c s where m: "t = a @ 0x22 # concat (map escape_char (fst e)) @ 0x22 # [0x20] @ 0x3A # c @ s @ []" "ws a" "ws c" "json_text f s (snd e)"
    unfolding styled_member_def by blast
  then show ?case using more_members [OF m(2) escape_chars [of "fst e"] ws_space m(3,4) ws_Nil "3.IH"(2) [OF e(3) _ "3.prems"(3)]] e(1) by simp
qed simp

lemma member_writes:
  assumes "writes w (led (\<lambda>s. json_text f s v))"
  shows "writes (writeMember k w) (styled_member f (k, v))"
  unfolding writes_def
proof (intro allI impI)
  fix st assume ok: "layout_ok st"
  obtain a where a: "ws a" "writeIndent st = put_text a st" using indent_text [OF ok] .
  let ?st = "put_text [0x20, 0x3A, 0x20] (writeWithIndent (valueToQuotedString k) st)"
  have "layout_ok ?st" using ok a(2) by (simp add: layout_ok_def writeWithIndent_def put_text_def)
  then obtain t c where t: "w ?st = Some (?st\<lparr>document := document ?st @ t, childValues := c\<rparr>)" "led (\<lambda>s. json_text f s v) t"
    using writesD [OF assms] by blast
  then obtain x s where x: "t = x @ s" "ws x" "json_text f s v" by (auto simp: led_def)
  let ?t = "a @ 0x22 # concat (map escape_char k) @ 0x22 # [0x20] @ 0x3A # (0x20 # x) @ s @ []"
  have "writeMember k w st = Some (st\<lparr>document := document st @ ?t, childValues := c\<rparr>)"
    unfolding writeMember_def t(1) using a(2) x(1) by (simp add: writeWithIndent_def put_text_def valueToQuotedString_eq)
  moreover have "ws (0x20 # x)" using x(2) by (simp add: ws_def json_space_def)
  then have "styled_member f (k, v) ?t" unfolding styled_member_def using a(1) x(3) by (intro exI [of _ a] exI [of _ "0x20 # x"] exI [of _ s]) simp
  ultimately show "\<exists>t c. writeMember k w st = Some (st\<lparr>document := document st @ t, childValues := c\<rparr>) \<and> styled_member f (k, v) t" by blast
qed

lemma object_writes:
  assumes "keys_sorted m" "\<And>e. e \<in> set m \<Longrightarrow> no_nul (fst e) \<and> writes (w (snd e)) (led (\<lambda>s. json_text f s (snd e)))" "m \<noteq> []"
  shows "writes (writeObjectValue (map (\<lambda>e. (fst e, w (snd e))) m)) (led (\<lambda>s. json_text f s (objectValue m)))"
proof -
  let ?acts = "map (\<lambda>(name, w). writeMember name w) (map (\<lambda>e. (fst e, w (snd e))) m)"
  have "list_all2 writes ?acts (map (styled_member f) m)"
    unfolding list_all2_map1 list_all2_map2 using assms(2) member_writes [of "w (snd e)" f "snd e" "fst e" for e] by (intro list.rel_refl_strong) simp
  then have "writes (separated ?acts) (\<lambda>t. \<exists>ts. t = join [0x2C] ts \<and> list_all2 (\<lambda>t P. P t) ts (map (styled_member f) m))"
    using assms(3) by (intro separated_writes) simp_all
  moreover have "json_text f (0x7B # (t @ b) @ [0x7D]) (objectValue m)"
    if "\<exists>ts. t = join [0x2C] ts \<and> list_all2 (\<lambda>t P. P t) ts (map (styled_member f) m)" "ws b" for t b
  proof -
    note t = that
    obtain ts where ts: "t = join [0x2C] ts" "list_all2 (\<lambda>t e. styled_member f e t) ts m" using t(1) by (auto simp: list_all2_map2)
    have "put_all m [] = m" using put_all_sorted [of "[]" m] assms(1,2) by simp
    then show ?thesis using text_object [OF spaced_members [OF ts(2) _ t(2)]] assms(3) ts by auto
  qed
  ultimately have "writes (block 0x7B 0x7D (separated ?acts)) (led (\<lambda>s. json_text f s (objectValue m)))" by (rule block_writes)
  moreover have "writeObjectValue (map (\<lambda>e. (fst e, w (snd e))) m) = block 0x7B 0x7D (separated ?acts)"
    using assms(3) by (simp add: writeObjectValue_def block_def fun_eq_iff)
  ultimately show ?thesis by simp
qed

section \<open>Arrays are written\<close>

lemma collect_pushes:
  "\<lbrakk>list_all2 pushes acts Ps; addChildValues st; index = length (childValues st)\<rbrakk>
     \<Longrightarrow> \<exists>ss l. collect_children index acts st n = Some (st\<lparr>childValues := childValues st @ ss\<rparr>, l) \<and> list_all2 (\<lambda>t P. P t) ss Ps"
proof (induction acts arbitrary: Ps st index n)
  case (Cons w acts)
  obtain P Ps' where P: "Ps = P # Ps'" "pushes w P" "list_all2 pushes acts Ps'" using Cons.prems(1) by (auto simp: list_all2_Cons1)
  obtain t where t: "w st = Some (st\<lparr>childValues := childValues st @ [t]\<rparr>)" "P t" using P(2) Cons.prems(2) unfolding pushes_def by blast
  let ?st = "st\<lparr>childValues := childValues st @ [t]\<rparr>"
  obtain ss l where "collect_children (index + 1) acts ?st (n + int (length t)) = Some (?st\<lparr>childValues := childValues ?st @ ss\<rparr>, l)"
      "list_all2 (\<lambda>t P. P t) ss Ps'"
    using Cons.IH [OF P(3), of ?st "index + 1" "n + int (length t)"] Cons.prems(2,3) by auto
  then have "collect_children index (w # acts) st n = Some (st\<lparr>childValues := childValues st @ t # ss\<rparr>, l) \<and> list_all2 (\<lambda>t P. P t) (t # ss) Ps"
    using t Cons.prems(3) P(1) by simp
  then show ?case by blast
qed simp

text \<open>The children of an array, one per line.\<close>

lemma lines_array:
  assumes "list_all2 (\<lambda>w v. writes w (led (\<lambda>s. json_text f s v))) acts vs" "acts \<noteq> []"
  shows "writes (block 0x5B 0x5D (separated acts)) (led (\<lambda>s. json_text f s (arrayValue (zip [0..<length vs] vs))))"
proof (rule block_writes)
  show "writes (separated acts) (\<lambda>t. \<exists>ts. t = join [0x2C] ts \<and> list_all2 (\<lambda>t P. P t) ts (map (\<lambda>v. led (\<lambda>s. json_text f s v)) vs))"
    using assms by (intro separated_writes) (simp_all add: list_all2_map2)
  fix t b assume "\<exists>ts. t = join [0x2C] ts \<and> list_all2 (\<lambda>t P. P t) ts (map (\<lambda>v. led (\<lambda>s. json_text f s v)) vs)" and b: "ws b"
  then obtain ts where ts: "t = join [0x2C] ts" "list_all2 (\<lambda>t v. led (\<lambda>s. json_text f s v) t) ts vs" by (auto simp: list_all2_map2)
  have "ts \<noteq> []" using ts(2) assms by auto
  then show "json_text f (0x5B # (t @ b) @ [0x5D]) (arrayValue (zip [0..<length vs] vs))"
    using text_array [OF spaced_elements [OF ts(2) _ b]] ts(1) by simp
qed

text \<open>All children on one line.\<close>

lemma line_join: "ss \<noteq> [] \<Longrightarrow> [0x20] @ join [0x2C, 0x20] ss = join [0x2C] (map (\<lambda>s. [0x20] @ s) ss)"
  by (induction ss rule: induct_list012) simp_all

lemma line_array:
  assumes "list_all2 (json_text f) ss vs" "ss \<noteq> []"
  shows "json_text f ([0x5B, 0x20] @ join [0x2C, 0x20] ss @ [0x20, 0x5D]) (arrayValue (zip [0..<length vs] vs))"
proof -
  have "list_all2 (\<lambda>t v. led (\<lambda>s. json_text f s v) t) (map (\<lambda>s. [0x20] @ s) ss) vs"
    unfolding list_all2_map1 using assms(1) by (rule list_all2_mono) (rule led_more [OF ws_space led_self])
  then have "json_text f (0x5B # (join [0x2C] (map (\<lambda>s. [0x20] @ s) ss) @ [0x20]) @ [0x5D]) (arrayValue (zip [0..<length vs] vs))"
    using assms(2) by (intro text_array spaced_elements ws_space) simp_all
  then show ?thesis unfolding line_join [OF assms(2), symmetric] by simp
qed

lemma array_writes:
  assumes "list_all2 (\<lambda>w v. writes w (led (\<lambda>s. json_text f s v)) \<and> (\<not> has_content v \<longrightarrow> pushes w (\<lambda>s. json_text f s v))) acts vs" "vs \<noteq> []"
  shows "writes (writeArrayValue vs acts) (led (\<lambda>s. json_text f s (arrayValue (zip [0..<length vs] vs))))"
  unfolding writes_def
proof (intro allI impI)
  let ?Q = "led (\<lambda>s. json_text f s (arrayValue (zip [0..<length vs] vs)))"
  fix st assume ok: "layout_ok st"
  let ?st1 = "st\<lparr>childValues := []\<rparr>"
  have ok1: "layout_ok ?st1" using ok by (simp add: layout_ok_def)
  have len: "length acts = length vs" "acts \<noteq> []" using assms list_all2_lengthD by auto
  show "\<exists>t c. writeArrayValue vs acts st = Some (st\<lparr>document := document st @ t, childValues := c\<rparr>) \<and> ?Q t"
  proof (cases "int (length vs) * 3 \<ge> rightMargin st \<or> list_ex has_content vs")
    case True
    let ?lines = "map (\<lambda>w st. w (writeIndent st)) acts"
    have "list_all2 (\<lambda>w v. writes w (led (\<lambda>s. json_text f s v))) ?lines vs"
      unfolding list_all2_map1 using assms(1) by (rule list_all2_mono) (simp add: writes_indented)
    then have "writes (block 0x5B 0x5D (separated ?lines)) ?Q" using len(2) by (intro lines_array) simp_all
    then obtain t c where "block 0x5B 0x5D (separated ?lines) ?st1 = Some (?st1\<lparr>document := document ?st1 @ t, childValues := c\<rparr>)" "?Q t"
      using writesD [OF _ ok1] by blast
    moreover have "writeArrayValue vs acts st = block 0x5B 0x5D (separated ?lines) ?st1"
      using True assms(2) by (simp add: writeArrayValue_def isMultineArray_def block_def Let_def)
    ultimately show ?thesis by auto
  next
    case False
    let ?st2 = "?st1\<lparr>addChildValues := True\<rparr>"
    have "list_all2 pushes acts (map (\<lambda>v s. json_text f s v) vs)"
      using assms(1) False unfolding list_all2_map2 by (simp add: list_all2_conv_all_nth list_ex_iff)
    then obtain ss l where c: "collect_children 0 acts ?st2 (4 + (int (length vs) - 1) * 2) = Some (?st2\<lparr>childValues := ss\<rparr>, l)"
        "list_all2 (json_text f) ss vs"
      using collect_pushes [of acts _ ?st2 0] by (fastforce simp: list_all2_map2)
    have ss: "ss \<noteq> []" "length ss = length vs" using c(2) assms(2) list_all2_lengthD by auto
    let ?st3 = "st\<lparr>childValues := ss\<rparr>"
    have m: "isMultineArray vs acts st = Some (l \<ge> rightMargin st, ?st3)"
      using False c(1) ok by (simp add: isMultineArray_def layout_ok_def Let_def)
    show ?thesis
    proof (cases "l \<ge> rightMargin st")
      case True
      let ?lines = "map (\<lambda>c st. Some (writeWithIndent c st)) ss"
      have "list_all2 (\<lambda>w v. writes w (led (\<lambda>s. json_text f s v))) ?lines vs"
        unfolding list_all2_map1 using c(2) by (rule list_all2_mono) (simp add: writes_line)
      then have "writes (block 0x5B 0x5D (separated ?lines)) ?Q" using ss(1) by (intro lines_array) simp_all
      moreover have "layout_ok ?st3" using ok by (simp add: layout_ok_def)
      ultimately obtain t c where "block 0x5B 0x5D (separated ?lines) ?st3 = Some (?st3\<lparr>document := document ?st3 @ t, childValues := c\<rparr>)" "?Q t"
        using writesD by blast
      moreover have "writeArrayValue vs acts st = block 0x5B 0x5D (separated ?lines) ?st3"
        using m True ss(1) assms(2) by (simp add: writeArrayValue_def block_def)
      ultimately show ?thesis by auto
    next
      case False
      let ?t = "[0x5B, 0x20] @ join [0x2C, 0x20] ss @ [0x20, 0x5D]"
      have "writeArrayValue vs acts st = Some (st\<lparr>document := document st @ ?t, childValues := ss\<rparr>)"
        using m False ss(2) assms(2) by (simp add: writeArrayValue_def put_text_def)
      moreover have "?Q ?t" using line_array [OF c(2) ss(1)] by (rule led_self)
      ultimately show ?thesis by blast
    qed
  qed
qed

section \<open>Documents\<close>

lemma styled_text:
  "writable f v \<Longrightarrow> writes (styledValue f v) (led (\<lambda>s. json_text f s v)) \<and> (\<not> has_content v \<longrightarrow> pushes (styledValue f v) (\<lambda>s. json_text f s v))"
proof (induction v)
  case (arrayValue m)
  let ?vs = "map snd m" and ?acts = "map (\<lambda>e. styledValue f (snd e)) m"
  have c: "map fst m = [0..<length m]" using arrayValue.prems by simp
  have "map (entry_or_null m) [0..<length m] = ?vs"
    using contiguous_map [OF c, where g = "\<lambda>v. v" and d = nullValue] by (simp add: entry_or_null_def [abs_def])
  then have w: "styledValue f (arrayValue m) = writeArrayValue ?vs ?acts"
    unfolding styledValue.simps Let_def contiguous_size [OF c] contiguous_map [OF c] by simp
  have z: "zip [0..<length ?vs] ?vs = m" using c by (metis length_map zip_map_fst_snd)
  show ?case
  proof (cases "m = []")
    case True
    have "json_text f [0x5B, 0x5D] (arrayValue [])" using text_no_element [OF ws_Nil] by simp
    then show ?thesis using True w push_writes [of "\<lambda>s. json_text f s (arrayValue [])"] by (simp add: writeArrayValue_def [abs_def])
  next
    case False
    have "writes (styledValue f (snd e)) (led (\<lambda>s. json_text f s (snd e))) \<and> (\<not> has_content (snd e) \<longrightarrow> pushes (styledValue f (snd e)) (\<lambda>s. json_text f s (snd e)))"
      if "e \<in> set m" for e using that arrayValue by (metis snds.intros writable.simps(7))
    then have "list_all2 (\<lambda>w v. writes w (led (\<lambda>s. json_text f s v)) \<and> (\<not> has_content v \<longrightarrow> pushes w (\<lambda>s. json_text f s v))) ?acts ?vs"
      unfolding list_all2_map1 list_all2_map2 by (intro list.rel_refl_strong) simp
    moreover have "has_content (arrayValue m)" using False by (simp add: has_content_def isArray_def)
    ultimately show ?thesis using array_writes [of f ?acts ?vs] False w z by simp
  qed
next
  case (objectValue m)
  show ?case
  proof (cases "m = []")
    case True
    have "json_text f [0x7B, 0x7D] (objectValue [])" using text_no_member [OF ws_Nil] by simp
    then show ?thesis using True push_writes [of "\<lambda>s. json_text f s (objectValue [])"] by (simp add: writeObjectValue_def [abs_def])
  next
    case False
    have "no_nul (fst e) \<and> writes (styledValue f (snd e)) (led (\<lambda>s. json_text f s (snd e)))" if "e \<in> set m" for e
      using that objectValue by (metis snds.intros writable.simps(8))
    moreover have "has_content (objectValue m)" using False by (simp add: has_content_def isObject_def)
    ultimately show ?thesis using object_writes [of m "styledValue f" f] False objectValue.prems by simp
  qed
next
  case (intValue i)
  then obtain s where "valueToString_int i = Some s" "json_text f s (intValue i)" using value_text [of f "intValue i"] by auto
  then show ?case using push_writes [of "\<lambda>s. json_text f s (intValue i)" s] by simp
next
  case (stringValue s)
  then obtain t where "s = Some t" "no_nul t" by (auto split: option.splits)
  then show ?case using push_writes [of "\<lambda>u. json_text f u (stringValue s)"] quoted_text [of t f] by simp
next
  case (uintValue u)
  then have "json_text f (valueToString_uint u) (uintValue u)" using value_text [of f "uintValue u"] by simp
  then show ?case using push_writes [of "\<lambda>s. json_text f s (uintValue u)"] by simp
next
  case (booleanValue b)
  then have "json_text f (valueToString_bool b) (booleanValue b)" using value_text [of f "booleanValue b"] by simp
  then show ?case using push_writes [of "\<lambda>s. json_text f s (booleanValue b)"] by simp
next
  case (realValue r)
  then have "json_text f (valueToString_double f r) (realValue r)" using value_text [of f "realValue r"] by simp
  then show ?case using push_writes [of "\<lambda>s. json_text f s (realValue r)"] by simp
next
  case nullValue
  then show ?case using push_writes [of "\<lambda>s. json_text f s nullValue"] text_null by simp
qed

lemma styled_document:
  assumes "writable f v" "ws (indentation st)"
  shows "\<exists>t c. styled_write f v st = Some (st\<lparr>addChildValues := False, indentString := [], document := document st @ t, childValues := c\<rparr>) \<and> json_document f t v"
proof -
  let ?st = "st\<lparr>addChildValues := False, indentString := []\<rparr>"
  have "layout_ok ?st" using assms(2) by (simp add: layout_ok_def ws_Nil)
  then obtain t c where t: "styledValue f v ?st = Some (?st\<lparr>document := document ?st @ t, childValues := c\<rparr>)" "led (\<lambda>s. json_text f s v) t"
    using writesD [of "styledValue f v" "led (\<lambda>s. json_text f s v)" ?st] styled_text [OF assms(1)] by blast
  then obtain a s where s: "t = a @ s" "ws a" "json_text f s v" by (auto simp: led_def)
  have "ws [0x0A]" by (simp add: ws_def json_space_def)
  then have "json_document f (t @ [0x0A]) v" unfolding json_document_def using s by (intro exI [of _ a] exI [of _ s] exI [of _ "[0x0A]"]) simp
  moreover have "styled_write f v st = Some (st\<lparr>addChildValues := False, indentString := [], document := document st @ t @ [0x0A], childValues := c\<rparr>)"
    using t(1) by (simp add: styled_write_def put_text_def)
  ultimately show ?thesis by blast
qed

section \<open>Properties\<close>

text \<open>
  \<^bold>\<open>C17\<close>  The styled writers write JSON: whatever lines, indentation and collected children they choose, what \<open>StyledWriter\<close> returns, and
  what \<open>StyledStreamWriter\<close> appends to a stream for any indentation of white space, is a document with the value that was
  written, so that the reader gives it back.
\<close>

theorem styled_roundtrip:
  assumes "writable f v" "ws (indentation w)" "ws (indentation w')" "strictRoot features \<longrightarrow> isArray v \<or> isObject v"
  shows "\<exists>doc doc' rd rd'. StyledWriter_write f w v = Some doc \<and> parse f features behind doc root = Some (True, v, rd) \<and> rd_errors rd = []
    \<and> StyledStreamWriter_write f w' out v = Some (out @ doc') \<and> parse f features behind doc' root = Some (True, v, rd') \<and> rd_errors rd' = []"
proof -
  obtain t where t: "StyledWriter_write f w v = Some t" "json_document f t v"
    using styled_document [OF assms(1), of "w\<lparr>document := []\<rparr>"] assms(2) by (auto simp: StyledWriter_write_def)
  obtain u where u: "StyledStreamWriter_write f w' out v = Some (out @ u)" "json_document f u v"
    using styled_document [OF assms(1), of "w'\<lparr>document := out\<rparr>"] assms(3) by (auto simp: StyledStreamWriter_write_def)
  show ?thesis using t(1) u(1) parse_document [OF t(2) assms(4)] parse_document [OF u(2) assms(4)] fresh_reader by blast
qed

theorem styled_roundtrip_witness:
  "\<exists>doc doc' rd rd'. StyledWriter_write sample_fp StyledWriter_ctor (objectValue [([0x61], arrayValue [(0, intValue (- 7)), (1, booleanValue True)])]) = Some doc
     \<and> parse sample_fp Features_strictMode 0 doc nullValue = Some (True, objectValue [([0x61], arrayValue [(0, intValue (- 7)), (1, booleanValue True)])], rd)
     \<and> rd_errors rd = []
     \<and> StyledStreamWriter_write sample_fp (StyledStreamWriter_ctor [0x09]) [0x23] (objectValue [([0x61], arrayValue [(0, intValue (- 7)), (1, booleanValue True)])])
         = Some ([0x23] @ doc')
     \<and> parse sample_fp Features_strictMode 0 doc' nullValue = Some (True, objectValue [([0x61], arrayValue [(0, intValue (- 7)), (1, booleanValue True)])], rd')
     \<and> rd_errors rd' = []"
  by (rule styled_roundtrip) (simp_all add: maxInt_def no_nul_def isObject_def StyledWriter_ctor_def StyledStreamWriter_ctor_def ws_def json_space_def list_all_iff)

end
