(* ===== verification/JsonPath.thy ===== *)
theory JsonPath
  imports JsonGrammar
begin

text \<open>
  The rest of \<open>src/public/json/json_value.cpp\<close>: the comparison of values, and the classes \<open>PathArgument\<close> and \<open>Path\<close>.

  A reference that \<open>Path::make\<close> returns is the pair of reading and assigning.  \<^term>\<open>None\<close> is a failed assertion, and for
  \<open>makePath\<close> a loop that does not end.
\<close>

section \<open>The order of values\<close>

fun type_no :: "Value \<Rightarrow> nat" where
  "type_no nullValue = 0"
| "type_no (intValue _) = 1"
| "type_no (uintValue _) = 2"
| "type_no (realValue _) = 3"
| "type_no (stringValue _) = 4"
| "type_no (booleanValue _) = 5"
| "type_no (arrayValue _) = 6"
| "type_no (objectValue _) = 7"

text \<open>
  \<open>operator <\<close>, with the comparison \<open>lt\<close> of \<open>double\<close>.  Maps of one size are compared entry by entry, as \<open>std::map\<close> does: by
  the key, then by the value.
\<close>

function Value_less :: "(64 word \<Rightarrow> 64 word \<Rightarrow> bool) \<Rightarrow> Value \<Rightarrow> Value \<Rightarrow> bool"
  and array_less :: "(64 word \<Rightarrow> 64 word \<Rightarrow> bool) \<Rightarrow> (nat \<times> Value) list \<Rightarrow> (nat \<times> Value) list \<Rightarrow> bool"
  and object_less :: "(64 word \<Rightarrow> 64 word \<Rightarrow> bool) \<Rightarrow> (byte list \<times> Value) list \<Rightarrow> (byte list \<times> Value) list \<Rightarrow> bool" where
  "Value_less lt nullValue w = (0 < type_no w)"
| "Value_less lt (intValue i) w = (case w of intValue j \<Rightarrow> i < j | _ \<Rightarrow> 1 < type_no w)"
| "Value_less lt (uintValue i) w = (case w of uintValue j \<Rightarrow> i < j | _ \<Rightarrow> 2 < type_no w)"
| "Value_less lt (realValue i) w = (case w of realValue j \<Rightarrow> lt i j | _ \<Rightarrow> 3 < type_no w)"
| "Value_less lt (stringValue i) w =
     (case w of
        stringValue j \<Rightarrow> i = None \<and> j \<noteq> None \<or> j \<noteq> None \<and> i \<noteq> None \<and> the i < the j
      | _ \<Rightarrow> 4 < type_no w)"
| "Value_less lt (booleanValue i) w = (case w of booleanValue j \<Rightarrow> i < j | _ \<Rightarrow> 5 < type_no w)"
| "Value_less lt (arrayValue m) w =
     (case w of
        arrayValue n \<Rightarrow> if length m \<noteq> length n then length m < length n else array_less lt m n
      | _ \<Rightarrow> 6 < type_no w)"
| "Value_less lt (objectValue m) w =
     (case w of
        objectValue n \<Rightarrow> if length m \<noteq> length n then length m < length n else object_less lt m n
      | _ \<Rightarrow> 7 < type_no w)"
| "array_less lt (e # m) n =
     (case n of
        [] \<Rightarrow> False
      | e' # n \<Rightarrow>
          if fst e < fst e' \<or> fst e = fst e' \<and> Value_less lt (snd e) (snd e') then True
          else if fst e' < fst e \<or> fst e' = fst e \<and> Value_less lt (snd e') (snd e) then False
          else array_less lt m n)"
| "array_less lt [] n = (n \<noteq> [])"
| "object_less lt (e # m) n =
     (case n of
        [] \<Rightarrow> False
      | e' # n \<Rightarrow>
          if fst e < fst e' \<or> fst e = fst e' \<and> Value_less lt (snd e) (snd e') then True
          else if fst e' < fst e \<or> fst e' = fst e \<and> Value_less lt (snd e') (snd e) then False
          else object_less lt m n)"
| "object_less lt [] n = (n \<noteq> [])"
  by pat_completeness auto

termination
  by (relation "measure (\<lambda>x. case x of Inl (_, v, w) \<Rightarrow> size v + size w
     | Inr (Inl (_, m, n)) \<Rightarrow> size_list (\<lambda>e. Suc (size (snd e))) m + size_list (\<lambda>e. Suc (size (snd e))) n
     | Inr (Inr (_, m, n)) \<Rightarrow> size_list (\<lambda>e. Suc (size (snd e))) m + size_list (\<lambda>e. Suc (size (snd e))) n)")
    (auto simp: size_prod_simp)

definition Value_greater :: "(64 word \<Rightarrow> 64 word \<Rightarrow> bool) \<Rightarrow> Value \<Rightarrow> Value \<Rightarrow> bool" where
  "Value_greater lt v w \<longleftrightarrow> Value_less lt w v"

definition Value_less_eq :: "(64 word \<Rightarrow> 64 word \<Rightarrow> bool) \<Rightarrow> Value \<Rightarrow> Value \<Rightarrow> bool" where
  "Value_less_eq lt v w \<longleftrightarrow> \<not> Value_greater lt w v"

definition Value_greater_eq :: "(64 word \<Rightarrow> 64 word \<Rightarrow> bool) \<Rightarrow> Value \<Rightarrow> Value \<Rightarrow> bool" where
  "Value_greater_eq lt v w \<longleftrightarrow> \<not> Value_less lt v w"

text \<open>\<open>Value::compare\<close>, whose body is commented out.\<close>

definition Value_compare :: "Value \<Rightarrow> Value \<Rightarrow> int" where
  "Value_compare v w = 0"

section \<open>Paths\<close>

datatype PathArgument = kindNone | kindIndex nat | kindKey "byte list"

definition PathArgument_key :: "byte list \<Rightarrow> PathArgument" where
  "PathArgument_key key = kindKey (buf_str key)"

fun same_kind :: "PathArgument \<Rightarrow> PathArgument \<Rightarrow> bool" where
  "same_kind kindNone kindNone = True"
| "same_kind (kindIndex _) (kindIndex _) = True"
| "same_kind (kindKey _) (kindKey _) = True"
| "same_kind _ _ = False"

text \<open>\<open>addPathInArg\<close> looks at the argument under the iterator, which no code moves.\<close>

definition addPathInArg :: "PathArgument list \<Rightarrow> PathArgument \<Rightarrow> PathArgument list" where
  "addPathInArg args kind = (case args of [] \<Rightarrow> [] | a # _ \<Rightarrow> if same_kind a kind then [a] else [])"

definition path_index :: "byte list \<Rightarrow> nat" where
  "path_index ds = foldl (\<lambda>index c. (index * 10 + (unat c - 48)) mod 2 ^ 32) 0 ds"

text \<open>\<open>strchr("[.", c)\<close> also finds the terminating zero.\<close>

definition ends_name :: "byte \<Rightarrow> bool" where
  "ends_name c \<longleftrightarrow> c = 0x5B \<or> c = 0x2E \<or> c = 0"

function makePath :: "PathArgument list \<Rightarrow> byte list \<Rightarrow> PathArgument list option" where
  "makePath args [] = Some []"
| "makePath args (c # r) =
     (if c = 0x5B
      then if r \<noteq> [] \<and> hd r = 0x25 then map_option ((@) (addPathInArg args (kindIndex 0))) (makePath args (tl r))
           else map_option ((#) (kindIndex (path_index (takeWhile digit_byte r)))) (makePath args (tl (dropWhile digit_byte r)))
      else if c = 0x25 then map_option ((@) (addPathInArg args (kindKey []))) (makePath args r)
      else if c = 0x2E then makePath args r
      else if ends_name c then None
      else map_option ((#) (PathArgument_key (takeWhile (\<lambda>c. \<not> ends_name c) (c # r)))) (makePath args (dropWhile (\<lambda>c. \<not> ends_name c) r)))"
  by pat_completeness auto

termination
  by (relation "measure (\<lambda>(_, s). length s)") (auto simp: less_Suc_eq_le length_dropWhile_le le_diff_conv intro: le_SucI)

text \<open>The constructor of \<open>Path\<close> with its five arguments.\<close>

definition Path_ctor ::
    "byte list \<Rightarrow> PathArgument \<Rightarrow> PathArgument \<Rightarrow> PathArgument \<Rightarrow> PathArgument \<Rightarrow> PathArgument \<Rightarrow> PathArgument list option" where
  "Path_ctor path a1 a2 a3 a4 a5 = makePath [a1, a2, a3, a4, a5] path"

fun resolve :: "PathArgument list \<Rightarrow> Value \<Rightarrow> Value option" where
  "resolve [] node = Some node"
| "resolve (kindIndex index # args) node = const_index node index \<bind> resolve args"
| "resolve (kindKey key # args) node = const_member node key \<bind> resolve args"
| "resolve (kindNone # args) node = resolve args node"

text \<open>With a default: the test of the index is the wrong way round, and a missing member is told by the address of the null value.\<close>

fun resolve_default :: "Value \<Rightarrow> PathArgument list \<Rightarrow> Value \<Rightarrow> Value option" where
  "resolve_default d [] node = Some node"
| "resolve_default d (kindIndex index # args) node =
     (if \<not> isArray node \<or> isValidIndex node index then Some d else const_index node index \<bind> resolve_default d args)"
| "resolve_default d (kindKey key # args) node =
     (if \<not> isObject node then Some d
      else if isMember node key = Some True then const_member node key \<bind> resolve_default d args
      else Some d)"
| "resolve_default d (kindNone # args) node = resolve_default d args node"

fun path_make :: "PathArgument list \<Rightarrow> Value \<Rightarrow> (Value \<times> Value) option" where
  "path_make [] root = Some (root, root)"
| "path_make (kindIndex index # args) root =
     do { (node, root) \<leftarrow> Value_index root index; (x, node) \<leftarrow> path_make args node; root \<leftarrow> set_index root index node; Some (x, root) }"
| "path_make (kindKey key # args) root =
     do { (node, root) \<leftarrow> resolveReference root key; (x, node) \<leftarrow> path_make args node; root \<leftarrow> set_member root key node; Some (x, root) }"
| "path_make (kindNone # args) root = path_make args root"

fun path_store :: "PathArgument list \<Rightarrow> Value \<Rightarrow> Value \<Rightarrow> Value option" where
  "path_store [] x root = Some x"
| "path_store (kindIndex index # args) x root =
     do { (node, root) \<leftarrow> Value_index root index; node \<leftarrow> path_store args x node; set_index root index node }"
| "path_store (kindKey key # args) x root =
     do { (node, root) \<leftarrow> resolveReference root key; node \<leftarrow> path_store args x node; set_member root key node }"
| "path_store (kindNone # args) x root = path_store args x root"

section \<open>The order\<close>

lemma type_no_null: "type_no w = 0 \<longleftrightarrow> w = nullValue"
  by (cases w) auto

lemma less_least: "\<not> Value_less lt w nullValue" "\<not> array_less lt m []" "\<not> object_less lt m' []"
proof -
  show "\<not> Value_less lt w nullValue" by (cases w) auto
  show "\<not> array_less lt m []" by (cases m) auto
  show "\<not> object_less lt m' []" by (cases m') auto
qed

lemma Value_less_asym:
  assumes "\<And>x y. lt x y \<Longrightarrow> \<not> lt y x"
  shows "Value_less lt v w \<Longrightarrow> \<not> Value_less lt w v"
    and "array_less lt m n \<Longrightarrow> \<not> array_less lt n m"
    and "object_less lt m' n' \<Longrightarrow> \<not> object_less lt n' m'"
  using assms
proof (induction lt v w and lt m n and lt m' n' rule: Value_less_array_less_object_less.induct)
qed (auto simp: less_least split: Value.splits list.splits if_splits)

lemma Value_less_total:
  assumes "\<And>x y. lt x y \<or> x = y \<or> lt y x"
  shows "Value_less lt v w \<or> v = w \<or> Value_less lt w v"
    and "length m = length n \<Longrightarrow> array_less lt m n \<or> m = n \<or> array_less lt n m"
    and "length m' = length n' \<Longrightarrow> object_less lt m' n' \<or> m' = n' \<or> object_less lt n' m'"
  using assms
proof (induction lt v w and lt m n and lt m' n' rule: Value_less_array_less_object_less.induct)
qed (auto simp: type_no_null split: Value.splits list.splits if_splits intro: prod_eqI)

text \<open>Under a strict linear order of \<open>double\<close> the comparison of maps is the lexicographic one.\<close>

definition strict_linear :: "('a \<Rightarrow> 'a \<Rightarrow> bool) \<Rightarrow> bool" where
  "strict_linear lt \<longleftrightarrow> (\<forall>x y. lt x y \<longrightarrow> \<not> lt y x) \<and> (\<forall>x y. lt x y \<or> x = y \<or> lt y x) \<and> (\<forall>x y z. lt x y \<longrightarrow> lt y z \<longrightarrow> lt x z)"

definition entry_less :: "(64 word \<Rightarrow> 64 word \<Rightarrow> bool) \<Rightarrow> 'k :: linorder \<times> Value \<Rightarrow> 'k \<times> Value \<Rightarrow> bool" where
  "entry_less lt e e' \<longleftrightarrow> fst e < fst e' \<or> fst e = fst e' \<and> Value_less lt (snd e) (snd e')"

lemma entry_less_linear:
  assumes "strict_linear lt"
  shows "entry_less lt e e' \<Longrightarrow> \<not> entry_less lt e' e" "entry_less lt e e' \<or> e = e' \<or> entry_less lt e' e"
proof -
  have "\<And>v w. Value_less lt v w \<Longrightarrow> \<not> Value_less lt w v" using Value_less_asym(1) assms by (metis strict_linear_def)
  then show "entry_less lt e e' \<Longrightarrow> \<not> entry_less lt e' e" by (auto simp: entry_less_def)
  have "\<And>v w. Value_less lt v w \<or> v = w \<or> Value_less lt w v" using Value_less_total(1) assms by (metis strict_linear_def)
  then show "entry_less lt e e' \<or> e = e' \<or> entry_less lt e' e" unfolding entry_less_def by (metis linorder_neqE prod_eqI)
qed

fun lex_less :: "('a \<Rightarrow> 'a \<Rightarrow> bool) \<Rightarrow> 'a list \<Rightarrow> 'a list \<Rightarrow> bool" where
  "lex_less R m [] = False"
| "lex_less R [] (y # n) = True"
| "lex_less R (x # m) (y # n) = (R x y \<or> x = y \<and> lex_less R m n)"

lemma maps_less_lex:
  assumes "strict_linear lt"
  shows "array_less lt m n = lex_less (entry_less lt) m n" "object_less lt m' n' = lex_less (entry_less lt) m' n'"
proof -
  have step: "(if entry_less lt e e' then True else if entry_less lt e' e then False else b) \<longleftrightarrow> entry_less lt e e' \<or> e = e' \<and> b"
    for e e' :: "'k :: linorder \<times> Value" and b
    using entry_less_linear [OF assms] by metis
  show "array_less lt m n = lex_less (entry_less lt) m n"
    by (induction "entry_less lt :: nat \<times> Value \<Rightarrow> _" m n rule: lex_less.induct)
      (simp_all only: array_less.simps less_least lex_less.simps list.case step [unfolded entry_less_def] entry_less_def not_Cons_self list.simps simp_thms)
  show "object_less lt m' n' = lex_less (entry_less lt) m' n'"
    by (induction "entry_less lt :: byte list \<times> Value \<Rightarrow> _" m' n' rule: lex_less.induct)
      (simp_all only: object_less.simps less_least lex_less.simps list.case step [unfolded entry_less_def] entry_less_def not_Cons_self list.simps simp_thms)
qed

lemma lex_less_trans:
  "\<lbrakk>\<And>x y z. \<lbrakk>x \<in> set m; R x y; R y z\<rbrakk> \<Longrightarrow> R x z; lex_less R m n; lex_less R n p\<rbrakk> \<Longrightarrow> lex_less R m p"
proof (induction m arbitrary: n p)
  case Nil
  then show ?case by (cases n; cases p) auto
next
  case (Cons x m)
  obtain y n' z p' where np: "n = y # n'" "p = z # p'" using Cons.prems(2,3) by (cases n; cases p) auto
  have "R x z" if "R x y" "R y z" using Cons.prems(1) that by (meson list.set_intros(1))
  moreover have "lex_less R m p'" if "lex_less R m n'" "lex_less R n' p'" using Cons.IH [OF _ that] Cons.prems(1) by (meson list.set_intros(2))
  ultimately show ?case using Cons.prems(2,3) by (auto simp: np)
qed

lemma entry_trans:
  "\<lbrakk>\<And>w u. \<lbrakk>Value_less lt (snd e) w; Value_less lt w u\<rbrakk> \<Longrightarrow> Value_less lt (snd e) u; entry_less lt e e'; entry_less lt e' e''\<rbrakk>
     \<Longrightarrow> entry_less lt e e''"
  by (auto simp: entry_less_def)

lemma Value_less_trans:
  assumes lt: "strict_linear lt"
  shows "\<lbrakk>Value_less lt v w; Value_less lt w u\<rbrakk> \<Longrightarrow> Value_less lt v u"
proof (induction v arbitrary: w u)
  case (arrayValue m)
  have "entry_less lt x z" if "x \<in> set m" "entry_less lt x y" "entry_less lt y z" for x y z
    using entry_trans [OF _ that(2,3)] arrayValue.IH that(1) by (metis snds.intros)
  then have "array_less lt m p" if "array_less lt m n" "array_less lt n p" for n p
    using lex_less_trans [of m "entry_less lt" n p] that by (simp add: maps_less_lex [OF lt])
  then show ?case using arrayValue.prems by (cases w; cases u) (auto split: if_splits)
next
  case (objectValue m)
  have "entry_less lt x z" if "x \<in> set m" "entry_less lt x y" "entry_less lt y z" for x y z
    using entry_trans [OF _ that(2,3)] objectValue.IH that(1) by (metis snds.intros)
  then have "object_less lt m p" if "object_less lt m n" "object_less lt n p" for n p
    using lex_less_trans [of m "entry_less lt" n p] that by (simp add: maps_less_lex [OF lt])
  then show ?case using objectValue.prems by (cases w; cases u) (auto split: if_splits)
next
  case (realValue r)
  have "lt r z" if "lt r y" "lt y z" for y z using lt that unfolding strict_linear_def by blast
  then show ?case using realValue.prems by (cases w; cases u) simp_all
next
  case nullValue
  then have "u \<noteq> nullValue" by (auto simp: less_least)
  then show ?case by (cases u) auto
next
  case (intValue i)
  then show ?case by (cases w; cases u) auto
next
  case (uintValue n)
  then show ?case by (cases w; cases u) auto
next
  case (stringValue s)
  then show ?case by (cases w; cases u) auto
next
  case (booleanValue b)
  then show ?case by (cases w; cases u) auto
qed

text \<open>\<open>operator <\<close> is a strict linear order of values, when \<open>double\<close> has one (there is no NaN).\<close>

theorem Value_less_linear:
  assumes "strict_linear lt"
  shows "strict_linear (Value_less lt)"
proof -
  have "Value_less lt v w \<Longrightarrow> \<not> Value_less lt w v" "Value_less lt v w \<or> v = w \<or> Value_less lt w v" for v w
    using Value_less_asym(1) [of lt v w] Value_less_total(1) [of lt v w] assms unfolding strict_linear_def by blast+
  then show ?thesis using Value_less_trans [OF assms] unfolding strict_linear_def by blast
qed

text \<open>\<open>operator <=\<close> is the same relation as \<open>operator >=\<close>.\<close>

lemma less_eq_is_greater_eq: "Value_less_eq lt v w = Value_greater_eq lt v w"
  by (simp add: Value_less_eq_def Value_greater_eq_def Value_greater_def)

section \<open>The syntax of paths\<close>

text \<open>
  Paths without parameters: dots, indices in brackets, and names, which end at a dot, a bracket or the end and do not begin
  with a percent sign.
\<close>

inductive path_text :: "byte list \<Rightarrow> PathArgument list \<Rightarrow> bool" where
  path_end: "path_text [] []"
| path_dot: "path_text s args \<Longrightarrow> path_text (0x2E # s) args"
| path_index: "\<lbrakk>list_all digit_byte ds; dval ds < 2 ^ 32; path_text s args\<rbrakk> \<Longrightarrow> path_text (0x5B # ds @ 0x5D # s) (kindIndex (dval ds) # args)"
| path_name: "\<lbrakk>c \<noteq> 0x25; list_all (\<lambda>c. \<not> ends_name c) (c # n); s = [] \<or> hd s \<in> {0x5B, 0x2E}; path_text s args\<rbrakk>
    \<Longrightarrow> path_text (c # n @ s) (kindKey (c # n) # args)"

lemma path_index_dval: "dval ds < 2 ^ 32 \<Longrightarrow> path_index ds = dval ds"
proof (induction ds rule: rev_induct)
  case (snoc c ds)
  have "dval (ds @ [c]) = dval ds * 10 + (unat c - 48)" by (simp add: dval_def)
  then show ?case using snoc by (simp add: path_index_def)
qed (simp add: path_index_def dval_def)

text \<open>\<open>makePath\<close> gives the arguments that the path spells.\<close>

theorem makePath_text: "path_text s args \<Longrightarrow> makePath ins s = Some args"
proof (induction rule: path_text.induct)
  case (path_index ds s args)
  have d: "takeWhile digit_byte (ds @ 0x5D # s) = ds" "dropWhile digit_byte (ds @ 0x5D # s) = 0x5D # s"
    using path_index.hyps(1) by (simp_all add: takeWhile_append2 dropWhile_append2 list_all_iff)
  moreover have "hd (ds @ 0x5D # s) \<noteq> 0x25" using path_index.hyps(1) by (cases ds) auto
  ultimately show ?case using path_index by (simp add: path_index_dval)
next
  case (path_name c n s args)
  have t: "takeWhile (\<lambda>c. \<not> ends_name c) (n @ s) = n" "dropWhile (\<lambda>c. \<not> ends_name c) (n @ s) = s"
    using path_name.hyps(2,3) by (cases s; simp add: takeWhile_append2 dropWhile_append2 list_all_iff; auto simp: ends_name_def)+
  have "no_nul (c # n)" using path_name.hyps(2) by (auto simp: no_nul_def list_all_iff ends_name_def)
  then show ?case using path_name t by (simp add: PathArgument_key_def) (simp add: ends_name_def)
qed simp_all

text \<open>Parameters: all of them are the first argument, and an index in brackets leaves the bracket behind as a name.\<close>

lemma parameters_first: "Path_ctor [0x2E, 0x25, 0x2E, 0x25] (kindKey k) a2 a3 a4 a5 = Some [kindKey k, kindKey k]"
  by (simp add: Path_ctor_def addPathInArg_def)

lemma parameter_index: "Path_ctor [0x5B, 0x25, 0x5D] (kindIndex i) a2 a3 a4 a5 = Some [kindIndex i, kindKey [0x5D]]"
  by (simp add: Path_ctor_def addPathInArg_def PathArgument_key_def ends_name_def buf_str_def)

text \<open>A path with a zero byte is never left.\<close>

lemma makePath_zero: "makePath ins (0 # s) = None"
  by (simp add: ends_name_def)

section \<open>Values at paths\<close>

lemma index_step:
  assumes "Value_index v i = Some (node, v1)" "value_ok v"
  shows "value_ok node" "\<exists>v2. set_index v1 i x = Some v2 \<and> const_index v2 i = Some x \<and> (value_ok x \<longrightarrow> value_ok v2)"
proof -
  obtain m where m: "array_entries v = Some m" "node = entry_or_null m i"
      "v1 = arrayValue (if map_of m i = None then map_put i nullValue m else m)"
    using assms(1) by (auto simp: Value_index_def)
  have ok: "value_ok (arrayValue m)" using array_entries_ok [OF assms(2) m(1)] .
  show "value_ok node" unfolding m(2) using ok by (intro entry_ok) auto
  have "value_ok v1" using ok array_put_ok [OF ok, of nullValue i] m(3) by simp
  then show "\<exists>v2. set_index v1 i x = Some v2 \<and> const_index v2 i = Some x \<and> (value_ok x \<longrightarrow> value_ok v2)"
    using array_put_ok m(3) by (auto simp: set_index_def const_index_def entry_or_null_def map_of_put)
qed

lemma member_step:
  assumes "resolveReference v k = Some (node, v1)" "value_ok v"
  shows "value_ok node" "\<exists>v2. set_member v1 k x = Some v2 \<and> const_member v2 k = Some x \<and> (value_ok x \<longrightarrow> value_ok v2)"
proof -
  obtain m where m: "object_entries v = Some m" "node = entry_or_null m (buf_str k)"
      "v1 = objectValue (if map_of m (buf_str k) = None then map_put (buf_str k) nullValue m else m)"
    using assms(1) by (auto simp: resolveReference_def)
  have ok: "value_ok (objectValue m)" using object_entries_ok [OF assms(2) m(1)] .
  show "value_ok node" unfolding m(2) using ok by (intro entry_ok) auto
  obtain m1 where m1: "v1 = objectValue m1" "value_ok (objectValue m1)"
    using ok object_put_ok [OF ok, of nullValue "buf_str k"] m(3) by simp
  have "set_member v1 k x = Some (objectValue (map_put (buf_str k) x m1))" by (simp add: m1(1) set_member_def)
  moreover have "const_member (objectValue (map_put (buf_str k) x m1)) k = Some x"
    using m1(2) by (simp add: const_member_def entry_or_null_def map_of_put)
  moreover have "value_ok x \<longrightarrow> value_ok (objectValue (map_put (buf_str k) x m1))" using object_put_ok [OF m1(2)] no_nul_buf_str by blast
  ultimately show "\<exists>v2. set_member v1 k x = Some v2 \<and> const_member v2 k = Some x \<and> (value_ok x \<longrightarrow> value_ok v2)" by blast
qed

text \<open>
  \<open>make\<close> gives the value at the path and creates the way to it, for which \<open>resolve\<close> then needs no assertion; what is assigned
  through the reference is found there.
\<close>

theorem make_resolve:
  "\<lbrakk>path_make args v = Some (y, v'); value_ok v\<rbrakk>
     \<Longrightarrow> value_ok v' \<and> value_ok y \<and> resolve args v' = Some y
       \<and> (\<forall>x. value_ok x \<longrightarrow> (\<exists>v''. path_store args x v = Some v'' \<and> value_ok v'' \<and> resolve args v'' = Some x))"
proof (induction args v arbitrary: y v' rule: path_make.induct)
  case (2 index args root)
  obtain node v1 node' where s: "Value_index root index = Some (node, v1)" "path_make args node = Some (y, node')" "set_index v1 index node' = Some v'"
    using "2.prems"(1) by (auto simp: bind_eq_Some_conv)
  show ?case using "2.IH" [OF s(1) _ s(2)] index_step [OF s(1) "2.prems"(2)] s by fastforce
next
  case (3 key args root)
  obtain node v1 node' where s: "resolveReference root key = Some (node, v1)" "path_make args node = Some (y, node')" "set_member v1 key node' = Some v'"
    using "3.prems"(1) by (auto simp: bind_eq_Some_conv)
  show ?case using "3.IH" [OF s(1) _ s(2)] member_step [OF s(1) "3.prems"(2)] s by fastforce
qed auto

text \<open>With a default the test of the index is inverted: an element that is there is never found, and one that is not counts as null.\<close>

lemma resolve_default_inverted:
  "isValidIndex v i \<Longrightarrow> resolve_default d (kindIndex i # args) v = Some d"
  "\<lbrakk>value_ok v; isArray v; \<not> isValidIndex v i\<rbrakk> \<Longrightarrow> resolve_default d [kindIndex i] v = Some nullValue"
proof -
  show "resolve_default d (kindIndex i # args) v = Some d" if "isValidIndex v i" using that by simp
  assume a: "value_ok v" "isArray v" "\<not> isValidIndex v i"
  then obtain m where m: "array_entries v = Some m" "value_ok (arrayValue m)" using array_cases by (auto simp: array_ok_def)
  have "fst e \<le> fst (last m)" if "e \<in> set m" for e
    using m(2) that by (induction m) (auto simp: less_imp_le)
  moreover have "m = [] \<or> fst (last m) < i" using a m(1) by (cases v) (auto simp: isValidIndex_def split: if_splits)
  ultimately have "map_of m i = None" by (fastforce simp: map_of_eq_None_iff)
  then show "resolve_default d [kindIndex i] v = Some nullValue" using a m(1) by (simp add: const_index_def entry_or_null_def)
qed

end
