(* ===== verification/Spec2Isabelle.thy ===== *)
theory Spec2Isabelle
  imports AstConf TaskFile TaskRef LogOut FtpFlow BtDownload SysUtil SqlDb
    B64C SockAddr TaskData JsonStyled JsonPath
begin

text \<open>
  A verification library for the endpoint agent in \<open>src/public\<close>: its cryptography, its messages and keys,
  its configuration files, its task lists and its connection to the management server.

  \<^bold>\<open>The program.\<close>  An agent registers with a server and then executes the tasks it is sent.  The parts
  and their dependencies are:

  \<^item> \<open>sm/sm4.cpp\<close>, \<open>sm/sm3.cpp\<close>: the block cipher SM4 with its modes and the hash SM3;
  \<^item> \<open>astPackage/astpackage.cpp\<close>: messages with header, MAC and encryption, the keys of the agent, Base64,
    the key file;
  \<^item> \<open>rwIni/ini_parser.cpp\<close> and \<open>astconfig.cpp\<close>: initialisation files and the configuration of the agent;
  \<^item> \<open>astTask/astTask.cpp\<close> and \<open>astTask.h\<close>: the tasks (health checks, software, patches), the list of tasks
    with its lock and its file, and the counted pointer to the content of a task;
  \<^item> \<open>zsocket.h\<close>, \<open>astclient.cpp\<close>: sockets, and the exchange of one message;
  \<^item> \<open>json\<close>: values, writers and a reader of JSON documents (a copy of JsonCpp);
  \<^item> \<open>astPackage/astserverctrl.cpp\<close>: the registration, which uses the client, the message layer and the JSON library;
  \<^item> \<open>log/logOut.cpp\<close>: the log file, with credentials hidden;
  \<^item> \<open>ftp/ftpclient.cpp\<close>: an FTP client with resumed transfers, over sockets and files of its own;
  \<^item> \<open>bt/btDownlaod.cpp\<close>: the download of a torrent, around a vendored library, and the conversion of character sets;
  \<^item> \<open>cpu\<close>, \<open>memory\<close>, \<open>disk\<close>, \<open>network\<close>, \<open>system\<close>: collectors of system information for the registration;
  \<^item> \<open>sqlite3341\<close>: a wrapper of the database library and the handle the program keeps.

  \<^bold>\<open>Theories.\<close>  Each component has its theory, in the order of the dependencies:

  \<^item> \<open>AstPrelude\<close>: bytes, conversions between C integer types (\<open>size_t_of_int\<close>, \<open>int_of_u32\<close>), and lemmas on
    lists that several components use.
  \<^item> \<open>CText\<close>: texts in buffers and decimal numbers (\<open>atoi\<close>, \<open>%d\<close>) of the C library.
  \<^item> \<open>SM4\<close>: tables, key schedule (\<open>sm4_SetKey\<close>) and the block routines of \<open>sm4.cpp\<close> on words of 32 bits.
    The locale \<open>block_cipher\<close> states that decryption inverts encryption on blocks; its interpretation
    \<open>sm4\<close> rests on the Feistel structure of the rounds.
  \<^item> \<open>SM4_Modes\<close>: \<open>enin_sm4\<close>, \<open>dein_sm4\<close>, \<open>sm4_CBC\<close>, \<open>dein_sm4_CBC\<close>, \<open>sm4_CBC_MAC\<close> with padding and codes;
    the modes over any block cipher are the specification, and decryption inverts encryption.
  \<^item> \<open>SM4_Stream\<close>: \<open>sm4_InitBlock\<close>, \<open>sm4_UpdateBlock\<close>, \<open>sm4_FinalBlock\<close> on the record \<open>SM4_KEY_OBJ\<close>; for every
    cut of a text the result is that of the one-shot routine.
  \<^item> \<open>SM3\<close>: \<open>sm3.cpp\<close> on the record \<open>SM3_CTX\<close>; it computes \<open>sm3_standard\<close>, the hash as the standard defines
    it.  The locale \<open>stream_hash\<close> gives hashing in pieces.
  \<^item> \<open>Base64\<close>: \<open>encode\<close>, \<open>decode\<close> and \<open>AToByte\<close>; round trips, and \<open>decode\<close> stays inside its buffer.
  \<^item> \<open>B64C\<close>: the C routines of \<open>base64\<close>, with the allocator as an argument; they agree with the codec of \<open>astPackage\<close>.
  \<^item> \<open>AstPackage\<close>: the header, the class \<open>astPackage\<close>, \<open>PutData\<close>, \<open>GetData\<close>, \<open>MacByID\<close>, \<open>EncryptByID\<close>,
    \<open>DecryptByID\<close>, \<open>InitReg\<close>; messages and encrypted data come back, accepted messages are authentic, and
    nothing happens under the agent key before registration.
  \<^item> \<open>IniFile\<close>, \<open>IniStore\<close>: \<open>parse_file\<close> and the profile functions on the text of a file, and the class
    \<open>astConfig\<close>.  On well-formed files they refine a two-level map; the locale \<open>profile_store\<close> is the
    interface a client uses, with the interpretation \<open>ini\<close>.
  \<^item> \<open>AstConf\<close>: \<open>LoadConf\<close> and \<open>SaveConf\<close> over that interface: the saved keys are loaded again, and keys are
    installed only when the MAC of the file is right.
  \<^item> \<open>TaskItems\<close>, \<open>TaskStore\<close>, \<open>TaskList\<close>: the classes \<open>CTaskExam\<close>, \<open>CTaskCmd\<close>, \<open>CTaskSoft\<close>, \<open>CTaskPatch\<close>,
    \<open>CTaskList\<close> as records with lists for the vectors.  The locale \<open>keyed_vector\<close> is what software and patch
    stores share.  The lock is also a step relation of two threads.
  \<^item> \<open>TaskFile\<close>: \<open>Save\<close> and \<open>Load\<close> of the task list with \<open>fprintf\<close> and \<open>fscanf\<close> as functions on text.
  \<^item> \<open>TaskRef\<close>: the reference count of \<open>taskhead\<close> as a step relation on a heap, with the invariant that the
    count is the number of owners.
  \<^item> \<open>TaskData\<close>: the remaining contents of tasks, the settings of the agent, and the constructor of a head from arguments.
  \<^item> \<open>LogOut\<close>: \<open>CAstLogOut\<close> over a map of files; the hiding loop ends because every round overwrites a letter.
  \<^item> \<open>ZSocket\<close>: \<open>CSocket\<close>, with the locale \<open>transport\<close> (interpretation \<open>sock\<close>) as the interface of its client.
  \<^item> \<open>SockAddr\<close>: the addresses and options of \<open>CSocket\<close>, the calls it passes on, and \<open>CSocketHandle\<close>, each with the request
    the kernel gets.
  \<^item> \<open>AstClient\<close>: \<open>CAstClient\<close>, the exchange of one message.
  \<^item> \<open>JsonValue\<close>: \<open>Json::Value\<close> as a datatype, its maps as ordered lists.  The locale \<open>container\<close> is the contract of
    assigning and reading elements, with the interpretations \<open>obj\<close> on objects and \<open>arr\<close> on arrays.  Every value that the
    operations build is well-formed.
  \<^item> \<open>JsonWriter\<close>, \<open>JsonReader\<close>: \<open>FastWriter\<close>, and \<open>Reader\<close> with its tokens, recovery from errors and messages.
  \<^item> \<open>JsonTotal\<close>, \<open>JsonGrammar\<close>, \<open>JsonRound\<close>: the reader returns on every document; it implements the grammar of JSON, an
    inductive relation between texts and values; and it reads back what the writer wrote.
  \<^item> \<open>JsonStyled\<close>: \<open>StyledWriter\<close> and \<open>StyledStreamWriter\<close>, whose texts are of the same grammar for every layout they choose.
  \<^item> \<open>JsonPath\<close>: \<open>operator <\<close>, which is a strict linear order, and \<open>Path\<close>: its syntax, and that what is assigned at a path is
    found there.
  \<^item> \<open>AstServer\<close>: \<open>astServerCtrl\<close>, whose \<open>RegAst\<close> composes the client, the message layer, the JSON library and the
    device information.
  \<^item> \<open>FtpText\<close>, \<open>FtpLink\<close>, \<open>FtpClient\<close>, \<open>FtpTransfer\<close>: the class \<open>ftpClient\<close> as a record with its surroundings
    (replies of the kernel, descriptors, transmissions, files, clock, the control variable): texts; sending,
    receiving and connecting; the operations on the control connection; downloads and uploads.
  \<^item> \<open>FtpRun\<close>: the public operations in any order.  The locale \<open>framed\<close> is a property of commands, login and
    transmissions, \<open>ftp_inv\<close> extends it by what the three places that change these promise; every operation
    keeps such a property.  The interpretations \<open>guarded\<close> and \<open>sticky\<close> give what is sent before a login and that
    a login is never taken back.
  \<^item> \<open>FtpFlow\<close>: whole conversations: a resumed download, its bounds for every behaviour of the kernel, pausing
    and stopping, and an upload.
  \<^item> \<open>BtDownload\<close>: the class \<open>btDownload\<close>; the reports of libtorrent are arguments, one record per round of the
    loop, and the calls of the session a list.  The codes of a download, its end, and the lock it may keep.
  \<^item> \<open>SysInfo\<close>: the collectors, with the operations of Qt on texts as arguments, up to the \<open>DEV_SOURCE\<close> that
    \<open>GetDevInfo\<close> reports.
  \<^item> \<open>SysUtil\<close>: the usage of the processors between two calls, with the rounding of \<open>double\<close> as an argument; the
    size of a directory, which exists exactly when no chain of entries is infinite; commands and formatted sizes.
  \<^item> \<open>SqlDb\<close>: the wrapper of SQLite and \<open>dbHandle\<close>, with the routines of the library as arguments.  The locale
    \<open>cursor\<close> is the contract of walking over a sequence, with the interpretation \<open>tbl\<close> on result tables.

  \<^bold>\<open>Conventions.\<close>  Buffers are lists of bytes that are passed in and returned; reference parameters are
  part of arguments and results; member functions take the object and return it.  Error codes are the
  integers of the source.  The result \<^term>\<open>None\<close> of an operation with such codes is an access the language
  leaves undefined (outside a buffer, to a freed object, an unterminated string).  Uninitialised memory
  is an argument, so that a theorem holds for every content.  Machine words are \<open>32 word\<close> and
  \<open>8 word\<close>; lengths are natural numbers or integers, converted where the source converts them.  System
  calls on sockets are answered by the elements of a list of replies; the loops around them recurse on
  this list, and \<^term>\<open>None\<close> also stands for a list that ends before the operation does.  So a theorem that an
  exchange succeeds names the replies (\<open>takes\<close>, \<open>delivers\<close>: any split into pieces, with interruptions) that
  make it return.  The recursion over directories has a bound on its depth, and its theorem says when a
  bound is enough; the recursion of the JSON reader has a bound of twice the length of the document and two, since every
  call but the first two of a level consumes a character, and its theorem says that this is enough.  All other loops are structural recursion or have a termination proof.

  \<^bold>\<open>Properties.\<close>  They stand in the last section of each theory.  The first ones are about the composed
  behaviour: messages, registration, the key file, the task file, the exchange with the server.
  Then the components: cipher, hash, codecs, stores.  Consequences of flaws in the code, such as an empty MAC that is
  accepted, are theorems of the same sections.

  \<^bold>\<open>Not modelled.\<close>  Of the JSON library: comments, which the program does not collect, and iterators,
  which it does not use; printing and scanning of \<open>double\<close> are arguments (\<open>fp\<close>), and
  the depth of the stack is not limited.  Listings of directories and writing of files (\<open>FileUtil\<close>) are calls of Qt; \<open>main.cpp\<close> opens a message
  box.  \<open>dbHandle::GetCurrentTime\<close> returns nothing.  Code for other platforms (\<open>_MSC_VER\<close>) and disabled code (\<open>#if 0\<close>) is left out.
\<close>

end
